(* ===== verification/Prelude.thy ===== *)
theory Prelude
  imports Main "HOL-Library.AList" "HOL-Library.Char_ord" "HOL-Library.List_Lexorder"
begin

text \<open>
  What every component of the model shares: Go's 64-bit integers with their wrap-around,
  the operations of the packages strings and strconv that the program uses on byte
  strings, and association lists standing for Go maps (the order of the list is the
  order in which a range over the map happens to visit it).

  A Go string is a sequence of bytes, which is exactly Isabelle's type string: a list of
  8-bit characters, so length counts bytes, as len does.
\<close>

named_theorems size_defs \<open>the size constants of the program, unfolded to numerals\<close>
named_theorems gostr \<open>how the string operations act on each other\<close>

section \<open>Go's int and int64\<close>

definition MaxInt :: int where
  "MaxInt = 9223372036854775807"

definition MinInt :: int where
  "MinInt = - 9223372036854775808"

text \<open>The value a 64-bit signed operation stores for the exact result x: two's complement.\<close>

definition go_int :: "int \<Rightarrow> int" where
  "go_int x = (x + 9223372036854775808) mod 18446744073709551616 - 9223372036854775808"

lemma go_int_id [simp]: "MinInt \<le> x \<Longrightarrow> x \<le> MaxInt \<Longrightarrow> go_int x = x"
  by (simp add: go_int_def MinInt_def MaxInt_def)

lemma go_int_range: "MinInt \<le> go_int x \<and> go_int x \<le> MaxInt"
proof -
  have "0 \<le> (x + 9223372036854775808) mod 18446744073709551616"
    and "(x + 9223372036854775808) mod 18446744073709551616 < 18446744073709551616"
    by simp_all
  then show ?thesis by (simp add: go_int_def MinInt_def MaxInt_def)
qed

section \<open>The package strings\<close>

definition HasPrefix :: "string \<Rightarrow> string \<Rightarrow> bool" where
  "HasPrefix s p \<longleftrightarrow> take (length p) s = p"

definition TrimPrefix :: "string \<Rightarrow> string \<Rightarrow> string" where
  "TrimPrefix s p = (if HasPrefix s p then drop (length p) s else s)"

definition TrimRight :: "string \<Rightarrow> string \<Rightarrow> string" where
  "TrimRight s cutset = rev (dropWhile (\<lambda>c. c \<in> set cutset) (rev s))"

fun Contains :: "string \<Rightarrow> string \<Rightarrow> bool" where
  "Contains [] sub = (sub = [])"
| "Contains (c # s) sub = (HasPrefix (c # s) sub \<or> Contains s sub)"

fun Join :: "string list \<Rightarrow> string \<Rightarrow> string" where
  "Join [] sep = []"
| "Join [x] sep = x"
| "Join (x # y # xs) sep = x @ sep @ Join (y # xs) sep"

text \<open>strings.Split with a separator of one byte: one more part than separators.\<close>

fun Split1 :: "string \<Rightarrow> char \<Rightarrow> string list" where
  "Split1 [] sep = [[]]"
| "Split1 (c # s) sep =
     (if c = sep then [] # Split1 s sep
      else (case Split1 s sep of [] \<Rightarrow> [[c]] | p # ps \<Rightarrow> (c # p) # ps))"

lemma HasPrefix_Nil [simp, gostr]: "HasPrefix s []"
  by (simp add: HasPrefix_def)

lemma HasPrefix_append [simp, gostr]: "HasPrefix (p @ s) p"
  by (simp add: HasPrefix_def)

lemma HasPrefix_iff: "HasPrefix s p \<longleftrightarrow> (\<exists>t. s = p @ t)"
  by (metis HasPrefix_append HasPrefix_def append_take_drop_id)

lemma HasPrefix_Cons [simp, gostr]:
  "HasPrefix (c # s) (d # p) \<longleftrightarrow> c = d \<and> HasPrefix s p"
  by (auto simp: HasPrefix_def)

lemma HasPrefix_Nil_left [simp, gostr]: "HasPrefix [] p \<longleftrightarrow> p = []"
  by (auto simp: HasPrefix_def)

lemma TrimPrefix_append [simp, gostr]: "TrimPrefix (p @ s) p = s"
  by (simp add: TrimPrefix_def)

lemma Contains_iff: "Contains s sub \<longleftrightarrow> (\<exists>a b. s = a @ sub @ b)"
proof (induction s)
  case Nil
  then show ?case by auto
next
  case (Cons c s)
  show ?case
  proof
    assume "Contains (c # s) sub"
    then have "HasPrefix (c # s) sub \<or> Contains s sub" by simp
    then show "\<exists>a b. c # s = a @ sub @ b"
    proof
      assume "HasPrefix (c # s) sub"
      then obtain t where "c # s = [] @ sub @ t" by (auto simp: HasPrefix_iff)
      then show ?thesis by blast
    next
      assume "Contains s sub"
      then obtain a b where "s = a @ sub @ b" using Cons.IH by blast
      then have "c # s = (c # a) @ sub @ b" by simp
      then show ?thesis by blast
    qed
  next
    assume "\<exists>a b. c # s = a @ sub @ b"
    then obtain a b where *: "c # s = a @ sub @ b" by blast
    show "Contains (c # s) sub"
    proof (cases a)
      case Nil
      with * have "HasPrefix (c # s) sub" by (auto simp: HasPrefix_iff)
      then show ?thesis by simp
    next
      case (Cons d a')
      with * have "s = a' @ sub @ b" by simp
      then show ?thesis using Cons.IH by auto
    qed
  qed
qed

lemma Contains_length: "Contains s sub \<Longrightarrow> length sub \<le> length s"
  by (auto simp: Contains_iff)

lemma Contains_middle [intro]: "Contains (a @ sub @ b) sub"
  by (auto simp: Contains_iff)

lemma TrimRight_Nil [simp, gostr]: "TrimRight [] cs = []"
  by (simp add: TrimRight_def)

lemma length_TrimRight: "length (TrimRight s cs) \<le> length s"
  by (metis TrimRight_def length_dropWhile_le length_rev)

lemma TrimRight_prefix: "\<exists>t. s = TrimRight s cs @ t \<and> set t \<subseteq> set cs"
proof -
  let ?P = "\<lambda>c. c \<in> set cs"
  have "rev s = takeWhile ?P (rev s) @ dropWhile ?P (rev s)" by simp
  then have "s = rev (dropWhile ?P (rev s)) @ rev (takeWhile ?P (rev s))"
    by (metis rev_append rev_rev_ident)
  moreover have "set (rev (takeWhile ?P (rev s))) \<subseteq> set cs"
    by (auto dest: set_takeWhileD)
  ultimately show ?thesis unfolding TrimRight_def by blast
qed

section \<open>The package strconv: decimal and hexadecimal text\<close>

definition digit_char :: "nat \<Rightarrow> char" where
  "digit_char d = (if d < 10 then char_of (48 + d) else char_of (87 + d))"

function digits :: "nat \<Rightarrow> nat list" where
  "digits n = (if n < 10 then [n] else digits (n div 10) @ [n mod 10])"
  by pat_completeness auto
termination
  by (relation "measure id") auto

declare digits.simps [simp del]

definition nat_text :: "nat \<Rightarrow> string" where
  "nat_text n = map digit_char (digits n)"

text \<open>strconv.Itoa and the verb %d of fmt.\<close>

definition Itoa :: "int \<Rightarrow> string" where
  "Itoa i = (if i < 0 then CHR ''-'' # nat_text (nat (- i)) else nat_text (nat i))"

lemma digits_not_Nil [simp]: "digits n \<noteq> []"
  by (subst digits.simps) simp

lemma nat_text_not_Nil [simp]: "nat_text n \<noteq> []"
  by (simp add: nat_text_def)

lemma digits_lt_10: "d \<in> set (digits n) \<Longrightarrow> d < 10"
proof (induction n rule: digits.induct)
  case (1 n)
  then show ?case by (cases "n < 10") (auto simp: digits.simps [of n])
qed

text \<open>A number below 10 to the k has at most k digits (and at least one).\<close>

lemma length_digits: "n < 10 ^ k \<Longrightarrow> 0 < k \<Longrightarrow> length (digits n) \<le> k"
proof (induction n arbitrary: k rule: digits.induct)
  case (1 n k)
  show ?case
  proof (cases "n < 10")
    case True
    with "1.prems" show ?thesis by (simp add: digits.simps [of n])
  next
    case False
    then have k: "1 < k" using "1.prems"
      by (metis One_nat_def Suc_lessI not_less power_one_right)
    then obtain j where j: "k = Suc j" by (cases k) auto
    then have "n div 10 < 10 ^ j" using "1.prems"
      by (simp add: less_mult_imp_div_less mult.commute)
    moreover have "0 < j" using k j by simp
    ultimately have "length (digits (n div 10)) \<le> j" using "1.IH" False by blast
    with False j show ?thesis by (simp add: digits.simps [of n])
  qed
qed

lemma length_Itoa:
  assumes "MinInt \<le> i" and "i \<le> MaxInt"
  shows "length (Itoa i) \<le> 20"
proof -
  have "nat \<bar>i\<bar> < 10 ^ 19" using assms by (simp add: MinInt_def MaxInt_def)
  then have "length (digits (nat \<bar>i\<bar>)) \<le> 19" by (rule length_digits) simp
  then show ?thesis by (auto simp: Itoa_def nat_text_def split: if_splits)
qed

section \<open>Go maps as association lists\<close>

text \<open>Inserting or replacing: an existing key keeps its place, a new one goes to the end.\<close>

abbreviation map_put :: "'k \<Rightarrow> 'v \<Rightarrow> ('k \<times> 'v) list \<Rightarrow> ('k \<times> 'v) list" where
  "map_put \<equiv> AList.update"

lemma map_put_lookup [simp]: "map_of (map_put k v m) k' = (if k' = k then Some v else map_of m k')"
  by (simp add: update_conv)

lemma map_put_distinct: "distinct (map fst m) \<Longrightarrow> distinct (map fst (map_put k v m))"
  by (rule distinct_update)

end
