(* ===== verification/Errors.thy ===== *)
theory Errors
  imports Prelude
begin

text \<open>
  Go's errors as values. A sentinel (a package-level errors.New value) has an identity and
  is a constructor of its own; fmt.Errorf with the verb %w is a node Errorf that keeps the
  operation it names and the errors it wraps, in order; the three error types the program
  inspects with errors.As keep their fields; an error of the operating system or of the
  standard library that the program only passes on is System with its text. errors.Is and
  errors.As walk this tree. The formatted text of an Errorf node is not modelled beyond the
  operation it names: nothing in the program reads it back.
\<close>

named_theorems errs \<open>how errors.Is and errors.As see an error\<close>

section \<open>The sentinels, by the package that declares them\<close>

datatype state_sentinel = ErrMalformed | ErrTooLarge | ErrUnsupportedVersion | ErrNotLoaded

datatype lock_sentinel = ErrLocked

datatype review_sentinel =
  ErrInvalidRequest | ErrThreadUnavailable | ErrStateInvalid | ErrTimeout | ErrSetupTimeout

datatype repo_sentinel = ErrNotAbsolute | ErrNotRepository

datatype branch_sentinel = ErrInvalidBranch | ErrBranchNotFound | ErrNoPrimaryBranch

datatype target_sentinel =
  ErrCommitNotFound | ErrPrimaryBranch | ErrNotBranchTip | ErrNotHead | ErrDirtyWorktree
| ErrNoMergeBase

datatype gitmisc_sentinel = ErrInvalidCommit | ErrInstructionsInvalid | ErrOutputTooLarge

datatype conn_sentinel = ErrProcessExited | ErrMessageTooLarge | ErrClosed | ErrWriteBacklog

datatype client_sentinel =
  ErrTurnFailed | ErrTurnInterrupted | ErrNoReviewText | ErrReviewTooLarge | ErrIncompatible
| ErrPolicyMismatch

datatype scratch_sentinel = ErrRootOverlapsRepository | ErrUnexpectedSymlink

datatype mcp_sentinel = ErrRequestTooLarge | ErrRequestFraming | ErrSilence

datatype config_sentinel = ErrInvalid

text \<open>The sentinels of the standard library the program compares with.\<close>

datatype std_sentinel =
  Canceled | DeadlineExceeded | ErrNotExist | EOF | EWOULDBLOCK | ENOTDIR | ELOOP | ENOENT

datatype sentinel =
  S_state state_sentinel | S_lock lock_sentinel | S_review review_sentinel
| S_repo repo_sentinel | S_branch branch_sentinel | S_target target_sentinel
| S_git gitmisc_sentinel | S_conn conn_sentinel | S_client client_sentinel
| S_scratch scratch_sentinel | S_mcp mcp_sentinel | S_config config_sentinel
| S_std std_sentinel

section \<open>Errors\<close>

datatype goerror =
    Sentinel sentinel
  | System string
  | TooLargeError int int string
  | exitError "string list" int string
  | ServerError int string
  | Errorf string "goerror list"

type_synonym 'a res = "goerror + 'a"

text \<open>errors.Is: the error itself, what it unwraps to, or one of the errors it wraps.\<close>

fun errors_Is :: "goerror \<Rightarrow> sentinel \<Rightarrow> bool" where
  "errors_Is (Sentinel s) t = (s = t)"
| "errors_Is (TooLargeError n l p) t = (t = S_state ErrTooLarge)"
| "errors_Is (Errorf op es) t = list_ex (\<lambda>e. errors_Is e t) es"
| "errors_Is (System m) t = False"
| "errors_Is (exitError a c m) t = False"
| "errors_Is (ServerError c m) t = False"

fun first_Some :: "'a option list \<Rightarrow> 'a option" where
  "first_Some [] = None"
| "first_Some (Some x # xs) = Some x"
| "first_Some (None # xs) = first_Some xs"

text \<open>
  errors.As: the first error of the wanted type in the tree, read depth first; f recognises
  the type and projects what the caller uses of it.
\<close>

fun errors_As :: "(goerror \<Rightarrow> 'a option) \<Rightarrow> goerror \<Rightarrow> 'a option" where
  "errors_As f (Errorf op es) = first_Some (map (errors_As f) es)"
| "errors_As f e = f e"

definition as_exitError :: "goerror \<Rightarrow> (int \<times> string) option" where
  "as_exitError e = (case e of exitError a c m \<Rightarrow> Some (c, m) | _ \<Rightarrow> None)"

definition as_TooLargeError :: "goerror \<Rightarrow> (int \<times> int) option" where
  "as_TooLargeError e = (case e of TooLargeError n l p \<Rightarrow> Some (n, l) | _ \<Rightarrow> None)"

definition as_ServerError :: "goerror \<Rightarrow> (int \<times> string) option" where
  "as_ServerError e = (case e of ServerError c m \<Rightarrow> Some (c, m) | _ \<Rightarrow> None)"

lemmas as_defs = as_exitError_def as_TooLargeError_def as_ServerError_def

lemma errors_Is_wrap [simp, errs]: "errors_Is (Errorf op [e]) t = errors_Is e t"
  by simp

lemma errors_Is_wrap2 [simp, errs]:
  "errors_Is (Errorf op [e, e']) t \<longleftrightarrow> errors_Is e t \<or> errors_Is e' t"
  by simp

lemma errors_As_wrap [simp, errs]: "errors_As f (Errorf op [e]) = errors_As f e"
  by (cases "errors_As f e") simp_all

section \<open>Results\<close>

abbreviation Ok :: "'a \<Rightarrow> 'a res" where
  "Ok \<equiv> Inr"

abbreviation Err :: "goerror \<Rightarrow> 'a res" where
  "Err \<equiv> Inl"

definition is_ok :: "'a res \<Rightarrow> bool" where
  "is_ok r = (case r of Inl e \<Rightarrow> False | Inr x \<Rightarrow> True)"

lemma is_ok_simps [simp]: "is_ok (Ok x)" "\<not> is_ok (Err e)"
  by (simp_all add: is_ok_def)

lemma is_ok_iff: "is_ok r \<longleftrightarrow> (\<exists>x. r = Ok x)"
  by (cases r) auto

end
