(* ===== verification/History.thy ===== *)
theory History
  imports Errors
begin

text \<open>
  The persisted workflow record and its review history: internal/state/history.go and the
  type Workflow of internal/state/state.go. Counters and rounds are Go integers (int with
  the 64-bit wrap of go_int where an operation could leave the range). The loop of
  RetainHistory slices its list with out[1:], which panics on an empty one: the model
  returns None for that panic, and retain_loop_Some shows it cannot happen.
\<close>

section \<open>Bounds\<close>

definition MaxHistoryRecords :: nat where
  [size_defs]: "MaxHistoryRecords = 2"

definition MaxHistoryRecordBytes :: nat where
  [size_defs]: "MaxHistoryRecordBytes = 24576"

definition MaxHistoryBytes :: nat where
  [size_defs]: "MaxHistoryBytes = 49152"

definition OmittedTooLarge :: string where
  "OmittedTooLarge = ''too-large''"

section \<open>Token usage\<close>

record UsageBreakdown =
  ub_Input :: int
  ub_Cached :: int
  ub_CacheWrite :: int
  ub_Output :: int
  ub_Reasoning :: int
  ub_Total :: int

record Usage =
  us_Last :: UsageBreakdown
  us_Total :: UsageBreakdown

fun first_negative :: "(string \<times> int) list \<Rightarrow> string" where
  "first_negative [] = []"
| "first_negative ((name, v) # cs) = (if v < 0 then name else first_negative cs)"

definition negativeCounter :: "UsageBreakdown \<Rightarrow> string" where
  "negativeCounter b = first_negative
     [(''input'', ub_Input b), (''cached'', ub_Cached b), (''cache_write'', ub_CacheWrite b),
      (''output'', ub_Output b), (''reasoning'', ub_Reasoning b), (''total'', ub_Total b)]"

definition Invalid :: "Usage option \<Rightarrow> string" where
  "Invalid u =
     (case u of
        None \<Rightarrow> []
      | Some v \<Rightarrow>
          (if negativeCounter (us_Last v) \<noteq> [] then ''last '' @ negativeCounter (us_Last v)
           else if negativeCounter (us_Total v) \<noteq> [] then ''total '' @ negativeCounter (us_Total v)
           else []))"

definition counters :: "UsageBreakdown \<Rightarrow> int list" where
  "counters b = [ub_Input b, ub_Cached b, ub_CacheWrite b, ub_Output b, ub_Reasoning b, ub_Total b]"

lemma negativeCounter_empty_iff: "negativeCounter b = [] \<longleftrightarrow> list_all (\<lambda>c. 0 \<le> c) (counters b)"
  by (auto simp: negativeCounter_def counters_def)

lemma Invalid_empty_iff:
  "Invalid u = [] \<longleftrightarrow>
     (case u of None \<Rightarrow> True
      | Some v \<Rightarrow> list_all (\<lambda>c. 0 \<le> c) (counters (us_Last v) @ counters (us_Total v)))"
  by (auto simp: Invalid_def negativeCounter_empty_iff split: option.splits)

section \<open>History records\<close>

record HistoryRecord =
  hr_Round :: int
  hr_Commit :: string
  hr_Base :: string
  hr_Review :: string
  hr_Omitted :: string
  hr_Usage :: "Usage option"

definition injectedBytes :: "HistoryRecord \<Rightarrow> nat" where
  "injectedBytes r = length (hr_Review r)"

definition NewHistoryRecord :: "int \<Rightarrow> string \<Rightarrow> string \<Rightarrow> string \<Rightarrow> Usage option \<Rightarrow> HistoryRecord" where
  "NewHistoryRecord r commit base review usage =
     (if length review > MaxHistoryRecordBytes
      then \<lparr>hr_Round = r, hr_Commit = commit, hr_Base = base, hr_Review = [],
            hr_Omitted = OmittedTooLarge, hr_Usage = usage\<rparr>
      else \<lparr>hr_Round = r, hr_Commit = commit, hr_Base = base, hr_Review = review,
            hr_Omitted = [], hr_Usage = usage\<rparr>)"

fun historyBytes :: "HistoryRecord list \<Rightarrow> nat" where
  "historyBytes [] = 0"
| "historyBytes (r # rs) = injectedBytes r + historyBytes rs"

definition over_bounds :: "nat \<Rightarrow> HistoryRecord list \<Rightarrow> bool" where
  "over_bounds newestBytes out \<longleftrightarrow>
     length out > MaxHistoryRecords \<or> historyBytes out + newestBytes > MaxHistoryBytes"

fun retain_loop :: "nat \<Rightarrow> HistoryRecord list \<Rightarrow> HistoryRecord list option" where
  "retain_loop newestBytes [] = (if over_bounds newestBytes [] then None else Some [])"
| "retain_loop newestBytes (r # rs) =
     (if over_bounds newestBytes (r # rs) then retain_loop newestBytes rs else Some (r # rs))"

definition newest_bytes :: "string \<Rightarrow> nat" where
  "newest_bytes review = injectedBytes (NewHistoryRecord 0 [] [] review None)"

definition RetainHistory :: "HistoryRecord list \<Rightarrow> HistoryRecord \<Rightarrow> string \<Rightarrow> HistoryRecord list option" where
  "RetainHistory history previous newestReview =
     retain_loop (newest_bytes newestReview) (history @ [previous])"

lemma injectedBytes_New: "injectedBytes (NewHistoryRecord r c b t u) \<le> MaxHistoryRecordBytes"
  by (simp add: injectedBytes_def NewHistoryRecord_def size_defs)

lemma newest_bytes_le: "newest_bytes t \<le> MaxHistoryRecordBytes"
  by (simp add: newest_bytes_def injectedBytes_New)

lemma newest_bytes_eq:
  "newest_bytes t = (if length t > MaxHistoryRecordBytes then 0 else length t)"
  by (simp add: newest_bytes_def injectedBytes_def NewHistoryRecord_def)

lemma historyBytes_append [simp]: "historyBytes (xs @ ys) = historyBytes xs + historyBytes ys"
  by (induction xs) simp_all

lemma over_bounds_Nil [simp]: "\<not> over_bounds (newest_bytes t) []"
  using newest_bytes_le [of t] by (simp add: over_bounds_def size_defs)

text \<open>What the loop returns: the longest suffix within the bounds.\<close>

lemma retain_loop_Some:
  "\<exists>k \<le> length out. retain_loop (newest_bytes t) out = Some (drop k out) \<and>
     \<not> over_bounds (newest_bytes t) (drop k out) \<and>
     (\<forall>j < k. over_bounds (newest_bytes t) (drop j out))"
proof (induction out)
  case Nil
  show ?case by simp
next
  case (Cons r rs)
  show ?case
  proof (cases "over_bounds (newest_bytes t) (r # rs)")
    case False
    then show ?thesis by (intro exI [of _ 0]) simp
  next
    case True
    from Cons.IH obtain k where k: "k \<le> length rs"
      "retain_loop (newest_bytes t) rs = Some (drop k rs)"
      "\<not> over_bounds (newest_bytes t) (drop k rs)"
      "\<forall>j < k. over_bounds (newest_bytes t) (drop j rs)" by blast
    have "over_bounds (newest_bytes t) (drop j (r # rs))" if "j < Suc k" for j
      using that True k(4) by (cases j) auto
    with True k show ?thesis by (intro exI [of _ "Suc k"]) simp
  qed
qed

section \<open>The workflow record\<close>

record Workflow =
  wf_ThreadID :: string
  wf_LastCommit :: string
  wf_LastBase :: string
  wf_LastRequestHash :: string
  wf_Round :: int
  wf_LastReview :: string
  wf_LastWarnings :: "string list"
  wf_LastUsage :: "Usage option"
  wf_History :: "HistoryRecord list"

text \<open>Go's zero value, which a lookup of a missing key yields.\<close>

definition zero_Workflow :: Workflow where
  "zero_Workflow = \<lparr>wf_ThreadID = [], wf_LastCommit = [], wf_LastBase = [], wf_LastRequestHash = [],
     wf_Round = 0, wf_LastReview = [], wf_LastWarnings = [], wf_LastUsage = None, wf_History = []\<rparr>"

definition SameReplayFields :: "Workflow \<Rightarrow> Workflow \<Rightarrow> bool" where
  "SameReplayFields w v \<longleftrightarrow>
     wf_ThreadID w = wf_ThreadID v \<and> wf_LastCommit w = wf_LastCommit v \<and> wf_LastBase w = wf_LastBase v \<and>
     wf_LastRequestHash w = wf_LastRequestHash v \<and> wf_Round w = wf_Round v \<and>
     wf_LastReview w = wf_LastReview v \<and> wf_LastWarnings w = wf_LastWarnings v"

section \<open>Validation of a stored history\<close>

text \<open>A rune outside ASCII fails both comparisons, and so does every byte of its encoding.\<close>

definition is_lower_hex :: "char \<Rightarrow> bool" where
  "is_lower_hex c \<longleftrightarrow> (CHR ''0'' \<le> c \<and> c \<le> CHR ''9'') \<or> (CHR ''a'' \<le> c \<and> c \<le> CHR ''f'')"

definition IsObjectID :: "string \<Rightarrow> bool" where
  "IsObjectID s \<longleftrightarrow> (length s = 40 \<or> length s = 64) \<and> list_all is_lower_hex s"

definition invalid_record :: "int \<Rightarrow> nat \<Rightarrow> nat \<Rightarrow> HistoryRecord \<Rightarrow> string" where
  "invalid_record wround n i r =
     (let want = go_int (go_int (wround - int n) + int i); rec = ''history record '' @ Itoa (int i) in
      if hr_Round r \<noteq> want then rec @ '' has round '' @ Itoa (hr_Round r) @ '', want '' @ Itoa want
      else if want < 1 then rec @ '' has a round below 1''
      else if \<not> IsObjectID (hr_Commit r) then rec @ '' has an invalid commit''
      else if \<not> IsObjectID (hr_Base r) then rec @ '' has an invalid base''
      else if hr_Review r \<noteq> [] \<and> hr_Omitted r \<noteq> [] then rec @ '' has both a review and an omission''
      else if hr_Review r = [] \<and> hr_Omitted r = [] then rec @ '' has neither a review nor an omission''
      else if hr_Omitted r \<noteq> [] \<and> hr_Omitted r \<noteq> OmittedTooLarge
        then rec @ '' has an unknown omission reason''
      else if length (hr_Review r) > MaxHistoryRecordBytes
        then rec @ '' review is '' @ Itoa (int (length (hr_Review r))) @ '' bytes, limit '' @
             Itoa (int MaxHistoryRecordBytes)
      else if Invalid (hr_Usage r) \<noteq> []
        then rec @ '' has a negative usage counter: '' @ Invalid (hr_Usage r)
      else [])"

fun invalid_records :: "int \<Rightarrow> nat \<Rightarrow> nat \<Rightarrow> HistoryRecord list \<Rightarrow> string" where
  "invalid_records wround n i [] = []"
| "invalid_records wround n i (r # rs) =
     (if invalid_record wround n i r \<noteq> [] then invalid_record wround n i r
      else invalid_records wround n (Suc i) rs)"

definition InvalidHistory :: "Workflow \<Rightarrow> string" where
  "InvalidHistory w =
     (let h = wf_History w; newest = newest_bytes (wf_LastReview w) in
      if length h > MaxHistoryRecords
        then ''history has '' @ Itoa (int (length h)) @ '' records, limit '' @ Itoa (int MaxHistoryRecords)
      else if invalid_records (wf_Round w) (length h) 0 h \<noteq> []
        then invalid_records (wf_Round w) (length h) 0 h
      else if Invalid (wf_LastUsage w) \<noteq> []
        then ''the last review has a negative usage counter: '' @ Invalid (wf_LastUsage w)
      else if historyBytes h + newest > MaxHistoryBytes
        then ''history quotes '' @ Itoa (int (historyBytes h + newest)) @
             '' bytes with the last review, limit '' @ Itoa (int MaxHistoryBytes)
      else [])"

section \<open>The ledger invariant\<close>

text \<open>
  The specification InvalidHistory implements: the records are the contiguous rounds just
  before the workflow's own, each with object ids and exactly one of a bounded review and
  the placeholder, within the count and byte bounds, with no negative counter.
\<close>

definition record_ok :: "HistoryRecord \<Rightarrow> bool" where
  "record_ok r \<longleftrightarrow>
     1 \<le> hr_Round r \<and> IsObjectID (hr_Commit r) \<and> IsObjectID (hr_Base r) \<and>
     ((hr_Review r \<noteq> [] \<and> length (hr_Review r) \<le> MaxHistoryRecordBytes \<and> hr_Omitted r = []) \<or>
      (hr_Review r = [] \<and> hr_Omitted r = OmittedTooLarge)) \<and>
     Invalid (hr_Usage r) = []"

definition contiguous :: "int \<Rightarrow> HistoryRecord list \<Rightarrow> bool" where
  "contiguous wround h \<longleftrightarrow>
     (\<forall>i < length h. hr_Round (h ! i) = wround - int (length h) + int i)"

definition ledger_ok :: "Workflow \<Rightarrow> bool" where
  "ledger_ok w \<longleftrightarrow>
     contiguous (wf_Round w) (wf_History w) \<and> list_all record_ok (wf_History w) \<and>
     Invalid (wf_LastUsage w) = [] \<and> \<not> over_bounds (newest_bytes (wf_LastReview w)) (wf_History w)"

lemma OmittedTooLarge_not_Nil [simp]: "OmittedTooLarge \<noteq> []"
  by (simp add: OmittedTooLarge_def)

lemma record_message_not_Nil [simp]: "''history record '' @ m \<noteq> []"
  by simp

lemma invalid_record_empty_iff:
  assumes "1 \<le> R" and "R \<le> MaxInt" and "n \<le> MaxHistoryRecords" and "i < n"
  shows "invalid_record R n i r = [] \<longleftrightarrow> hr_Round r = R - int n + int i \<and> record_ok r"
proof -
  have "go_int (go_int (R - int n) + int i) = R - int n + int i"
    using assms by (simp add: size_defs MinInt_def MaxInt_def)
  then show ?thesis
    by (auto simp: invalid_record_def record_ok_def Let_def)
qed

lemma invalid_records_empty_iff:
  assumes "1 \<le> R" and "R \<le> MaxInt" and "n \<le> MaxHistoryRecords" and "i + length rs \<le> n"
  shows "invalid_records R n i rs = [] \<longleftrightarrow>
    (\<forall>j < length rs. hr_Round (rs ! j) = R - int n + int (i + j)) \<and> list_all record_ok rs"
  using assms(4)
proof (induction rs arbitrary: i)
  case Nil
  show ?case by simp
next
  case (Cons r rs)
  have first: "invalid_record R n i r = [] \<longleftrightarrow> hr_Round r = R - int n + int i \<and> record_ok r"
    using assms Cons.prems by (intro invalid_record_empty_iff) auto
  have rest: "invalid_records R n (Suc i) rs = [] \<longleftrightarrow>
      (\<forall>j < length rs. hr_Round (rs ! j) = R - int n + int (Suc i + j)) \<and> list_all record_ok rs"
    using Cons.prems by (intro Cons.IH) simp
  show ?case
    by (simp add: first rest All_less_Suc2 del: of_nat_Suc) auto
qed

lemma InvalidHistory_empty_iff:
  assumes "1 \<le> wf_Round w" and "wf_Round w \<le> MaxInt"
  shows "InvalidHistory w = [] \<longleftrightarrow> ledger_ok w"
proof (cases "length (wf_History w) \<le> MaxHistoryRecords")
  case False
  then show ?thesis
    by (simp add: InvalidHistory_def ledger_ok_def over_bounds_def Let_def)
next
  case True
  then have "invalid_records (wf_Round w) (length (wf_History w)) 0 (wf_History w) = [] \<longleftrightarrow>
      contiguous (wf_Round w) (wf_History w) \<and> list_all record_ok (wf_History w)"
    using assms by (simp add: invalid_records_empty_iff contiguous_def)
  with True show ?thesis
    by (auto simp: InvalidHistory_def ledger_ok_def over_bounds_def Let_def)
qed

lemma contiguous_drop: "contiguous R h \<Longrightarrow> contiguous R (drop k h)"
  by (auto simp: contiguous_def of_nat_diff)

lemma contiguous_snoc: "contiguous R h \<Longrightarrow> hr_Round r = R \<Longrightarrow> contiguous (R + 1) (h @ [r])"
  by (auto simp: contiguous_def nth_append less_Suc_eq)

lemma list_all_drop: "list_all P xs \<Longrightarrow> list_all P (drop k xs)"
  by (meson in_set_dropD list_all_iff)

lemma historyBytes_drop: "historyBytes (drop k h) \<le> historyBytes h"
  by (metis append_take_drop_id historyBytes_append le_add2)

lemma over_bounds_drop: "\<not> over_bounds n h \<Longrightarrow> \<not> over_bounds n (drop k h)"
  using historyBytes_drop [of k h] by (auto simp: over_bounds_def)

text \<open>Evicting the oldest records keeps the invariant, however many go.\<close>

lemma ledger_ok_drop: "ledger_ok w \<Longrightarrow> ledger_ok (w\<lparr>wf_History := drop k (wf_History w)\<rparr>)"
  by (simp add: ledger_ok_def contiguous_drop list_all_drop over_bounds_drop)

lemma record_ok_New:
  assumes "1 \<le> n" and "IsObjectID c" and "IsObjectID b" and "t \<noteq> []" and "Invalid u = []"
  shows "record_ok (NewHistoryRecord n c b t u)"
  using assms by (auto simp: record_ok_def NewHistoryRecord_def)

lemma hr_Round_New [simp]: "hr_Round (NewHistoryRecord n c b t u) = n"
  by (simp add: NewHistoryRecord_def)

text \<open>The next round: the superseded round appended, the oldest dropped to fit.\<close>

lemma ledger_ok_next:
  assumes "ledger_ok w" and "1 \<le> wf_Round w" and "IsObjectID (wf_LastCommit w)" and "IsObjectID (wf_LastBase w)"
    and "wf_LastReview w \<noteq> []" and "Invalid usage = []"
    and "wf_Round v = wf_Round w + 1" and "wf_LastUsage v = usage"
  shows "\<exists>h. RetainHistory (wf_History w)
      (NewHistoryRecord (wf_Round w) (wf_LastCommit w) (wf_LastBase w) (wf_LastReview w) (wf_LastUsage w))
      (wf_LastReview v) = Some h \<and> ledger_ok (v\<lparr>wf_History := h\<rparr>)"
proof -
  let ?r = "NewHistoryRecord (wf_Round w) (wf_LastCommit w) (wf_LastBase w) (wf_LastReview w) (wf_LastUsage w)"
  let ?h = "wf_History w @ [?r]"
  obtain k where k: "RetainHistory (wf_History w) ?r (wf_LastReview v) = Some (drop k ?h)"
    "\<not> over_bounds (newest_bytes (wf_LastReview v)) (drop k ?h)"
    using retain_loop_Some [of ?h "wf_LastReview v"] unfolding RetainHistory_def by blast
  have "Invalid (wf_LastUsage w) = []" using assms(1) by (simp add: ledger_ok_def)
  then have "record_ok ?r" using assms by (intro record_ok_New)
  then have "list_all record_ok ?h" and "contiguous (wf_Round v) ?h"
    using assms contiguous_snoc by (auto simp: ledger_ok_def)
  then have "list_all record_ok (drop k ?h)" and "contiguous (wf_Round v) (drop k ?h)"
    using list_all_drop [of record_ok ?h k] contiguous_drop [of "wf_Round v" ?h k] by blast+
  then have "ledger_ok (v\<lparr>wf_History := drop k ?h\<rparr>)"
    using k(2) assms(6,8) by (simp add: ledger_ok_def del: drop_append list_all_append)
  with k(1) show ?thesis by blast
qed

end
