(* ===== verification/Json.thy ===== *)
theory Json
  imports Prelude
begin

text \<open>
  The output side of encoding/json as internal/state uses it: json.MarshalIndent with an
  empty prefix and two spaces of indentation, over the shapes a Go struct, map, slice,
  string and int produce. Strings are escaped byte by byte as the standard library does
  (HTML characters too), with bytes that are not UTF-8 replaced; unicode/utf8 is the part
  of it that decides what is a rune.
\<close>

section \<open>unicode/utf8\<close>

definition byte :: "char \<Rightarrow> nat" where
  "byte c = of_char c"

definition is_cont :: "char \<Rightarrow> bool" where
  "is_cont c \<longleftrightarrow> 128 \<le> byte c \<and> byte c \<le> 191"

text \<open>The second byte a leading byte of three or four bytes accepts.\<close>

definition second_ok :: "nat \<Rightarrow> char \<Rightarrow> bool" where
  "second_ok x c \<longleftrightarrow>
     (if x = 224 then 160 else if x = 240 then 144 else 128) \<le> byte c \<and>
     byte c \<le> (if x = 237 then 159 else if x = 244 then 143 else 191)"

text \<open>The size of the rune at the head of a string, 0 when there is none.\<close>

definition rune_size :: "string \<Rightarrow> nat" where
  "rune_size s =
     (case s of
        [] \<Rightarrow> 0
      | a # t \<Rightarrow>
          (let x = byte a in
           if x < 128 then 1
           else if 194 \<le> x \<and> x \<le> 223 then
             (case t of b # _ \<Rightarrow> if is_cont b then 2 else 0 | _ \<Rightarrow> 0)
           else if 224 \<le> x \<and> x \<le> 239 then
             (case t of b # c # _ \<Rightarrow> if second_ok x b \<and> is_cont c then 3 else 0 | _ \<Rightarrow> 0)
           else if 240 \<le> x \<and> x \<le> 244 then
             (case t of b # c # d # _ \<Rightarrow> if second_ok x b \<and> is_cont c \<and> is_cont d then 4 else 0 | _ \<Rightarrow> 0)
           else 0))"

function ValidString :: "string \<Rightarrow> bool" where
  "ValidString s =
     (if s = [] then True
      else if rune_size s = 0 then False
      else ValidString (drop (rune_size s) s))"
  by pat_completeness auto
termination
  by (relation "measure length") auto

declare ValidString.simps [simp del]

section \<open>Strings\<close>

definition hex_escape :: "nat \<Rightarrow> string" where
  "hex_escape n = CHR 0x5C # ''u00'' @ [digit_char (n div 16), digit_char (n mod 16)]"

text \<open>One byte below 128; the HTML characters are escaped, DEL is not.\<close>

definition escape_byte :: "char \<Rightarrow> string" where
  "escape_byte c =
     (if c = CHR 0x22 \<or> c = CHR 0x5C then [CHR 0x5C, c]
      else if c = CHR 0x08 then [CHR 0x5C, CHR ''b'']
      else if c = CHR 0x0C then [CHR 0x5C, CHR ''f'']
      else if c = CHR 0x0A then [CHR 0x5C, CHR ''n'']
      else if c = CHR 0x0D then [CHR 0x5C, CHR ''r'']
      else if c = CHR 0x09 then [CHR 0x5C, CHR ''t'']
      else if byte c < 32 \<or> c \<in> {CHR ''<'', CHR ''>'', CHR ''&''} then hex_escape (byte c)
      else [c])"

text \<open>The line separators U+2028 and U+2029, the bytes E2 80 A8 and E2 80 A9.\<close>

definition is_line_sep :: "string \<Rightarrow> bool" where
  "is_line_sep r \<longleftrightarrow> r = [CHR 0xE2, CHR 0x80, CHR 0xA8] \<or> r = [CHR 0xE2, CHR 0x80, CHR 0xA9]"

definition escape_rune :: "string \<Rightarrow> string" where
  "escape_rune r =
     (if is_line_sep r then CHR 0x5C # ''u202'' @ [if last r = CHR 0xA8 then CHR ''8'' else CHR ''9'']
      else r)"

function escape :: "string \<Rightarrow> string" where
  "escape s =
     (if s = [] then []
      else if rune_size s = 0 then CHR 0x5C # ''ufffd'' @ escape (drop 1 s)
      else if rune_size s = 1 then escape_byte (hd s) @ escape (drop 1 s)
      else escape_rune (take (rune_size s) s) @ escape (drop (rune_size s) s))"
  by pat_completeness auto
termination
  by (relation "measure length") auto

declare escape.simps [simp del]

definition json_string :: "string \<Rightarrow> string" where
  "json_string s = CHR 0x22 # escape s @ [CHR 0x22]"

lemma length_json_string: "length (json_string s) = length (escape s) + 2"
  by (simp add: json_string_def)

section \<open>Values and MarshalIndent\<close>

datatype json = JInt int | JStr string | JArr "json list" | JObj "(string \<times> json) list"

definition newline_at :: "nat \<Rightarrow> string" where
  "newline_at d = CHR 0x0A # replicate (2 * d) (CHR '' '')"

definition member_text :: "string \<times> string \<Rightarrow> string" where
  "member_text kt = json_string (fst kt) @ '': '' @ snd kt"

definition block_text :: "char \<Rightarrow> char \<Rightarrow> nat \<Rightarrow> string list \<Rightarrow> string" where
  "block_text opn cls d xs =
     (if xs = [] then [opn, cls]
      else opn # newline_at (Suc d) @ Join xs (CHR '','' # newline_at (Suc d)) @ newline_at d @ [cls])"

function indent :: "nat \<Rightarrow> json \<Rightarrow> string" where
  "indent d (JInt i) = Itoa i"
| "indent d (JStr s) = json_string s"
| "indent d (JArr xs) = block_text (CHR ''['') (CHR '']'') d (map (\<lambda>x. indent (Suc d) x) xs)"
| "indent d (JObj fs) =
     block_text (CHR ''{'') (CHR ''}'') d (map (\<lambda>kv. member_text (fst kv, indent (Suc d) (snd kv))) fs)"
  by pat_completeness auto
termination
proof (relation "measure (size \<circ> snd)", simp_all)
  fix xs and x :: json
  assume "x \<in> set xs"
  then show "size x < Suc (size_list size xs)"
    by (simp add: size_list_estimation' [of x xs] le_imp_less_Suc)
next
  fix fs and kv :: "string \<times> json"
  assume "kv \<in> set fs"
  then have "size_prod (\<lambda>s. 0) size kv \<le> size_list (size_prod (\<lambda>s. 0) size) fs"
    by (rule size_list_estimation') simp
  then show "size (snd kv) < Suc (size_list (size_prod (\<lambda>s. 0) size) fs)"
    by (cases kv) simp
qed

text \<open>A member whose Go field carries omitempty is present only when it is not empty.\<close>

definition omitempty :: "bool \<Rightarrow> string \<times> json \<Rightarrow> (string \<times> json) list" where
  "omitempty is_zero m = (if is_zero then [] else [m])"

end
