(* ===== verification/Paths.thy ===== *)
theory Paths
  imports Prelude
begin

text \<open>
  The lexical operations of path/filepath on Unix that the program uses. No operation here
  consults a file system; symbolic links are the business of the components that call
  Lstat and EvalSymlinks.
\<close>

abbreviation slash :: char where
  "slash \<equiv> CHR ''/''"

definition IsAbs :: "string \<Rightarrow> bool" where
  "IsAbs p \<longleftrightarrow> HasPrefix p ''/''"

text \<open>
  Clean: the components from left to right over a stack; an empty or dot component is
  dropped, a dot-dot pops the last component, is dropped at the root and kept at the start
  of a relative path.
\<close>

fun clean_parts :: "bool \<Rightarrow> string list \<Rightarrow> string list \<Rightarrow> string list" where
  "clean_parts rooted acc [] = rev acc"
| "clean_parts rooted acc (p # ps) =
     (if p = [] \<or> p = ''.'' then clean_parts rooted acc ps
      else if p = ''..'' then
        (case acc of
           [] \<Rightarrow> clean_parts rooted (if rooted then [] else [p]) ps
         | a # as \<Rightarrow> clean_parts rooted (if a = ''..'' then p # acc else as) ps)
      else clean_parts rooted (p # acc) ps)"

definition Clean :: "string \<Rightarrow> string" where
  "Clean p =
     (if p = [] then ''.''
      else
        (let rooted = IsAbs p; body = Join (clean_parts rooted [] (Split1 p slash)) ''/'' in
         if rooted then slash # body else if body = [] then ''.'' else body))"

text \<open>filepath.Join: leading empty elements are skipped, the rest is joined and cleaned.\<close>

definition JoinPath :: "string list \<Rightarrow> string" where
  "JoinPath elems =
     (let es = dropWhile (\<lambda>e. e = []) elems in if es = [] then [] else Clean (Join es ''/''))"

text \<open>filepath.Dir: everything up to the last slash, cleaned; filepath.Base: what follows it.\<close>

definition Dir :: "string \<Rightarrow> string" where
  "Dir p = Clean (rev (dropWhile (\<lambda>c. c \<noteq> slash) (rev p)))"

definition Base :: "string \<Rightarrow> string" where
  "Base p =
     (if p = [] then ''.''
      else
        (let q = TrimRight p ''/'' in
         if q = [] then ''/'' else rev (takeWhile (\<lambda>c. c \<noteq> slash) (rev q))))"

lemma IsAbs_Cons [simp]: "IsAbs (c # p) \<longleftrightarrow> c = slash"
  by (simp add: IsAbs_def)

lemma IsAbs_Nil [simp]: "\<not> IsAbs []"
  by (simp add: IsAbs_def)

lemma IsAbs_Clean: "IsAbs p \<Longrightarrow> IsAbs (Clean p)"
  by (auto simp: Clean_def Let_def)

lemma set_TrimRight: "set (TrimRight s cs) \<subseteq> set s"
  by (auto simp: TrimRight_def dest: set_dropWhileD)

lemma Base_no_slash: "Base p \<noteq> ''/'' \<Longrightarrow> slash \<notin> set (Base p)"
  by (cases "p = []"; cases "TrimRight p ''/'' = []")
    (auto simp: Base_def Let_def dest: set_takeWhileD)

lemma IsAbs_Dir: "IsAbs p \<Longrightarrow> IsAbs (Dir p)"
proof -
  assume "IsAbs p"
  then obtain t where p: "p = slash # t" by (cases p) auto
  define d where "d = rev (dropWhile (\<lambda>c. c \<noteq> slash) (rev p))"
  have "\<exists>u. d = slash # u"
  proof (cases "slash \<in> set t")
    case True
    then have "dropWhile (\<lambda>c. c \<noteq> slash) (rev t @ [slash]) = dropWhile (\<lambda>c. c \<noteq> slash) (rev t) @ [slash]"
      by (intro dropWhile_append1 [where x = slash]) auto
    then show ?thesis by (simp add: d_def p)
  next
    case False
    then have "dropWhile (\<lambda>c. c \<noteq> slash) (rev t @ [slash]) = [slash]"
      by (subst dropWhile_append2) auto
    then show ?thesis by (simp add: d_def p)
  qed
  then show ?thesis unfolding Dir_def d_def [symmetric] by (auto intro: IsAbs_Clean)
qed

end
