(* ===== verification/Store.thy ===== *)
theory Store
  imports History Sha256 Json Paths
begin

text \<open>
  The state file (internal/state/state.go): the in-memory State, the encoding Save writes,
  Load, Save and writeAtomic. The disk is a map from paths to contents; every system call
  that can fail is answered by a field of an oracle record, so each error return of the
  source is a branch. writeAtomic returns the disk after each of its steps, oldest first:
  the states a crash or a concurrent reader can see. The decoder json.Unmarshal is a
  parameter of Load, for which StateDecode has the library's own.
\<close>

section \<open>Constants and types\<close>

definition Version :: int where
  "Version = 2"

definition oldestReadableVersion :: int where
  "oldestReadableVersion = 1"

definition MaxStateFileSize :: nat where
  [size_defs]: "MaxStateFileSize = 16777216"

definition lockNameLen :: nat where
  "lockNameLen = 16"

type_synonym State = "(string \<times> Workflow) list"

record envelope =
  env_Version :: int
  env_Workflows :: State

record Store =
  sto_path :: string
  sto_loaded :: bool

type_synonym disk = "string \<rightharpoonup> string"

section \<open>The in-memory state\<close>

definition Get :: "State \<Rightarrow> string \<Rightarrow> Workflow \<times> bool" where
  "Get s key = (case map_of s key of None \<Rightarrow> (zero_Workflow, False) | Some w \<Rightarrow> (w, True))"

definition Put :: "State \<Rightarrow> string \<Rightarrow> Workflow \<Rightarrow> State" where
  "Put s key w = map_put key w s"

definition Replay :: "State \<Rightarrow> string \<Rightarrow> string \<Rightarrow> Workflow \<times> bool" where
  "Replay s key hash =
     (case map_of s key of
        None \<Rightarrow> (zero_Workflow, False)
      | Some w \<Rightarrow>
          if hash = [] \<or> wf_LastRequestHash w \<noteq> hash then (zero_Workflow, False) else (w, True))"

lemma Get_Put [simp]: "Get (Put s key w) k = (if k = key then (w, True) else Get s k)"
  by (simp add: Get_def Put_def)

lemma Get_True_iff: "Get s key = (w, True) \<longleftrightarrow> map_of s key = Some w"
  by (simp add: Get_def split: option.splits)

section \<open>The encoding\<close>

definition breakdown_json :: "UsageBreakdown \<Rightarrow> json" where
  "breakdown_json b = JObj
     [(''input'', JInt (ub_Input b)), (''cached'', JInt (ub_Cached b)),
      (''cache_write'', JInt (ub_CacheWrite b)), (''output'', JInt (ub_Output b)),
      (''reasoning'', JInt (ub_Reasoning b)), (''total'', JInt (ub_Total b))]"

definition usage_json :: "Usage \<Rightarrow> json" where
  "usage_json u = JObj [(''last'', breakdown_json (us_Last u)), (''total'', breakdown_json (us_Total u))]"

definition usage_member :: "string \<Rightarrow> Usage option \<Rightarrow> (string \<times> json) list" where
  "usage_member name u = (case u of None \<Rightarrow> [] | Some v \<Rightarrow> [(name, usage_json v)])"

definition record_json :: "HistoryRecord \<Rightarrow> json" where
  "record_json r = JObj
     ([(''round'', JInt (hr_Round r)), (''commit'', JStr (hr_Commit r)), (''base'', JStr (hr_Base r))] @
      omitempty (hr_Review r = []) (''review'', JStr (hr_Review r)) @
      omitempty (hr_Omitted r = []) (''omitted'', JStr (hr_Omitted r)) @
      usage_member ''usage'' (hr_Usage r))"

definition workflow_members :: "Workflow \<Rightarrow> (string \<times> json) list" where
  "workflow_members w =
     [(''thread_id'', JStr (wf_ThreadID w)), (''last_commit'', JStr (wf_LastCommit w)),
      (''last_base'', JStr (wf_LastBase w)), (''last_request_hash'', JStr (wf_LastRequestHash w)),
      (''round'', JInt (wf_Round w)), (''last_review'', JStr (wf_LastReview w))] @
     omitempty (wf_LastWarnings w = []) (''last_warnings'', JArr (map JStr (wf_LastWarnings w))) @
     usage_member ''last_usage'' (wf_LastUsage w)"

definition workflow_json :: "Workflow \<Rightarrow> json" where
  "workflow_json w = JObj
     (workflow_members w @
      omitempty (wf_History w = []) (''history'', JArr (map record_json (wf_History w))))"

text \<open>A Go map is written with its keys in increasing order.\<close>

definition envelope_json :: "State \<Rightarrow> json" where
  "envelope_json s = JObj
     [(''version'', JInt Version),
      (''workflows'', JObj (map (\<lambda>kw. (fst kw, workflow_json (snd kw))) (sort_key fst s)))]"

definition encode_state :: "State \<Rightarrow> string" where
  "encode_state s = indent 0 (envelope_json s) @ [CHR 0x0A]"

section \<open>Paths\<close>

text \<open>
  ResolvePath: the environment variable, then the configured value, then the file under
  the user configuration directory; env, configured and the directory lookup are arguments.
\<close>

definition ResolvePath :: "string \<Rightarrow> string res \<Rightarrow> string \<Rightarrow> string res" where
  "ResolvePath env userConfigDir configured =
     (if env \<noteq> [] then
        (if \<not> IsAbs env then Err (System ''COUNTERPOINT_STATE_FILE must be an absolute path'') else Ok env)
      else if configured \<noteq> [] then
        (if \<not> IsAbs configured then Err (System ''configured state file must be an absolute path'')
         else Ok configured)
      else
        (case userConfigDir of
           Inl e \<Rightarrow> Err (Errorf ''locate user config dir'' [e])
         | Inr d \<Rightarrow> Ok (JoinPath [d, ''counterpoint'', ''state.json''])))"

definition NewStore :: "string \<Rightarrow> Store" where
  "NewStore path = \<lparr>sto_path = path, sto_loaded = False\<rparr>"

definition LockPath :: "Store \<Rightarrow> string" where
  "LockPath st = sto_path st @ ''.lock''"

definition WorkflowLockPath :: "Store \<Rightarrow> string \<Rightarrow> string" where
  "WorkflowLockPath st key =
     JoinPath [Dir (sto_path st), ''locks'', take lockNameLen (hex_digest key) @ ''.lock'']"

section \<open>Reading\<close>

record ReadIO =
  rd_open :: "goerror option"
  rd_read :: "goerror option"

text \<open>At most limit + 1 bytes are read, whatever the file holds.\<close>

definition readBounded :: "ReadIO \<Rightarrow> string \<Rightarrow> nat \<Rightarrow> disk \<Rightarrow> string res" where
  "readBounded io path limit d =
     (case rd_open io of
        Some e \<Rightarrow> Err e
      | None \<Rightarrow>
          (case d path of
             None \<Rightarrow> Err (Sentinel (S_std ErrNotExist))
           | Some content \<Rightarrow>
               (case rd_read io of
                  Some e \<Rightarrow> Err e
                | None \<Rightarrow>
                    (let data = take (limit + 1) content in
                     if length data > limit then Err (Errorf ''size'' [Sentinel (S_state ErrTooLarge)])
                     else Ok data))))"

definition Load :: "(string \<Rightarrow> envelope res) \<Rightarrow> ReadIO \<Rightarrow> Store \<Rightarrow> disk \<Rightarrow> State res \<times> Store" where
  "Load unmarshal io st d =
     (let st0 = st\<lparr>sto_loaded := False\<rparr> in
      case readBounded io (sto_path st) MaxStateFileSize d of
        Inl e \<Rightarrow>
          (if errors_Is e (S_std ErrNotExist) then (Ok [], st0\<lparr>sto_loaded := True\<rparr>)
           else (Err (Errorf ''read state'' [e]), st0))
      | Inr data \<Rightarrow>
          (case unmarshal data of
             Inl e \<Rightarrow> (Err (Errorf ''decode state'' [Sentinel (S_state ErrMalformed), e]), st0)
           | Inr env \<Rightarrow>
               (if env_Version env < oldestReadableVersion \<or> env_Version env > Version
                then (Err (Errorf ''version'' [Sentinel (S_state ErrUnsupportedVersion)]), st0)
                else (Ok (env_Workflows env), st0\<lparr>sto_loaded := True\<rparr>))))"

section \<open>Writing\<close>

record WriteIO =
  wr_mkdir :: "string \<Rightarrow> goerror option"
  wr_create :: "string \<Rightarrow> string \<Rightarrow> string res"
  wr_chmod :: "goerror option"
  wr_write :: "(nat \<times> goerror) option"
  wr_sync :: "goerror option"
  wr_close :: "goerror option"
  wr_rename :: "goerror option"
  wr_remove :: "goerror option"
  wr_opendir :: "goerror option"
  wr_syncdir :: "goerror option"

definition syncDir :: "WriteIO \<Rightarrow> goerror option" where
  "syncDir io =
     (case wr_opendir io of
        Some e \<Rightarrow> Some (Errorf ''open dir for sync'' [e])
      | None \<Rightarrow> map_option (\<lambda>e. Errorf ''sync dir'' [e]) (wr_syncdir io))"

text \<open>The deferred function: close (its error ignored) and remove the temporary file.\<close>

definition remove_temp :: "WriteIO \<Rightarrow> string \<Rightarrow> disk \<Rightarrow> disk" where
  "remove_temp io tmp d = (case wr_remove io of Some e \<Rightarrow> d | None \<Rightarrow> d(tmp := None))"

definition writeAtomic :: "WriteIO \<Rightarrow> string \<Rightarrow> string \<Rightarrow> string \<Rightarrow> disk \<Rightarrow> goerror option \<times> disk list" where
  "writeAtomic io dir path data d =
     (case wr_create io dir (Base path @ ''.tmp-*'') of
        Inl e \<Rightarrow> (Some (Errorf ''create temp file'' [e]), [d])
      | Inr tmp \<Rightarrow>
          (let d1 = d(tmp \<mapsto> []) in
           case wr_chmod io of
             Some e \<Rightarrow> (Some (Errorf ''chmod temp file'' [e]), [d, d1, remove_temp io tmp d1])
           | None \<Rightarrow>
               (case wr_write io of
                  Some (n, e) \<Rightarrow>
                    (let d2 = d1(tmp \<mapsto> take n data) in
                     (Some (Errorf ''write temp file'' [e]), [d, d1, d2, remove_temp io tmp d2]))
                | None \<Rightarrow>
                    (let d2 = d1(tmp \<mapsto> data) in
                     case wr_sync io of
                       Some e \<Rightarrow> (Some (Errorf ''sync temp file'' [e]), [d, d1, d2, remove_temp io tmp d2])
                     | None \<Rightarrow>
                         (case wr_close io of
                            Some e \<Rightarrow> (Some (Errorf ''close temp file'' [e]), [d, d1, d2, remove_temp io tmp d2])
                          | None \<Rightarrow>
                              (case wr_rename io of
                                 Some e \<Rightarrow> (Some (Errorf ''rename temp file'' [e]), [d, d1, d2, remove_temp io tmp d2])
                               | None \<Rightarrow>
                                   (syncDir io, [d, d1, d2, (d2(tmp := None))(path \<mapsto> data)])))))))"

text \<open>Save; the argument None is a nil state pointer.\<close>

definition Save :: "WriteIO \<Rightarrow> Store \<Rightarrow> State option \<Rightarrow> disk \<Rightarrow> goerror option \<times> disk list" where
  "Save io st s d =
     (if \<not> sto_loaded st then (Some (Errorf ''save state'' [Sentinel (S_state ErrNotLoaded)]), [d])
      else
        (case s of
           None \<Rightarrow> (Some (System ''nil state''), [d])
         | Some m \<Rightarrow>
             (let data = encode_state m; dir = Dir (sto_path st) in
              if length data > MaxStateFileSize
              then (Some (TooLargeError (int (length data)) (int MaxStateFileSize) (sto_path st)), [d])
              else
                (case wr_mkdir io dir of
                   Some e \<Rightarrow> (Some (Errorf ''create state dir'' [e]), [d])
                 | None \<Rightarrow>
                     (case writeAtomic io dir (sto_path st) data d of
                        (Some e, ds) \<Rightarrow> (Some (Errorf ''write state'' [e]), ds)
                      | (None, ds) \<Rightarrow> (None, ds))))))"

section \<open>What a reader of the file can see\<close>

text \<open>os.CreateTemp makes a new file, never the state file itself.\<close>

definition fresh_temp :: "WriteIO \<Rightarrow> string \<Rightarrow> disk \<Rightarrow> bool" where
  "fresh_temp io path d \<longleftrightarrow>
     (case wr_create io (Dir path) (Base path @ ''.tmp-*'') of
        Inl e \<Rightarrow> True | Inr tmp \<Rightarrow> tmp \<noteq> path \<and> d tmp = None)"

lemma writeAtomic_not_Nil [simp]: "writeAtomic io dir path data d = (r, ds) \<Longrightarrow> ds \<noteq> []"
  by (auto simp: writeAtomic_def Let_def split: sum.splits option.splits)

lemma writeAtomic_old_or_new:
  assumes "fresh_temp io path d" and "writeAtomic io (Dir path) path data d = (r, ds)" and "d' \<in> set ds"
  shows "d' path = d path \<or> d' path = Some data"
  using assms
  by (auto simp: writeAtomic_def fresh_temp_def remove_temp_def Let_def split: sum.splits option.splits)

lemma writeAtomic_ok:
  assumes "fresh_temp io path d" and "writeAtomic io (Dir path) path data d = (None, ds)"
  shows "last ds path = Some data" and "q \<noteq> path \<Longrightarrow> last ds q = d q"
  using assms
  by (auto simp: writeAtomic_def fresh_temp_def Let_def split: sum.splits option.splits)

text \<open>An error leaves the old content in place unless only the final directory sync failed.\<close>

lemma writeAtomic_error:
  assumes "fresh_temp io path d" and "writeAtomic io (Dir path) path data d = (Some e, ds)"
    and "last ds path \<noteq> d path"
  shows "wr_rename io = None \<and> syncDir io = Some e \<and> last ds path = Some data"
  using assms
  by (auto simp: writeAtomic_def fresh_temp_def remove_temp_def Let_def split: sum.splits option.splits)

lemma writeAtomic_no_leftover:
  assumes "fresh_temp io path d" and "writeAtomic io (Dir path) path data d = (r, ds)"
    and "wr_remove io = None" and "q \<noteq> path"
  shows "last ds q = d q"
  using assms
  by (auto simp: writeAtomic_def fresh_temp_def remove_temp_def Let_def split: sum.splits option.splits)

lemma Save_ds_not_Nil [simp]: "Save io st s d = (r, ds) \<Longrightarrow> ds \<noteq> []"
  by (auto simp: Save_def Let_def split: if_splits option.splits prod.splits)

text \<open>Where Save gets past its checks it is writeAtomic on the encoding.\<close>

lemma Save_cases:
  assumes "Save io st s d = (r, ds)"
  obtains (unchanged) "r \<noteq> None" "ds = [d]"
  | (written) m r' where "s = Some m" "sto_loaded st" "length (encode_state m) \<le> MaxStateFileSize"
      "writeAtomic io (Dir (sto_path st)) (sto_path st) (encode_state m) d = (r', ds)"
      "r = map_option (\<lambda>e. Errorf ''write state'' [e]) r'"
  using assms
  by (auto simp: Save_def Let_def split: if_splits option.splits prod.splits)

lemma Save_not_loaded: "\<not> sto_loaded st \<Longrightarrow> Save io st s d = (r, ds) \<Longrightarrow> ds = [d] \<and> r \<noteq> None"
  by (auto simp: Save_def)

lemma Save_None:
  assumes "fresh_temp io (sto_path st) d" and "Save io st (Some m) d = (None, ds)"
  shows "last ds (sto_path st) = Some (encode_state m)" and "length (encode_state m) \<le> MaxStateFileSize"
    and "sto_loaded st"
  using assms(2)
  by (cases rule: Save_cases; use assms(1) writeAtomic_ok in force)+

lemma Save_too_large_iff:
  "errors_As as_TooLargeError e = Some (n, l) \<and> Save io st (Some m) d = (Some e, ds) \<and>
     length (encode_state m) > MaxStateFileSize \<and> sto_loaded st \<Longrightarrow>
   n = int (length (encode_state m)) \<and> l = int MaxStateFileSize \<and> ds = [d]"
  by (auto simp: Save_def Let_def as_defs)

lemma Save_too_large:
  "sto_loaded st \<Longrightarrow> length (encode_state m) > MaxStateFileSize \<Longrightarrow>
   Save io st (Some m) d =
     (Some (TooLargeError (int (length (encode_state m))) (int MaxStateFileSize) (sto_path st)), [d])"
  by (simp add: Save_def Let_def)

section \<open>A store over time\<close>

datatype store_op = OpLoad ReadIO | OpSave WriteIO "State option"

fun store_step :: "(string \<Rightarrow> envelope res) \<Rightarrow> store_op \<Rightarrow> Store \<times> disk \<Rightarrow> Store \<times> disk" where
  "store_step unmarshal (OpLoad io) (st, d) = (snd (Load unmarshal io st d), d)"
| "store_step unmarshal (OpSave io s) (st, d) = (st, last (snd (Save io st s d)))"

definition store_run :: "(string \<Rightarrow> envelope res) \<Rightarrow> store_op list \<Rightarrow> Store \<times> disk \<Rightarrow> Store \<times> disk" where
  "store_run unmarshal ops sd = foldl (\<lambda>s op. store_step unmarshal op s) sd ops"

text \<open>The file exists and Load would reject it: too large, not JSON, or of another version.\<close>

definition rejected :: "(string \<Rightarrow> envelope res) \<Rightarrow> string \<Rightarrow> disk \<Rightarrow> bool" where
  "rejected unmarshal path d \<longleftrightarrow>
     (case d path of
        None \<Rightarrow> False
      | Some c \<Rightarrow>
          length c > MaxStateFileSize \<or>
          (case unmarshal c of
             Inl e \<Rightarrow> True
           | Inr env \<Rightarrow> env_Version env < oldestReadableVersion \<or> env_Version env > Version))"

text \<open>Opening an existing file does not report that it does not exist.\<close>

definition honest_open :: "store_op \<Rightarrow> bool" where
  "honest_open op =
     (case op of
        OpLoad io \<Rightarrow>
          (case rd_open io of None \<Rightarrow> True | Some e \<Rightarrow> \<not> errors_Is e (S_std ErrNotExist)) \<and>
          (case rd_read io of None \<Rightarrow> True | Some e \<Rightarrow> \<not> errors_Is e (S_std ErrNotExist))
      | OpSave io s \<Rightarrow> True)"

lemma Load_rejected:
  assumes "rejected unmarshal (sto_path st) d" and "honest_open (OpLoad io)"
  shows "\<exists>e. Load unmarshal io st d = (Err e, st\<lparr>sto_loaded := False\<rparr>)"
  using assms
  by (auto simp: rejected_def honest_open_def Load_def readBounded_def Let_def
      split: option.splits sum.splits if_splits)

lemma Load_path [simp]: "sto_path (snd (Load unmarshal io st d)) = sto_path st"
  by (auto simp: Load_def Let_def split: sum.splits)

lemma Load_loaded_iff: "sto_loaded (snd (Load unmarshal io st d)) \<longleftrightarrow> is_ok (fst (Load unmarshal io st d))"
  by (auto simp: Load_def Let_def split: sum.splits)

lemma store_run_rejected:
  assumes "rejected unmarshal (sto_path st) d" and "\<not> sto_loaded st" and "list_all honest_open ops"
  shows "snd (store_run unmarshal ops (st, d)) = d"
  using assms
proof (induction ops arbitrary: st)
  case Nil
  show ?case by (simp add: store_run_def)
next
  case (Cons op ops)
  have run: "store_run unmarshal (op # ops) (st, d) = store_run unmarshal ops (store_step unmarshal op (st, d))"
    by (simp add: store_run_def)
  show ?case
  proof (cases op)
    case (OpLoad io)
    then have "honest_open (OpLoad io)" using Cons.prems(3) by simp
    with Cons.prems(1) obtain e where "Load unmarshal io st d = (Err e, st\<lparr>sto_loaded := False\<rparr>)"
      using Load_rejected by blast
    then show ?thesis using Cons OpLoad run by simp
  next
    case (OpSave io s)
    obtain r ds where sv: "Save io st s d = (r, ds)" by fastforce
    with Cons.prems(2) have "ds = [d]" using Save_not_loaded by blast
    then show ?thesis using Cons OpSave run sv by simp
  qed
qed

end
