(* ===== verification/GoHeap.thy ===== *)
theory GoHeap
  imports Prelude "HOL-Library.Multiset"
begin

text \<open>
  The part of container/heap the eviction plan uses, over a list standing for the slice
  behind the heap.Interface: up, down, Init, Fix and Pop, index by index as the package
  has them. The order is an argument; the locale heap_order states what Less must satisfy
  and holds the lemmas: the operations rearrange the elements and restore the heap order,
  so the first element is a least one.
\<close>

section \<open>The operations\<close>

definition heap_swap :: "'a list \<Rightarrow> nat \<Rightarrow> nat \<Rightarrow> 'a list" where
  "heap_swap xs i j = xs[i := xs ! j, j := xs ! i]"

text \<open>Go's (j - 1) / 2 is 0 for j = 0, as here.\<close>

definition parent :: "nat \<Rightarrow> nat" where
  "parent j = (j - 1) div 2"

lemma parent_less: "j \<noteq> 0 \<Longrightarrow> parent j < j"
  by (simp add: parent_def)

lemma parent_neq: "parent j \<noteq> j \<Longrightarrow> parent j < j"
  by (cases "j = 0") (simp_all add: parent_def)

function heap_up :: "('a \<Rightarrow> 'a \<Rightarrow> bool) \<Rightarrow> 'a list \<Rightarrow> nat \<Rightarrow> 'a list" where
  "heap_up lt xs j =
     (let i = parent j in
      if i = j \<or> \<not> lt (xs ! j) (xs ! i) then xs else heap_up lt (heap_swap xs i j) i)"
  by pat_completeness auto
termination
  by (relation "measure (\<lambda>(lt, xs, j). j)") (auto simp: parent_neq)

text \<open>The child down compares with: the second one when it exists and is less.\<close>

definition least_child :: "('a \<Rightarrow> 'a \<Rightarrow> bool) \<Rightarrow> 'a list \<Rightarrow> nat \<Rightarrow> nat \<Rightarrow> nat" where
  "least_child lt xs i n =
     (let j1 = 2 * i + 1; j2 = j1 + 1 in if j2 < n \<and> lt (xs ! j2) (xs ! j1) then j2 else j1)"

text \<open>down returns the slice and the index it stopped at; the source's result is whether it moved.\<close>

function heap_down :: "('a \<Rightarrow> 'a \<Rightarrow> bool) \<Rightarrow> 'a list \<Rightarrow> nat \<Rightarrow> nat \<Rightarrow> 'a list \<times> nat" where
  "heap_down lt xs i n =
     (if 2 * i + 1 \<ge> n then (xs, i)
      else
        (let j = least_child lt xs i n in
         if \<not> lt (xs ! j) (xs ! i) then (xs, i) else heap_down lt (heap_swap xs i j) j n))"
  by pat_completeness auto
termination
  by (relation "measure (\<lambda>(lt, xs, i, n). n - i)") (auto simp: least_child_def Let_def)

declare heap_up.simps [simp del] heap_down.simps [simp del]

definition heap_init :: "('a \<Rightarrow> 'a \<Rightarrow> bool) \<Rightarrow> 'a list \<Rightarrow> 'a list" where
  "heap_init lt xs =
     (let n = length xs in foldl (\<lambda>ys i. fst (heap_down lt ys i n)) xs (rev [0..<n div 2]))"

definition heap_fix :: "('a \<Rightarrow> 'a \<Rightarrow> bool) \<Rightarrow> 'a list \<Rightarrow> nat \<Rightarrow> 'a list" where
  "heap_fix lt xs i =
     (case heap_down lt xs i (length xs) of (ys, k) \<Rightarrow> if k > i then ys else heap_up lt ys i)"

text \<open>Pop swaps the first element to the end, sifts down the rest and cuts the end off.\<close>

definition heap_pop :: "('a \<Rightarrow> 'a \<Rightarrow> bool) \<Rightarrow> 'a list \<Rightarrow> 'a list" where
  "heap_pop lt xs =
     (let n = length xs - 1 in butlast (fst (heap_down lt (heap_swap xs 0 n) 0 n)))"

section \<open>Rearrangement\<close>

lemma length_heap_swap [simp]: "length (heap_swap xs i j) = length xs"
  by (simp add: heap_swap_def)

lemma nth_heap_swap:
  "i < length xs \<Longrightarrow> j < length xs \<Longrightarrow> k < length xs \<Longrightarrow>
   heap_swap xs i j ! k = (if k = j then xs ! i else if k = i then xs ! j else xs ! k)"
  by (simp add: heap_swap_def nth_list_update)

lemma mset_heap_swap: "i < length xs \<Longrightarrow> j < length xs \<Longrightarrow> mset (heap_swap xs i j) = mset xs"
  by (simp add: heap_swap_def mset_swap)

lemma least_child_bounds:
  "2 * i + 1 < n \<Longrightarrow> i < least_child lt xs i n \<and> least_child lt xs i n < n \<and> parent (least_child lt xs i n) = i"
  by (auto simp: least_child_def Let_def parent_def)

lemma child_cases: "k \<noteq> 0 \<Longrightarrow> parent k = i \<Longrightarrow> k = 2 * i + 1 \<or> k = 2 * i + 2"
  by (auto simp: parent_def)

lemma heap_down_mset:
  "n \<le> length xs \<Longrightarrow> mset (fst (heap_down lt xs i n)) = mset xs \<and> length (fst (heap_down lt xs i n)) = length xs"
proof (induction lt xs i n rule: heap_down.induct)
  case (1 lt xs i n)
  let ?j = "least_child lt xs i n"
  show ?case
  proof (cases "2 * i + 1 \<ge> n \<or> \<not> lt (xs ! ?j) (xs ! i)")
    case True
    then show ?thesis by (auto simp: heap_down.simps [of lt xs i n] Let_def)
  next
    case False
    then have b: "i < ?j" "?j < n" using least_child_bounds [of i n lt xs] by auto
    have "mset (heap_swap xs i ?j) = mset xs"
      using b "1.prems" by (intro mset_heap_swap) auto
    with "1.IH" [OF _ refl] False "1.prems" show ?thesis
      by (simp add: heap_down.simps [of lt xs i n] Let_def)
  qed
qed

lemma heap_down_stop: "i \<le> snd (heap_down lt xs i n)"
proof (induction lt xs i n rule: heap_down.induct)
  case (1 lt xs i n)
  let ?j = "least_child lt xs i n"
  show ?case
  proof (cases "2 * i + 1 \<ge> n \<or> \<not> lt (xs ! ?j) (xs ! i)")
    case True
    then show ?thesis by (auto simp: heap_down.simps [of lt xs i n] Let_def)
  next
    case False
    then have "i < ?j" using least_child_bounds [of i n lt xs] by auto
    with "1.IH" [OF _ refl] False show ?thesis
      by (simp add: heap_down.simps [of lt xs i n] Let_def)
  qed
qed

text \<open>Nothing moved when it stopped where it started, and nothing at n or above moves at all.\<close>

lemma heap_down_unmoved: "snd (heap_down lt xs i n) = i \<Longrightarrow> fst (heap_down lt xs i n) = xs"
proof (cases "2 * i + 1 \<ge> n \<or> \<not> lt (xs ! least_child lt xs i n) (xs ! i)")
  case True
  then show ?thesis by (auto simp: heap_down.simps [of lt xs i n] Let_def)
next
  case False
  let ?j = "least_child lt xs i n"
  have "i < ?j" using False least_child_bounds [of i n lt xs] by auto
  also have "?j \<le> snd (heap_down lt (heap_swap xs i ?j) ?j n)" by (rule heap_down_stop)
  finally have "i < snd (heap_down lt xs i n)"
    using False by (simp add: heap_down.simps [of lt xs i n] Let_def)
  then show "snd (heap_down lt xs i n) = i \<Longrightarrow> fst (heap_down lt xs i n) = xs" by simp
qed

lemma heap_down_above: "n \<le> k \<Longrightarrow> k < length xs \<Longrightarrow> fst (heap_down lt xs i n) ! k = xs ! k"
proof (induction lt xs i n rule: heap_down.induct)
  case (1 lt xs i n)
  let ?j = "least_child lt xs i n"
  show ?case
  proof (cases "2 * i + 1 \<ge> n \<or> \<not> lt (xs ! ?j) (xs ! i)")
    case True
    then show ?thesis by (auto simp: heap_down.simps [of lt xs i n] Let_def)
  next
    case False
    then have b: "i < ?j" "?j < n" using least_child_bounds [of i n lt xs] by auto
    then have "heap_swap xs i ?j ! k = xs ! k"
      using "1.prems" by (subst nth_heap_swap) auto
    with "1.IH" [OF _ refl] False "1.prems" show ?thesis
      by (simp add: heap_down.simps [of lt xs i n] Let_def)
  qed
qed

lemma heap_up_mset:
  "j < length xs \<Longrightarrow> mset (heap_up lt xs j) = mset xs \<and> length (heap_up lt xs j) = length xs"
proof (induction lt xs j rule: heap_up.induct)
  case (1 lt xs j)
  show ?case
  proof (cases "parent j = j \<or> \<not> lt (xs ! j) (xs ! parent j)")
    case True
    then show ?thesis by (auto simp: heap_up.simps [of lt xs j] Let_def)
  next
    case False
    then have p: "parent j < j" by (simp add: parent_neq)
    have "mset (heap_swap xs (parent j) j) = mset xs"
      using p "1.prems" by (intro mset_heap_swap) auto
    with "1.IH" [OF refl] False p "1.prems" show ?thesis
      by (simp add: heap_up.simps [of lt xs j] Let_def)
  qed
qed

section \<open>The heap order\<close>

text \<open>Every element below n whose parent is at lo or above is not less than its parent.\<close>

definition ordered_from :: "('a \<Rightarrow> 'a \<Rightarrow> bool) \<Rightarrow> nat \<Rightarrow> nat \<Rightarrow> 'a list \<Rightarrow> bool" where
  "ordered_from lt lo n xs \<longleftrightarrow> (\<forall>k < n. 0 < k \<and> lo \<le> parent k \<longrightarrow> \<not> lt (xs ! k) (xs ! parent k))"

lemma ordered_from_cong:
  assumes "\<And>k. k < n \<Longrightarrow> xs ! k = ys ! k"
  shows "ordered_from lt lo n xs \<longleftrightarrow> ordered_from lt lo n ys"
proof -
  have "xs ! k = ys ! k \<and> xs ! parent k = ys ! parent k" if "k < n" "0 < k" for k
    using that assms parent_less [of k] by simp
  then show ?thesis by (auto simp: ordered_from_def)
qed

text \<open>The same, except below i, where only the parent of i bounds the children.\<close>

definition ordered_except :: "('a \<Rightarrow> 'a \<Rightarrow> bool) \<Rightarrow> nat \<Rightarrow> nat \<Rightarrow> nat \<Rightarrow> 'a list \<Rightarrow> bool" where
  "ordered_except lt lo i n xs \<longleftrightarrow>
     (\<forall>k < n. 0 < k \<and> lo \<le> parent k \<and> parent k \<noteq> i \<longrightarrow> \<not> lt (xs ! k) (xs ! parent k)) \<and>
     (\<forall>k < n. 0 < k \<and> parent k = i \<and> 0 < i \<and> lo \<le> parent i \<longrightarrow> \<not> lt (xs ! k) (xs ! parent i))"

text \<open>The same, except at j itself.\<close>

definition ordered_but :: "('a \<Rightarrow> 'a \<Rightarrow> bool) \<Rightarrow> nat \<Rightarrow> 'a list \<Rightarrow> bool" where
  "ordered_but lt j xs \<longleftrightarrow>
     (\<forall>k < length xs. 0 < k \<and> k \<noteq> j \<longrightarrow> \<not> lt (xs ! k) (xs ! parent k)) \<and>
     (\<forall>k < length xs. 0 < k \<and> parent k = j \<and> 0 < j \<longrightarrow> \<not> lt (xs ! k) (xs ! parent j))"

locale heap_order =
  fixes lt :: "'a \<Rightarrow> 'a \<Rightarrow> bool"
  assumes lt_trans: "lt x y \<Longrightarrow> lt y z \<Longrightarrow> lt x z"
    and lt_asym: "lt x y \<Longrightarrow> \<not> lt y x"
    and lt_neg_trans: "\<not> lt x y \<Longrightarrow> \<not> lt y z \<Longrightarrow> \<not> lt x z"
begin

lemma least_child_least:
  assumes "2 * i + 1 < n" and "k < n" and "0 < k" and "parent k = i"
  shows "\<not> lt (xs ! k) (xs ! least_child lt xs i n)"
proof -
  have "k = 2 * i + 1 \<or> k = 2 * i + 2" using assms by (intro child_cases) auto
  moreover have irrefl: "\<not> lt x x" for x using lt_asym by blast
  ultimately show ?thesis using assms(2) lt_asym by (auto simp: least_child_def Let_def)
qed

lemma heap_down_orders:
  "lo \<le> i \<Longrightarrow> n \<le> length xs \<Longrightarrow> ordered_except lt lo i n xs \<Longrightarrow>
   ordered_from lt lo n (fst (heap_down lt xs i n))"
proof (induction "n - i" arbitrary: xs i rule: less_induct)
  case less
  let ?j = "least_child lt xs i n"
  consider (leaf) "2 * i + 1 \<ge> n" | (stop) "2 * i + 1 < n" "\<not> lt (xs ! ?j) (xs ! i)"
    | (move) "2 * i + 1 < n" "lt (xs ! ?j) (xs ! i)" by linarith
  then show ?case
  proof cases
    case leaf
    have "parent k \<noteq> i" if "k < n" "0 < k" for k
      using child_cases [of k i] that leaf by auto
    with less.prems leaf show ?thesis
      by (simp add: heap_down.simps [of lt xs i n] ordered_from_def ordered_except_def)
  next
    case stop
    have "\<not> lt (xs ! k) (xs ! i)" if "k < n" "0 < k" "parent k = i" for k
      using least_child_least [OF stop(1) that] stop(2) lt_neg_trans by blast
    with less.prems stop show ?thesis
      by (auto simp: heap_down.simps [of lt xs i n] ordered_from_def ordered_except_def)
  next
    case move
    define ys where "ys = heap_swap xs i ?j"
    have j: "i < ?j" "?j < n" "parent ?j = i" using least_child_bounds [OF move(1)] by auto
    have nth: "ys ! k = (if k = ?j then xs ! i else if k = i then xs ! ?j else xs ! k)" if "k < n" for k
      using that j less.prems(2) by (simp add: ys_def nth_heap_swap)
    have pl: "parent k < k" if "0 < k" for k using that by (simp add: parent_less)
    have "ordered_except lt lo ?j n ys"
      unfolding ordered_except_def
    proof (intro conjI allI impI; elim conjE)
      fix k assume k: "k < n" "0 < k" "lo \<le> parent k" "parent k \<noteq> ?j"
      show "\<not> lt (ys ! k) (ys ! parent k)"
      proof (cases "parent k = i")
        case True
        then show ?thesis
          using k j pl [of k] nth [of k] nth [of i] move(2) lt_asym
            least_child_least [OF move(1) k(1,2) True] by (cases "k = ?j") auto
      next
        case False
        then have "k \<noteq> ?j" using j by auto
        then show ?thesis
          using less.prems(3) k False j pl [of k] nth [of k] nth [of "parent k"]
          by (cases "k = i") (auto simp: ordered_except_def)
      qed
    next
      fix k assume k: "k < n" "0 < k" "parent k = ?j" "0 < ?j" "lo \<le> parent ?j"
      then have "\<not> lt (xs ! k) (xs ! ?j)"
        using less.prems(1,3) j by (auto simp: ordered_except_def)
      then show "\<not> lt (ys ! k) (ys ! parent ?j)"
        using k j pl [of k] nth [of k] nth [of i] by auto
    qed
    then have "ordered_from lt lo n (fst (heap_down lt ys ?j n))"
      using less.prems j by (intro less.hyps) (auto simp: ys_def)
    with move show ?thesis
      by (simp add: heap_down.simps [of lt xs i n] Let_def ys_def)
  qed
qed

lemma heap_up_orders:
  "j < length xs \<Longrightarrow> ordered_but lt j xs \<Longrightarrow> ordered_from lt 0 (length xs) (heap_up lt xs j)"
proof (induction j arbitrary: xs rule: less_induct)
  case (less j)
  let ?i = "parent j"
  show ?case
  proof (cases "?i = j \<or> \<not> lt (xs ! j) (xs ! ?i)")
    case True
    have "\<not> 0 < j \<or> \<not> lt (xs ! j) (xs ! ?i)" using True parent_less [of j] by auto
    then show ?thesis
      using less.prems True
      by (auto simp: heap_up.simps [of lt xs j] Let_def ordered_from_def ordered_but_def)
  next
    case False
    define ys where "ys = heap_swap xs ?i j"
    have i: "?i < j" using False by (simp add: parent_neq)
    have nth: "ys ! k = (if k = j then xs ! ?i else if k = ?i then xs ! j else xs ! k)"
      if "k < length xs" for k
      using that i less.prems(1) by (simp add: ys_def nth_heap_swap)
    have pl: "parent k < k" if "0 < k" for k using that by (simp add: parent_less)
    have ok: "\<not> lt (xs ! k) (xs ! parent k)" if "k < length xs" "0 < k" "k \<noteq> j" for k
      using less.prems(2) that by (auto simp: ordered_but_def)
    have grand: "\<not> lt (xs ! k) (xs ! ?i)" if "k < length xs" "0 < k" "parent k = j" for k
      using less.prems(2) that i by (auto simp: ordered_but_def)
    have "ordered_but lt ?i ys"
      unfolding ordered_but_def
    proof (intro conjI allI impI; elim conjE)
      fix k assume k: "k < length ys" "0 < k" "k \<noteq> ?i"
      then have k': "k < length xs" by (simp add: ys_def)
      have yk: "ys ! k = (if k = j then xs ! ?i else xs ! k)" using nth [OF k'] k(3) by simp
      have yp: "ys ! parent k = (if parent k = j then xs ! ?i else if parent k = ?i then xs ! j else xs ! parent k)"
        using nth [of "parent k"] pl [OF k(2)] k' by simp
      have swapped: "lt (xs ! j) (xs ! ?i)" using False by simp
      consider (same) "k = j" | (sibling) "k \<noteq> j" "parent k = ?i" | (below) "k \<noteq> j" "parent k = j"
        | (other) "k \<noteq> j" "parent k \<noteq> ?i" "parent k \<noteq> j" by blast
      then show "\<not> lt (ys ! k) (ys ! parent k)"
      proof cases
        case same
        then show ?thesis using yk yp i lt_asym [OF swapped] by simp
      next
        case sibling
        have "\<not> lt (xs ! k) (xs ! j)"
          using ok [OF k' k(2) sibling(1)] sibling(2) lt_trans [OF _ swapped] by auto
        then show ?thesis using yk yp sibling i by simp
      next
        case below
        then show ?thesis using yk yp grand [OF k' k(2)] by simp
      next
        case other
        then show ?thesis using yk yp ok [OF k' k(2)] by simp
      qed
    next
      fix k assume k: "k < length ys" "0 < k" "parent k = ?i" "0 < ?i"
      then have k': "k < length xs" by (simp add: ys_def)
      have up: "\<not> lt (xs ! ?i) (xs ! parent ?i)"
        using ok [of ?i] i k(4) less.prems(1) by simp
      show "\<not> lt (ys ! k) (ys ! parent ?i)"
        using k k' i up nth [OF k'] nth [of "parent ?i"] pl [of k] pl [of ?i] ok [OF k' k(2)] lt_neg_trans
          less.prems(1)
        by (cases "k = j") auto
    qed
    then have "ordered_from lt 0 (length ys) (heap_up lt ys ?i)"
      using i less.prems(1) by (intro less.IH) (auto simp: ys_def)
    with False show ?thesis
      by (simp add: heap_up.simps [of lt xs j] Let_def ys_def)
  qed
qed

text \<open>In an ordered list no element is less than the first.\<close>

lemma ordered_first:
  "ordered_from lt 0 n xs \<Longrightarrow> k < n \<Longrightarrow> \<not> lt (xs ! k) (xs ! 0)"
proof (induction k rule: less_induct)
  case (less k)
  show ?case
  proof (cases "k = 0")
    case True
    then show ?thesis using lt_asym by blast
  next
    case False
    then have p: "parent k < k" by (rule parent_less)
    with less have "\<not> lt (xs ! parent k) (xs ! 0)" by simp
    moreover have "\<not> lt (xs ! k) (xs ! parent k)"
      using less.prems False by (simp add: ordered_from_def)
    ultimately show ?thesis using lt_neg_trans by blast
  qed
qed

lemma ordered_except_of_from:
  "ordered_from lt (Suc i) n xs \<Longrightarrow> ordered_except lt i i n xs"
  unfolding ordered_from_def ordered_except_def
proof (intro conjI allI impI; elim conjE)
  fix k assume "\<forall>k < n. 0 < k \<and> Suc i \<le> parent k \<longrightarrow> \<not> lt (xs ! k) (xs ! parent k)"
    and "k < n" "0 < k" "i \<le> parent k" "parent k \<noteq> i"
  then show "\<not> lt (xs ! k) (xs ! parent k)" by simp
next
  fix k assume "0 < i" "i \<le> parent i"
  then show "\<not> lt (xs ! k) (xs ! parent i)" using parent_less [of i] by simp
qed

lemma heap_init_orders: "ordered_from lt 0 (length xs) (heap_init lt xs)"
proof -
  let ?n = "length xs"
  let ?f = "\<lambda>ys i. fst (heap_down lt ys i ?n)"
  have "m \<le> ?n div 2 \<Longrightarrow>
      ordered_from lt (?n div 2 - m) ?n (foldl ?f xs (take m (rev [0..<?n div 2]))) \<and>
      length (foldl ?f xs (take m (rev [0..<?n div 2]))) = ?n" for m
  proof (induction m)
    case 0
    have "\<not> (k < ?n \<and> 0 < k \<and> ?n div 2 \<le> parent k)" for k by (auto simp: parent_def)
    then show ?case by (auto simp: ordered_from_def)
  next
    case (Suc m)
    define i where "i = ?n div 2 - Suc m"
    define ys where "ys = foldl ?f xs (take m (rev [0..<?n div 2]))"
    have i: "?n div 2 - m = Suc i" using Suc.prems by (simp add: i_def)
    have "rev [0..<?n div 2] ! m = i" using Suc.prems by (simp add: rev_nth i_def)
    then have step: "foldl ?f xs (take (Suc m) (rev [0..<?n div 2])) = ?f ys i"
      using Suc.prems by (simp add: take_Suc_conv_app_nth ys_def)
    have "ordered_from lt (Suc i) ?n ys" and len: "length ys = ?n"
      using Suc i by (simp_all add: ys_def)
    then have "ordered_from lt i ?n (?f ys i)"
      by (intro heap_down_orders ordered_except_of_from) simp_all
    moreover have "length (?f ys i) = ?n" using heap_down_mset [of ?n ys lt i] len by simp
    ultimately show ?case using step by (simp add: i_def)
  qed
  from this [of "?n div 2"] show ?thesis by (simp add: heap_init_def Let_def)
qed

lemma heap_fix_root:
  assumes "xs \<noteq> []" and "ordered_except lt 0 0 (length xs) xs"
  shows "ordered_from lt 0 (length xs) (heap_fix lt xs 0) \<and> mset (heap_fix lt xs 0) = mset xs"
proof -
  obtain ys k where d: "heap_down lt xs 0 (length xs) = (ys, k)" by fastforce
  have o: "ordered_from lt 0 (length xs) ys"
    using heap_down_orders [of 0 0 "length xs" xs] assms(2) d by simp
  have m: "mset ys = mset xs \<and> length ys = length xs"
    using heap_down_mset [of "length xs" xs lt 0] d by simp
  have up: "heap_up lt ys 0 = ys"
    by (simp add: heap_up.simps [of lt ys 0] parent_def)
  show ?thesis using o m up by (simp add: heap_fix_def d)
qed

lemma heap_pop_root:
  assumes "xs \<noteq> []" and "ordered_except lt 0 0 (length xs) xs"
  shows "ordered_from lt 0 (length xs - 1) (heap_pop lt xs) \<and> mset (heap_pop lt xs) = mset xs - {#xs ! 0#}"
proof -
  let ?n = "length xs - 1"
  define ys where "ys = heap_swap xs 0 ?n"
  define zs where "zs = fst (heap_down lt ys 0 ?n)"
  have n: "?n < length xs" using assms(1) by (simp add: length_greater_0_conv)
  have ylen: "length ys = length xs" by (simp add: ys_def)
  have nth: "ys ! k = xs ! k" if "k < ?n" "0 < k" for k
    using that n assms(1) by (simp add: ys_def nth_heap_swap)
  have "ordered_except lt 0 0 ?n ys"
    unfolding ordered_except_def
  proof (intro conjI allI impI; elim conjE)
    fix k assume k: "k < ?n" "0 < k" "parent k \<noteq> 0"
    then have "parent k < ?n" using parent_less [of k] by simp
    then have "ys ! k = xs ! k" "ys ! parent k = xs ! parent k" using k nth by simp_all
    then show "\<not> lt (ys ! k) (ys ! parent k)"
      using assms(2) k by (simp add: ordered_except_def)
  qed simp
  then have oz: "ordered_from lt 0 ?n zs"
    unfolding zs_def by (intro heap_down_orders) (simp_all add: ylen)
  have mz: "mset zs = mset xs \<and> length zs = length xs"
    using heap_down_mset [of ?n ys lt 0] mset_heap_swap [of 0 xs ?n] n ylen assms(1)
    by (simp add: zs_def ys_def)
  have "zs ! ?n = ys ! ?n" using heap_down_above [of ?n ?n ys lt 0] n ylen by (simp add: zs_def)
  also have "\<dots> = xs ! 0" using n assms(1) by (simp add: ys_def nth_heap_swap)
  finally have "last zs = xs ! 0" using mz n by (metis last_conv_nth list.size(3) not_less_zero)
  moreover have "zs \<noteq> []" using mz assms(1) by (metis length_0_conv)
  ultimately have "mset (butlast zs) = mset xs - {#xs ! 0#}"
    using mz by (metis add_mset_remove_trivial append_butlast_last_id mset_append mset.simps union_mset_add_mset_right add_0_right)
  moreover have "ordered_from lt 0 ?n (butlast zs)"
    using oz mz by (subst ordered_from_cong [of ?n _ zs]) (simp_all add: nth_butlast)
  moreover have "heap_pop lt xs = butlast zs" by (simp add: heap_pop_def Let_def zs_def ys_def)
  ultimately show ?thesis by simp
qed

lemma heap_init_mset: "mset (heap_init lt xs) = mset xs \<and> length (heap_init lt xs) = length xs"
proof -
  have "mset (foldl (\<lambda>ys i. fst (heap_down lt ys i (length xs))) ys is) = mset ys \<and>
      length (foldl (\<lambda>ys i. fst (heap_down lt ys i (length xs))) ys is) = length ys"
    if "length ys = length xs" for ys "is"
    using that
  proof (induction "is" arbitrary: ys)
    case (Cons i "is")
    then show ?case using heap_down_mset [of "length xs" ys lt i] by simp
  qed simp
  from this [of xs] show ?thesis by (simp add: heap_init_def Let_def)
qed

end

end
