(* ===== verification/Plan.thy ===== *)
theory Plan
  imports Store GoHeap
begin

text \<open>
  The eviction plan of internal/review/review.go: a heap of the workflows that still have
  history, heaviest first. The locale eviction_plan is the interface saveEvictingHistory
  relies on: a plan is a finite map from keys to weights, largest names a heaviest key
  (ties by key), shrink takes weight off it. It is interpreted on the code's heap.
\<close>

section \<open>The code's plan\<close>

record evictionCandidate =
  ec_key :: string
  ec_bytes :: int

type_synonym evictionPlan = "evictionCandidate list"

definition plan_Less :: "evictionCandidate \<Rightarrow> evictionCandidate \<Rightarrow> bool" where
  "plan_Less a b =
     (if ec_bytes a \<noteq> ec_bytes b then ec_bytes a > ec_bytes b else ec_key a < ec_key b)"

fun record_sum :: "(HistoryRecord \<Rightarrow> int) \<Rightarrow> HistoryRecord list \<Rightarrow> int" where
  "record_sum recordBytes [] = 0"
| "record_sum recordBytes (r # rs) = recordBytes r + record_sum recordBytes rs"

fun plan_items :: "(HistoryRecord \<Rightarrow> int) \<Rightarrow> State \<Rightarrow> evictionCandidate list" where
  "plan_items recordBytes [] = []"
| "plan_items recordBytes ((k, w) # st) =
     (if wf_History w = [] then plan_items recordBytes st
      else \<lparr>ec_key = k, ec_bytes = record_sum recordBytes (wf_History w)\<rparr> # plan_items recordBytes st)"

definition newEvictionPlan :: "(HistoryRecord \<Rightarrow> int) \<Rightarrow> State \<Rightarrow> evictionPlan" where
  "newEvictionPlan recordBytes st = heap_init plan_Less (plan_items recordBytes st)"

definition largest :: "evictionPlan \<Rightarrow> string option" where
  "largest p = (case p of [] \<Rightarrow> None | c # cs \<Rightarrow> Some (ec_key c))"

text \<open>shrink indexes the first item: None is the panic on an empty plan.\<close>

definition shrink :: "int \<Rightarrow> evictionPlan \<Rightarrow> evictionPlan option" where
  "shrink n p =
     (case p of
        [] \<Rightarrow> None
      | c # cs \<Rightarrow>
          (let c' = c\<lparr>ec_bytes := ec_bytes c - n\<rparr> in
           if ec_bytes c' \<le> 0 then Some (heap_pop plan_Less (c' # cs))
           else Some (heap_fix plan_Less (c' # cs) 0)))"

section \<open>The interface\<close>

definition heaviest_key :: "(string \<rightharpoonup> int) \<Rightarrow> string \<Rightarrow> bool" where
  "heaviest_key m k \<longleftrightarrow>
     (\<exists>b. m k = Some b \<and> (\<forall>k' b'. m k' = Some b' \<longrightarrow> b' < b \<or> (b' = b \<and> k \<le> k')))"

definition weigh_down :: "string \<Rightarrow> int \<Rightarrow> (string \<rightharpoonup> int) \<Rightarrow> (string \<rightharpoonup> int)" where
  "weigh_down k n m = (case m k of None \<Rightarrow> m | Some b \<Rightarrow> if b - n \<le> 0 then m(k := None) else m(k \<mapsto> b - n))"

lemma heaviest_key_unique: "heaviest_key m k \<Longrightarrow> heaviest_key m k' \<Longrightarrow> k = k'"
  unfolding heaviest_key_def by (metis order_antisym order_less_asym order_less_irrefl)

text \<open>The weights a state has: the sum over its history of every workflow that has one.\<close>

definition history_weights :: "(HistoryRecord \<Rightarrow> int) \<Rightarrow> State \<Rightarrow> string \<rightharpoonup> int" where
  "history_weights recordBytes st =
     (\<lambda>k. case map_of st k of None \<Rightarrow> None
          | Some w \<Rightarrow> if wf_History w = [] then None else Some (record_sum recordBytes (wf_History w)))"

text \<open>The same choice without a heap: a scan for the heaviest workflow, ties by key.\<close>

fun heaviest_entry :: "(HistoryRecord \<Rightarrow> int) \<Rightarrow> State \<Rightarrow> (string \<times> int) option" where
  "heaviest_entry recordBytes [] = None"
| "heaviest_entry recordBytes ((k, w) # st) =
     (let b = record_sum recordBytes (wf_History w) in
      case heaviest_entry recordBytes st of
        None \<Rightarrow> if wf_History w = [] then None else Some (k, b)
      | Some (k', b') \<Rightarrow>
          if wf_History w = [] \<or> b < b' \<or> (b = b' \<and> k' \<le> k) then Some (k', b') else Some (k, b))"

definition heaviest :: "(HistoryRecord \<Rightarrow> int) \<Rightarrow> State \<Rightarrow> string option" where
  "heaviest recordBytes st = map_option fst (heaviest_entry recordBytes st)"

lemma heaviest_entry_spec:
  "distinct (map fst st) \<Longrightarrow>
   (case heaviest_entry rb st of
      None \<Rightarrow> history_weights rb st = Map.empty
    | Some (k, b) \<Rightarrow> history_weights rb st k = Some b \<and>
        (\<forall>k' b'. history_weights rb st k' = Some b' \<longrightarrow> b' < b \<or> (b' = b \<and> k \<le> k')))"
proof (induction st)
  case Nil
  show ?case by (simp add: history_weights_def)
next
  case (Cons kw st)
  obtain k w where kw: "kw = (k, w)" by fastforce
  define b where "b = record_sum rb (wf_History w)"
  have "map_of st k = None" using Cons.prems kw by (simp add: map_of_eq_None_iff)
  then have fresh: "history_weights rb st k = None" by (simp add: history_weights_def)
  have upd: "history_weights rb ((k, w) # st) = (history_weights rb st)(k := if wf_History w = [] then None else Some b)"
    by (auto simp: history_weights_def b_def fun_eq_iff)
  show ?case
  proof (cases "heaviest_entry rb st")
    case None
    with Cons have "history_weights rb st = Map.empty" by simp
    with None kw show ?thesis by (auto simp: upd b_def [symmetric])
  next
    case (Some kb)
    obtain k' b' where kb: "kb = (k', b')" by fastforce
    have best: "history_weights rb st k' = Some b'"
      "\<And>k'' b''. history_weights rb st k'' = Some b'' \<Longrightarrow> b'' < b' \<or> (b'' = b' \<and> k' \<le> k'')"
      using Cons Some kb by auto
    have "k' \<noteq> k" using best(1) fresh by auto
    show ?thesis
    proof (cases "wf_History w = [] \<or> b < b' \<or> (b = b' \<and> k' \<le> k)")
      case True
      then have "heaviest_entry rb (kw # st) = Some (k', b')" using Some kb kw by (auto simp: b_def Let_def)
      then show ?thesis using best True kw \<open>k' \<noteq> k\<close> by (auto simp: upd)
    next
      case False
      then have "heaviest_entry rb (kw # st) = Some (k, b)" using Some kb kw by (auto simp: b_def Let_def)
      moreover have "b'' < b \<or> (b'' = b \<and> k \<le> k'')" if "history_weights rb st k'' = Some b''" for k'' b''
        using best(2) [OF that] False by (auto simp: not_le intro: order.strict_implies_order order_trans)
      ultimately show ?thesis using False kw by (auto simp: upd)
    qed
  qed
qed

lemma heaviest_None: "distinct (map fst st) \<Longrightarrow> heaviest rb st = None \<longleftrightarrow> history_weights rb st = Map.empty"
  using heaviest_entry_spec [of st rb] by (auto simp: heaviest_def split: option.splits)

lemma heaviest_Some: "distinct (map fst st) \<Longrightarrow> heaviest rb st = Some k \<Longrightarrow> heaviest_key (history_weights rb st) k"
  using heaviest_entry_spec [of st rb] by (auto simp: heaviest_def heaviest_key_def split: option.splits)

lemma history_weights_empty_iff:
  "history_weights rb st = Map.empty \<longleftrightarrow> (\<forall>k w. map_of st k = Some w \<longrightarrow> wf_History w = [])"
  by (auto simp: history_weights_def fun_eq_iff split: option.splits)

locale eviction_plan =
  fixes make :: "State \<Rightarrow> 'p"
    and top :: "'p \<Rightarrow> string option"
    and take_off :: "int \<Rightarrow> 'p \<Rightarrow> 'p option"
    and weights :: "'p \<Rightarrow> string \<rightharpoonup> int"
    and inv :: "'p \<Rightarrow> bool"
    and record_weight :: "HistoryRecord \<Rightarrow> int"
  assumes make_inv: "distinct (map fst st) \<Longrightarrow> inv (make st)"
    and make_weights: "distinct (map fst st) \<Longrightarrow>
      weights (make st) = history_weights record_weight st"
    and top_None: "inv p \<Longrightarrow> top p = None \<longleftrightarrow> weights p = Map.empty"
    and top_heaviest: "inv p \<Longrightarrow> top p = Some k \<Longrightarrow> heaviest_key (weights p) k"
    and take_off_top: "inv p \<Longrightarrow> top p = Some k \<Longrightarrow>
      \<exists>p'. take_off n p = Some p' \<and> inv p' \<and> weights p' = weigh_down k n (weights p)"
begin

text \<open>A plan that agrees with the state names the workflow the scan names.\<close>

lemma top_is_heaviest:
  assumes "inv p" and "weights p = history_weights record_weight st" and "distinct (map fst st)"
  shows "top p = heaviest record_weight st"
proof (cases "top p")
  case None
  then show ?thesis using assms top_None heaviest_None by metis
next
  case (Some k)
  then have k: "heaviest_key (history_weights record_weight st) k"
    using assms top_heaviest by metis
  moreover obtain k' where k': "heaviest record_weight st = Some k'"
    using Some assms top_None heaviest_None by (metis not_None_eq)
  ultimately show ?thesis using Some heaviest_Some [OF assms(3) k'] heaviest_key_unique by metis
qed

text \<open>
  Evicting the oldest record of the workflow on top and taking its weight off the plan
  keeps plan and state in agreement; in particular the workflow exists and has a record.
\<close>

lemma evict_keeps_agreement:
  assumes "inv p" and "weights p = history_weights record_weight st" and "top p = Some k"
    and "\<And>r. 0 < record_weight r"
  shows "\<exists>w r rs p'. map_of st k = Some w \<and> wf_History w = r # rs \<and>
    take_off (record_weight r) p = Some p' \<and> inv p' \<and>
    weights p' = history_weights record_weight (Put st k (w\<lparr>wf_History := rs\<rparr>))"
proof -
  obtain b where b: "history_weights record_weight st k = Some b"
    using top_heaviest [OF assms(1,3)] assms(2) by (auto simp: heaviest_key_def)
  then obtain w r rs where w: "map_of st k = Some w" "wf_History w = r # rs"
    and sum: "b = record_weight r + record_sum record_weight rs"
    by (auto simp: history_weights_def neq_Nil_conv split: option.splits if_splits)
  have pos: "rs' \<noteq> [] \<Longrightarrow> 0 < record_sum record_weight rs'" for rs'
  proof (induction rs')
    case (Cons r' rs')
    then show ?case using assms(4) [of r'] by (cases "rs' = []") (simp_all add: add_pos_pos)
  qed simp
  then have "b - record_weight r \<le> 0 \<longleftrightarrow> rs = []" using sum by (cases "rs = []") force+
  then have "weigh_down k (record_weight r) (history_weights record_weight st) =
      history_weights record_weight (Put st k (w\<lparr>wf_History := rs\<rparr>))"
    using b sum by (auto simp: weigh_down_def history_weights_def Put_def fun_eq_iff update_conv)
  then show ?thesis using take_off_top [OF assms(1,3), of "record_weight r"] w assms(2) by auto
qed

end

section \<open>The heap meets the interface\<close>

definition plan_map :: "evictionPlan \<Rightarrow> string \<rightharpoonup> int" where
  "plan_map p = map_of (map (\<lambda>c. (ec_key c, ec_bytes c)) p)"

definition plan_ok :: "evictionPlan \<Rightarrow> bool" where
  "plan_ok p \<longleftrightarrow> distinct (map ec_key p) \<and> ordered_from plan_Less 0 (length p) p"

interpretation planheap: heap_order plan_Less
proof unfold_locales
  fix x y z
  show "plan_Less x y \<Longrightarrow> plan_Less y z \<Longrightarrow> plan_Less x z"
    by (auto simp: plan_Less_def split: if_splits)
  show "plan_Less x y \<Longrightarrow> \<not> plan_Less y x"
    by (auto simp: plan_Less_def split: if_splits)
  show "\<not> plan_Less x y \<Longrightarrow> \<not> plan_Less y z \<Longrightarrow> \<not> plan_Less x z"
    by (auto simp: plan_Less_def split: if_splits)
qed

lemma plan_map_Some_iff:
  "distinct (map ec_key p) \<Longrightarrow>
   plan_map p k = Some b \<longleftrightarrow> (\<exists>c \<in> set_mset (mset p). ec_key c = k \<and> ec_bytes c = b)"
  by (auto simp: plan_map_def map_of_eq_Some_iff o_def)

lemma plan_map_mset:
  assumes "mset p = mset q" and "distinct (map ec_key p)"
  shows "plan_map p = plan_map q \<and> distinct (map ec_key q)"
proof -
  have d: "distinct (map ec_key q)"
    using assms by (metis mset_eq_imp_distinct_iff mset_map)
  have "plan_map p k = Some b \<longleftrightarrow> plan_map q k = Some b" for k b
    using plan_map_Some_iff [OF assms(2)] plan_map_Some_iff [OF d] assms(1) by simp
  then have "plan_map p k = plan_map q k" for k
    by (metis not_None_eq)
  with d show ?thesis by blast
qed

lemma plan_items_keys: "ec_key ` set (plan_items rb st) \<subseteq> fst ` set st"
  by (induction st rule: plan_items.induct) (auto split: if_splits)

lemma plan_items_distinct: "distinct (map fst st) \<Longrightarrow> distinct (map ec_key (plan_items rb st))"
proof (induction st)
  case (Cons kw st)
  have "fst kw \<notin> ec_key ` set (plan_items rb st)"
    using Cons.prems plan_items_keys [of rb st] by auto
  with Cons show ?case by (cases kw) auto
qed simp

lemma plan_items_map:
  "distinct (map fst st) \<Longrightarrow>
   plan_map (plan_items rb st) k =
     (case map_of st k of None \<Rightarrow> None
      | Some w \<Rightarrow> if wf_History w = [] then None else Some (record_sum rb (wf_History w)))"
proof (induction st)
  case Nil
  show ?case by (simp add: plan_map_def)
next
  case (Cons kw st)
  obtain k' w where kw: "kw = (k', w)" by fastforce
  have "k' \<notin> ec_key ` set (plan_items rb st)"
    using Cons.prems plan_items_keys [of rb st] kw by auto
  then have "plan_map (plan_items rb st) k' = None"
    by (auto simp: plan_map_def map_of_eq_None_iff image_image)
  with Cons kw show ?case by (auto simp: plan_map_def)
qed

lemma newEvictionPlan_ok: "distinct (map fst st) \<Longrightarrow> plan_ok (newEvictionPlan rb st)"
  using planheap.heap_init_orders [of "plan_items rb st"] planheap.heap_init_mset [of "plan_items rb st"]
    plan_items_distinct [of st rb] plan_map_mset [of "plan_items rb st" "newEvictionPlan rb st"]
  by (simp add: plan_ok_def newEvictionPlan_def)

lemma newEvictionPlan_map:
  "distinct (map fst st) \<Longrightarrow> plan_map (newEvictionPlan rb st) = plan_map (plan_items rb st)"
  using planheap.heap_init_mset [of "plan_items rb st"] plan_items_distinct [of st rb]
    plan_map_mset [of "plan_items rb st" "newEvictionPlan rb st"]
  by (simp add: newEvictionPlan_def)

lemma plan_first_heaviest:
  assumes "plan_ok (c # cs)"
  shows "heaviest_key (plan_map (c # cs)) (ec_key c)"
proof -
  have d: "distinct (map ec_key (c # cs))" and o: "ordered_from plan_Less 0 (length (c # cs)) (c # cs)"
    using assms by (simp_all add: plan_ok_def)
  have least: "\<not> plan_Less x c" if "x \<in> set (c # cs)" for x
    using planheap.ordered_first [OF o] that by (metis in_set_conv_nth nth_Cons_0)
  have "b' < ec_bytes c \<or> (b' = ec_bytes c \<and> ec_key c \<le> k')" if h: "plan_map (c # cs) k' = Some b'" for k' b'
  proof -
    obtain x where "x \<in> set (c # cs)" "ec_key x = k'" "ec_bytes x = b'"
      using h plan_map_Some_iff [OF d, of k' b'] by auto
    then show ?thesis using least [of x] by (auto simp: plan_Less_def split: if_splits)
  qed
  moreover have "plan_map (c # cs) (ec_key c) = Some (ec_bytes c)" by (simp add: plan_map_def)
  ultimately show ?thesis unfolding heaviest_key_def by blast
qed

lemma shrink_ok:
  assumes "plan_ok (c # cs)"
  shows "\<exists>p'. shrink n (c # cs) = Some p' \<and> plan_ok p' \<and>
    plan_map p' = weigh_down (ec_key c) n (plan_map (c # cs))"
proof -
  let ?c = "c\<lparr>ec_bytes := ec_bytes c - n\<rparr>"
  have d: "distinct (map ec_key (c # cs))" and o: "ordered_from plan_Less 0 (length (c # cs)) (c # cs)"
    using assms by (simp_all add: plan_ok_def)
  have dn: "distinct (map ec_key (?c # cs))" using d by simp
  have except: "ordered_except plan_Less 0 0 (length (?c # cs)) (?c # cs)"
    using o parent_less by (auto simp: ordered_from_def ordered_except_def nth_Cons' split: if_splits)
  have absent: "map_of (map (\<lambda>c. (ec_key c, ec_bytes c)) cs) (ec_key c) = None"
    using d by (auto simp: map_of_eq_None_iff)
  show ?thesis
  proof (cases "ec_bytes ?c \<le> 0")
    case False
    let ?p = "heap_fix plan_Less (?c # cs) 0"
    have fx: "ordered_from plan_Less 0 (length (?c # cs)) ?p \<and> mset ?p = mset (?c # cs)"
      by (rule planheap.heap_fix_root [OF _ except]) simp
    moreover have "length ?p = length (?c # cs)" using fx by (metis size_mset)
    moreover have "plan_map (?c # cs) = plan_map ?p \<and> distinct (map ec_key ?p)"
      using fx dn by (intro plan_map_mset) simp_all
    moreover have "plan_map (?c # cs) = weigh_down (ec_key c) n (plan_map (c # cs))"
      using False by (simp add: plan_map_def weigh_down_def)
    ultimately show ?thesis using False by (auto simp: shrink_def Let_def plan_ok_def)
  next
    case True
    let ?p = "heap_pop plan_Less (?c # cs)"
    have pop: "ordered_from plan_Less 0 (length cs) ?p \<and> mset ?p = mset cs"
      using planheap.heap_pop_root [OF _ except] by simp
    moreover have "length ?p = length cs" using pop by (metis size_mset)
    moreover have "plan_map cs = plan_map ?p \<and> distinct (map ec_key ?p)"
      using pop d by (intro plan_map_mset) simp_all
    moreover have "plan_map cs = weigh_down (ec_key c) n (plan_map (c # cs))"
      using True absent by (auto simp: plan_map_def weigh_down_def fun_eq_iff)
    ultimately show ?thesis using True by (auto simp: shrink_def Let_def plan_ok_def)
  qed
qed

interpretation evplan: eviction_plan "newEvictionPlan rb" largest shrink plan_map plan_ok rb for rb
proof unfold_locales
  fix st :: State
  assume d: "distinct (map fst st)"
  show "plan_ok (newEvictionPlan rb st)" using d by (rule newEvictionPlan_ok)
  show "plan_map (newEvictionPlan rb st) = history_weights rb st"
    using d by (simp add: newEvictionPlan_map plan_items_map history_weights_def fun_eq_iff)
next
  fix p
  show "largest p = None \<longleftrightarrow> plan_map p = Map.empty"
    by (cases p) (auto simp: largest_def plan_map_def fun_eq_iff)
next
  fix p k
  assume "plan_ok p" and "largest p = Some k"
  then show "heaviest_key (plan_map p) k"
    by (cases p) (auto simp: largest_def intro: plan_first_heaviest)
next
  fix p k n
  assume "plan_ok p" and "largest p = Some k"
  then show "\<exists>p'. shrink n p = Some p' \<and> plan_ok p' \<and> plan_map p' = weigh_down k n (plan_map p)"
    by (cases p) (auto simp: largest_def intro: shrink_ok)
qed

end
