(* ===== verification/Eviction.thy ===== *)
theory Eviction
  imports Plan
begin

text \<open>
  saveEvictingHistory (internal/review/review.go): save the state, and while it does not
  fit give up one history record at a time, the oldest of the heaviest workflow, until the
  estimated bytes freed cover the overshoot, then save again. The function returns None
  for a panic of the source (an index into an empty history or an empty plan), and the
  evictions it logged, in order. The context is an oracle asked at its n-th check.
\<close>

section \<open>The estimate\<close>

definition recordFramingBytes :: int where
  [size_defs]: "recordFramingBytes = 1024"

text \<open>json.Marshal of a string cannot fail, so the source's fallback is not reached.\<close>

definition historyRecordBytes :: "HistoryRecord \<Rightarrow> int" where
  "historyRecordBytes r = int (length (json_string (hr_Review r))) + recordFramingBytes"

lemma historyRecordBytes_pos: "0 < historyRecordBytes r"
  by (simp add: historyRecordBytes_def recordFramingBytes_def)

section \<open>One pass of evictions\<close>

datatype pass_end = PassDone | PassFailed goerror | PassNoHistory

record pass =
  pa_plan :: evictionPlan
  pa_state :: State
  pa_tick :: nat
  pa_log :: "(string \<times> int) list"

definition hist_count :: "State \<Rightarrow> nat" where
  "hist_count st = sum_list (map (\<lambda>kw. length (wf_History (snd kw))) st)"

lemma hist_count_Put:
  "map_of st k = Some w \<Longrightarrow> hist_count (Put st k w') + length (wf_History w) = hist_count st + length (wf_History w')"
proof (induction st)
  case (Cons kw st)
  then show ?case by (cases kw) (auto simp: hist_count_def Put_def)
qed simp

lemma hist_count_evict:
  "map_of st k = Some w \<Longrightarrow> wf_History w = r # rs \<Longrightarrow>
   hist_count st = Suc (hist_count (Put st k (w\<lparr>wf_History := rs\<rparr>)))"
  using hist_count_Put [of st k w "w\<lparr>wf_History := rs\<rparr>"] by simp

text \<open>
  The body of the inner loop once a workflow is chosen: its oldest record goes, its weight
  leaves the plan. Get of a key the state does not have yields the zero workflow, whose
  empty history panics like any other.
\<close>

definition evict_one :: "(HistoryRecord \<Rightarrow> int) \<Rightarrow> string \<Rightarrow> pass \<Rightarrow> (int \<times> pass) option" where
  "evict_one recordBytes k pa =
     (let w = fst (Get (pa_state pa) k) in
      case wf_History w of
        [] \<Rightarrow> None
      | oldest # rest \<Rightarrow>
          (let n = recordBytes oldest in
           case shrink n (pa_plan pa) of
             None \<Rightarrow> None
           | Some p \<Rightarrow>
               Some (n, \<lparr>pa_plan = p, pa_state = Put (pa_state pa) k (w\<lparr>wf_History := rest\<rparr>),
                         pa_tick = Suc (pa_tick pa), pa_log = pa_log pa @ [(k, hr_Round oldest)]\<rparr>)))"

lemma evict_one_Some:
  assumes "evict_one rb k pa = Some (n, pa')"
  obtains w r rs p where "map_of (pa_state pa) k = Some w" "wf_History w = r # rs" "n = rb r"
    "shrink n (pa_plan pa) = Some p"
    "pa' = \<lparr>pa_plan = p, pa_state = Put (pa_state pa) k (w\<lparr>wf_History := rs\<rparr>),
            pa_tick = Suc (pa_tick pa), pa_log = pa_log pa @ [(k, hr_Round r)]\<rparr>"
  using assms
  by (auto simp: evict_one_def Get_def zero_Workflow_def Let_def split: option.splits list.splits)

lemma evict_one_count: "evict_one rb k pa = Some (n, pa') \<Longrightarrow> hist_count (pa_state pa) = Suc (hist_count (pa_state pa'))"
  by (erule evict_one_Some) (simp add: hist_count_evict)

function evict_pass ::
  "(nat \<Rightarrow> goerror option) \<Rightarrow> (HistoryRecord \<Rightarrow> int) \<Rightarrow> int \<Rightarrow> int \<Rightarrow> bool \<Rightarrow> pass \<Rightarrow> (pass_end \<times> pass) option"
where
  "evict_pass ctx recordBytes over freed evicted pa =
     (if evicted \<and> \<not> freed < over then Some (PassDone, pa)
      else
        (case ctx (pa_tick pa) of
           Some e \<Rightarrow> Some (PassFailed (Errorf ''evicting review history'' [e]), pa)
         | None \<Rightarrow>
             (case largest (pa_plan pa) of
                None \<Rightarrow> Some (if evicted then PassDone else PassNoHistory, pa)
              | Some k \<Rightarrow>
                  (case evict_one recordBytes k pa of
                     None \<Rightarrow> None
                   | Some (n, pa') \<Rightarrow> evict_pass ctx recordBytes over (freed + n) True pa'))))"
  by pat_completeness auto
termination
  by (relation "measure (\<lambda>(ctx, rb, over, freed, ev, pa). hist_count (pa_state pa))")
    (auto dest: evict_one_count)

declare evict_pass.simps [simp del]

text \<open>A pass either stops where it is or evicts one record and goes on.\<close>

lemma evict_pass_cases:
  assumes "evict_pass ctx rb over freed evicted pa = Some (r, pa')"
  obtains (stop) "pa' = pa" "evicted \<or> r \<noteq> PassDone"
      "r = PassDone \<Longrightarrow> freed \<ge> over \<or> largest (pa_plan pa) = None"
      "r = PassNoHistory \<Longrightarrow> \<not> evicted \<and> largest (pa_plan pa) = None"
      "\<And>e. r = PassFailed e \<Longrightarrow>
         \<exists>c. ctx (pa_tick pa) = Some c \<and> e = Errorf ''evicting review history'' [c]"
  | (go) k n pa1 where "evicted \<Longrightarrow> freed < over" "ctx (pa_tick pa) = None"
      "largest (pa_plan pa) = Some k" "evict_one rb k pa = Some (n, pa1)"
      "evict_pass ctx rb over (freed + n) True pa1 = Some (r, pa')"
  using assms unfolding evict_pass.simps [of ctx rb over freed evicted pa]
  by (auto split: if_splits option.splits)

lemma evict_pass_evicted: "evict_pass ctx rb over freed True pa = Some (r, pa') \<Longrightarrow> r \<noteq> PassNoHistory"
proof (induction "hist_count (pa_state pa)" arbitrary: freed pa rule: less_induct)
  case less
  from less.prems show ?case
  proof (cases rule: evict_pass_cases)
    case (go k n pa1)
    then have "hist_count (pa_state pa1) < hist_count (pa_state pa)" using evict_one_count by fastforce
    then show ?thesis using less.hyps go(5) by blast
  qed blast
qed

text \<open>What one eviction keeps, a pass keeps; the predicate also sees the bytes freed so far.\<close>

lemma evict_pass_keeps_freed:
  assumes "evict_pass ctx rb over freed evicted pa = Some (r, pa')" and "P freed evicted pa"
    and "\<And>freed evicted k n pa pa1. P freed evicted pa \<Longrightarrow> (evicted \<Longrightarrow> freed < over) \<Longrightarrow>
      largest (pa_plan pa) = Some k \<Longrightarrow> evict_one rb k pa = Some (n, pa1) \<Longrightarrow> P (freed + n) True pa1"
  shows "\<exists>freed' evicted'. P freed' evicted' pa' \<and>
    (r = PassNoHistory \<longrightarrow> pa' = pa \<and> largest (pa_plan pa) = None)"
  using assms(1,2)
proof (induction "hist_count (pa_state pa)" arbitrary: freed evicted pa rule: less_induct)
  case less
  from less.prems(1) show ?case
  proof (cases rule: evict_pass_cases)
    case stop
    then show ?thesis using less.prems(2) by blast
  next
    case (go k n pa1)
    then have "P (freed + n) True pa1" using less.prems(2) assms(3) by blast
    moreover have "hist_count (pa_state pa1) < hist_count (pa_state pa)"
      using go(4) evict_one_count by fastforce
    moreover have "r \<noteq> PassNoHistory" using go(5) by (rule evict_pass_evicted)
    ultimately show ?thesis using less.hyps go(5) by blast
  qed
qed

lemma evict_pass_keeps:
  assumes "evict_pass ctx rb over freed evicted pa = Some (r, pa')" and "P pa"
    and "\<And>k n pa pa1. P pa \<Longrightarrow> largest (pa_plan pa) = Some k \<Longrightarrow> evict_one rb k pa = Some (n, pa1) \<Longrightarrow> P pa1"
  shows "P pa'"
  using evict_pass_keeps_freed [OF assms(1), where P = "\<lambda>_ _. P"] assms(2,3) by blast

lemma evict_pass_progress:
  assumes "evict_pass ctx rb over freed False pa = Some (PassDone, pa')"
  shows "hist_count (pa_state pa') < hist_count (pa_state pa)"
  using assms
proof (cases rule: evict_pass_cases)
  case (go k n pa1)
  have "hist_count (pa_state pa') \<le> hist_count (pa_state pa1)"
    by (rule evict_pass_keeps [OF go(5), where P = "\<lambda>q. hist_count (pa_state q) \<le> hist_count (pa_state pa1)"])
      (auto dest: evict_one_count)
  with go(4) show ?thesis using evict_one_count by fastforce
qed simp

section \<open>Saving\<close>

record eviction =
  ev_err :: "goerror option"
  ev_state :: State
  ev_disk :: disk
  ev_log :: "(string \<times> int) list"

definition overshoot :: "goerror \<Rightarrow> int" where
  "overshoot e = (case errors_As as_TooLargeError e of None \<Rightarrow> 0 | Some (n, l) \<Rightarrow> n - l)"

function save_loop ::
  "WriteIO \<Rightarrow> (nat \<Rightarrow> goerror option) \<Rightarrow> (HistoryRecord \<Rightarrow> int) \<Rightarrow> Store \<Rightarrow> evictionPlan option \<Rightarrow>
   State \<Rightarrow> nat \<Rightarrow> (string \<times> int) list \<Rightarrow> disk \<Rightarrow> eviction option"
where
  "save_loop io ctx recordBytes sto plan st tick log d =
     (case Save io sto (Some st) d of
        (None, ds) \<Rightarrow> Some \<lparr>ev_err = None, ev_state = st, ev_disk = last ds, ev_log = log\<rparr>
      | (Some e, ds) \<Rightarrow>
          (if \<not> errors_Is e (S_state ErrTooLarge)
           then Some \<lparr>ev_err = Some e, ev_state = st, ev_disk = last ds, ev_log = log\<rparr>
           else
             (let p = (case plan of None \<Rightarrow> newEvictionPlan recordBytes st | Some p \<Rightarrow> p) in
              case evict_pass ctx recordBytes (overshoot e) 0 False
                     \<lparr>pa_plan = p, pa_state = st, pa_tick = tick, pa_log = log\<rparr> of
                None \<Rightarrow> None
              | Some (PassFailed e', pa) \<Rightarrow>
                  Some \<lparr>ev_err = Some e', ev_state = pa_state pa, ev_disk = last ds, ev_log = pa_log pa\<rparr>
              | Some (PassNoHistory, pa) \<Rightarrow>
                  Some \<lparr>ev_err = Some e, ev_state = pa_state pa, ev_disk = last ds, ev_log = pa_log pa\<rparr>
              | Some (PassDone, pa) \<Rightarrow>
                  save_loop io ctx recordBytes sto (Some (pa_plan pa)) (pa_state pa) (pa_tick pa)
                    (pa_log pa) (last ds))))"
  by pat_completeness auto
termination
  by (relation "measure (\<lambda>(io, ctx, rb, sto, plan, st, tick, log, d). hist_count st)")
    (auto dest!: evict_pass_progress)

declare save_loop.simps [simp del]

definition saveEvictingHistory ::
  "WriteIO \<Rightarrow> (nat \<Rightarrow> goerror option) \<Rightarrow> (HistoryRecord \<Rightarrow> int) \<Rightarrow> Store \<Rightarrow> State \<Rightarrow> disk \<Rightarrow> eviction option"
where
  "saveEvictingHistory io ctx recordBytes sto st d = save_loop io ctx recordBytes sto None st 0 [] d"

end
