(* ===== verification/StateSize.thy ===== *)
theory StateSize
  imports Eviction
begin

text \<open>
  How long the encoded state file is, and why historyRecordBytes is an upper bound on what
  removing a record frees: the record's fixed fields, its framing in the indented file and,
  when it is the last record, the history member itself fit in recordFramingBytes.
\<close>

named_theorems json_length \<open>lengths of the pieces of an encoded value\<close>

section \<open>Lengths of encoded values\<close>

lemma length_newline_at [json_length]: "length (newline_at d) = 2 * d + 1"
  by (simp add: newline_at_def)

lemma length_Join: "xs \<noteq> [] \<Longrightarrow> length (Join xs sep) = sum_list (map length xs) + (length xs - 1) * length sep"
  by (induction xs sep rule: Join.induct) auto

lemma length_block [json_length]:
  "length (block_text a b d xs) =
     (if xs = [] then 2 else sum_list (map length xs) + length xs * (2 * d + 4) + 2 * d + 2)"
proof (cases xs)
  case (Cons x ys)
  then have "length (Join xs (CHR '','' # newline_at (Suc d))) = sum_list (map length xs) + length ys * (2 * d + 4)"
    by (subst length_Join) (simp_all add: length_newline_at algebra_simps)
  then show ?thesis using Cons by (simp add: block_text_def length_newline_at)
qed (simp add: block_text_def)

lemma length_member [json_length]: "length (member_text (k, t)) = length (json_string k) + 2 + length t"
  by (simp add: member_text_def)

text \<open>The size of an object: each member with its key, colon, comma and indentation.\<close>

definition member_size :: "nat \<Rightarrow> string \<times> json \<Rightarrow> nat" where
  "member_size d kv = length (json_string (fst kv)) + length (indent (Suc d) (snd kv)) + 2 * d + 6"

definition members_size :: "nat \<Rightarrow> (string \<times> json) list \<Rightarrow> nat" where
  "members_size d fs = sum_list (map (member_size d) fs)"

lemma members_size_simps [simp]:
  "members_size d [] = 0" "members_size d (m # ms) = member_size d m + members_size d ms"
  "members_size d (ms @ ns) = members_size d ms + members_size d ns"
  by (simp_all add: members_size_def)

lemma length_object:
  "fs \<noteq> [] \<Longrightarrow> length (indent d (JObj fs)) = members_size d fs + 2 * d + 2"
proof -
  assume "fs \<noteq> []"
  moreover have "sum_list (map (length \<circ> (\<lambda>kv. member_text (fst kv, indent (Suc d) (snd kv)))) fs) +
      length fs * (2 * d + 4) = members_size d fs"
    by (induction fs) (simp_all add: members_size_def member_size_def length_member)
  ultimately show ?thesis by (simp add: length_block)
qed

lemma length_array:
  "length (indent d (JArr xs)) =
     (if xs = [] then 2 else sum_list (map (\<lambda>x. length (indent (Suc d) x) + 2 * d + 4) xs) + 2 * d + 2)"
proof -
  have "sum_list (map (length \<circ> (\<lambda>x. indent (Suc d) x)) xs) + length xs * (2 * d + 4) =
      sum_list (map (\<lambda>x. length (indent (Suc d) x) + 2 * d + 4) xs)"
    by (induction xs) simp_all
  then show ?thesis by (simp add: length_block)
qed

text \<open>Printable ASCII that needs no escape is copied.\<close>

definition plain :: "char \<Rightarrow> bool" where
  "plain c \<longleftrightarrow> byte c < 128 \<and> escape_byte c = [c]"

lemma escape_plain: "list_all plain s \<Longrightarrow> escape s = s"
proof (induction s)
  case (Cons c s)
  then have "rune_size (c # s) = 1" by (simp add: rune_size_def plain_def Let_def)
  with Cons show ?case by (simp add: escape.simps [of "c # s"] plain_def)
qed (simp add: escape.simps)

lemma length_json_plain: "list_all plain s \<Longrightarrow> length (json_string s) = length s + 2"
  by (simp add: length_json_string escape_plain)

lemma plain_lower_hex: "is_lower_hex c \<Longrightarrow> plain c"
proof -
  assume h: "is_lower_hex c"
  then have "byte c \<in> {48..57} \<union> {97..102}"
    by (auto simp: is_lower_hex_def byte_def less_eq_char_def)
  then have "byte c < 128" and "c \<noteq> CHR 0x22" "c \<noteq> CHR 0x5C" "c \<noteq> CHR 0x08" "c \<noteq> CHR 0x0C" "c \<noteq> CHR 0x0A"
    "c \<noteq> CHR 0x0D" "c \<noteq> CHR 0x09" "\<not> byte c < 32" "c \<noteq> CHR ''<''" "c \<noteq> CHR ''>''" "c \<noteq> CHR ''&''"
    by (auto simp: byte_def)
  then show ?thesis by (simp add: plain_def escape_byte_def)
qed

lemma length_json_object_id: "IsObjectID s \<Longrightarrow> length (json_string s) \<le> 66"
  using length_json_plain [of s] plain_lower_hex by (auto simp: IsObjectID_def list_all_iff)

section \<open>A record\<close>

text \<open>The fields of a record are Go ints.\<close>

definition is_int64 :: "int \<Rightarrow> bool" where
  "is_int64 i \<longleftrightarrow> MinInt \<le> i \<and> i \<le> MaxInt"

definition usage_ints :: "Usage option \<Rightarrow> bool" where
  "usage_ints u = (case u of None \<Rightarrow> True | Some v \<Rightarrow> list_all is_int64 (counters (us_Last v) @ counters (us_Total v)))"

definition record_ints :: "HistoryRecord \<Rightarrow> bool" where
  "record_ints r \<longleftrightarrow> is_int64 (hr_Round r) \<and> usage_ints (hr_Usage r)"

lemma length_int_text: "is_int64 i \<Longrightarrow> length (indent d (JInt i)) \<le> 20"
  by (simp add: is_int64_def length_Itoa)

lemma length_keys [json_length]:
  "length (json_string ''input'') = 7" "length (json_string ''cached'') = 8"
  "length (json_string ''cache_write'') = 13" "length (json_string ''output'') = 8"
  "length (json_string ''reasoning'') = 11" "length (json_string ''total'') = 7"
  "length (json_string ''last'') = 6" "length (json_string ''usage'') = 7"
  "length (json_string ''round'') = 7" "length (json_string ''commit'') = 8"
  "length (json_string ''base'') = 6" "length (json_string ''review'') = 8"
  "length (json_string ''omitted'') = 9" "length (json_string ''history'') = 9"
  "length (json_string OmittedTooLarge) = 11" "length (json_string []) = 2"
  by code_simp+

lemma length_breakdown:
  assumes "list_all is_int64 (counters b)"
  shows "length (indent 6 (breakdown_json b)) \<le> 296"
proof -
  have "list_all (\<lambda>i. length (indent 7 (JInt i)) \<le> 20) (counters b)"
    using assms length_int_text by (auto simp: list_all_iff simp del: indent.simps)
  then show ?thesis unfolding breakdown_json_def counters_def
    by (subst length_object) (simp_all add: member_size_def length_keys del: indent.simps)
qed

lemma length_usage:
  assumes "usage_ints (Some u)"
  shows "length (indent 5 (usage_json u)) \<le> 649"
  using assms length_breakdown [of "us_Last u"] length_breakdown [of "us_Total u"]
  unfolding usage_json_def usage_ints_def
  by (subst length_object) (simp_all add: member_size_def length_keys del: indent.simps)

lemma length_usage_member: "usage_ints u \<Longrightarrow> members_size 4 (usage_member ''usage'' u) \<le> 670"
  using length_usage by (cases u) (simp_all add: usage_member_def member_size_def length_keys del: indent.simps)

lemma length_record:
  assumes "record_ok r" and "record_ints r"
  shows "length (indent 4 (record_json r)) \<le> length (json_string (hr_Review r)) + 927"
proof -
  have "length (indent 5 (JInt (hr_Round r))) \<le> 20"
    using assms(2) by (intro length_int_text) (simp add: record_ints_def)
  moreover have "length (indent 5 (JStr (hr_Commit r))) \<le> 66" "length (indent 5 (JStr (hr_Base r))) \<le> 66"
    using assms(1) length_json_object_id by (simp_all add: record_ok_def)
  moreover have "members_size 4 (usage_member ''usage'' (hr_Usage r)) \<le> 670"
    using assms(2) by (intro length_usage_member) (simp add: record_ints_def)
  moreover have "members_size 4 (omitempty (hr_Review r = []) (''review'', JStr (hr_Review r)) @
      omitempty (hr_Omitted r = []) (''omitted'', JStr (hr_Omitted r))) \<le> length (json_string (hr_Review r)) + 32"
    using assms(1) by (auto simp: record_ok_def omitempty_def member_size_def length_keys)
  ultimately show ?thesis unfolding record_json_def
    by (subst length_object) (simp_all add: member_size_def length_keys del: indent.simps)
qed

section \<open>A workflow and the file\<close>

definition history_size :: "HistoryRecord list \<Rightarrow> nat" where
  "history_size h =
     members_size 2 (omitempty (h = []) (''history'', JArr (map record_json h)))"

lemma history_size_eq:
  "history_size h =
     (if h = [] then 0 else sum_list (map (\<lambda>r. length (indent 4 (record_json r)) + 10) h) + 27)"
proof (cases "h = []")
  case False
  have "sum_list (map (\<lambda>x. length (indent 4 x) + 10) (map record_json h)) =
      sum_list (map (\<lambda>r. length (indent 4 (record_json r)) + 10) h)"
    by (simp add: o_def)
  moreover have "length (indent 3 (JArr (map record_json h))) =
      sum_list (map (\<lambda>x. length (indent 4 x) + 10) (map record_json h)) + 8"
    using False by (simp add: length_array add.commute [of 10] del: indent.simps map_map)
  ultimately show ?thesis using False
    by (simp add: history_size_def omitempty_def member_size_def length_keys del: indent.simps map_map)
qed (simp add: history_size_def omitempty_def)

lemma history_size_tl:
  assumes "record_ok r" and "record_ints r"
  shows "int (history_size (r # rs)) \<le> int (history_size rs) + historyRecordBytes r"
  using length_record [OF assms] by (simp add: history_size_eq historyRecordBytes_def recordFramingBytes_def)

lemma length_workflow:
  "length (indent 2 (workflow_json w)) = members_size 2 (workflow_members w) + history_size (wf_History w) + 6"
  unfolding workflow_json_def
  by (subst length_object) (simp_all add: workflow_members_def history_size_def del: indent.simps)

definition workflow_size :: "string \<times> Workflow \<Rightarrow> nat" where
  "workflow_size kw = length (json_string (fst kw)) + length (indent 2 (workflow_json (snd kw))) + 8"

lemma sum_sort_key: "sum_list (map f (sort_key g xs)) = sum_list (map f xs)" for f :: "'a \<Rightarrow> nat"
  by (simp flip: sum_mset_sum_list)

definition file_overhead :: "bool \<Rightarrow> nat" where
  "file_overhead empty_state =
     length (indent 0 (JObj [(''version'', JInt Version), (''workflows'', JObj [])])) + 1 + (if empty_state then 0 else 2)"

lemma length_encode_state:
  "length (encode_state st) = file_overhead (st = []) + sum_list (map workflow_size st)"
proof -
  have "length (indent 1 (JObj (map (\<lambda>kw. (fst kw, workflow_json (snd kw))) (sort_key fst st)))) =
      (if st = [] then 2 else sum_list (map workflow_size st) + 4)"
  proof (cases "st = []")
    case False
    then have "map (\<lambda>kw. (fst kw, workflow_json (snd kw))) (sort_key fst st) \<noteq> []"
      by (metis map_is_Nil_conv mset_sort mset_zero_iff)
    moreover have "members_size 1 (map (\<lambda>kw. (fst kw, workflow_json (snd kw))) (sort_key fst st)) =
        sum_list (map workflow_size (sort_key fst st))"
      by (simp add: members_size_def member_size_def workflow_size_def [abs_def] o_def numeral_2_eq_2 ac_simps del: indent.simps)
    ultimately show ?thesis using False by (simp add: length_object sum_sort_key del: indent.simps)
  qed (simp add: length_block)
  moreover have "length (indent (Suc 0) (JObj [])) = 2" by (simp add: length_block)
  ultimately show ?thesis
    unfolding encode_state_def envelope_json_def file_overhead_def
    by (simp add: length_object member_size_def del: indent.simps)
qed



text \<open>The bound of the source: one eviction frees at most the estimate of its record.\<close>

lemma encode_state_freed:
  assumes "map_of st k = Some w" and "wf_History w = r # rs" and "record_ok r" and "record_ints r"
  shows "int (length (encode_state st)) \<le>
    int (length (encode_state (Put st k (w\<lparr>wf_History := rs\<rparr>)))) + historyRecordBytes r"
proof -
  have one: "int (workflow_size (k, w)) \<le> int (workflow_size (k, w\<lparr>wf_History := rs\<rparr>)) + historyRecordBytes r"
    using history_size_tl [OF assms(3,4), of rs] assms(2)
    by (simp add: workflow_size_def length_workflow workflow_members_def del: indent.simps)
  have "int (sum_list (map workflow_size st)) \<le>
      int (sum_list (map workflow_size (Put st k (w\<lparr>wf_History := rs\<rparr>)))) + historyRecordBytes r"
    using assms(1)
  proof (induction st)
    case (Cons kw st)
    then show ?case using one by (cases kw) (auto simp: Put_def)
  qed simp
  moreover have "st \<noteq> []" using assms(1) by auto
  moreover have "Put st k (w\<lparr>wf_History := rs\<rparr>) \<noteq> []"
    by (cases st) (auto simp: Put_def)
  ultimately show ?thesis by (simp add: length_encode_state)
qed

end
