(* ===== verification/Samples.thy ===== *)
theory Samples
  imports StateSize
begin

text \<open>
  Concrete values the witnesses share: a store and system calls that succeed, a completed
  workflow with one retained round, and a workflow whose last review alone is larger than
  the state file may be.
\<close>

definition sample_id :: string where
  "sample_id = replicate 40 (CHR ''a'')"

definition sample_record :: HistoryRecord where
  "sample_record = NewHistoryRecord 1 sample_id sample_id ''REJECTED'' None"

definition sample_key :: string where
  "sample_key = ''/r/.git::refs/heads/b''"

definition sample_workflow :: Workflow where
  "sample_workflow = \<lparr>wf_ThreadID = ''t'', wf_LastCommit = sample_id, wf_LastBase = sample_id,
     wf_LastRequestHash = ''h'', wf_Round = 2, wf_LastReview = ''APPROVED'', wf_LastWarnings = [],
     wf_LastUsage = None, wf_History = [sample_record]\<rparr>"

definition sample_state :: State where
  "sample_state = [(sample_key, sample_workflow)]"

definition x_text :: "nat \<Rightarrow> string" where
  "x_text n = replicate n (CHR ''x'')"

definition large_workflow :: Workflow where
  "large_workflow = sample_workflow\<lparr>wf_LastReview := x_text 16777216\<rparr>"

definition large_state :: State where
  "large_state = [(sample_key, large_workflow)]"

definition sample_path :: string where
  "sample_path = ''/s/state.json''"

definition sample_store :: Store where
  "sample_store = \<lparr>sto_path = sample_path, sto_loaded = True\<rparr>"

definition sample_write :: WriteIO where
  "sample_write = \<lparr>wr_mkdir = (\<lambda>d. None), wr_create = (\<lambda>d p. Ok ''/s/state.json.tmp-1''), wr_chmod = None,
     wr_write = None, wr_sync = None, wr_close = None, wr_rename = None, wr_remove = None,
     wr_opendir = None, wr_syncdir = None\<rparr>"

definition sample_read :: ReadIO where
  "sample_read = \<lparr>rd_open = None, rd_read = None\<rparr>"

lemma sample_id_ok [simp]: "IsObjectID sample_id"
proof -
  have "is_lower_hex (CHR ''a'')" by code_simp
  then show ?thesis by (auto simp: IsObjectID_def sample_id_def list_all_iff)
qed

lemma sample_record_ok: "record_ok sample_record \<and> record_ints sample_record"
  unfolding sample_record_def
  by (auto simp: NewHistoryRecord_def size_defs record_ints_def usage_ints_def is_int64_def MinInt_def MaxInt_def
      record_ok_def Invalid_def)

lemma sample_keys: "distinct (map fst sample_state)" "distinct (map fst large_state)"
  by (simp_all add: sample_state_def large_state_def)

lemma length_x_text: "length (json_string (x_text n)) = n + 2"
proof -
  have "plain (CHR ''x'')" by code_simp
  then show ?thesis by (subst length_json_plain) (auto simp: x_text_def list_all_iff)
qed

text \<open>Its history can be given up, the review cannot: no state with it fits.\<close>

lemma large_workflow_length:
  "wf_LastReview w = x_text 16777216 \<Longrightarrow> length (encode_state [(k, w)]) > MaxStateFileSize"
  by (simp add: length_encode_state workflow_size_def length_workflow workflow_members_def member_size_def
      length_x_text size_defs)

end
