(* ===== verification/Request.thy ===== *)
theory Request
  imports Errors Sha256
begin

text \<open>
  The normalized identity of a review request (internal/state/request.go) and the workflow
  key it shares with internal/gitrepo. Hash is SHA-256 over length-prefixed fields; what
  is proved is that the hashed byte stream identifies the request, so equal hashes of
  different requests are collisions of SHA-256 itself.
\<close>

record Request =
  rq_Identity :: string
  rq_BranchRef :: string
  rq_Commit :: string
  rq_Base :: string
  rq_BranchNotes :: string
  rq_Build :: bool

definition Key :: "Request \<Rightarrow> string" where
  "Key r = rq_Identity r @ ''::'' @ rq_BranchRef r"

definition buildMarker :: string where
  "buildMarker = ''build''"

definition hash_fields :: "Request \<Rightarrow> string list" where
  "hash_fields r =
     [rq_Identity r, rq_BranchRef r, rq_Commit r, rq_Base r, rq_BranchNotes r] @
     (if rq_Build r then [buildMarker] else [])"

text \<open>binary.BigEndian.PutUint64 of the length, then the field.\<close>

fun hash_stream :: "string list \<Rightarrow> string" where
  "hash_stream [] = []"
| "hash_stream (f # fs) = be_bytes 8 (length f) @ f @ hash_stream fs"

definition Hash :: "Request \<Rightarrow> string" where
  "Hash r = hex_digest (hash_stream (hash_fields r))"

definition fields_fit :: "string list \<Rightarrow> bool" where
  "fields_fit fs \<longleftrightarrow> list_all (\<lambda>f. length f < 18446744073709551616) fs"

lemma hash_stream_Nil_iff [simp]: "hash_stream fs = [] \<longleftrightarrow> fs = []"
proof (cases fs)
  case (Cons f fs')
  have "length (hash_stream fs) \<ge> 8" by (simp add: Cons)
  then show ?thesis using Cons by (metis list.size(3) list.distinct(1) not_numeral_le_zero)
qed simp

text \<open>The stream is uniquely decodable: the first eight bytes say where the field ends.\<close>

lemma hash_stream_inj:
  assumes "fields_fit fs" and "fields_fit gs" and "hash_stream fs = hash_stream gs"
  shows "fs = gs"
  using assms
proof (induction fs arbitrary: gs)
  case Nil
  then show ?case by (metis hash_stream_Nil_iff)
next
  case (Cons f fs)
  show ?case
  proof (cases gs)
    case Nil
    with Cons.prems show ?thesis by (metis hash_stream.simps(1) hash_stream_Nil_iff)
  next
    case (Cons g gs')
    with Cons.prems(3) have eq:
      "be_bytes 8 (length f) @ f @ hash_stream fs = be_bytes 8 (length g) @ g @ hash_stream gs'"
      by simp
    then have "be_bytes 8 (length f) = be_bytes 8 (length g)"
      and tail: "f @ hash_stream fs = g @ hash_stream gs'"
      by (simp_all add: append_eq_append_conv)
    moreover have "length f < 256 ^ 8" and "length g < 256 ^ 8"
      using Cons.prems(1,2) Cons by (simp_all add: fields_fit_def)
    ultimately have "length f = length g" by (blast intro: be_bytes_inj)
    with tail have "f = g" and "hash_stream fs = hash_stream gs'"
      by (simp_all add: append_eq_append_conv)
    with Cons.IH [of gs'] Cons.prems(1,2) Cons show ?thesis
      by (simp add: fields_fit_def)
  qed
qed

lemma hash_fields_inj: "hash_fields r = hash_fields r' \<Longrightarrow> r = r'"
  by (rule Request.equality) (auto simp: hash_fields_def split: if_splits)

lemma Hash_not_Nil [simp]: "Hash r \<noteq> []"
  by (simp add: Hash_def)

lemma split_at_last_colon:
  assumes "CHR '':'' \<notin> set r" and "CHR '':'' \<notin> set r'"
    and "a @ CHR '':'' # r = a' @ CHR '':'' # r'"
  shows "a = a' \<and> r = r'"
proof -
  have "takeWhile (\<lambda>c. c \<noteq> CHR '':'') (rev (a @ CHR '':'' # r)) = rev r"
    using assms(1) by (simp add: takeWhile_append takeWhile_eq_all_conv)
  moreover have "takeWhile (\<lambda>c. c \<noteq> CHR '':'') (rev (a' @ CHR '':'' # r')) = rev r'"
    using assms(2) by (simp add: takeWhile_append takeWhile_eq_all_conv)
  ultimately have "r = r'" using assms(3) by simp
  with assms(3) show ?thesis by simp
qed

lemma key_parts_inj:
  assumes "CHR '':'' \<notin> set r" and "CHR '':'' \<notin> set r'" and "a @ ''::'' @ r = a' @ ''::'' @ r'"
  shows "a = a' \<and> r = r'"
proof -
  have "(a @ '':'') @ CHR '':'' # r = (a' @ '':'') @ CHR '':'' # r'" using assms(3) by simp
  from split_at_last_colon [OF assms(1,2) this] show ?thesis by simp
qed

end
