(* ===== verification/StoreSpec.thy ===== *)
theory StoreSpec
  imports Samples Request
begin

text \<open>
  What internal/state promises: the request hash and the workflow key identify what they
  name, the retained history is the longest that fits and stays valid round after round,
  a save is atomic, and a file Load rejects is never overwritten.
\<close>

section \<open>Identity\<close>

text \<open>
  C21. The request hash identifies the request: what is hashed is uniquely decodable, so two
  different requests (one differing in a single field, or in where one field ends and the
  next begins, or in the build flag) can share a hash only by a collision of SHA-256
  itself. With it, a replay answers the very request that was completed.
\<close>

theorem hash_identifies:
  assumes "fields_fit (hash_fields r)" and "fields_fit (hash_fields r')"
  shows "hash_stream (hash_fields r) = hash_stream (hash_fields r') \<longleftrightarrow> r = r'"
  using hash_stream_inj [OF assms] hash_fields_inj by auto

definition sample_request :: Request where
  "sample_request = \<lparr>rq_Identity = ''/r'', rq_BranchRef = ''b'', rq_Commit = ''c'', rq_Base = ''d'',
     rq_BranchNotes = ''build'', rq_Build = False\<rparr>"

lemma hash_identifies_witness:
  "hash_stream (hash_fields sample_request) \<noteq>
   hash_stream (hash_fields (sample_request\<lparr>rq_BranchNotes := [], rq_Build := True\<rparr>))"
  by (subst hash_identifies) (simp_all add: sample_request_def hash_fields_def fields_fit_def buildMarker_def)

text \<open>
  Workflow keys of two branches collide only when repository and branch are the same:
  the reference never contains a colon, which git forbids in a reference name, so the key
  splits at its last separator even when a path contains one.
\<close>

theorem workflow_key_identifies:
  assumes "CHR '':'' \<notin> set (rq_BranchRef r)" and "CHR '':'' \<notin> set (rq_BranchRef r')"
  shows "Key r = Key r' \<longleftrightarrow> rq_Identity r = rq_Identity r' \<and> rq_BranchRef r = rq_BranchRef r'"
  using key_parts_inj [OF assms] by (auto simp: Key_def)

lemma workflow_key_identifies_witness:
  "Key sample_request \<noteq> Key (sample_request\<lparr>rq_Identity := ''/r::b'', rq_BranchRef := []\<rparr>)"
  by (subst workflow_key_identifies) (simp_all add: sample_request_def)

section \<open>The ledger\<close>



text \<open>
  The validation of a stored history says nothing exactly when the ledger invariant
  holds: the records are the contiguous rounds just before the workflow's own, each with
  full object ids, exactly one of a bounded review and the omission placeholder and no
  negative counter, within the count and byte bounds.
\<close>

theorem invalid_history_exact:
  assumes "1 \<le> wf_Round w" and "wf_Round w \<le> MaxInt"
  shows "InvalidHistory w = [] \<longleftrightarrow> ledger_ok w"
  by (rule InvalidHistory_empty_iff [OF assms])

lemma invalid_history_exact_witness:
  "InvalidHistory sample_workflow = [] \<longleftrightarrow> ledger_ok sample_workflow"
  by (rule invalid_history_exact) (simp_all add: sample_workflow_def MaxInt_def)

text \<open>
  A completed round keeps the ledger: from a workflow whose history is valid, the next
  round's record (the superseded round appended, then the oldest dropped to fit) is valid
  again, so the review after it is not refused for its history.
\<close>

theorem next_round_keeps_ledger:
  assumes "ledger_ok w" and "1 \<le> wf_Round w" and "IsObjectID (wf_LastCommit w)" and "IsObjectID (wf_LastBase w)"
    and "wf_LastReview w \<noteq> []" and "Invalid usage = []"
    and "wf_Round v = wf_Round w + 1" and "wf_LastUsage v = usage"
  shows "\<exists>h. RetainHistory (wf_History w)
      (NewHistoryRecord (wf_Round w) (wf_LastCommit w) (wf_LastBase w) (wf_LastReview w) (wf_LastUsage w))
      (wf_LastReview v) = Some h \<and> ledger_ok (v\<lparr>wf_History := h\<rparr>)"
  by (rule ledger_ok_next [OF assms])

lemma sample_ledger: "ledger_ok sample_workflow"
  using sample_record_ok
  by (simp add: ledger_ok_def sample_workflow_def contiguous_def over_bounds_def newest_bytes_eq size_defs
      Invalid_def sample_record_def NewHistoryRecord_def injectedBytes_def)

lemma next_round_keeps_ledger_witness:
  "\<exists>h. RetainHistory (wf_History sample_workflow)
      (NewHistoryRecord (wf_Round sample_workflow) (wf_LastCommit sample_workflow) (wf_LastBase sample_workflow)
        (wf_LastReview sample_workflow) (wf_LastUsage sample_workflow))
      ''again'' = Some h \<and> ledger_ok (sample_workflow\<lparr>wf_Round := 3, wf_LastReview := ''again'', wf_History := h\<rparr>)"
  using next_round_keeps_ledger [OF sample_ledger, of None "sample_workflow\<lparr>wf_Round := 3, wf_LastReview := ''again''\<rparr>"]
  by (simp add: sample_workflow_def Invalid_def)

section \<open>The file\<close>

text \<open>
  C17. A save is atomic. After every step of it, and so after a crash at any point, the state
  file holds either its old content or the complete new encoding, which fits the limit; when
  Save reports success it holds the new one, and when Save reports an error it still holds
  the old one unless the rename had already happened and only syncing the directory failed.
\<close>

theorem save_atomic:
  assumes "fresh_temp io (sto_path sto) d" and "Save io sto (Some m) d = (r, ds)"
  shows "(\<forall>d' \<in> set ds. d' (sto_path sto) = d (sto_path sto) \<or>
      (d' (sto_path sto) = Some (encode_state m) \<and> length (encode_state m) \<le> MaxStateFileSize)) \<and>
    (r = None \<longrightarrow> last ds (sto_path sto) = Some (encode_state m)) \<and>
    (r \<noteq> None \<longrightarrow> last ds (sto_path sto) = d (sto_path sto) \<or> (wr_rename io = None \<and> syncDir io \<noteq> None))"
  using assms(2)
proof (cases rule: Save_cases)
  case unchanged
  then show ?thesis by auto
next
  case (written m' r')
  then have w: "writeAtomic io (Dir (sto_path sto)) (sto_path sto) (encode_state m) d = (r', ds)" by simp
  show ?thesis
  proof (intro conjI ballI impI)
    fix d'
    assume "d' \<in> set ds"
    then show "d' (sto_path sto) = d (sto_path sto) \<or>
        (d' (sto_path sto) = Some (encode_state m) \<and> length (encode_state m) \<le> MaxStateFileSize)"
      using writeAtomic_old_or_new [OF assms(1) w] written by auto
  next
    assume "r = None"
    then show "last ds (sto_path sto) = Some (encode_state m)"
      using writeAtomic_ok [OF assms(1), of "encode_state m" ds] w written by simp
  next
    assume "r \<noteq> None"
    then obtain e where "r' = Some e" using written by auto
    then show "last ds (sto_path sto) = d (sto_path sto) \<or> (wr_rename io = None \<and> syncDir io \<noteq> None)"
      using writeAtomic_error [OF assms(1), of "encode_state m" e ds] w by auto
  qed
qed

lemma save_atomic_witness:
  "last (snd (Save sample_write sample_store (Some []) (Map.empty(sample_path \<mapsto> ''old'')))) sample_path =
     Some (encode_state [])"
proof -
  let ?d = "Map.empty(sample_path \<mapsto> ''old'') :: disk"
  have "fresh_temp sample_write (sto_path sample_store) ?d"
    by (simp add: fresh_temp_def sample_write_def sample_store_def sample_path_def)
  moreover have "length (encode_state []) = 38" by code_simp
  then have "fst (Save sample_write sample_store (Some []) ?d) = None"
    by (simp add: Save_def sample_store_def sample_write_def writeAtomic_def syncDir_def Let_def size_defs)
  ultimately show ?thesis
    using save_atomic [of sample_write sample_store ?d "[]" None "snd (Save sample_write sample_store (Some []) ?d)"]
    by (simp add: sample_store_def prod_eq_iff)
qed

text \<open>
  C18. A rejected file is preserved. Whatever sequence of loads and saves a store performs,
  starting before its first load, a state file that is too large, not decodable or of an
  unsupported version is never changed: every save is refused while no load has succeeded.
\<close>

theorem rejected_file_preserved:
  assumes "rejected unmarshal path d" and "list_all honest_open ops"
  shows "snd (store_run unmarshal ops (NewStore path, d)) = d"
  by (rule store_run_rejected) (use assms in \<open>simp_all add: NewStore_def\<close>)

lemma rejected_file_preserved_witness:
  "snd (store_run (\<lambda>s. Err (System ''unexpected end of JSON input''))
     [OpLoad sample_read, OpSave sample_write (Some []), OpLoad sample_read, OpSave sample_write (Some sample_state)]
     (NewStore sample_path, Map.empty(sample_path \<mapsto> ''{''))) = Map.empty(sample_path \<mapsto> ''{'')"
  by (rule rejected_file_preserved) (simp_all add: rejected_def honest_open_def sample_read_def)

end
