(* ===== verification/EvictionSpec.thy ===== *)
theory EvictionSpec
  imports Samples
begin

text \<open>
  What saveEvictingHistory promises: a greedy evictor without a heap it is equal to, what
  of the state survives, and what an outcome of it means.
\<close>

section \<open>The reference: scan for the heaviest workflow, drop its oldest record\<close>

definition evict_oldest :: "(HistoryRecord \<Rightarrow> int) \<Rightarrow> State \<Rightarrow> ((string \<times> int) \<times> State) option" where
  "evict_oldest recordBytes st =
     (case heaviest recordBytes st of
        None \<Rightarrow> None
      | Some k \<Rightarrow>
          (case map_of st k of
             None \<Rightarrow> None
           | Some w \<Rightarrow>
               (case wf_History w of
                  [] \<Rightarrow> None
                | r # rs \<Rightarrow> Some ((k, hr_Round r), Put st k (w\<lparr>wf_History := rs\<rparr>)))))"

fun greedy :: "(HistoryRecord \<Rightarrow> int) \<Rightarrow> State \<Rightarrow> nat \<Rightarrow> State \<times> (string \<times> int) list" where
  "greedy recordBytes st 0 = (st, [])"
| "greedy recordBytes st (Suc n) =
     (case greedy recordBytes st n of
        (s, log) \<Rightarrow>
          (case evict_oldest recordBytes s of
             None \<Rightarrow> (s, log)
           | Some (entry, s') \<Rightarrow> (s', log @ [entry])))"

text \<open>Nothing but old history is lost: same workflows in the same places, histories cut at the front.\<close>

definition trimmed :: "Workflow \<Rightarrow> Workflow \<Rightarrow> bool" where
  "trimmed w v \<longleftrightarrow>
     list_ex (\<lambda>j. v = w\<lparr>wf_History := drop j (wf_History w)\<rparr>) [0 ..< Suc (length (wf_History w))]"

definition history_trimmed :: "State \<Rightarrow> State \<Rightarrow> bool" where
  "history_trimmed st st' \<longleftrightarrow> list_all2 (\<lambda>a b. fst b = fst a \<and> trimmed (snd a) (snd b)) st st'"

lemma trimmed_iff: "trimmed w v \<longleftrightarrow> (\<exists>j. v = w\<lparr>wf_History := drop j (wf_History w)\<rparr>)"
proof
  assume "\<exists>j. v = w\<lparr>wf_History := drop j (wf_History w)\<rparr>"
  then obtain j where "v = w\<lparr>wf_History := drop j (wf_History w)\<rparr>" by blast
  then have "v = w\<lparr>wf_History := drop (min j (length (wf_History w))) (wf_History w)\<rparr>"
    by (simp add: min_def)
  moreover have "min j (length (wf_History w)) \<in> set [0 ..< Suc (length (wf_History w))]" by auto
  ultimately show "trimmed w v" unfolding trimmed_def list_ex_iff by blast
next
  assume "trimmed w v"
  then obtain j where "v = w\<lparr>wf_History := drop j (wf_History w)\<rparr>"
    unfolding trimmed_def list_ex_iff by blast
  then show "\<exists>j. v = w\<lparr>wf_History := drop j (wf_History w)\<rparr>" ..
qed

lemma trimmed_trans: "trimmed w v \<Longrightarrow> trimmed v u \<Longrightarrow> trimmed w u"
  by (auto simp: trimmed_iff)

lemma trimmed_refl: "trimmed w w"
  unfolding trimmed_iff by (rule exI [of _ 0]) simp

lemma history_trimmed_refl: "history_trimmed st st"
  by (simp add: history_trimmed_def list_all2_refl trimmed_refl)

lemma history_trimmed_trans: "history_trimmed a b \<Longrightarrow> history_trimmed b c \<Longrightarrow> history_trimmed a c"
  unfolding history_trimmed_def
  by (rule list_all2_trans [of _ _ "\<lambda>a b. fst b = fst a \<and> trimmed (snd a) (snd b)"]) (auto intro: trimmed_trans)

lemma history_trimmed_Put:
  "map_of st k = Some w \<Longrightarrow> wf_History w = r # rs \<Longrightarrow> history_trimmed st (Put st k (w\<lparr>wf_History := rs\<rparr>))"
proof (induction st)
  case (Cons kw st)
  have "trimmed w (w\<lparr>wf_History := rs\<rparr>)"
    unfolding trimmed_iff using Cons.prems by (intro exI [of _ 1]) simp
  with Cons show ?case
    by (cases kw) (auto simp: history_trimmed_def Put_def trimmed_refl intro: list_all2_refl)
qed simp

lemma history_trimmed_keys: "history_trimmed st st' \<Longrightarrow> map fst st' = map fst st"
  by (simp add: history_trimmed_def list_all2_conv_all_nth list_eq_iff_nth_eq)

lemma history_trimmed_lookup:
  "history_trimmed st st' \<Longrightarrow> map_of st k = Some w \<Longrightarrow> \<exists>v. map_of st' k = Some v \<and> trimmed w v"
proof (induction st arbitrary: st')
  case (Cons kw st)
  from Cons.prems(1) obtain kv st'' where st': "st' = kv # st''" "fst kv = fst kw" "trimmed (snd kw) (snd kv)"
    and rest: "history_trimmed st st''"
    unfolding history_trimmed_def list_all2_Cons1 by blast
  show ?case
  proof (cases "fst kw = k")
    case True
    then show ?thesis using Cons.prems(2) st' by (cases kw; cases kv) simp
  next
    case False
    then have "map_of st k = Some w" and "map_of st' k = map_of st'' k"
      using Cons.prems(2) st' by (cases kw; cases kv; simp)+
    then show ?thesis using Cons.IH [OF rest] by simp
  qed
qed simp

lemma history_trimmed_set:
  assumes "history_trimmed st st'" and "(k, v) \<in> set st'"
  shows "\<exists>w. (k, w) \<in> set st \<and> trimmed w v"
proof -
  from assms(2) obtain i where i: "i < length st'" "st' ! i = (k, v)" by (auto simp: in_set_conv_nth)
  with assms(1) have "i < length st" "fst (st ! i) = k" "trimmed (snd (st ! i)) v"
    by (auto simp: history_trimmed_def list_all2_conv_all_nth)
  then show ?thesis using nth_mem [of i st] by (metis prod.collapse)
qed

section \<open>A pass follows the reference\<close>

text \<open>The heap and the state agree, and what has been evicted so far is what the reference evicts.\<close>

definition on_track :: "(HistoryRecord \<Rightarrow> int) \<Rightarrow> State \<Rightarrow> pass \<Rightarrow> bool" where
  "on_track rb st0 pa \<longleftrightarrow>
     plan_ok (pa_plan pa) \<and> plan_map (pa_plan pa) = history_weights rb (pa_state pa) \<and>
     distinct (map fst (pa_state pa)) \<and>
     greedy rb st0 (length (pa_log pa)) = (pa_state pa, pa_log pa) \<and>
     history_trimmed st0 (pa_state pa)"

lemma on_track_evict:
  assumes "on_track rb st0 pa" and "largest (pa_plan pa) = Some k" and "\<And>r. 0 < rb r"
  shows "\<exists>n pa'. evict_one rb k pa = Some (n, pa') \<and> on_track rb st0 pa'"
proof -
  obtain w r rs p' where e: "map_of (pa_state pa) k = Some w" "wf_History w = r # rs"
      "shrink (rb r) (pa_plan pa) = Some p'" "plan_ok p'"
      "plan_map p' = history_weights rb (Put (pa_state pa) k (w\<lparr>wf_History := rs\<rparr>))"
    using evplan.evict_keeps_agreement [of "pa_plan pa" rb "pa_state pa" k] assms
    by (auto simp: on_track_def)
  have "heaviest rb (pa_state pa) = Some k"
    using evplan.top_is_heaviest [of "pa_plan pa" rb "pa_state pa"] assms(1,2) by (simp add: on_track_def)
  moreover have "history_trimmed st0 (Put (pa_state pa) k (w\<lparr>wf_History := rs\<rparr>))"
    using assms(1) e history_trimmed_Put history_trimmed_trans unfolding on_track_def by blast
  moreover have "distinct (map fst (Put (pa_state pa) k (w\<lparr>wf_History := rs\<rparr>)))"
    using assms(1) map_put_distinct by (auto simp: on_track_def Put_def)
  ultimately show ?thesis using assms(1) e
    by (auto simp: on_track_def evict_one_def Get_def evict_oldest_def)
qed

lemma on_track_no_history:
  assumes "on_track rb st0 pa" and "largest (pa_plan pa) = None"
  shows "hist_count (pa_state pa) = 0"
proof -
  have "heaviest rb (pa_state pa) = None"
    using evplan.top_is_heaviest [of "pa_plan pa" rb "pa_state pa"] assms by (simp add: on_track_def)
  then have *: "map_of (pa_state pa) k = Some w \<Longrightarrow> wf_History w = []" for k w
    using assms(1) heaviest_None history_weights_empty_iff unfolding on_track_def by metis
  have "wf_History (snd kw) = []" if "kw \<in> set (pa_state pa)" for kw
    using * [of "fst kw" "snd kw"] that assms(1) by (auto simp: on_track_def)
  then show ?thesis by (auto simp: hist_count_def)
qed

lemma evict_pass_total:
  assumes "on_track rb st0 pa" and "\<And>r. 0 < rb r"
  shows "evict_pass ctx rb over freed evicted pa \<noteq> None"
  using assms(1)
proof (induction "hist_count (pa_state pa)" arbitrary: freed evicted pa rule: less_induct)
  case less
  show ?case
  proof (cases "largest (pa_plan pa)")
    case None
    then show ?thesis by (simp add: evict_pass.simps [of ctx rb over freed evicted pa] split: option.splits)
  next
    case (Some k)
    then obtain n pa' where e: "evict_one rb k pa = Some (n, pa')" "on_track rb st0 pa'"
      using on_track_evict less.prems assms(2) by blast
    have "evict_pass ctx rb over (freed + n) True pa' \<noteq> None"
      using less.hyps e evict_one_count by fastforce
    then show ?thesis using Some e(1)
      by (simp add: evict_pass.simps [of ctx rb over freed evicted pa] split: option.splits)
  qed
qed

lemma evict_pass_failed:
  "evict_pass ctx rb over freed evicted pa = Some (PassFailed e, pa') \<Longrightarrow>
   \<exists>t c. ctx t = Some c \<and> e = Errorf ''evicting review history'' [c]"
proof (induction "hist_count (pa_state pa)" arbitrary: freed evicted pa rule: less_induct)
  case less
  from less.prems show ?case
  proof (cases rule: evict_pass_cases)
    case (go k n pa1)
    then show ?thesis using less.hyps evict_one_count by fastforce
  qed blast
qed

section \<open>The loop of saves\<close>

text \<open>No system call of a save reports ErrTooLarge: only Save itself does.\<close>

definition write_errors :: "WriteIO \<Rightarrow> string \<Rightarrow> goerror option list" where
  "write_errors io path =
     [wr_mkdir io (Dir path),
      (case wr_create io (Dir path) (Base path @ ''.tmp-*'') of Inl e \<Rightarrow> Some e | Inr tmp \<Rightarrow> None),
      wr_chmod io, map_option snd (wr_write io), wr_sync io, wr_close io, wr_rename io,
      wr_opendir io, wr_syncdir io]"

definition write_honest :: "WriteIO \<Rightarrow> string \<Rightarrow> bool" where
  "write_honest io path \<longleftrightarrow>
     list_all (\<lambda>r. case r of None \<Rightarrow> True | Some e \<Rightarrow> \<not> errors_Is e (S_state ErrTooLarge)) (write_errors io path)"

lemma writeAtomic_error_source:
  assumes "writeAtomic io (Dir path) path data d = (Some e, ds)"
  obtains op e' where "e = Errorf op [e']" "Some e' \<in> set (write_errors io path)"
proof (cases "wr_create io (Dir path) (Base path @ ''.tmp-*'')")
  case (Inl e1)
  then show ?thesis using assms that by (auto simp: writeAtomic_def write_errors_def)
next
  case (Inr tmp)
  have sync: "syncDir io = Some e \<Longrightarrow> \<exists>op e'. e = Errorf op [e'] \<and> (wr_opendir io = Some e' \<or> wr_syncdir io = Some e')"
    by (auto simp: syncDir_def split: option.splits)
  show ?thesis
    using assms Inr that sync
    unfolding writeAtomic_def Let_def write_errors_def
    by (cases "wr_chmod io"; cases "wr_write io"; cases "wr_sync io"; cases "wr_close io"; cases "wr_rename io")
      (simp_all split: prod.splits, metis+)
qed

lemma writeAtomic_honest:
  assumes "write_honest io path" and "writeAtomic io (Dir path) path data d = (Some e, ds)"
  shows "\<not> errors_Is e (S_state ErrTooLarge)"
  using assms(2)
proof (rule writeAtomic_error_source)
  fix op e'
  assume "e = Errorf op [e']" and "Some e' \<in> set (write_errors io path)"
  then show ?thesis using assms(1) by (auto simp: write_honest_def list_all_iff)
qed

lemma Save_honest:
  assumes "write_honest io (sto_path sto)" and "Save io sto (Some m) d = (Some e, ds)"
    and "errors_Is e (S_state ErrTooLarge)"
  shows "length (encode_state m) > MaxStateFileSize"
    and "e = TooLargeError (int (length (encode_state m))) (int MaxStateFileSize) (sto_path sto)"
    and "ds = [d]" and "sto_loaded sto"
proof -
  have loaded: "sto_loaded sto" using assms(2,3) by (cases "sto_loaded sto") (auto simp: Save_def)
  have large: "length (encode_state m) > MaxStateFileSize"
  proof (rule ccontr)
    assume small: "\<not> length (encode_state m) > MaxStateFileSize"
    show False
    proof (cases "wr_mkdir io (Dir (sto_path sto))")
      case None
      with small loaded assms(2) obtain e' where
        "writeAtomic io (Dir (sto_path sto)) (sto_path sto) (encode_state m) d = (Some e', ds)"
        "e = Errorf ''write state'' [e']"
        by (simp add: Save_def Let_def split: prod.splits option.splits)
      then show False using writeAtomic_honest [OF assms(1)] assms(3) by simp
    next
      case (Some e')
      then have "Some e' \<in> set (write_errors io (sto_path sto))" by (simp add: write_errors_def)
      moreover have "e = Errorf ''create state dir'' [e']"
        using small loaded assms(2) Some by (simp add: Save_def Let_def)
      ultimately show False using assms(1,3) by (auto simp: write_honest_def list_all_iff)
    qed
  qed
  from Save_too_large [OF loaded large] assms(2)
  show "length (encode_state m) > MaxStateFileSize"
    and "e = TooLargeError (int (length (encode_state m))) (int MaxStateFileSize) (sto_path sto)"
    and "ds = [d]" and "sto_loaded sto"
    using large loaded by simp_all
qed

lemma overshoot_TooLargeError [simp]: "overshoot (TooLargeError n l p) = n - l"
  by (simp add: overshoot_def as_defs)

abbreviation first_pass ::
  "(HistoryRecord \<Rightarrow> int) \<Rightarrow> evictionPlan option \<Rightarrow> State \<Rightarrow> nat \<Rightarrow> (string \<times> int) list \<Rightarrow> pass" where
  "first_pass rb plan st tick log \<equiv>
     \<lparr>pa_plan = (case plan of None \<Rightarrow> newEvictionPlan rb st | Some p \<Rightarrow> p), pa_state = st,
      pa_tick = tick, pa_log = log\<rparr>"

text \<open>How a loop ends: with the outcome of a save, the context's error, or nothing left to evict.\<close>

inductive loop_end ::
  "WriteIO \<Rightarrow> (nat \<Rightarrow> goerror option) \<Rightarrow> Store \<Rightarrow> evictionPlan option \<Rightarrow> disk \<Rightarrow> eviction \<Rightarrow> bool"
  for io ctx sto where
  saved: "Save io sto (Some st) d = (e, ds) \<Longrightarrow>
    (case e of None \<Rightarrow> True | Some e' \<Rightarrow> \<not> errors_Is e' (S_state ErrTooLarge)) \<Longrightarrow>
    loop_end io ctx sto plan d \<lparr>ev_err = e, ev_state = st, ev_disk = last ds, ev_log = log\<rparr>"
| stopped: "ctx t = Some c \<Longrightarrow>
    loop_end io ctx sto plan d
      \<lparr>ev_err = Some (Errorf ''evicting review history'' [c]), ev_state = st, ev_disk = d, ev_log = log\<rparr>"
| exhausted: "Save io sto (Some st) d0 = (Some e, ds) \<Longrightarrow> errors_Is e (S_state ErrTooLarge) \<Longrightarrow> largest p = None \<Longrightarrow>
    loop_end io ctx sto (Some p) d \<lparr>ev_err = Some e, ev_state = st, ev_disk = d, ev_log = log\<rparr>"

inductive_cases loop_endE: "loop_end io ctx sto plan d r"

lemma save_loop_ends:
  assumes "save_loop io ctx rb sto plan st tick log d = Some r" and "J plan st log d"
    and step: "\<And>plan st tick log d e ds re pa. J plan st log d \<Longrightarrow> Save io sto (Some st) d = (Some e, ds) \<Longrightarrow>
      errors_Is e (S_state ErrTooLarge) \<Longrightarrow>
      evict_pass ctx rb (overshoot e) 0 False (first_pass rb plan st tick log) = Some (re, pa) \<Longrightarrow>
      J (Some (pa_plan pa)) (pa_state pa) (pa_log pa) (last ds)"
  shows "\<exists>plan' d'. J plan' (ev_state r) (ev_log r) d' \<and> loop_end io ctx sto plan' d' r"
  using assms(1,2)
proof (induction "hist_count st" arbitrary: plan st tick log d rule: less_induct)
  case less
  obtain e ds where sv: "Save io sto (Some st) d = (e, ds)" by fastforce
  show ?case
  proof (cases "\<exists>e'. e = Some e' \<and> errors_Is e' (S_state ErrTooLarge)")
    case False
    then have "r = \<lparr>ev_err = e, ev_state = st, ev_disk = last ds, ev_log = log\<rparr>"
      using less.prems(1) sv by (simp add: save_loop.simps [of io ctx rb sto plan] split: option.splits)
    moreover have "loop_end io ctx sto plan d \<lparr>ev_err = e, ev_state = st, ev_disk = last ds, ev_log = log\<rparr>"
      by (rule saved [OF sv]) (use False in \<open>auto split: option.splits\<close>)
    ultimately show ?thesis using less.prems(2) by (intro exI [of _ plan] exI [of _ d]) simp
  next
    case True
    then obtain e' where e: "e = Some e'" "errors_Is e' (S_state ErrTooLarge)" by blast
    with less.prems(1) sv obtain re pa where
      ps: "evict_pass ctx rb (overshoot e') 0 False (first_pass rb plan st tick log) = Some (re, pa)"
      by (cases "evict_pass ctx rb (overshoot e') 0 False (first_pass rb plan st tick log)")
        (auto simp: save_loop.simps [of io ctx rb sto plan] Let_def)
    have J: "J (Some (pa_plan pa)) (pa_state pa) (pa_log pa) (last ds)"
      using step less.prems(2) sv e ps by blast
    show ?thesis
    proof (cases re)
      case PassDone
      have "hist_count (pa_state pa) < hist_count st"
        using evict_pass_progress ps PassDone by fastforce
      moreover have "save_loop io ctx rb sto (Some (pa_plan pa)) (pa_state pa) (pa_tick pa) (pa_log pa) (last ds) = Some r"
        using less.prems(1) sv e ps PassDone by (simp add: save_loop.simps [of io ctx rb sto plan] Let_def)
      ultimately show ?thesis using less.hyps J by blast
    next
      case (PassFailed f)
      then obtain t c where f: "ctx t = Some c" "f = Errorf ''evicting review history'' [c]"
        using evict_pass_failed ps by blast
      have "r = \<lparr>ev_err = Some f, ev_state = pa_state pa, ev_disk = last ds, ev_log = pa_log pa\<rparr>"
        using less.prems(1) sv e ps PassFailed by (simp add: save_loop.simps [of io ctx rb sto plan] Let_def)
      then show ?thesis using J f stopped [of ctx t c, OF f(1)] by (intro exI [of _ "Some (pa_plan pa)"] exI [of _ "last ds"]) simp
    next
      case PassNoHistory
      have none: "pa = first_pass rb plan st tick log \<and> largest (pa_plan pa) = None"
        using evict_pass_keeps_freed [OF ps, of "\<lambda>_ _ _. True"] PassNoHistory by auto
      have sv': "Save io sto (Some (pa_state pa)) d = (Some e', ds)" using sv e(1) none by simp
      have "r = \<lparr>ev_err = Some e', ev_state = pa_state pa, ev_disk = last ds, ev_log = pa_log pa\<rparr>"
        using less.prems(1) sv e ps PassNoHistory by (simp add: save_loop.simps [of io ctx rb sto plan] Let_def)
      moreover have "loop_end io ctx sto (Some (pa_plan pa)) (last ds)
          \<lparr>ev_err = Some e', ev_state = pa_state pa, ev_disk = last ds, ev_log = pa_log pa\<rparr>"
        using exhausted [OF sv' e(2)] none by blast
      ultimately show ?thesis using J by (intro exI [of _ "Some (pa_plan pa)"] exI [of _ "last ds"]) simp
    qed
  qed
qed

text \<open>Before its first pass a loop has no plan and an empty log; afterwards it is on track.\<close>

definition loop_on_track :: "(HistoryRecord \<Rightarrow> int) \<Rightarrow> State \<Rightarrow> evictionPlan option \<Rightarrow> State \<Rightarrow> (string \<times> int) list \<Rightarrow> bool" where
  "loop_on_track rb st0 plan st log \<longleftrightarrow>
     (case plan of None \<Rightarrow> st = st0 \<and> log = [] \<and> distinct (map fst st)
      | Some p \<Rightarrow> on_track rb st0 \<lparr>pa_plan = p, pa_state = st, pa_tick = 0, pa_log = log\<rparr>)"

lemma on_track_tick: "on_track rb st0 (pa\<lparr>pa_tick := t\<rparr>) \<longleftrightarrow> on_track rb st0 pa"
  by (simp add: on_track_def)

lemma loop_on_track_first:
  "loop_on_track rb st0 plan st log \<Longrightarrow> on_track rb st0 (first_pass rb plan st tick log)"
  by (auto simp: loop_on_track_def on_track_def newEvictionPlan_ok evplan.make_weights history_trimmed_refl
      split: option.splits)

lemma loop_on_track_pass:
  "on_track rb st0 pa \<Longrightarrow> loop_on_track rb st0 (Some (pa_plan pa)) (pa_state pa) (pa_log pa)"
  by (simp add: loop_on_track_def on_track_def)

lemma loop_on_track_step:
  assumes "loop_on_track rb st0 plan st log" and "\<And>r. 0 < rb r"
    and "evict_pass ctx rb over 0 False (first_pass rb plan st tick log) = Some (re, pa)"
  shows "loop_on_track rb st0 (Some (pa_plan pa)) (pa_state pa) (pa_log pa)"
proof (rule loop_on_track_pass, rule evict_pass_keeps [OF assms(3)])
  show "on_track rb st0 (first_pass rb plan st tick log)" using assms(1) by (rule loop_on_track_first)
  show "on_track rb st0 pa1"
    if "on_track rb st0 pa" "largest (pa_plan pa) = Some k" "evict_one rb k pa = Some (n, pa1)" for k n pa pa1
    using on_track_evict [OF that(1,2) assms(2)] that(3) by auto
qed

lemma save_loop_total:
  assumes "loop_on_track rb st0 plan st log" and "\<And>r. 0 < rb r"
  shows "save_loop io ctx rb sto plan st tick log d \<noteq> None"
  using assms(1)
proof (induction "hist_count st" arbitrary: plan st tick log d rule: less_induct)
  case less
  obtain e ds where sv: "Save io sto (Some st) d = (e, ds)" by fastforce
  show ?case
  proof (cases "\<exists>e'. e = Some e' \<and> errors_Is e' (S_state ErrTooLarge)")
    case False
    then show ?thesis using sv by (auto simp: save_loop.simps [of io ctx rb sto plan] split: option.splits)
  next
    case True
    then obtain e' where e: "e = Some e'" "errors_Is e' (S_state ErrTooLarge)" by blast
    have "evict_pass ctx rb (overshoot e') 0 False (first_pass rb plan st tick log) \<noteq> None"
      using evict_pass_total [OF loop_on_track_first [OF less.prems] assms(2)] .
    then obtain re pa where ps: "evict_pass ctx rb (overshoot e') 0 False (first_pass rb plan st tick log) = Some (re, pa)"
      by auto
    have "save_loop io ctx rb sto (Some (pa_plan pa)) (pa_state pa) (pa_tick pa) (pa_log pa) (last ds) \<noteq> None"
      if "re = PassDone"
      using less.hyps [OF _ loop_on_track_step [OF less.prems assms(2) ps]] evict_pass_progress ps that by fastforce
    then show ?thesis using sv e ps
      by (cases re) (simp_all add: save_loop.simps [of io ctx rb sto plan] Let_def)
  qed
qed

lemma saveEvictingHistory_ends:
  assumes "saveEvictingHistory io ctx rb sto st d = Some r" and "distinct (map fst st)" and "\<And>r. 0 < rb r"
  shows "\<exists>plan' d'. loop_on_track rb st plan' (ev_state r) (ev_log r) \<and> loop_end io ctx sto plan' d' r"
proof -
  have "\<exists>plan' d'. loop_on_track rb st plan' (ev_state r) (ev_log r) \<and> loop_end io ctx sto plan' d' r"
    using assms(1) unfolding saveEvictingHistory_def
    by (rule save_loop_ends [where J = "\<lambda>plan st' log d'. loop_on_track rb st plan st' log"])
      (use assms(2,3) loop_on_track_step in \<open>auto simp: loop_on_track_def [of rb st None]\<close>)
  then show ?thesis .
qed

text \<open>ErrTooLarge leaves the disk alone, so a loop of honest system calls ends on the disk it began with.\<close>

lemma saveEvictingHistory_ends_disk:
  assumes "saveEvictingHistory io ctx rb sto st d = Some r" and "distinct (map fst st)" and "\<And>r. 0 < rb r"
    and "write_honest io (sto_path sto)"
  shows "\<exists>plan'. loop_on_track rb st plan' (ev_state r) (ev_log r) \<and> loop_end io ctx sto plan' d r"
proof -
  have "\<exists>plan' d'. (loop_on_track rb st plan' (ev_state r) (ev_log r) \<and> d' = d) \<and> loop_end io ctx sto plan' d' r"
    using assms(1) unfolding saveEvictingHistory_def
  proof (rule save_loop_ends [where J = "\<lambda>plan st' log d'. loop_on_track rb st plan st' log \<and> d' = d"])
    show "loop_on_track rb st None st [] \<and> d = d" using assms(2) by (simp add: loop_on_track_def)
  next
    fix plan st1 tick log d1 e ds re pa
    assume "loop_on_track rb st plan st1 log \<and> d1 = d" and "Save io sto (Some st1) d1 = (Some e, ds)"
      and "errors_Is e (S_state ErrTooLarge)"
      and "evict_pass ctx rb (overshoot e) 0 False (first_pass rb plan st1 tick log) = Some (re, pa)"
    then show "loop_on_track rb st (Some (pa_plan pa)) (pa_state pa) (pa_log pa) \<and> last ds = d"
      using loop_on_track_step assms(3) Save_honest(3) [OF assms(4)] by fastforce
  qed
  then show ?thesis by blast
qed

lemma loop_on_track_greedy:
  "loop_on_track rb st0 plan st log \<Longrightarrow> greedy rb st0 (length log) = (st, log) \<and> history_trimmed st0 st"
  by (auto simp: loop_on_track_def on_track_def history_trimmed_refl split: option.splits)

section \<open>No eviction is wasted\<close>

definition records_ok :: "State \<Rightarrow> bool" where
  "records_ok st \<longleftrightarrow>
     list_all (\<lambda>kw. list_all (\<lambda>r. record_ok r \<and> record_ints r) (wf_History (snd kw))) st"

definition too_large :: "State \<Rightarrow> bool" where
  "too_large st \<longleftrightarrow> length (encode_state st) > MaxStateFileSize"

text \<open>Every record of the log was evicted from a state that did not fit.\<close>

definition all_needed :: "State \<Rightarrow> (string \<times> int) list \<Rightarrow> bool" where
  "all_needed st0 log \<longleftrightarrow>
     list_all (\<lambda>n. too_large (fst (greedy historyRecordBytes st0 n))) [0 ..< length log]"

lemma all_needed_snoc:
  "all_needed st0 (log @ [e]) \<longleftrightarrow> all_needed st0 log \<and> too_large (fst (greedy historyRecordBytes st0 (length log)))"
  by (auto simp: all_needed_def)

lemma records_ok_trimmed: "records_ok st \<Longrightarrow> history_trimmed st st' \<Longrightarrow> records_ok st'"
  unfolding records_ok_def list_all_iff
proof
  fix kv
  assume ok: "\<forall>kw \<in> set st. \<forall>r \<in> set (wf_History (snd kw)). record_ok r \<and> record_ints r"
    and "history_trimmed st st'" and "kv \<in> set st'"
  then obtain w where "(fst kv, w) \<in> set st" "trimmed w (snd kv)"
    using history_trimmed_set [of st st' "fst kv" "snd kv"] by auto
  then show "\<forall>r \<in> set (wf_History (snd kv)). record_ok r \<and> record_ints r"
    using ok by (auto simp: trimmed_iff dest!: in_set_dropD)
qed

lemma on_track_freed:
  assumes "on_track historyRecordBytes st0 pa" and "records_ok st0"
    and "evict_one historyRecordBytes k pa = Some (n, pa')"
  shows "int (length (encode_state (pa_state pa))) \<le> int (length (encode_state (pa_state pa'))) + n"
  using assms(3)
proof (rule evict_one_Some)
  fix w r rs p
  assume w: "map_of (pa_state pa) k = Some w" "wf_History w = r # rs" and n: "n = historyRecordBytes r"
    and pa': "pa' = \<lparr>pa_plan = p, pa_state = Put (pa_state pa) k (w\<lparr>wf_History := rs\<rparr>),
            pa_tick = Suc (pa_tick pa), pa_log = pa_log pa @ [(k, hr_Round r)]\<rparr>"
  have "records_ok (pa_state pa)" using assms(1,2) records_ok_trimmed by (simp add: on_track_def)
  then have "record_ok r \<and> record_ints r"
    using w by (force simp: records_ok_def list_all_iff dest: map_of_SomeD)
  then show ?thesis using encode_state_freed [OF w] n pa' by simp
qed

text \<open>What holds between two evictions of a pass that must free the overshoot of start.\<close>

definition pass_needed :: "State \<Rightarrow> State \<Rightarrow> int \<Rightarrow> bool \<Rightarrow> pass \<Rightarrow> bool" where
  "pass_needed st0 start freed evicted pa \<longleftrightarrow>
     on_track historyRecordBytes st0 pa \<and> all_needed st0 (pa_log pa) \<and>
     int (length (encode_state start)) \<le> int (length (encode_state (pa_state pa))) + freed \<and>
     (evicted \<or> freed = 0)"

lemma pass_needed_step:
  assumes "pass_needed st0 start freed evicted pa" and "records_ok st0" and "too_large start"
    and "evicted \<Longrightarrow> freed < int (length (encode_state start)) - int MaxStateFileSize"
    and "largest (pa_plan pa) = Some k" and "evict_one historyRecordBytes k pa = Some (n, pa')"
  shows "pass_needed st0 start (freed + n) True pa'"
proof -
  have track: "on_track historyRecordBytes st0 pa" using assms(1) by (simp add: pass_needed_def)
  have "too_large (pa_state pa)"
    using assms(1,3,4) by (cases evicted) (auto simp: pass_needed_def too_large_def)
  moreover have "greedy historyRecordBytes st0 (length (pa_log pa)) = (pa_state pa, pa_log pa)"
    using track by (simp add: on_track_def)
  moreover have "\<exists>e. pa_log pa' = pa_log pa @ [e]" using assms(6) by (rule evict_one_Some) simp
  ultimately have "all_needed st0 (pa_log pa')"
    using assms(1) by (auto simp: all_needed_snoc pass_needed_def)
  moreover have "on_track historyRecordBytes st0 pa'"
    using on_track_evict [OF track assms(5) historyRecordBytes_pos] assms(6) by auto
  moreover have "int (length (encode_state (pa_state pa))) \<le> int (length (encode_state (pa_state pa'))) + n"
    using on_track_freed track assms(2,6) .
  ultimately show ?thesis using assms(1) by (auto simp: pass_needed_def)
qed

lemma save_loop_needed:
  assumes "saveEvictingHistory io ctx historyRecordBytes sto st d = Some r" and "distinct (map fst st)"
    and "records_ok st" and "write_honest io (sto_path sto)"
  shows "all_needed st (ev_log r)"
proof -
  let ?J = "\<lambda>plan st' log (d :: disk). loop_on_track historyRecordBytes st plan st' log \<and> all_needed st log"
  have "\<exists>plan' d'. ?J plan' (ev_state r) (ev_log r) d' \<and> loop_end io ctx sto plan' d' r"
    using assms(1) unfolding saveEvictingHistory_def
  proof (rule save_loop_ends [where J = ?J])
    show "?J None st [] d" using assms(2) by (simp add: loop_on_track_def all_needed_def)
  next
    fix plan st1 tick log e ds re pa
    fix d :: disk
    assume J: "loop_on_track historyRecordBytes st plan st1 log \<and> all_needed st log"
      and sv: "Save io sto (Some st1) d = (Some e, ds)" "errors_Is e (S_state ErrTooLarge)"
      and ps: "evict_pass ctx historyRecordBytes (overshoot e) 0 False
                 (first_pass historyRecordBytes plan st1 tick log) = Some (re, pa)"
    have big: "too_large st1"
      and over: "overshoot e = int (length (encode_state st1)) - int MaxStateFileSize"
      using Save_honest [OF assms(4) sv] by (simp_all add: too_large_def)
    have "\<exists>freed' ev'. pass_needed st st1 freed' ev' pa \<and>
        (re = PassNoHistory \<longrightarrow> pa = first_pass historyRecordBytes plan st1 tick log \<and>
          largest (pa_plan (first_pass historyRecordBytes plan st1 tick log)) = None)"
    proof (rule evict_pass_keeps_freed [OF ps])
      show "pass_needed st st1 0 False (first_pass historyRecordBytes plan st1 tick log)"
        using J loop_on_track_first by (simp add: pass_needed_def)
      show "pass_needed st st1 (freed + n) True pa1"
        if "pass_needed st st1 freed ev pa0" "ev \<Longrightarrow> freed < overshoot e" "largest (pa_plan pa0) = Some k"
          "evict_one historyRecordBytes k pa0 = Some (n, pa1)" for freed ev k n pa0 pa1
        using pass_needed_step [OF that(1) assms(3) big _ that(3,4)] that(2) over by simp
    qed
    then show "loop_on_track historyRecordBytes st (Some (pa_plan pa)) (pa_state pa) (pa_log pa) \<and>
        all_needed st (pa_log pa)"
      using loop_on_track_pass by (auto simp: pass_needed_def)
  qed
  then show ?thesis by blast
qed

section \<open>What saveEvictingHistory promises\<close>

text \<open>A context that ends does so with an error that is not ErrTooLarge.\<close>

definition ctx_honest :: "(nat \<Rightarrow> goerror option) \<Rightarrow> bool" where
  "ctx_honest ctx \<longleftrightarrow> (\<forall>t e. ctx t = Some e \<longrightarrow> \<not> errors_Is e (S_state ErrTooLarge))"

text \<open>
  C13. Saving with eviction always returns: it neither loops nor indexes an empty history or
  an empty plan, whatever the system calls answer. What it evicts, one record at a time, is
  exactly what the reference evicts by scanning every workflow for the one whose history
  weighs most (ties by key): the heap and the running totals it keeps instead of a rescan
  never lead it astray.
\<close>

theorem eviction_greedy:
  assumes "distinct (map fst st)" and "\<And>r. 0 < recordBytes r"
  shows "\<exists>r. saveEvictingHistory io ctx recordBytes sto st d = Some r \<and>
    greedy recordBytes st (length (ev_log r)) = (ev_state r, ev_log r)"
proof -
  have "loop_on_track recordBytes st None st []" using assms(1) by (simp add: loop_on_track_def)
  from save_loop_total [OF this assms(2)] obtain r
    where r: "saveEvictingHistory io ctx recordBytes sto st d = Some r"
    unfolding saveEvictingHistory_def by blast
  with saveEvictingHistory_ends [OF r assms] loop_on_track_greedy show ?thesis by blast
qed


text \<open>
  C15. Eviction never touches a completed review: every workflow is still there, in place,
  with its replay fields unchanged and a history that is a tail of what it was; a history
  that was valid stays valid, so the next round of no workflow is refused because of it.
\<close>

theorem eviction_keeps_reviews:
  assumes "distinct (map fst st)" and "\<And>r. 0 < recordBytes r"
    and "saveEvictingHistory io ctx recordBytes sto st d = Some r" and "map_of st k = Some w"
  shows "map fst (ev_state r) = map fst st \<and>
    (\<exists>v j. map_of (ev_state r) k = Some v \<and> SameReplayFields v w \<and> wf_LastUsage v = wf_LastUsage w \<and>
       wf_History v = drop j (wf_History w) \<and> (ledger_ok w \<longrightarrow> ledger_ok v))"
proof -
  have trim: "history_trimmed st (ev_state r)"
    using saveEvictingHistory_ends [OF assms(3,1,2)] loop_on_track_greedy by blast
  then obtain v where v: "map_of (ev_state r) k = Some v" "trimmed w v"
    using history_trimmed_lookup assms(4) by blast
  then obtain j where "v = w\<lparr>wf_History := drop j (wf_History w)\<rparr>" by (auto simp: trimmed_iff)
  then show ?thesis
    using v(1) history_trimmed_keys [OF trim] ledger_ok_drop
    by (intro conjI exI [of _ v] exI [of _ j]) (simp_all add: SameReplayFields_def)
qed

text \<open>
  C16. How the save ends. On success the file holds exactly the state returned, within the
  size limit. ErrTooLarge is reported only when no history is left in any workflow and the
  file is still too large, and then the disk is as it was.
\<close>

theorem eviction_outcome:
  assumes "distinct (map fst st)" and "\<And>r. 0 < recordBytes r" and "write_honest io (sto_path sto)"
    and "ctx_honest ctx" and "fresh_temp io (sto_path sto) d"
    and "saveEvictingHistory io ctx recordBytes sto st d = Some r"
  shows "case ev_err r of
      None \<Rightarrow> ev_disk r (sto_path sto) = Some (encode_state (ev_state r)) \<and> \<not> too_large (ev_state r)
    | Some e \<Rightarrow> errors_Is e (S_state ErrTooLarge) \<longrightarrow>
        hist_count (ev_state r) = 0 \<and> too_large (ev_state r) \<and> ev_disk r = d"
proof -
  obtain plan' where track: "loop_on_track recordBytes st plan' (ev_state r) (ev_log r)"
    and fin: "loop_end io ctx sto plan' d r"
    using saveEvictingHistory_ends_disk [OF assms(6,1,2,3)] by blast
  from fin show ?thesis
  proof cases
    case (saved st' e ds log)
    then show ?thesis using Save_None [OF assms(5)]
      by (cases e) (fastforce simp: too_large_def not_less)+
  next
    case (stopped t c st' log)
    then show ?thesis using assms(4) by (auto simp: ctx_honest_def)
  next
    case (exhausted st' d0 e ds p log)
    then have "hist_count st' = 0"
      using track on_track_no_history [of recordBytes st] by (fastforce simp: loop_on_track_def)
    then show ?thesis using exhausted Save_honest(1) [OF assms(3)] by (auto simp: too_large_def)
  qed
qed

section \<open>Witnesses: a completed review larger than the file may be\<close>

abbreviation large_run :: "eviction option" where
  "large_run \<equiv> saveEvictingHistory sample_write (\<lambda>t. None) historyRecordBytes sample_store large_state Map.empty"

definition large_rest :: State where
  "large_rest = [(sample_key, large_workflow\<lparr>wf_History := []\<rparr>)]"

lemma sample_write_honest: "write_honest sample_write sample_path"
  by (simp add: write_honest_def write_errors_def sample_write_def)

lemma sample_fresh: "fresh_temp sample_write sample_path Map.empty"
  by (simp add: fresh_temp_def sample_write_def sample_path_def)

lemma sample_record_round: "hr_Round sample_record = 1"
  by (simp add: sample_record_def)

lemma large_save:
  "wf_LastReview w = x_text 16777216 \<Longrightarrow> Save sample_write sample_store (Some [(k, w)]) d =
     (Some (TooLargeError (int (length (encode_state [(k, w)]))) (int MaxStateFileSize) sample_path), [d])"
  using large_workflow_length [of w k] by (subst Save_too_large) (simp_all add: sample_store_def)

text \<open>Its one retained round is given up, and the file still does not fit.\<close>

lemma large_run_result:
  "large_run = Some
     \<lparr>ev_err = Some (TooLargeError (int (length (encode_state large_rest))) (int MaxStateFileSize) sample_path),
      ev_state = large_rest, ev_disk = Map.empty, ev_log = [(sample_key, 1)]\<rparr>"
proof -
  have plan: "newEvictionPlan historyRecordBytes large_state =
      [\<lparr>ec_key = sample_key, ec_bytes = historyRecordBytes sample_record\<rparr>]"
    unfolding newEvictionPlan_def large_state_def
    by (simp add: large_workflow_def sample_workflow_def heap_init_def)
  have one: "evict_one historyRecordBytes sample_key
      \<lparr>pa_plan = [\<lparr>ec_key = sample_key, ec_bytes = historyRecordBytes sample_record\<rparr>],
       pa_state = large_state, pa_tick = 0, pa_log = []\<rparr> =
    Some (historyRecordBytes sample_record,
      \<lparr>pa_plan = [], pa_state = large_rest, pa_tick = 1, pa_log = [(sample_key, 1)]\<rparr>)"
    by (simp add: evict_one_def Get_def large_state_def large_workflow_def sample_workflow_def Let_def
        shrink_def heap_pop_def heap_swap_def heap_down.simps large_rest_def Put_def sample_record_round)
  have pass: "evict_pass (\<lambda>t. None) historyRecordBytes over 0 False
      \<lparr>pa_plan = [\<lparr>ec_key = sample_key, ec_bytes = historyRecordBytes sample_record\<rparr>],
       pa_state = large_state, pa_tick = 0, pa_log = []\<rparr> =
    Some (PassDone, \<lparr>pa_plan = [], pa_state = large_rest, pa_tick = Suc 0, pa_log = [(sample_key, 1)]\<rparr>)" for over
    using one by (simp add: evict_pass.simps largest_def)
  have again: "save_loop sample_write (\<lambda>t. None) historyRecordBytes sample_store (Some []) large_rest (Suc 0)
      [(sample_key, 1)] Map.empty = Some
     \<lparr>ev_err = Some (TooLargeError (int (length (encode_state large_rest))) (int MaxStateFileSize) sample_path),
      ev_state = large_rest, ev_disk = Map.empty, ev_log = [(sample_key, 1)]\<rparr>"
    using large_save [of "large_workflow\<lparr>wf_History := []\<rparr>" sample_key Map.empty]
    by (subst save_loop.simps) (simp add: large_rest_def large_workflow_def evict_pass.simps largest_def)
  have first: "Save sample_write sample_store (Some large_state) Map.empty =
      (Some (TooLargeError (int (length (encode_state large_state))) (int MaxStateFileSize) sample_path), [Map.empty])"
    unfolding large_state_def by (rule large_save) (simp add: large_workflow_def)
  show ?thesis unfolding saveEvictingHistory_def
    by (subst save_loop.simps) (simp add: first plan pass again [simplified] Let_def)
qed

lemma eviction_greedy_witness:
  "\<exists>r. large_run = Some r \<and> greedy historyRecordBytes large_state (length (ev_log r)) = (ev_state r, ev_log r)"
  by (rule eviction_greedy [OF sample_keys(2) historyRecordBytes_pos])

lemma large_records_ok: "records_ok large_state"
  using sample_record_ok by (simp add: records_ok_def large_state_def large_workflow_def sample_workflow_def)


lemma eviction_keeps_reviews_witness:
  "\<exists>v. map_of large_rest sample_key = Some v \<and> SameReplayFields v large_workflow"
  using eviction_keeps_reviews [OF sample_keys(2) historyRecordBytes_pos large_run_result,
      of sample_key large_workflow]
  by (simp add: large_state_def del: map_of_eq_Some_iff) blast

lemma eviction_outcome_witness: "hist_count large_rest = 0 \<and> too_large large_rest"
  using eviction_outcome [OF sample_keys(2) historyRecordBytes_pos _ _ _ large_run_result]
    sample_write_honest sample_fresh
  by (simp add: sample_store_def ctx_honest_def)

end
