(* ===== verification/Text.thy ===== *)
theory Text
  imports Prelude
begin

text \<open>
  The rest of the package strings and of strconv that the program uses: white space as
  unicode.IsSpace sees it in UTF-8 text, Fields, Cut, ParseInt. An encoding of a white
  space character starts with a byte that is never a continuation byte, so matching the
  encodings byte by byte agrees with decoding runes, on invalid text too.
\<close>

section \<open>White space\<close>

definition space_encodings :: "string list" where
  "space_encodings =
     [[CHR 0x09], [CHR 0x0A], [CHR 0x0B], [CHR 0x0C], [CHR 0x0D], [CHR 0x20],
      [CHR 0xC2, CHR 0x85], [CHR 0xC2, CHR 0xA0], [CHR 0xE1, CHR 0x9A, CHR 0x80],
      [CHR 0xE2, CHR 0x80, CHR 0x80], [CHR 0xE2, CHR 0x80, CHR 0x81], [CHR 0xE2, CHR 0x80, CHR 0x82],
      [CHR 0xE2, CHR 0x80, CHR 0x83], [CHR 0xE2, CHR 0x80, CHR 0x84], [CHR 0xE2, CHR 0x80, CHR 0x85],
      [CHR 0xE2, CHR 0x80, CHR 0x86], [CHR 0xE2, CHR 0x80, CHR 0x87], [CHR 0xE2, CHR 0x80, CHR 0x88],
      [CHR 0xE2, CHR 0x80, CHR 0x89], [CHR 0xE2, CHR 0x80, CHR 0x8A], [CHR 0xE2, CHR 0x80, CHR 0xA8],
      [CHR 0xE2, CHR 0x80, CHR 0xA9], [CHR 0xE2, CHR 0x80, CHR 0xAF], [CHR 0xE2, CHR 0x81, CHR 0x9F],
      [CHR 0xE3, CHR 0x80, CHR 0x80]]"

text \<open>The length of the white space character at the head, 0 when there is none.\<close>

definition space_size :: "string \<Rightarrow> nat" where
  "space_size s = (case find (HasPrefix s) space_encodings of None \<Rightarrow> 0 | Some e \<Rightarrow> length e)"

lemma space_size_le: "space_size s \<le> length s"
proof (cases "find (HasPrefix s) space_encodings")
  case (Some e)
  then have "HasPrefix s e" by (auto simp: find_Some_iff)
  then show ?thesis using Some by (auto simp: space_size_def HasPrefix_iff)
qed (simp add: space_size_def)

function trim_left :: "string \<Rightarrow> string" where
  "trim_left s = (if space_size s = 0 then s else trim_left (drop (space_size s) s))"
  by pat_completeness auto
termination
proof (relation "measure length")
  fix s :: string
  assume "space_size s \<noteq> 0"
  then show "(drop (space_size s) s, s) \<in> measure length"
    using space_size_le [of s] by auto
qed simp

declare trim_left.simps [simp del]

definition space_suffix :: "string \<Rightarrow> nat" where
  "space_suffix s = (case find (\<lambda>e. HasPrefix (rev s) (rev e)) space_encodings of None \<Rightarrow> 0 | Some e \<Rightarrow> length e)"

lemma space_suffix_le: "space_suffix s \<le> length s"
proof (cases "find (\<lambda>e. HasPrefix (rev s) (rev e)) space_encodings")
  case (Some e)
  then have "HasPrefix (rev s) (rev e)" by (auto simp: find_Some_iff)
  then have "length (rev e) \<le> length (rev s)" by (metis HasPrefix_iff length_append le_add1)
  then show ?thesis using Some by (simp add: space_suffix_def)
qed (simp add: space_suffix_def)

function trim_right :: "string \<Rightarrow> string" where
  "trim_right s = (if space_suffix s = 0 then s else trim_right (take (length s - space_suffix s) s))"
  by pat_completeness auto
termination
proof (relation "measure length")
  fix s :: string
  assume "space_suffix s \<noteq> 0"
  then show "(take (length s - space_suffix s) s, s) \<in> measure length"
    using space_suffix_le [of s] by auto
qed simp

declare trim_right.simps [simp del]

definition TrimSpace :: "string \<Rightarrow> string" where
  "TrimSpace s = trim_right (trim_left s)"

lemma length_trim_left: "length (trim_left s) \<le> length s"
proof (induction s rule: trim_left.induct)
  case (1 s)
  then show ?case by (cases "space_size s = 0") (auto simp: trim_left.simps [of s])
qed

text \<open>strings.Fields: the maximal runs of bytes between white space.\<close>

function fields_from :: "string \<Rightarrow> string \<Rightarrow> string list" where
  "fields_from acc s =
     (if s = [] then (if acc = [] then [] else [acc])
      else if space_size s \<noteq> 0 then
        (if acc = [] then fields_from [] (drop (space_size s) s)
         else acc # fields_from [] (drop (space_size s) s))
      else fields_from (acc @ [hd s]) (tl s))"
  by pat_completeness auto
termination
  by (relation "measure (\<lambda>(acc, s). length s)") auto

declare fields_from.simps [simp del]

definition Fields :: "string \<Rightarrow> string list" where
  "Fields s = fields_from [] s"

section \<open>Cut and ParseInt\<close>

text \<open>strings.Cut at a separator of one byte: before, after, found.\<close>

definition Cut1 :: "string \<Rightarrow> char \<Rightarrow> string \<times> string \<times> bool" where
  "Cut1 s sep =
     (let before = takeWhile (\<lambda>c. c \<noteq> sep) s in
      if length before = length s then (s, [], False)
      else (before, drop (Suc (length before)) s, True))"

definition is_digit :: "char \<Rightarrow> bool" where
  "is_digit c \<longleftrightarrow> CHR ''0'' \<le> c \<and> c \<le> CHR ''9''"

fun digits_value :: "int \<Rightarrow> string \<Rightarrow> int" where
  "digits_value acc [] = acc"
| "digits_value acc (c # s) = digits_value (10 * acc + (of_char c - 48)) s"

text \<open>
  strconv.ParseInt in base 10 and 64 bits: an optional sign and at least one digit, within
  range; None is ErrSyntax or ErrRange.
\<close>

definition ParseInt :: "string \<Rightarrow> int option" where
  "ParseInt s =
     (let neg = HasPrefix s ''-''; body = (if HasPrefix s ''-'' \<or> HasPrefix s ''+'' then tl s else s) in
      if body = [] \<or> \<not> list_all is_digit body then None
      else
        (let v = (if neg then - digits_value 0 body else digits_value 0 body) in
         if v < MinInt \<or> v > MaxInt then None else Some v))"

end
