(* ===== verification/Git.thy ===== *)
theory Git
  imports Errors Text
begin

text \<open>
  internal/gitrepo/git.go: running git and reading its answers. The operating system is a
  record: the environment os/exec computes for a directory, the process started there with
  a given environment and argument array (what it wrote, in the chunks the pipes delivered,
  and how it ended) and symbolic link resolution. Everything git.go does around the process
  is a definition: the cleaned environment, the bounded buffers, the classification of the
  outcome.
\<close>

section \<open>Constants\<close>

definition maxStdout :: nat where
  [size_defs]: "maxStdout = 1048576"

definition maxStderr :: nat where
  [size_defs]: "maxStderr = 65536"

definition maxErrorOutput :: nat where
  [size_defs]: "maxErrorOutput = 512"

definition exitNotFound :: int where
  "exitNotFound = 1"

definition gitEnvBlocklist :: "string list" where
  "gitEnvBlocklist =
     [''GIT_DIR='', ''GIT_WORK_TREE='', ''GIT_INDEX_FILE='', ''GIT_COMMON_DIR='',
      ''GIT_OBJECT_DIRECTORY='', ''GIT_ALTERNATE_OBJECT_DIRECTORIES='', ''GIT_NAMESPACE='',
      ''GIT_TERMINAL_PROMPT='', ''LC_ALL='', ''GIT_OPTIONAL_LOCKS='']"

section \<open>The bounded buffer\<close>

record boundedBuffer =
  bb_buf :: string
  bb_limit :: int
  bb_overflow :: bool

definition bb_Write :: "boundedBuffer \<Rightarrow> string \<Rightarrow> nat \<times> boundedBuffer" where
  "bb_Write b p =
     (let room = bb_limit b - int (length (bb_buf b)) in
      (length p,
       if room \<le> 0 then b\<lparr>bb_overflow := True\<rparr>
       else if int (length p) > room
         then b\<lparr>bb_buf := bb_buf b @ take (nat room) p, bb_overflow := True\<rparr>
       else b\<lparr>bb_buf := bb_buf b @ p\<rparr>))"

definition bb_writes :: "boundedBuffer \<Rightarrow> string list \<Rightarrow> boundedBuffer" where
  "bb_writes b ps = foldl (\<lambda>b p. snd (bb_Write b p)) b ps"

definition bb_new :: "nat \<Rightarrow> boundedBuffer" where
  "bb_new limit = \<lparr>bb_buf = [], bb_limit = int limit, bb_overflow = False\<rparr>"

text \<open>
  However the output is cut into chunks (none of them empty), the buffer holds the first
  limit bytes of it and says whether there were more.
\<close>

lemma bb_writes_bounded:
  assumes "list_all (\<lambda>p. p \<noteq> []) ps"
  shows "bb_writes (bb_new limit) ps =
    \<lparr>bb_buf = take limit (concat ps), bb_limit = int limit, bb_overflow = (limit < length (concat ps))\<rparr>"
  using assms
proof (induction ps rule: rev_induct)
  case Nil
  show ?case by (simp add: bb_writes_def bb_new_def)
next
  case (snoc p ps)
  then have IH: "bb_writes (bb_new limit) ps =
      \<lparr>bb_buf = take limit (concat ps), bb_limit = int limit, bb_overflow = (limit < length (concat ps))\<rparr>"
    by simp
  have "0 < length p" using snoc.prems by simp
  then show ?case using IH
    by (auto simp: bb_writes_def bb_Write_def Let_def min_def nat_diff_distrib' not_le split: if_splits)
qed

section \<open>The environment of a git process\<close>

definition blocked :: "string \<Rightarrow> bool" where
  "blocked kv \<longleftrightarrow> list_ex (\<lambda>prefix. HasPrefix kv prefix) gitEnvBlocklist"

definition cleanEnv :: "string list \<Rightarrow> string list" where
  "cleanEnv env =
     filter (\<lambda>kv. \<not> blocked kv) env @ [''GIT_TERMINAL_PROMPT=0'', ''LC_ALL=C'', ''GIT_OPTIONAL_LOCKS=0'']"

section \<open>Running git\<close>

datatype run_end = RunOk | RunExit int | RunError goerror

record procrun =
  pr_end :: run_end
  pr_stdout :: "string list"
  pr_stderr :: "string list"
  pr_ctx :: "goerror option"

record gitio =
  gi_environ :: "string \<Rightarrow> string list"
  gi_proc :: "string \<Rightarrow> string list \<Rightarrow> string list \<Rightarrow> procrun"
  gi_EvalSymlinks :: "string \<Rightarrow> string res"

definition truncate_text :: "string \<Rightarrow> string" where
  "truncate_text s =
     (let t = TrimSpace s in
      if length t > maxErrorOutput then take maxErrorOutput t @ ''...'' else t)"

definition runBoundedEnv ::
  "gitio \<Rightarrow> string \<Rightarrow> nat \<Rightarrow> string list \<Rightarrow> string list \<Rightarrow> (string \<times> bool) res"
where
  "runBoundedEnv io dir stdoutLimit extraEnv args =
     (let p = gi_proc io dir (cleanEnv (gi_environ io dir) @ extraEnv) args;
          stdout = bb_writes (bb_new stdoutLimit) (pr_stdout p);
          stderr = bb_writes (bb_new maxStderr) (pr_stderr p)
      in
      case pr_end p of
        RunOk \<Rightarrow> Ok (TrimRight (bb_buf stdout) [CHR 0x0A], bb_overflow stdout)
      | RunExit code \<Rightarrow>
          (case pr_ctx p of
             Some e \<Rightarrow> Err (Errorf ''git'' [e])
           | None \<Rightarrow> Err (exitError args code (truncate_text (bb_buf stderr))))
      | RunError err \<Rightarrow>
          (case pr_ctx p of
             Some e \<Rightarrow> Err (Errorf ''git'' [e])
           | None \<Rightarrow> Err (Errorf ''git'' [err])))"

definition runBounded :: "gitio \<Rightarrow> string \<Rightarrow> nat \<Rightarrow> string list \<Rightarrow> (string \<times> bool) res" where
  "runBounded io dir stdoutLimit args = runBoundedEnv io dir stdoutLimit [] args"

definition runWithLimit :: "gitio \<Rightarrow> string \<Rightarrow> nat \<Rightarrow> string list \<Rightarrow> string res" where
  "runWithLimit io dir stdoutLimit args =
     (case runBounded io dir stdoutLimit args of
        Inl e \<Rightarrow> Err e
      | Inr (out, truncated) \<Rightarrow>
          if truncated then Err (Errorf ''git'' [Sentinel (S_git ErrOutputTooLarge)]) else Ok out)"

definition git_run :: "gitio \<Rightarrow> string \<Rightarrow> string list \<Rightarrow> string res" where
  "git_run io dir args = runWithLimit io dir maxStdout args"

section \<open>Reading an error\<close>

definition exitCode :: "goerror \<Rightarrow> int" where
  "exitCode err = (case errors_As as_exitError err of Some (code, stderr) \<Rightarrow> code | None \<Rightarrow> -1)"

definition isNotFound :: "goerror \<Rightarrow> bool" where
  "isNotFound err \<longleftrightarrow> exitCode err = exitNotFound"

definition stderrOf :: "goerror \<Rightarrow> string" where
  "stderrOf err = (case errors_As as_exitError err of Some (code, stderr) \<Rightarrow> stderr | None \<Rightarrow> [])"

lemma isNotFound_exit [simp]: "isNotFound (exitError args code m) \<longleftrightarrow> code = 1"
  by (simp add: isNotFound_def exitCode_def exitNotFound_def as_defs)

lemma git_run_Ok:
  assumes "git_run io dir args = Ok out"
  obtains p where "gi_proc io dir (cleanEnv (gi_environ io dir)) args = p" "pr_end p = RunOk"
    "out = TrimRight (bb_buf (bb_writes (bb_new maxStdout) (pr_stdout p))) [CHR 0x0A]"
    "\<not> bb_overflow (bb_writes (bb_new maxStdout) (pr_stdout p))"
  using assms
  by (auto simp: git_run_def runWithLimit_def runBounded_def runBoundedEnv_def Let_def
      split: sum.splits run_end.splits option.splits if_splits)

end
