(* ===== verification/Gitrepo.thy ===== *)
theory Gitrepo
  imports Git History Paths Json
begin

text \<open>
  internal/gitrepo: opening a repository, resolving branches and commits, validating a
  review target, reading COUNTERPOINT.md from the commit and cloning for a disposable
  checkout. Every definition takes the gitio record of Git.thy; an error of git with exit
  status 1 is an answer (absent, or false), every other error is returned.
\<close>

section \<open>repo.go\<close>

record Repository =
  rp_Worktree :: string
  rp_CommonDir :: string

definition notWorktreeMessages :: "string list" where
  "notWorktreeMessages = [''not a git repository'', ''must be run in a work tree'']"

definition isNotWorktree :: "goerror \<Rightarrow> bool" where
  "isNotWorktree err \<longleftrightarrow> list_ex (\<lambda>msg. Contains (stderrOf err) msg) notWorktreeMessages"

definition Open :: "gitio \<Rightarrow> string \<Rightarrow> Repository res" where
  "Open io path =
     (if \<not> IsAbs path then Err (Errorf ''open'' [Sentinel (S_repo ErrNotAbsolute)])
      else
        (case gi_EvalSymlinks io path of
           Inl e \<Rightarrow> Err (Errorf ''resolve'' [e])
         | Inr resolved \<Rightarrow>
             (case git_run io resolved [''rev-parse'', ''--show-toplevel'', ''--git-common-dir''] of
                Inl e \<Rightarrow>
                  (if isNotWorktree e then Err (Errorf ''open'' [Sentinel (S_repo ErrNotRepository), e]) else Err e)
              | Inr out \<Rightarrow>
                  (case Split1 out (CHR 0x0A) of
                     [toplevel, common] \<Rightarrow>
                       (if toplevel = [] \<or> common = []
                        then Err (Errorf ''unexpected rev-parse output'' [Sentinel (S_repo ErrNotRepository)])
                        else
                          (case gi_EvalSymlinks io toplevel of
                             Inl e \<Rightarrow> Err (Errorf ''resolve worktree'' [e])
                           | Inr worktree \<Rightarrow>
                               (case gi_EvalSymlinks io
                                       (if IsAbs common then common else JoinPath [resolved, common]) of
                                  Inl e \<Rightarrow> Err (Errorf ''resolve common dir'' [e])
                                | Inr commonDir \<Rightarrow> Ok \<lparr>rp_Worktree = worktree, rp_CommonDir = commonDir\<rparr>)))
                   | _ \<Rightarrow> Err (Errorf ''unexpected rev-parse output'' [Sentinel (S_repo ErrNotRepository)])))))"

definition repo_Identity :: "Repository \<Rightarrow> string" where
  "repo_Identity r = rp_CommonDir r"

definition WorkflowKey :: "string \<Rightarrow> string \<Rightarrow> string" where
  "WorkflowKey identity ref = identity @ ''::'' @ ref"

definition repo_git :: "gitio \<Rightarrow> Repository \<Rightarrow> string list \<Rightarrow> string res" where
  "repo_git io r args = git_run io (rp_Worktree r) args"

section \<open>branch.go\<close>

definition headsPrefix :: string where
  "headsPrefix = ''refs/heads/''"

definition remotesPrefix :: string where
  "remotesPrefix = ''refs/remotes/''"

definition defaultRemote :: string where
  "defaultRemote = ''origin''"

definition fallbackPrimaryNames :: "string list" where
  "fallbackPrimaryNames = [''main'', ''master'']"

definition objectIDPattern :: "string \<Rightarrow> bool" where
  "objectIDPattern s \<longleftrightarrow>
     (length s = 40 \<and> list_all is_lower_hex s) \<or> (length s = 64 \<and> list_all is_lower_hex s)"

lemma objectIDPattern_iff: "objectIDPattern s \<longleftrightarrow> IsObjectID s"
  by (auto simp: objectIDPattern_def IsObjectID_def)

record Branch =
  br_Name :: string
  br_Ref :: string
  br_Tip :: string

definition normalizeBranchName :: "string \<Rightarrow> string res" where
  "normalizeBranchName name =
     (if name = [] then Err (Errorf ''empty'' [Sentinel (S_branch ErrInvalidBranch)])
      else if HasPrefix name headsPrefix then
        (let short = TrimPrefix name headsPrefix in
         if short = [] then Err (Errorf ''branch'' [Sentinel (S_branch ErrInvalidBranch)]) else Ok short)
      else if HasPrefix name ''refs/''
        then Err (Errorf ''not under refs/heads/'' [Sentinel (S_branch ErrInvalidBranch)])
      else if HasPrefix name ''-''
        then Err (Errorf ''begins with a dash'' [Sentinel (S_branch ErrInvalidBranch)])
      else Ok name)"

definition verify_args :: "string \<Rightarrow> string list" where
  "verify_args rv = [''rev-parse'', ''--verify'', ''--quiet'', ''--end-of-options'', rv]"

definition refExists :: "gitio \<Rightarrow> Repository \<Rightarrow> string \<Rightarrow> bool res" where
  "refExists io r ref =
     (case repo_git io r (verify_args ref) of
        Inr out \<Rightarrow> Ok True
      | Inl e \<Rightarrow> if isNotFound e then Ok False else Err e)"

definition ResolveBranch :: "gitio \<Rightarrow> Repository \<Rightarrow> string \<Rightarrow> Branch res" where
  "ResolveBranch io r name =
     (case normalizeBranchName name of
        Inl e \<Rightarrow> Err e
      | Inr short \<Rightarrow>
          (let ref = headsPrefix @ short in
           case repo_git io r [''check-ref-format'', ref] of
             Inl e \<Rightarrow>
               (if isNotFound e then Err (Errorf ''branch'' [Sentinel (S_branch ErrInvalidBranch)]) else Err e)
           | Inr out \<Rightarrow>
               (case repo_git io r (verify_args (ref @ ''^{commit}'')) of
                  Inl e \<Rightarrow>
                    (if \<not> isNotFound e then Err e
                     else
                       (case refExists io r (remotesPrefix @ short) of
                          Inl e' \<Rightarrow> Err e'
                        | Inr remote \<Rightarrow>
                            (if remote
                             then Err (Errorf ''remote-tracking branch'' [Sentinel (S_branch ErrBranchNotFound)])
                             else Err (Errorf ''branch'' [Sentinel (S_branch ErrBranchNotFound)]))))
                | Inr tip \<Rightarrow>
                    (if \<not> objectIDPattern tip then Err (System ''unexpected object id'')
                     else Ok \<lparr>br_Name = short, br_Ref = ref, br_Tip = tip\<rparr>))))"

definition remoteHeadName :: "gitio \<Rightarrow> Repository \<Rightarrow> string res" where
  "remoteHeadName io r =
     (case repo_git io r [''symbolic-ref'', ''--quiet'', ''--'', remotesPrefix @ defaultRemote @ ''/HEAD''] of
        Inl e \<Rightarrow> if isNotFound e then Ok [] else Err e
      | Inr out \<Rightarrow>
          (let prefix = remotesPrefix @ defaultRemote @ ''/'' in
           if \<not> HasPrefix out prefix
           then Err (Errorf ''origin HEAD'' [Sentinel (S_branch ErrNoPrimaryBranch)])
           else Ok (TrimPrefix out prefix)))"

fun first_existing :: "gitio \<Rightarrow> Repository \<Rightarrow> string list \<Rightarrow> string res" where
  "first_existing io r [] = Err (Errorf ''exists neither locally nor on origin'' [Sentinel (S_branch ErrNoPrimaryBranch)])"
| "first_existing io r (ref # refs) =
     (case refExists io r ref of
        Inl e \<Rightarrow> Err e
      | Inr exists \<Rightarrow> if exists then Ok ref else first_existing io r refs)"

definition primaryRef :: "gitio \<Rightarrow> Repository \<Rightarrow> string \<Rightarrow> string res" where
  "primaryRef io r name =
     first_existing io r [headsPrefix @ name, remotesPrefix @ defaultRemote @ ''/'' @ name]"

fun first_primary :: "gitio \<Rightarrow> Repository \<Rightarrow> string list \<Rightarrow> (string \<times> string) res" where
  "first_primary io r [] =
     Err (Errorf ''no origin HEAD and no local or origin main or master'' [Sentinel (S_branch ErrNoPrimaryBranch)])"
| "first_primary io r (candidate # candidates) =
     (case primaryRef io r candidate of
        Inr ref \<Rightarrow> Ok (candidate, ref)
      | Inl e \<Rightarrow>
          if \<not> errors_Is e (S_branch ErrNoPrimaryBranch) then Err e else first_primary io r candidates)"

definition PrimaryBranch :: "gitio \<Rightarrow> Repository \<Rightarrow> (string \<times> string) res" where
  "PrimaryBranch io r =
     (case remoteHeadName io r of
        Inl e \<Rightarrow> Err e
      | Inr name \<Rightarrow>
          (if name \<noteq> [] then
             (case primaryRef io r name of Inl e \<Rightarrow> Err e | Inr ref \<Rightarrow> Ok (name, ref))
           else first_primary io r fallbackPrimaryNames))"

section \<open>target.go\<close>

record Target =
  tg_Branch :: Branch
  tg_Commit :: string
  tg_Base :: string
  tg_PrimaryName :: string
  tg_PrimaryRef :: string
  tg_HistoryRewritten :: bool

definition ResolveCommit :: "gitio \<Rightarrow> Repository \<Rightarrow> string \<Rightarrow> string res" where
  "ResolveCommit io r commitish =
     (if commitish = [] \<or> HasPrefix commitish ''-'' then Err (Errorf ''commit'' [Sentinel (S_target ErrCommitNotFound)])
      else
        (case repo_git io r (verify_args (commitish @ ''^{commit}'')) of
           Inl e \<Rightarrow>
             (if isNotFound e then Err (Errorf ''commit'' [Sentinel (S_target ErrCommitNotFound)]) else Err e)
         | Inr oid \<Rightarrow>
             (if \<not> objectIDPattern oid then Err (System ''unexpected object id'') else Ok oid)))"

text \<open>None is a clean worktree. What the message quotes of the status output is not modelled.\<close>

definition requireCleanBounded :: "gitio \<Rightarrow> Repository \<Rightarrow> nat \<Rightarrow> goerror option" where
  "requireCleanBounded io r limit =
     (case runBounded io (rp_Worktree r) limit [''status'', ''--porcelain'', ''--untracked-files=normal''] of
        Inl e \<Rightarrow> Some e
      | Inr (out, truncated) \<Rightarrow>
          (if out = [] \<and> \<not> truncated then None
           else if truncated
             then Some (Errorf ''status output exceeded the limit'' [Sentinel (S_target ErrDirtyWorktree)])
           else Some (Errorf ''entries'' [Sentinel (S_target ErrDirtyWorktree)])))"

definition requireClean :: "gitio \<Rightarrow> Repository \<Rightarrow> goerror option" where
  "requireClean io r = requireCleanBounded io r maxStdout"

definition mergeBase :: "gitio \<Rightarrow> Repository \<Rightarrow> string \<Rightarrow> string \<Rightarrow> string res" where
  "mergeBase io r ref commit =
     (case repo_git io r [''merge-base'', ''--'', ref, commit] of
        Inl e \<Rightarrow>
          (if isNotFound e then Err (Errorf ''share no history'' [Sentinel (S_target ErrNoMergeBase)]) else Err e)
      | Inr out \<Rightarrow> if \<not> objectIDPattern out then Err (System ''unexpected merge-base output'') else Ok out)"

definition historyRewritten :: "gitio \<Rightarrow> Repository \<Rightarrow> string \<Rightarrow> string \<Rightarrow> bool res" where
  "historyRewritten io r previousTip commit =
     (case ResolveCommit io r previousTip of
        Inl e \<Rightarrow> if errors_Is e (S_target ErrCommitNotFound) then Ok True else Err e
      | Inr oid \<Rightarrow>
          (case repo_git io r [''merge-base'', ''--is-ancestor'', ''--'', previousTip, commit] of
             Inr out \<Rightarrow> Ok False
           | Inl e \<Rightarrow> if isNotFound e then Ok True else Err e))"

text \<open>
  The rules of ValidateTarget in the order of the source: the part that establishes the
  branch, its primary branch and the commit, then the part that looks at the worktree and
  at history.
\<close>

definition target_commit :: "gitio \<Rightarrow> Repository \<Rightarrow> Branch \<Rightarrow> string \<Rightarrow> string res" where
  "target_commit io r branch commitish =
     (case ResolveCommit io r commitish of
        Inl e \<Rightarrow> Err e
      | Inr commit \<Rightarrow>
          (if commit \<noteq> br_Tip branch then Err (Errorf ''branch tip'' [Sentinel (S_target ErrNotBranchTip)])
           else
             (case ResolveCommit io r ''HEAD'' of
                Inl e \<Rightarrow> Err (Errorf ''resolve HEAD'' [e])
              | Inr head \<Rightarrow>
                  (if head \<noteq> commit then Err (Errorf ''HEAD'' [Sentinel (S_target ErrNotHead)]) else Ok commit))))"

definition ValidateTarget :: "gitio \<Rightarrow> Repository \<Rightarrow> string \<Rightarrow> string \<Rightarrow> string \<Rightarrow> Target res" where
  "ValidateTarget io r branchName commitish previousTip =
     (case ResolveBranch io r branchName of
        Inl e \<Rightarrow> Err e
      | Inr branch \<Rightarrow>
          (case PrimaryBranch io r of
             Inl e \<Rightarrow> Err e
           | Inr (pname, pref) \<Rightarrow>
               (if br_Name branch = pname then Err (Errorf ''branch'' [Sentinel (S_target ErrPrimaryBranch)])
                else
                  (case target_commit io r branch commitish of
                     Inl e \<Rightarrow> Err e
                   | Inr commit \<Rightarrow>
                       (case requireClean io r of
                          Some e \<Rightarrow> Err e
                        | None \<Rightarrow>
                            (case mergeBase io r pref commit of
                               Inl e \<Rightarrow> Err e
                             | Inr base \<Rightarrow>
                                 (case (if previousTip \<noteq> [] then historyRewritten io r previousTip commit else Ok False) of
                                    Inl e \<Rightarrow> Err e
                                  | Inr rewritten \<Rightarrow>
                                      Ok \<lparr>tg_Branch = branch, tg_Commit = commit, tg_Base = base,
                                          tg_PrimaryName = pname, tg_PrimaryRef = pref,
                                          tg_HistoryRewritten = rewritten\<rparr>)))))))"

section \<open>instructions.go\<close>

definition InstructionsFile :: string where
  "InstructionsFile = ''COUNTERPOINT.md''"

definition MaxInstructionsBytes :: nat where
  [size_defs]: "MaxInstructionsBytes = 16384"

text \<open>The entry of git ls-tree -z: mode, type and object id, a tab, the path.\<close>

definition tree_entry :: "string \<Rightarrow> string res" where
  "tree_entry entry =
     (let (meta, path, found) = Cut1 entry (CHR 0x09) in
      case Fields meta of
        [mode, typ, oid] \<Rightarrow>
          (if \<not> found then Err (System ''unexpected ls-tree output'')
           else if mode = ''120000'' then Err (Errorf ''symbolic link'' [Sentinel (S_git ErrInstructionsInvalid)])
           else if mode = ''160000'' then Err (Errorf ''submodule'' [Sentinel (S_git ErrInstructionsInvalid)])
           else if typ \<noteq> ''blob'' \<or> (mode \<noteq> ''100644'' \<and> mode \<noteq> ''100755'')
             then Err (Errorf ''not a regular file'' [Sentinel (S_git ErrInstructionsInvalid)])
           else if \<not> objectIDPattern oid then Err (System ''unexpected object id in ls-tree output'')
           else Ok oid)
      | _ \<Rightarrow> Err (System ''unexpected ls-tree output''))"

definition read_blob :: "gitio \<Rightarrow> Repository \<Rightarrow> string \<Rightarrow> string res" where
  "read_blob io r oid =
     (case repo_git io r [''cat-file'', ''-s'', oid] of
        Inl e \<Rightarrow> Err (Errorf ''size'' [e])
      | Inr sizeText \<Rightarrow>
          (case ParseInt sizeText of
             None \<Rightarrow> Err (Errorf ''unexpected cat-file output'' [System ''invalid syntax''])
           | Some nbytes \<Rightarrow>
               (if nbytes > int MaxInstructionsBytes
                then Err (Errorf ''too large'' [Sentinel (S_git ErrInstructionsInvalid)])
                else
                  (case runWithLimit io (rp_Worktree r) (MaxInstructionsBytes + 1) [''cat-file'', ''blob'', oid] of
                     Inl e \<Rightarrow> Err (Errorf ''read'' [e])
                   | Inr txt \<Rightarrow>
                       (if \<not> ValidString txt
                        then Err (Errorf ''not valid UTF-8'' [Sentinel (S_git ErrInstructionsInvalid)])
                        else if TrimSpace txt = [] then Ok [] else Ok txt)))))"

definition ReadInstructions :: "gitio \<Rightarrow> Repository \<Rightarrow> string \<Rightarrow> string res" where
  "ReadInstructions io r commit =
     (if \<not> objectIDPattern commit
      then Err (Errorf ''not a full object id'' [Sentinel (S_target ErrCommitNotFound)])
      else
        (case repo_git io r [''ls-tree'', ''-z'', commit, ''--'', InstructionsFile] of
           Inl e \<Rightarrow> Err (Errorf ''look up'' [e])
         | Inr out \<Rightarrow>
             (let entry = TrimRight out [CHR 0x00] in
              if entry = [] then Ok []
              else (case tree_entry entry of Inl e \<Rightarrow> Err e | Inr oid \<Rightarrow> read_blob io r oid))))"

section \<open>checkout.go\<close>

definition isolatedGitEnv :: "string list" where
  "isolatedGitEnv = [''GIT_CONFIG_GLOBAL=/dev/null'', ''GIT_CONFIG_SYSTEM=/dev/null'', ''GIT_CONFIG_NOSYSTEM=1'']"

definition isFullObjectID :: "string \<Rightarrow> bool" where
  "isFullObjectID s \<longleftrightarrow> \<not> (length s \<noteq> 40 \<and> length s \<noteq> 64) \<and> list_all is_lower_hex s"

text \<open>The commands CloneDetached runs, in order, each with its directory; none when refused.\<close>

definition clone_commands :: "Repository \<Rightarrow> string \<Rightarrow> string \<Rightarrow> string \<Rightarrow> (string \<times> string list) list" where
  "clone_commands r dest commit hooksDir =
     (let hooks = ''core.hooksPath='' @ hooksDir in
      [(rp_Worktree r,
        [''-c'', hooks, ''clone'', ''--quiet'', ''--shared'', ''--no-checkout'', ''--template='', ''--'', rp_CommonDir r, dest]),
       (dest, [''-c'', hooks, ''checkout'', ''--quiet'', ''--detach'', commit, ''--''])])"

fun run_isolated :: "gitio \<Rightarrow> (string \<times> string list) list \<Rightarrow> goerror option" where
  "run_isolated io [] = None"
| "run_isolated io ((dir, args) # cmds) =
     (case runBoundedEnv io dir maxStdout isolatedGitEnv args of
        Inl e \<Rightarrow> Some (Errorf ''clone or checkout'' [e])
      | Inr out \<Rightarrow> run_isolated io cmds)"

definition CloneDetached :: "gitio \<Rightarrow> Repository \<Rightarrow> string \<Rightarrow> string \<Rightarrow> string \<Rightarrow> goerror option" where
  "CloneDetached io r dest commit hooksDir =
     (if \<not> isFullObjectID commit then Some (Errorf ''clone'' [Sentinel (S_git ErrInvalidCommit)])
      else run_isolated io (clone_commands r dest commit hooksDir))"

definition ModifiedTrackedFiles :: "gitio \<Rightarrow> string \<Rightarrow> int \<times> goerror option" where
  "ModifiedTrackedFiles io dir =
     (case runBoundedEnv io dir maxStdout isolatedGitEnv [''status'', ''--porcelain'', ''--untracked-files=no''] of
        Inl e \<Rightarrow> (0, Some e)
      | Inr (out, truncated) \<Rightarrow>
          (if out = [] \<and> \<not> truncated then (0, None)
           else
             (let n = int (length (Split1 out (CHR 0x0A))) in
              if truncated then (n, Some (Errorf ''status'' [Sentinel (S_git ErrOutputTooLarge)])) else (n, None))))"

end
