(* ===== verification/GitSpec.thy ===== *)
theory GitSpec
  imports Gitrepo
begin

text \<open>
  What internal/gitrepo promises: an accepted target satisfies every review-target rule, a
  branch has one name whatever form it is given in, git runs in an environment it was
  cleaned for, what is captured is bounded, and quoted instructions are a bounded UTF-8
  blob of the commit.
\<close>

named_theorems outcome \<open>splitting the outcome of a git command\<close>

declare sum.splits [outcome] option.splits [outcome] if_splits [outcome]

section \<open>Inversion of the operations\<close>

lemma ResolveBranch_Ok:
  assumes "ResolveBranch io r name = Ok b"
  shows "normalizeBranchName name = Ok (br_Name b) \<and> br_Ref b = headsPrefix @ br_Name b \<and> IsObjectID (br_Tip b) \<and>
    repo_git io r (verify_args (br_Ref b @ ''^{commit}'')) = Ok (br_Tip b)"
  using assms by (auto simp: ResolveBranch_def Let_def objectIDPattern_iff split: outcome)

lemma ResolveCommit_Ok:
  assumes "ResolveCommit io r c = Ok oid"
  shows "IsObjectID oid \<and> repo_git io r (verify_args (c @ ''^{commit}'')) = Ok oid"
  using assms by (auto simp: ResolveCommit_def objectIDPattern_iff split: outcome)

lemma target_commit_Ok:
  assumes "target_commit io r b c = Ok oid"
  shows "oid = br_Tip b \<and> ResolveCommit io r c = Ok oid \<and> ResolveCommit io r ''HEAD'' = Ok oid"
  using assms by (auto simp: target_commit_def split: outcome)

lemma mergeBase_Ok:
  assumes "mergeBase io r ref c = Ok base"
  shows "IsObjectID base \<and> repo_git io r [''merge-base'', ''--'', ref, c] = Ok base"
  using assms by (auto simp: mergeBase_def objectIDPattern_iff split: outcome)

lemma requireClean_None:
  assumes "requireClean io r = None"
  shows "runBounded io (rp_Worktree r) maxStdout [''status'', ''--porcelain'', ''--untracked-files=normal''] =
    Ok ([], False)"
  using assms by (auto simp: requireClean_def requireCleanBounded_def split: outcome prod.splits)

lemma first_existing_Ok:
  assumes "first_existing io r refs = Ok ref"
  shows "ref \<in> set refs \<and> refExists io r ref = Ok True"
  using assms by (induction refs) (auto split: outcome)

lemma primaryRef_Ok:
  assumes "primaryRef io r name = Ok ref"
  shows "refExists io r ref = Ok True \<and>
    (ref = headsPrefix @ name \<or>
     (ref = remotesPrefix @ defaultRemote @ ''/'' @ name \<and> refExists io r (headsPrefix @ name) = Ok False))"
  using assms by (auto simp: primaryRef_def split: outcome)

lemma PrimaryBranch_Ok:
  assumes "PrimaryBranch io r = Ok (name, ref)"
  shows "primaryRef io r name = Ok ref \<and>
    (remoteHeadName io r = Ok name \<or> (remoteHeadName io r = Ok [] \<and> name \<in> set fallbackPrimaryNames))"
  using assms by (auto simp: PrimaryBranch_def fallbackPrimaryNames_def split: outcome)

section \<open>Targets\<close>

lemma ValidateTarget_Ok:
  assumes "ValidateTarget io r name commitish previousTip = Ok t"
  shows "ResolveBranch io r name = Ok (tg_Branch t) \<and>
    PrimaryBranch io r = Ok (tg_PrimaryName t, tg_PrimaryRef t) \<and> br_Name (tg_Branch t) \<noteq> tg_PrimaryName t \<and>
    tg_Commit t = br_Tip (tg_Branch t) \<and> ResolveCommit io r commitish = Ok (tg_Commit t) \<and>
    ResolveCommit io r ''HEAD'' = Ok (tg_Commit t) \<and>
    runBounded io (rp_Worktree r) maxStdout [''status'', ''--porcelain'', ''--untracked-files=normal''] = Ok ([], False) \<and>
    repo_git io r [''merge-base'', ''--'', tg_PrimaryRef t, tg_Commit t] = Ok (tg_Base t) \<and>
    IsObjectID (tg_Commit t) \<and> IsObjectID (tg_Base t) \<and>
    (if previousTip = [] then \<not> tg_HistoryRewritten t
     else historyRewritten io r previousTip (tg_Commit t) = Ok (tg_HistoryRewritten t))"
proof -
  obtain b n ref c base rw where steps:
    "ResolveBranch io r name = Ok b" "PrimaryBranch io r = Ok (n, ref)" "br_Name b \<noteq> n"
    "target_commit io r b commitish = Ok c" "requireClean io r = None" "mergeBase io r ref c = Ok base"
    "(if previousTip \<noteq> [] then historyRewritten io r previousTip c else Ok False) = Ok rw"
    and t: "t = \<lparr>tg_Branch = b, tg_Commit = c, tg_Base = base, tg_PrimaryName = n, tg_PrimaryRef = ref,
      tg_HistoryRewritten = rw\<rparr>"
    using assms unfolding ValidateTarget_def by (auto split: outcome prod.splits)
  show ?thesis
    using steps t target_commit_Ok [OF steps(4)] requireClean_None [OF steps(5)] mergeBase_Ok [OF steps(6)]
      ResolveCommit_Ok by (auto split: if_splits)
qed


definition sample_oid :: "char \<Rightarrow> string" where
  "sample_oid c = replicate 40 c"

text \<open>A repository whose branch topic is checked out at its tip, with main as the primary branch.\<close>

definition answer :: "string \<Rightarrow> procrun" where
  "answer out = \<lparr>pr_end = RunOk, pr_stdout = [out @ [CHR 0x0A]], pr_stderr = [], pr_ctx = None\<rparr>"

definition absent :: procrun where
  "absent = \<lparr>pr_end = RunExit 1, pr_stdout = [], pr_stderr = [], pr_ctx = None\<rparr>"

definition silent :: procrun where
  "silent = \<lparr>pr_end = RunOk, pr_stdout = [], pr_stderr = [], pr_ctx = None\<rparr>"

definition sample_proc :: "string \<Rightarrow> string list \<Rightarrow> string list \<Rightarrow> procrun" where
  "sample_proc dir env args =
     (let c = hd args in
      if c = ''rev-parse'' then
        (if length args = 3 then answer (''/r'' @ [CHR 0x0A] @ ''/r/.git'') else answer (sample_oid (CHR ''a'')))
      else if c = ''check-ref-format'' \<or> c = ''status'' \<or> c = ''ls-tree'' then silent
      else if c = ''merge-base'' \<and> length args = 4 then answer (sample_oid (CHR ''b''))
      else absent)"

definition sample_git :: gitio where
  "sample_git = \<lparr>gi_environ = (\<lambda>d. [''GIT_DIR=/x'', ''HOME=/h'']), gi_proc = sample_proc, gi_EvalSymlinks = Ok\<rparr>"

definition sample_repo :: Repository where
  "sample_repo = \<lparr>rp_Worktree = ''/r'', rp_CommonDir = ''/r/.git''\<rparr>"

lemma runBoundedEnv_small:
  assumes "gi_proc io dir (cleanEnv (gi_environ io dir) @ extra) args = p" and "pr_end p = RunOk"
    and "list_all (\<lambda>c. c \<noteq> []) (pr_stdout p)" and "length (concat (pr_stdout p)) \<le> limit"
  shows "runBoundedEnv io dir limit extra args = Ok (TrimRight (concat (pr_stdout p)) [CHR 0x0A], False)"
  using assms by (simp add: runBoundedEnv_def Let_def bb_writes_bounded [OF assms(3)])

lemma TrimRight_newline [gostr]: "TrimRight (s @ [CHR 0x0A]) [CHR 0x0A] = TrimRight s [CHR 0x0A]"
  by (simp add: TrimRight_def)

lemma sample_answer:
  assumes "sample_proc dir (cleanEnv (gi_environ sample_git dir)) args = answer out" and "length out < 1000000"
  shows "git_run sample_git dir args = Ok (TrimRight out [CHR 0x0A])"
proof -
  have "runBoundedEnv sample_git dir maxStdout [] args = Ok (TrimRight out [CHR 0x0A], False)"
    using assms
    by (subst runBoundedEnv_small [where p = "answer out"])
      (simp_all add: sample_git_def answer_def size_defs TrimRight_newline)
  then show ?thesis by (simp add: git_run_def runWithLimit_def runBounded_def)
qed

lemma sample_silent:
  assumes "sample_proc dir (cleanEnv (gi_environ sample_git dir)) args = silent"
  shows "git_run sample_git dir args = Ok []"
proof -
  have "runBoundedEnv sample_git dir maxStdout [] args = Ok (TrimRight [] [CHR 0x0A], False)"
    using assms by (subst runBoundedEnv_small [where p = silent]) (simp_all add: sample_git_def silent_def)
  then show ?thesis by (simp add: git_run_def runWithLimit_def runBounded_def TrimRight_def)
qed

lemma sample_absent:
  assumes "sample_proc dir (cleanEnv (gi_environ sample_git dir)) args = absent"
  shows "git_run sample_git dir args = Err (exitError args 1 (truncate_text []))"
  using assms
  by (simp add: git_run_def runWithLimit_def runBounded_def runBoundedEnv_def sample_git_def absent_def
      bb_writes_def bb_new_def)

lemma sample_oid_simps [simp]:
  "length (sample_oid c) = 40" "TrimRight (sample_oid (CHR ''a'')) [CHR 0x0A] = sample_oid (CHR ''a'')"
  "TrimRight (sample_oid (CHR ''b'')) [CHR 0x0A] = sample_oid (CHR ''b'')"
  "objectIDPattern (sample_oid (CHR ''a''))" "objectIDPattern (sample_oid (CHR ''b''))"
proof -
  have "is_lower_hex (CHR ''a'')" "is_lower_hex (CHR ''b'')" by code_simp+
  then show "objectIDPattern (sample_oid (CHR ''a''))" "objectIDPattern (sample_oid (CHR ''b''))"
    by (auto simp: objectIDPattern_def sample_oid_def list_all_iff)
qed (auto simp: sample_oid_def TrimRight_def)

lemma sample_oid_Cons: "sample_oid c = c # replicate 39 c"
  by (simp add: sample_oid_def numeral_eq_Suc)

lemma sample_oid_head [simp]: "sample_oid c \<noteq> []" "HasPrefix (sample_oid c) ''-'' \<longleftrightarrow> c = CHR ''-''"
  by (simp_all add: sample_oid_Cons)

lemma sample_git_runs [simp]:
  "git_run sample_git d [''check-ref-format'', ref] = Ok []"
  "git_run sample_git d (verify_args rv) = Ok (sample_oid (CHR ''a''))"
  "git_run sample_git d [''merge-base'', ''--'', x, y] = Ok (sample_oid (CHR ''b''))"
  "git_run sample_git d [''symbolic-ref'', x, y, ref] = Err (exitError [''symbolic-ref'', x, y, ref] 1 (truncate_text []))"
  "git_run sample_git d [''merge-base'', ''--is-ancestor'', ''--'', x, y] =
     Err (exitError [''merge-base'', ''--is-ancestor'', ''--'', x, y] 1 (truncate_text []))"
  "git_run sample_git d [''ls-tree'', x, y, x2, ref] = Ok []"
  using sample_silent [of d "[''check-ref-format'', ref]"] sample_silent [of d "[''ls-tree'', x, y, x2, ref]"]
    sample_answer [of d "verify_args rv" "sample_oid (CHR ''a'')"]
    sample_answer [of d "[''merge-base'', ''--'', x, y]" "sample_oid (CHR ''b'')"]
    sample_absent [of d "[''symbolic-ref'', x, y, ref]"]
    sample_absent [of d "[''merge-base'', ''--is-ancestor'', ''--'', x, y]"]
  by (simp_all add: sample_proc_def verify_args_def)

lemma sample_open: "Open sample_git ''/r'' = Ok sample_repo"
proof -
  have "git_run sample_git d [''rev-parse'', ''--show-toplevel'', ''--git-common-dir''] = Ok (''/r'' @ [CHR 0x0A] @ ''/r/.git'')" for d
    using sample_answer [of d "[''rev-parse'', ''--show-toplevel'', ''--git-common-dir'']" "''/r'' @ [CHR 0x0A] @ ''/r/.git''"]
    by (simp add: sample_proc_def TrimRight_def)
  moreover have "gi_EvalSymlinks sample_git = Ok" by (simp add: sample_git_def)
  ultimately show ?thesis by (simp add: Open_def sample_repo_def)
qed

lemma sample_clean: "requireClean sample_git r = None"
  by (simp add: requireClean_def requireCleanBounded_def runBounded_def runBoundedEnv_def sample_git_def sample_proc_def
      bb_writes_def bb_new_def silent_def)

definition sample_target :: Target where
  "sample_target =
     \<lparr>tg_Branch = \<lparr>br_Name = ''topic'', br_Ref = ''refs/heads/topic'', br_Tip = sample_oid (CHR ''a'')\<rparr>,
      tg_Commit = sample_oid (CHR ''a''), tg_Base = sample_oid (CHR ''b''), tg_PrimaryName = ''main'',
      tg_PrimaryRef = ''refs/heads/main'', tg_HistoryRewritten = True\<rparr>"

lemma sample_normalize: "normalizeBranchName ''topic'' = Ok ''topic''"
  by (simp add: normalizeBranchName_def HasPrefix_def headsPrefix_def)

lemma sample_validate:
  "ValidateTarget sample_git sample_repo ''topic'' ''HEAD'' (sample_oid (CHR ''c'')) = Ok sample_target"
  by (simp add: ValidateTarget_def ResolveBranch_def sample_normalize repo_git_def PrimaryBranch_def remoteHeadName_def
      fallbackPrimaryNames_def primaryRef_def refExists_def headsPrefix_def sample_target_def target_commit_def
      ResolveCommit_def sample_clean mergeBase_def historyRewritten_def)


section \<open>Branch names\<close>

text \<open>
  The two accepted forms of a branch name are one branch: whatever a name resolves to,
  its bare name and its full reference resolve to the same, so both give the same workflow
  key, and the reference handed to git always starts with refs/heads/, never with a dash.
\<close>

theorem branch_forms_agree:
  assumes "ResolveBranch io r name = Ok b" and "\<not> HasPrefix (br_Name b) ''refs/''" and "\<not> HasPrefix (br_Name b) ''-''"
  shows "ResolveBranch io r (br_Name b) = Ok b \<and> ResolveBranch io r (br_Ref b) = Ok b \<and>
    HasPrefix (br_Ref b) headsPrefix"
proof -
  have b: "normalizeBranchName name = Ok (br_Name b)" "br_Ref b = headsPrefix @ br_Name b"
    using ResolveBranch_Ok [OF assms(1)] by blast+
  then have ne: "br_Name b \<noteq> []" by (auto simp: normalizeBranchName_def Let_def split: if_splits)
  have "HasPrefix (br_Name b) headsPrefix \<Longrightarrow> HasPrefix (br_Name b) ''refs/''"
    by (auto simp: HasPrefix_iff headsPrefix_def)
  then have bare: "normalizeBranchName (br_Name b) = Ok (br_Name b)"
    using assms(2,3) ne by (auto simp: normalizeBranchName_def)
  have full: "normalizeBranchName (headsPrefix @ br_Name b) = Ok (br_Name b)"
    using ne by (simp add: normalizeBranchName_def headsPrefix_def TrimPrefix_def)
  show ?thesis using assms(1) b bare full by (simp add: ResolveBranch_def)
qed

lemma branch_forms_agree_witness:
  "ResolveBranch sample_git sample_repo ''refs/heads/topic'' = Ok (tg_Branch sample_target)"
proof -
  have "ResolveBranch sample_git sample_repo ''topic'' = Ok (tg_Branch sample_target)"
    using ValidateTarget_Ok [OF sample_validate] by blast
  from branch_forms_agree [OF this] show ?thesis by (simp add: sample_target_def HasPrefix_def)
qed

text \<open>
  The primary branch is the one origin's HEAD names or, without one, main or master, and
  the reference to diff against exists; it is the remote-tracking one only when there is no
  local one.
\<close>

theorem primary_branch_sound:
  assumes "PrimaryBranch io r = Ok (name, ref)"
  shows "(remoteHeadName io r = Ok name \<or> (remoteHeadName io r = Ok [] \<and> name \<in> {''main'', ''master''})) \<and>
    refExists io r ref = Ok True \<and>
    (ref = ''refs/heads/'' @ name \<or>
     (ref = ''refs/remotes/origin/'' @ name \<and> refExists io r (''refs/heads/'' @ name) = Ok False))"
  using PrimaryBranch_Ok [OF assms] primaryRef_Ok [of io r name ref]
  by (auto simp: fallbackPrimaryNames_def headsPrefix_def remotesPrefix_def defaultRemote_def)

lemma primary_branch_sound_witness: "refExists sample_git sample_repo ''refs/heads/main'' = Ok True"
proof -
  have "PrimaryBranch sample_git sample_repo = Ok (''main'', ''refs/heads/main'')"
    using ValidateTarget_Ok [OF sample_validate] by (simp add: sample_target_def)
  then show ?thesis using primary_branch_sound by blast
qed

section \<open>The process\<close>

text \<open>
  The environment git runs in: every variable that would redirect it away from the
  directory it was given is gone, the three pinned settings are there exactly once, at the
  end, and everything else is untouched, in order.
\<close>

theorem git_environment_clean:
  "filter blocked (cleanEnv env) = [''GIT_TERMINAL_PROMPT=0'', ''LC_ALL=C'', ''GIT_OPTIONAL_LOCKS=0''] \<and>
   filter (\<lambda>kv. \<not> blocked kv) (cleanEnv env) = filter (\<lambda>kv. \<not> blocked kv) env \<and>
   cleanEnv (cleanEnv env) = cleanEnv env"
proof -
  have "blocked ''GIT_TERMINAL_PROMPT=0''" "blocked ''LC_ALL=C''" "blocked ''GIT_OPTIONAL_LOCKS=0''"
    by code_simp+
  then show ?thesis by (simp add: cleanEnv_def)
qed

text \<open>
  What a git command returns is bounded however it writes: of the output it is the first
  limit bytes, less trailing newlines, together with whether anything was cut off.
\<close>

theorem git_output_bounded:
  assumes "list_all (\<lambda>c. c \<noteq> []) (pr_stdout (gi_proc io dir (cleanEnv (gi_environ io dir) @ extra) args))"
    and "runBoundedEnv io dir limit extra args = Ok (out, truncated)"
  shows "out = TrimRight (take limit (concat (pr_stdout (gi_proc io dir (cleanEnv (gi_environ io dir) @ extra) args)))) [CHR 0x0A] \<and>
    length out \<le> limit \<and>
    (truncated \<longleftrightarrow> limit < length (concat (pr_stdout (gi_proc io dir (cleanEnv (gi_environ io dir) @ extra) args))))"
proof -
  let ?p = "gi_proc io dir (cleanEnv (gi_environ io dir) @ extra) args"
  have "out = TrimRight (take limit (concat (pr_stdout ?p))) [CHR 0x0A] \<and> (truncated \<longleftrightarrow> limit < length (concat (pr_stdout ?p)))"
    using assms by (auto simp: runBoundedEnv_def Let_def bb_writes_bounded split: run_end.splits option.splits)
  moreover have "length (TrimRight (take limit (concat (pr_stdout ?p))) [CHR 0x0A]) \<le> limit"
    by (rule order_trans [OF length_TrimRight]) simp
  ultimately show ?thesis by blast
qed

lemma git_output_bounded_witness:
  "\<exists>out truncated. runBoundedEnv sample_git ''/r'' 7 [] (verify_args ''HEAD'') = Ok (out, truncated) \<and> length out \<le> 7"
proof -
  have proc: "gi_proc sample_git ''/r'' env (verify_args ''HEAD'') = answer (sample_oid (CHR ''a''))" for env
    by (simp add: sample_git_def sample_proc_def verify_args_def)
  then obtain out truncated where run: "runBoundedEnv sample_git ''/r'' 7 [] (verify_args ''HEAD'') = Ok (out, truncated)"
    by (simp add: runBoundedEnv_def Let_def answer_def)
  from git_output_bounded [OF _ run] proc run show ?thesis by (auto simp: answer_def)
qed

section \<open>Instructions\<close>

text \<open>git reports the size of a blob truthfully.\<close>

definition honest_sizes :: "gitio \<Rightarrow> Repository \<Rightarrow> bool" where
  "honest_sizes io r \<longleftrightarrow>
     (\<forall>oid n txt. repo_git io r [''cat-file'', ''-s'', oid] = Ok n \<longrightarrow>
        runWithLimit io (rp_Worktree r) (MaxInstructionsBytes + 1) [''cat-file'', ''blob'', oid] = Ok txt \<longrightarrow>
        (case ParseInt n of None \<Rightarrow> True | Some k \<Rightarrow> int (length txt) \<le> k))"

lemma tree_entry_Ok:
  assumes "tree_entry entry = Ok oid"
  shows "IsObjectID oid \<and> (\<exists>meta path mode. Cut1 entry (CHR 0x09) = (meta, path, True) \<and>
    Fields meta = [mode, ''blob'', oid] \<and> mode \<in> {''100644'', ''100755''})"
  using assms
  by (auto simp: tree_entry_def objectIDPattern_iff split: prod.splits list.splits if_splits)

lemma read_blob_Ok:
  assumes "read_blob io r oid = Ok txt" and "txt \<noteq> []"
  shows "runWithLimit io (rp_Worktree r) (MaxInstructionsBytes + 1) [''cat-file'', ''blob'', oid] = Ok txt \<and>
    ValidString txt \<and> TrimSpace txt \<noteq> [] \<and>
    (\<exists>n k. repo_git io r [''cat-file'', ''-s'', oid] = Ok n \<and> ParseInt n = Some k \<and> k \<le> int MaxInstructionsBytes)"
  using assms by (auto simp: read_blob_def split: sum.splits option.splits if_splits)

text \<open>
  The instructions quoted into a prompt are the text of COUNTERPOINT.md in the commit
  under review: a regular blob the commit's tree names, read by its object id, valid UTF-8,
  not blank and within the size limit. A symbolic link, a submodule, a larger or a binary
  file is never quoted.
\<close>

theorem instructions_sound:
  assumes "honest_sizes io r" and "ReadInstructions io r commit = Ok txt" and "txt \<noteq> []"
  shows "IsObjectID commit \<and> ValidString txt \<and> TrimSpace txt \<noteq> [] \<and> length txt \<le> MaxInstructionsBytes \<and>
    (\<exists>out meta path mode oid.
       repo_git io r [''ls-tree'', ''-z'', commit, ''--'', ''COUNTERPOINT.md''] = Ok out \<and>
       Cut1 (TrimRight out [CHR 0x00]) (CHR 0x09) = (meta, path, True) \<and>
       Fields meta = [mode, ''blob'', oid] \<and> mode \<in> {''100644'', ''100755''} \<and> IsObjectID oid \<and>
       runWithLimit io (rp_Worktree r) (MaxInstructionsBytes + 1) [''cat-file'', ''blob'', oid] = Ok txt)"
proof -
  obtain out oid where o: "repo_git io r [''ls-tree'', ''-z'', commit, ''--'', InstructionsFile] = Ok out"
    "IsObjectID commit" "tree_entry (TrimRight out [CHR 0x00]) = Ok oid" "read_blob io r oid = Ok txt"
    using assms(2,3) by (auto simp: ReadInstructions_def Let_def objectIDPattern_iff split: sum.splits if_splits)
  note blob = read_blob_Ok [OF o(4) assms(3)]
  then obtain n k where k: "repo_git io r [''cat-file'', ''-s'', oid] = Ok n" "ParseInt n = Some k" "k \<le> int MaxInstructionsBytes"
    by blast
  have "case ParseInt n of None \<Rightarrow> True | Some k \<Rightarrow> int (length txt) \<le> k"
    using assms(1) k(1) blob unfolding honest_sizes_def by blast
  then have "length txt \<le> MaxInstructionsBytes" using k by simp
  with o blob tree_entry_Ok [OF o(3)] show ?thesis by (auto simp: InstructionsFile_def)
qed

definition notes_proc :: "string \<Rightarrow> string list \<Rightarrow> string list \<Rightarrow> procrun" where
  "notes_proc dir env args =
     (case args of
        [''ls-tree'', z, c, d, f] \<Rightarrow>
          answer (''100644 blob '' @ sample_oid (CHR ''d'') @ [CHR 0x09] @ ''COUNTERPOINT.md'' @ [CHR 0x00])
      | [''cat-file'', ''-s'', oid] \<Rightarrow> answer ''6''
      | [''cat-file'', ''blob'', oid] \<Rightarrow> answer ''terse''
      | _ \<Rightarrow> absent)"

definition notes_git :: gitio where
  "notes_git = \<lparr>gi_environ = (\<lambda>d. []), gi_proc = notes_proc, gi_EvalSymlinks = Ok\<rparr>"

lemma notes_answer:
  assumes "notes_proc dir (cleanEnv []) args = answer out" and "length out < limit"
  shows "runWithLimit notes_git dir limit args = Ok (TrimRight out [CHR 0x0A])"
proof -
  have "runBoundedEnv notes_git dir limit [] args = Ok (TrimRight out [CHR 0x0A], False)"
    using assms by (subst runBoundedEnv_small [where p = "answer out"])
      (simp_all add: notes_git_def answer_def TrimRight_newline)
  then show ?thesis by (simp add: runWithLimit_def runBounded_def)
qed

lemma notes_runs:
  "repo_git notes_git r [''ls-tree'', z, c, d, f] =
     Ok (''100644 blob '' @ sample_oid (CHR ''d'') @ [CHR 0x09] @ ''COUNTERPOINT.md'' @ [CHR 0x00])"
  "repo_git notes_git r [''cat-file'', ''-s'', oid] = Ok ''6''"
  "5 < limit \<Longrightarrow> runWithLimit notes_git dir limit [''cat-file'', ''blob'', oid] = Ok ''terse''"
  using notes_answer [of "rp_Worktree r" "[''ls-tree'', z, c, d, f]"
      "''100644 blob '' @ sample_oid (CHR ''d'') @ [CHR 0x09] @ ''COUNTERPOINT.md'' @ [CHR 0x00]" maxStdout]
    notes_answer [of "rp_Worktree r" "[''cat-file'', ''-s'', oid]" "''6''" maxStdout]
    notes_answer [of dir "[''cat-file'', ''blob'', oid]" "''terse''" limit]
  by (simp_all add: notes_proc_def repo_git_def git_run_def size_defs TrimRight_def)

lemma notes_read: "ReadInstructions notes_git sample_repo (sample_oid (CHR ''a'')) = Ok ''terse''"
proof -
  have "tree_entry (TrimRight (''100644 blob '' @ sample_oid (CHR ''d'') @ [CHR 0x09] @ ''COUNTERPOINT.md'' @ [CHR 0x00]) [CHR 0x00]) =
      Ok (sample_oid (CHR ''d''))" by code_simp
  moreover have "ValidString ''terse''" "TrimSpace ''terse'' \<noteq> []" "ParseInt ''6'' = Some 6" by code_simp+
  moreover have "TrimRight (''100644 blob '' @ sample_oid (CHR ''d'') @ [CHR 0x09] @ ''COUNTERPOINT.md'' @ [CHR 0x00]) [CHR 0x00] \<noteq> []"
    by (simp add: TrimRight_def)
  ultimately show ?thesis
    by (simp add: ReadInstructions_def notes_runs read_blob_def size_defs Let_def InstructionsFile_def)
qed

lemma instructions_sound_witness: "length ''terse'' \<le> MaxInstructionsBytes \<and> ValidString ''terse''"
proof -
  have "ParseInt ''6'' = Some 6" by code_simp
  then have "honest_sizes notes_git sample_repo" by (simp add: honest_sizes_def notes_runs size_defs)
  from instructions_sound [OF this notes_read] show ?thesis by simp
qed



end
