(* ===== verification/Traces.thy ===== *)
theory Traces
  imports Prelude
begin

text \<open>
  Runs of a component as the list of its calls on the outside world, oldest first. Two ways
  to state what a run may do, shared by every component modelled this way: each call is
  justified by the calls before it, and a monitor reads the calls one by one and follows
  what the component holds.
\<close>

section \<open>Justified calls\<close>

text \<open>The calls so far include one, at a point and of a kind that the predicate accepts.\<close>

definition happened :: "('c list \<Rightarrow> 'c \<Rightarrow> bool) \<Rightarrow> 'c list \<Rightarrow> bool" where
  "happened Q tr \<longleftrightarrow> (\<exists>pre c post. tr = pre @ c # post \<and> Q pre c)"

lemma happened_append: "happened Q tr \<Longrightarrow> happened Q (tr @ cs)"
  unfolding happened_def by fastforce

lemma happened_now [intro]: "Q tr c \<Longrightarrow> happened Q (tr @ c # cs)"
  unfolding happened_def by blast

lemma happened_last: "Q tr c \<Longrightarrow> happened Q (tr @ [c])"
  by blast

fun all_calls :: "('c list \<Rightarrow> 'c \<Rightarrow> bool) \<Rightarrow> 'c list \<Rightarrow> 'c list \<Rightarrow> bool" where
  "all_calls J tr [] \<longleftrightarrow> True"
| "all_calls J tr (c # cs) \<longleftrightarrow> J tr c \<and> all_calls J (tr @ [c]) cs"

lemma all_calls_append: "all_calls J tr (cs @ ds) \<longleftrightarrow> all_calls J tr cs \<and> all_calls J (tr @ cs) ds"
  by (induction cs arbitrary: tr) auto

lemma all_calls_at: "all_calls J [] (pre @ c # post) \<Longrightarrow> J pre c"
  by (simp add: all_calls_append)

definition justified :: "('c list \<Rightarrow> 'c \<Rightarrow> bool) \<Rightarrow> 'c list \<Rightarrow> 'c list \<Rightarrow> bool" where
  "justified J tr tr' \<longleftrightarrow> (\<exists>cs. tr' = tr @ cs \<and> all_calls J tr cs)"

lemma justified_refl [simp]: "justified J tr tr"
  by (simp add: justified_def)

lemma justified_trans: "justified J a b \<Longrightarrow> justified J b c \<Longrightarrow> justified J a c"
  unfolding justified_def by (metis all_calls_append append.assoc)

lemma justified_calls: "all_calls J tr cs \<Longrightarrow> justified J tr (tr @ cs)"
  by (auto simp: justified_def)

lemma justified_happened: "justified J tr tr' \<Longrightarrow> happened Q tr \<Longrightarrow> happened Q tr'"
  by (auto simp: justified_def happened_append)

lemma justified_snoc: "justified J tr tr' \<Longrightarrow> J tr' c \<Longrightarrow> justified J tr (tr' @ [c])"
  by (rule justified_trans, assumption) (rule justified_calls, simp)

lemma justified_grows: "justified J tr tr' \<Longrightarrow> \<exists>cs. tr' = tr @ cs"
  by (auto simp: justified_def)

lemma all_calls_mono: "(\<And>pre c. J pre c \<Longrightarrow> K pre c) \<Longrightarrow> all_calls J tr cs \<Longrightarrow> all_calls K tr cs"
  by (induction cs arbitrary: tr) auto

lemma justified_mono: "(\<And>pre c. J pre c \<Longrightarrow> K pre c) \<Longrightarrow> justified J tr tr' \<Longrightarrow> justified K tr tr'"
  unfolding justified_def using all_calls_mono by metis

lemma justified_at: "justified J [] (pre @ c # post) \<Longrightarrow> J pre c"
  using all_calls_at by (auto simp: justified_def)

section \<open>Monitors\<close>

fun monitor :: "('h \<Rightarrow> 'c \<Rightarrow> 'h option) \<Rightarrow> 'h \<Rightarrow> 'c list \<Rightarrow> 'h option" where
  "monitor step held [] = Some held"
| "monitor step held (c # cs) = (case step held c of None \<Rightarrow> None | Some held' \<Rightarrow> monitor step held' cs)"

lemma monitor_append: "monitor step held cs = Some held' \<Longrightarrow> monitor step held (cs @ ds) = monitor step held' ds"
  by (induction cs arbitrary: held) (auto split: option.splits)

text \<open>From tr to tr' the calls leave what is held as it was.\<close>

definition keeps :: "('h \<Rightarrow> 'c \<Rightarrow> 'h option) \<Rightarrow> 'h \<Rightarrow> 'c list \<Rightarrow> 'c list \<Rightarrow> bool" where
  "keeps step held tr tr' \<longleftrightarrow> (\<exists>cs. tr' = tr @ cs \<and> monitor step held cs = Some held)"

lemma keeps_refl [simp]: "keeps step held tr tr"
  by (simp add: keeps_def)

lemma keeps_trans: "keeps step held a b \<Longrightarrow> keeps step held b c \<Longrightarrow> keeps step held a c"
  unfolding keeps_def using monitor_append by (metis append.assoc)

lemma keeps_calls [intro]: "monitor step held cs = Some held \<Longrightarrow> keeps step held tr (tr @ cs)"
  by (auto simp: keeps_def)

text \<open>What is taken by one call, kept, and given back by another.\<close>

lemma keeps_within:
  assumes "keeps step held' (tr @ [c]) tr'" and "step held c = Some held'" and "step held' d = Some held"
  shows "keeps step held tr (tr' @ [d])"
proof -
  obtain cs where "tr' = tr @ [c] @ cs" "monitor step held' cs = Some held'"
    using assms(1) by (auto simp: keeps_def)
  then have "tr' @ [d] = tr @ (c # cs @ [d])" "monitor step held (c # cs @ [d]) = Some held"
    using assms(2,3) monitor_append [of step held' cs held' "[d]"] by simp_all
  then show ?thesis unfolding keeps_def by blast
qed

end
