(* ===== verification/Lock.thy ===== *)
theory Lock
  imports Errors Paths
begin

text \<open>
  internal/state/lock.go: advisory file locks. What the operating system, the clock and the
  context answer is a record, indexed by the attempt; the calls that leave a trace (the
  directory, the descriptor, the attempts, the close) are logged. The polling loop has no
  bound of its own, so it is a partial_function: None is not returning. That it returns is
  proved from the clock advancing by the polling interval between attempts.
\<close>

section \<open>AcquireLock\<close>

text \<open>Durations in milliseconds.\<close>

definition LockWait :: int where
  "LockWait = 2000"

definition FinalSaveLockWait :: int where
  "FinalSaveLockWait = 30000"

definition lockPollInterval :: int where
  "lockPollInterval = 100"

record LockIO =
  lk_enter :: "goerror option"
  lk_mkdir :: "string \<Rightarrow> goerror option"
  lk_open :: "string \<Rightarrow> goerror option"
  lk_start :: int
  lk_ctx :: "nat \<Rightarrow> goerror option"
  lk_flock :: "nat \<Rightarrow> goerror option"
  lk_now :: "nat \<Rightarrow> int"
  lk_wake :: "nat \<Rightarrow> goerror option"

datatype lock_call = LMkdirAll string | LOpen string | LFlock nat | LClose

text \<open>A held lock: the path its descriptor is open on, None once released.\<close>

type_synonym Lock = "string option"

partial_function (option) lock_loop ::
  "LockIO \<Rightarrow> string \<Rightarrow> int \<Rightarrow> nat \<Rightarrow> (Lock res \<times> lock_call list) option"
where
  "lock_loop io path deadline n =
     (case lk_ctx io n of
        Some e \<Rightarrow> Some (Err (Errorf ''lock'' [e]), [LClose])
      | None \<Rightarrow>
          (case lk_flock io n of
             None \<Rightarrow> Some (Ok (Some path), [LFlock n])
           | Some e \<Rightarrow>
               (if \<not> errors_Is e (S_std EWOULDBLOCK) then Some (Err (Errorf ''lock'' [e]), [LFlock n, LClose])
                else if lk_now io n > deadline
                  then Some (Err (Errorf ''lock file'' [Sentinel (S_lock ErrLocked)]), [LFlock n, LClose])
                else
                  (case lk_wake io n of
                     Some e' \<Rightarrow> Some (Err (Errorf ''lock'' [e']), [LFlock n, LClose])
                   | None \<Rightarrow>
                       Option.bind (lock_loop io path deadline (Suc n))
                         (\<lambda>(r, calls). Some (r, LFlock n # calls))))))"

definition AcquireLock :: "LockIO \<Rightarrow> string \<Rightarrow> int \<Rightarrow> (Lock res \<times> lock_call list) option" where
  "AcquireLock io path wait =
     (case lk_enter io of
        Some e \<Rightarrow> Some (Err (Errorf ''lock'' [e]), [])
      | None \<Rightarrow>
          (let dir = Dir path in
           case lk_mkdir io dir of
             Some e \<Rightarrow> Some (Err (Errorf ''create lock dir'' [e]), [LMkdirAll dir])
           | None \<Rightarrow>
               (case lk_open io path of
                  Some e \<Rightarrow> Some (Err (Errorf ''open lock file'' [e]), [LMkdirAll dir])
                | None \<Rightarrow>
                    (case lock_loop io path (lk_start io + wait) 0 of
                       None \<Rightarrow> None
                     | Some (r, calls) \<Rightarrow> Some (r, LMkdirAll dir # LOpen path # calls)))))"

section \<open>TryLockFile and Release\<close>

definition TryLockFile :: "(string \<Rightarrow> goerror option) \<Rightarrow> string \<Rightarrow> Lock res" where
  "TryLockFile flock name =
     (case flock name of
        None \<Rightarrow> Ok (Some name)
      | Some e \<Rightarrow>
          (if errors_Is e (S_std EWOULDBLOCK) then Err (Errorf ''lock file'' [Sentinel (S_lock ErrLocked)])
           else Err (Errorf ''lock'' [e])))"

text \<open>The arguments are what unlocking and closing answer; the lock afterwards, and the error.\<close>

definition Release :: "goerror option \<Rightarrow> goerror option \<Rightarrow> Lock \<Rightarrow> Lock \<times> goerror option" where
  "Release unlock close l =
     (case l of
        None \<Rightarrow> (None, None)
      | Some f \<Rightarrow>
          (None,
           case unlock of
             Some e \<Rightarrow> Some (Errorf ''unlock'' [e])
           | None \<Rightarrow> map_option (\<lambda>e. Errorf ''close lock file'' [e]) close))"

section \<open>The loop\<close>

text \<open>Between two attempts the clock advances at least by the polling interval.\<close>

definition clock_advances :: "LockIO \<Rightarrow> bool" where
  "clock_advances io \<longleftrightarrow> (\<forall>n. lk_start io + int n * lockPollInterval \<le> lk_now io n)"

definition attempts_within :: "int \<Rightarrow> nat" where
  "attempts_within wait = Suc (nat (wait div lockPollInterval))"

text \<open>
  How the loop, entered at attempt n, ends at attempt k: granted; the context found ended
  before the attempt; a failure of the kernel; the wait used up; the context ending while
  asleep. Every attempt before k was refused because another holder has the lock.
\<close>

definition refused :: "LockIO \<Rightarrow> nat \<Rightarrow> bool" where
  "refused io n \<longleftrightarrow> (case lk_flock io n of None \<Rightarrow> False | Some e \<Rightarrow> errors_Is e (S_std EWOULDBLOCK))"

inductive lock_end :: "LockIO \<Rightarrow> string \<Rightarrow> int \<Rightarrow> nat \<Rightarrow> nat \<Rightarrow> Lock res \<Rightarrow> lock_call list \<Rightarrow> bool"
  for io path deadline n k where
  granted: "lk_ctx io k = None \<Longrightarrow> lk_flock io k = None \<Longrightarrow>
    lock_end io path deadline n k (Ok (Some path)) (map LFlock [n..<Suc k])"
| cancelled: "lk_ctx io k = Some e \<Longrightarrow>
    lock_end io path deadline n k (Err (Errorf ''lock'' [e])) (map LFlock [n..<k] @ [LClose])"
| kernel: "lk_flock io k = Some e \<Longrightarrow> \<not> refused io k \<Longrightarrow>
    lock_end io path deadline n k (Err (Errorf ''lock'' [e])) (map LFlock [n..<Suc k] @ [LClose])"
| contended: "refused io k \<Longrightarrow> deadline < lk_now io k \<Longrightarrow>
    lock_end io path deadline n k (Err (Errorf ''lock file'' [Sentinel (S_lock ErrLocked)]))
      (map LFlock [n..<Suc k] @ [LClose])"
| woken: "refused io k \<Longrightarrow> lk_wake io k = Some e \<Longrightarrow>
    lock_end io path deadline n k (Err (Errorf ''lock'' [e])) (map LFlock [n..<Suc k] @ [LClose])"

inductive_cases lock_endE: "lock_end io path deadline n k r calls"

lemma lock_end_earlier:
  assumes "lock_end io path deadline (Suc n) k r calls" and "Suc n \<le> k"
  shows "lock_end io path deadline n k r (LFlock n # calls)"
proof -
  have up: "LFlock n # map LFlock [Suc n..<k] = map LFlock [n..<k]"
    "LFlock n # map LFlock [Suc n..<Suc k] = map LFlock [n..<Suc k]"
    using assms(2) upt_conv_Cons by simp_all
  from assms(1) show ?thesis
    by cases (simp_all add: up lock_end.intros del: upt_Suc flip: append_Cons)
qed

lemma lock_loop_ends:
  assumes "clock_advances io" and "n \<le> attempts_within wait" and "0 \<le> wait"
  shows "\<exists>r calls k. lock_loop io path (lk_start io + wait) n = Some (r, calls) \<and>
    n \<le> k \<and> k \<le> attempts_within wait \<and> (\<forall>j \<in> {n..<k}. refused io j) \<and>
    lock_end io path (lk_start io + wait) n k r calls"
  using assms(2)
proof (induction "attempts_within wait - n" arbitrary: n rule: less_induct)
  case less
  note unfold = lock_loop.simps [of io path "lk_start io + wait" n]
  show ?case
  proof (cases "lk_ctx io n = None \<and> refused io n \<and> lk_now io n \<le> lk_start io + wait \<and> lk_wake io n = None")
    case False
    have "\<exists>r calls. lock_loop io path (lk_start io + wait) n = Some (r, calls) \<and>
        lock_end io path (lk_start io + wait) n n r calls"
      using False unfolding lock_end.simps unfold
      by (auto simp: refused_def not_le split: option.splits)
    then obtain r calls where "lock_loop io path (lk_start io + wait) n = Some (r, calls)"
      "lock_end io path (lk_start io + wait) n n r calls" by blast
    then show ?thesis using less.prems
      by (intro exI [of _ r] exI [of _ calls] exI [of _ n]) auto
  next
    case True
    then have "int n * lockPollInterval \<le> wait"
      using assms(1) by (auto simp: clock_advances_def dest: spec [of _ n])
    then have "int n \<le> wait div lockPollInterval" by (simp add: lockPollInterval_def)
    then have n: "Suc n \<le> attempts_within wait" by (simp add: attempts_within_def)
    then have "attempts_within wait - Suc n < attempts_within wait - n" by simp
    from less.hyps [OF this n] obtain r calls k where
      ih: "lock_loop io path (lk_start io + wait) (Suc n) = Some (r, calls)" "Suc n \<le> k" "k \<le> attempts_within wait"
      "\<forall>j \<in> {Suc n..<k}. refused io j" "lock_end io path (lk_start io + wait) (Suc n) k r calls"
      by blast
    have "lock_loop io path (lk_start io + wait) n = Some (r, LFlock n # calls)"
      using True ih(1) by (auto simp: unfold refused_def split: option.splits)
    moreover have "\<forall>j \<in> {n..<k}. refused io j"
      using ih(4) True by (metis atLeastLessThan_iff le_neq_implies_less Suc_leI)
    ultimately show ?thesis using lock_end_earlier [OF ih(5,2)] ih(2,3)
      by (intro exI [of _ r] exI [of _ "LFlock n # calls"] exI [of _ k]) auto
  qed
qed

section \<open>What a lock promises\<close>

text \<open>None of the system calls and contexts reports ErrLocked: that is AcquireLock's own answer.\<close>

definition unlocked_error :: "goerror option \<Rightarrow> bool" where
  "unlocked_error r = (case r of None \<Rightarrow> True | Some e \<Rightarrow> \<not> errors_Is e (S_lock ErrLocked))"

definition lock_honest :: "LockIO \<Rightarrow> bool" where
  "lock_honest io \<longleftrightarrow>
     unlocked_error (lk_enter io) \<and> (\<forall>p. unlocked_error (lk_mkdir io p) \<and> unlocked_error (lk_open io p)) \<and>
     (\<forall>n. unlocked_error (lk_ctx io n) \<and> unlocked_error (lk_flock io n) \<and> unlocked_error (lk_wake io n))"

definition attempts :: "lock_call list \<Rightarrow> nat list" where
  "attempts calls = concat (map (\<lambda>c. case c of LFlock n \<Rightarrow> [n] | _ \<Rightarrow> []) calls)"

lemma attempts_simps [simp]:
  "attempts [] = []" "attempts (LFlock n # cs) = n # attempts cs" "attempts (LClose # cs) = attempts cs"
  "attempts (LMkdirAll p # cs) = attempts cs" "attempts (LOpen p # cs) = attempts cs"
  "attempts (cs @ ds) = attempts cs @ attempts ds" "attempts (map LFlock ns) = ns"
  by (simp_all add: attempts_def o_def)

lemma AcquireLock_ends:
  assumes "clock_advances io" and "0 \<le> wait"
    and "lk_enter io = None" and "lk_mkdir io (Dir path) = None" and "lk_open io path = None"
  shows "\<exists>r calls k. AcquireLock io path wait = Some (r, LMkdirAll (Dir path) # LOpen path # calls) \<and>
    k \<le> attempts_within wait \<and> (\<forall>j < k. refused io j) \<and> lock_end io path (lk_start io + wait) 0 k r calls"
proof -
  obtain r calls k where "lock_loop io path (lk_start io + wait) 0 = Some (r, calls)" "k \<le> attempts_within wait"
    "\<forall>j \<in> {0..<k}. refused io j" "lock_end io path (lk_start io + wait) 0 k r calls"
    using lock_loop_ends [OF assms(1) _ assms(2), of 0 path] by auto
  then show ?thesis using assms(3,4,5)
    by (intro exI [of _ r] exI [of _ calls] exI [of _ k]) (simp add: AcquireLock_def Let_def)
qed

text \<open>
  Acquiring a lock always returns, after at most one attempt per polling interval of the
  wait and one more. It succeeds exactly on an attempt the kernel granted, and then holds the
  descriptor open; every failure after the file was opened closes it again; a caller whose
  context has ended leaves no trace at all.
\<close>

theorem acquire_lock_returns:
  assumes "clock_advances io" and "0 \<le> wait"
  shows "\<exists>r calls. AcquireLock io path wait = Some (r, calls) \<and>
    length (attempts calls) \<le> attempts_within wait + 1 \<and>
    (case r of
       Inr l \<Rightarrow> l = Some path \<and> LClose \<notin> set calls \<and> lk_flock io (last (attempts calls)) = None
     | Inl e \<Rightarrow> LOpen path \<in> set calls \<longrightarrow> last calls = LClose) \<and>
    (lk_enter io \<noteq> None \<longrightarrow> calls = [] \<and> \<not> is_ok r)"
proof (cases "lk_enter io = None \<and> lk_mkdir io (Dir path) = None \<and> lk_open io path = None")
  case False
  then show ?thesis by (auto simp: AcquireLock_def Let_def split: option.splits)
next
  case True
  then obtain r calls k where
    acq: "AcquireLock io path wait = Some (r, LMkdirAll (Dir path) # LOpen path # calls)"
    and k: "k \<le> attempts_within wait" and fin: "lock_end io path (lk_start io + wait) 0 k r calls"
    using AcquireLock_ends [OF assms] by blast
  from fin acq k True show ?thesis
    by (cases rule: lock_end.cases) (auto simp del: upt_Suc)
qed

text \<open>
  ErrLocked means contention, never anything else: it is reported only after every
  attempt was refused because another holder has the lock and the clock has passed the wait.
  A cancelled context, another failure of the kernel or of the file system is not ErrLocked.
\<close>

theorem err_locked_means_contention:
  assumes "clock_advances io" and "0 \<le> wait" and "lock_honest io"
    and "AcquireLock io path wait = Some (Err e, calls)" and "errors_Is e (S_lock ErrLocked)"
  shows "attempts calls \<noteq> [] \<and> lk_start io + wait < lk_now io (last (attempts calls)) \<and>
    list_all (refused io) (attempts calls)"
proof -
  have entered: "lk_enter io = None" "lk_mkdir io (Dir path) = None" "lk_open io path = None"
    using assms(3,4,5)
    by (auto simp: AcquireLock_def Let_def lock_honest_def unlocked_error_def split: option.splits)
      (metis option.simps(5))+
  from AcquireLock_ends [OF assms(1,2) entered] obtain r calls' k where
    "AcquireLock io path wait = Some (r, LMkdirAll (Dir path) # LOpen path # calls')"
    and ref: "\<forall>j < k. refused io j" and "lock_end io path (lk_start io + wait) 0 k r calls'"
    by blast
  with assms(4) have calls: "calls = LMkdirAll (Dir path) # LOpen path # calls'"
    and fin: "lock_end io path (lk_start io + wait) 0 k (Err e) calls'"
    by simp_all
  from fin show ?thesis
  proof (cases rule: lock_end.cases)
    case contended
    then show ?thesis using calls ref by (auto simp: list_all_iff less_Suc_eq)
  next
    case (cancelled c)
    then show ?thesis using assms(3,5) unfolding lock_honest_def unlocked_error_def
      by (metis errors_Is_wrap option.simps(5))
  next
    case (kernel c)
    then show ?thesis using assms(3,5) unfolding lock_honest_def unlocked_error_def
      by (metis errors_Is_wrap option.simps(5))
  next
    case (woken c)
    then show ?thesis using assms(3,5) unfolding lock_honest_def unlocked_error_def
      by (metis errors_Is_wrap option.simps(5))
  qed
qed

section \<open>Witnesses: a lock another process holds\<close>

definition held_lock :: LockIO where
  "held_lock = \<lparr>lk_enter = None, lk_mkdir = (\<lambda>p. None), lk_open = (\<lambda>p. None), lk_start = 0,
     lk_ctx = (\<lambda>n. None), lk_flock = (\<lambda>n. Some (Sentinel (S_std EWOULDBLOCK))),
     lk_now = (\<lambda>n. int n * 100), lk_wake = (\<lambda>n. None)\<rparr>"

lemma held_lock_ok: "clock_advances held_lock" "lock_honest held_lock"
  by (simp_all add: clock_advances_def lock_honest_def unlocked_error_def held_lock_def lockPollInterval_def)

lemma acquire_lock_returns_witness:
  "\<exists>r calls. AcquireLock held_lock ''/s/l'' LockWait = Some (r, calls) \<and> length (attempts calls) \<le> 22"
  using acquire_lock_returns [OF held_lock_ok(1), of LockWait "''/s/l''"]
  by (auto simp: LockWait_def attempts_within_def lockPollInterval_def)

lemma held_lock_fails:
  "AcquireLock held_lock ''/s/l'' 50 =
     Some (Err (Errorf ''lock file'' [Sentinel (S_lock ErrLocked)]),
       [LMkdirAll (Dir ''/s/l''), LOpen ''/s/l'', LFlock 0, LFlock 1, LClose])"
proof -
  have "lock_loop held_lock p 50 1 = Some (Err (Errorf ''lock file'' [Sentinel (S_lock ErrLocked)]), [LFlock 1, LClose])" for p
    by (subst lock_loop.simps) (simp add: held_lock_def)
  then have "lock_loop held_lock p 50 0 =
      Some (Err (Errorf ''lock file'' [Sentinel (S_lock ErrLocked)]), [LFlock 0, LFlock 1, LClose])" for p
    by (subst lock_loop.simps) (simp add: held_lock_def)
  then show ?thesis by (simp add: AcquireLock_def Let_def) (simp add: held_lock_def)
qed

lemma err_locked_means_contention_witness: "50 < lk_now held_lock 1 \<and> refused held_lock 0 \<and> refused held_lock 1"
  using err_locked_means_contention [OF held_lock_ok(1) _ held_lock_ok(2) held_lock_fails]
  by (simp add: held_lock_def)

end
