(* ===== verification/Sweep.thy ===== *)
theory Sweep
  imports Traces Lock Sha256 History
begin

text \<open>
  internal/scratch/sweep.go: sweeping the caches of workflows that have not been used. Every
  system call is a call of the trace, with what it answered where the program looks at it;
  what the kernel answers is a function of the calls so far, so anything other processes do
  between two calls is covered. A descriptor of a directory is named by the components that
  were opened, one below the other and never through a link, from the scratch root.
\<close>

section \<open>Time\<close>

text \<open>
  A time.Time is its distance from the zero time in nanoseconds; Sub saturates at the limits
  of a Duration.
\<close>

type_synonym time = int

definition IsZero :: "time \<Rightarrow> bool" where
  "IsZero t \<longleftrightarrow> t = 0"

definition Sub :: "time \<Rightarrow> time \<Rightarrow> int" where
  "Sub t u = max MinInt (min MaxInt (t - u))"

definition MaxCacheAge :: int where
  "MaxCacheAge = 72 * 3600 * 1000000000"

section \<open>What the kernel answers\<close>

datatype kind = Regular | Directory | Symlink | OtherKind

record stat =
  st_kind :: kind
  st_dev :: nat
  st_ino :: nat
  st_nlink :: nat
  st_mtime :: time

type_synonym fd = "string list"

datatype syscall =
    XOpen fd bool
  | XClose fd
  | XFstat fd "stat res"
  | XStat fd string "stat res"
  | XList fd "string list res"
  | XOpenLock fd bool
  | XFstatLock fd "stat res"
  | XCloseLock fd
  | XFlock fd bool
  | XRelease fd
  | XRename fd string string
  | XUnlink fd string
  | XRmdir fd string

type_synonym systrace = "syscall list"

record kernel =
  ke_ctx :: "systrace \<Rightarrow> goerror option"
  ke_open :: "systrace \<Rightarrow> fd \<Rightarrow> goerror option"
  ke_fstat :: "systrace \<Rightarrow> fd \<Rightarrow> stat res"
  ke_stat :: "systrace \<Rightarrow> fd \<Rightarrow> string \<Rightarrow> stat res"
  ke_list :: "systrace \<Rightarrow> fd \<Rightarrow> string list res"
  ke_openlock :: "systrace \<Rightarrow> fd \<Rightarrow> goerror option"
  ke_fstatlock :: "systrace \<Rightarrow> fd \<Rightarrow> stat res"
  ke_flock :: "systrace \<Rightarrow> fd \<Rightarrow> goerror option"
  ke_rename :: "systrace \<Rightarrow> fd \<Rightarrow> string \<Rightarrow> string \<Rightarrow> goerror option"
  ke_unlink :: "systrace \<Rightarrow> fd \<Rightarrow> string \<Rightarrow> goerror option"
  ke_rmdir :: "systrace \<Rightarrow> fd \<Rightarrow> string \<Rightarrow> goerror option"
  ke_random :: "systrace \<Rightarrow> string option"
  ke_nano :: "systrace \<Rightarrow> int"

text \<open>The test seam that decides whether a directory is on the workflow directory's device.\<close>

record sweepHooks =
  hk_sameDevice :: "(stat \<Rightarrow> stat \<Rightarrow> bool) option"

section \<open>Names\<close>

definition checkoutName :: string where "checkoutName = ''checkout''"
definition cacheName :: string where "cacheName = ''cache''"
definition hooksName :: string where "hooksName = ''hooks''"
definition lockName :: string where "lockName = ''lock''"
definition tmpName :: string where "tmpName = ''tmp''"
definition usedName :: string where "usedName = ''used''"
definition trashPrefix :: string where "trashPrefix = ''trash-''"

lemmas scratch_names =
  checkoutName_def cacheName_def hooksName_def lockName_def tmpName_def usedName_def trashPrefix_def

definition workflowNamePattern :: "string \<Rightarrow> bool" where
  "workflowNamePattern name \<longleftrightarrow> length name = 16 \<and> list_all is_lower_hex name"

text \<open>Eight random bytes in hexadecimal, or the clock when there is no randomness.\<close>

definition randomSuffix :: "kernel \<Rightarrow> systrace \<Rightarrow> string" where
  "randomSuffix ke tr =
     (case ke_random ke tr of None \<Rightarrow> Itoa (ke_nano ke tr) | Some b \<Rightarrow> EncodeToString b)"

section \<open>Reading an entry\<close>

definition stat_call :: "kernel \<Rightarrow> fd \<Rightarrow> string \<Rightarrow> systrace \<Rightarrow> stat res \<times> systrace" where
  "stat_call ke fd name tr = (let r = ke_stat ke tr fd name in (r, tr @ [XStat fd name r]))"

definition listNames :: "kernel \<Rightarrow> fd \<Rightarrow> systrace \<Rightarrow> string list res \<times> systrace" where
  "listNames ke fd tr =
     (let r = ke_list ke tr fd in
      (case r of Inl e \<Rightarrow> Err (Errorf ''list'' [e]) | Inr names \<Rightarrow> Ok names, tr @ [XList fd r]))"

definition is_kind :: "kind \<Rightarrow> stat res \<Rightarrow> bool" where
  "is_kind k r = (case r of Inl e \<Rightarrow> False | Inr st \<Rightarrow> st_kind st = k)"

definition mtime_of :: "stat res \<Rightarrow> time" where
  "mtime_of r = (case r of Inl e \<Rightarrow> 0 | Inr st \<Rightarrow> st_mtime st)"

record entryState =
  es_hasTrash :: bool
  es_lastUse :: time

definition readEntry :: "kernel \<Rightarrow> fd \<Rightarrow> systrace \<Rightarrow> entryState res \<times> systrace" where
  "readEntry ke fd tr =
     (case listNames ke fd tr of
        (Inl e, tr1) \<Rightarrow> (Err e, tr1)
      | (Inr names, tr1) \<Rightarrow>
          (let trash = list_ex (\<lambda>n. HasPrefix n trashPrefix) names;
               (used, tr2) = stat_call ke fd usedName tr1 in
           if is_kind Regular used
           then (Ok \<lparr>es_hasTrash = trash, es_lastUse = mtime_of used\<rparr>, tr2)
           else
             (let (cache, tr3) = stat_call ke fd cacheName tr2 in
              (Ok \<lparr>es_hasTrash = trash, es_lastUse = (if is_kind Directory cache then mtime_of cache else 0)\<rparr>, tr3))))"

definition stale :: "time \<Rightarrow> time \<Rightarrow> bool" where
  "stale now lastUse \<longleftrightarrow> \<not> IsZero lastUse \<and> Sub now lastUse > MaxCacheAge"

section \<open>Removing a tree\<close>

text \<open>
  removeTree up to the loop over the children: either it has returned, or the directory is
  open and these are its entries.
\<close>

datatype visit = Returned "goerror option" | Entered "string list"

definition unlink_entry :: "kernel \<Rightarrow> fd \<Rightarrow> string \<Rightarrow> systrace \<Rightarrow> visit \<times> systrace" where
  "unlink_entry ke parent name tr =
     (case ke_unlink ke tr parent name of
        None \<Rightarrow> (Returned None, tr @ [XUnlink parent name])
      | Some e \<Rightarrow>
          (Returned (if errors_Is e (S_std ENOENT) then None else Some (Errorf ''unlink'' [e])),
           tr @ [XUnlink parent name]))"

definition same_device :: "sweepHooks \<Rightarrow> stat \<Rightarrow> stat \<Rightarrow> bool" where
  "same_device hooks base dir =
     (case hk_sameDevice hooks of None \<Rightarrow> st_dev base = st_dev dir | Some f \<Rightarrow> f base dir)"

definition enter_dir :: "kernel \<Rightarrow> sweepHooks \<Rightarrow> stat \<Rightarrow> fd \<Rightarrow> string \<Rightarrow> systrace \<Rightarrow> visit \<times> systrace" where
  "enter_dir ke hooks base parent name tr =
     (case ke_ctx ke tr of
        Some e \<Rightarrow> (Returned (Some e), tr)
      | None \<Rightarrow>
          (let (r, tr1) = stat_call ke parent name tr in
           case r of
             Inl e \<Rightarrow>
               (Returned (if errors_Is e (S_std ENOENT) then None else Some (Errorf ''stat'' [e])), tr1)
           | Inr st \<Rightarrow>
               (if st_kind st \<noteq> Directory then unlink_entry ke parent name tr1
                else
                  (let fd = parent @ [name] in
                   case ke_open ke tr1 fd of
                     Some e \<Rightarrow>
                       (let tr2 = tr1 @ [XOpen fd False] in
                        if errors_Is e (S_std ENOTDIR) \<or> errors_Is e (S_std ELOOP)
                        then unlink_entry ke parent name tr2
                        else (Returned (Some (Errorf ''open'' [e])), tr2))
                   | None \<Rightarrow>
                       (let tr2 = tr1 @ [XOpen fd True];
                            r2 = ke_fstat ke tr2 fd;
                            tr3 = tr2 @ [XFstat fd r2] in
                        case r2 of
                          Inl e \<Rightarrow> (Returned (Some (Errorf ''fstat'' [e])), tr3 @ [XClose fd])
                        | Inr opened \<Rightarrow>
                            (if st_kind opened \<noteq> Directory \<or> \<not> same_device hooks base opened
                             then (Returned None, tr3 @ [XClose fd])
                             else
                               (case listNames ke fd tr3 of
                                  (Inl e, tr4) \<Rightarrow> (Returned (Some e), tr4 @ [XClose fd])
                                | (Inr children, tr4) \<Rightarrow> (Entered children, tr4))))))))"

text \<open>removeTree's last step, once the children are gone.\<close>

definition leave_dir :: "kernel \<Rightarrow> fd \<Rightarrow> string \<Rightarrow> systrace \<Rightarrow> goerror option \<times> systrace" where
  "leave_dir ke parent name tr =
     (let tr1 = tr @ [XClose (parent @ [name])] in
      case ke_rmdir ke tr1 parent name of
        None \<Rightarrow> (None, tr1 @ [XRmdir parent name])
      | Some e \<Rightarrow>
          (if errors_Is e (S_std ENOENT) then None else Some (Errorf ''rmdir'' [e]), tr1 @ [XRmdir parent name]))"

text \<open>
  removeTree for a list of entries of a directory, stopping at the first error: removeTree
  itself is the list of one, its loop over the children the list of all of them. None is not
  returning.
\<close>

partial_function (option) removeTrees ::
  "kernel \<Rightarrow> sweepHooks \<Rightarrow> stat \<Rightarrow> fd \<Rightarrow> string list \<Rightarrow> systrace \<Rightarrow> (goerror option \<times> systrace) option"
where
  "removeTrees ke hooks base parent names tr =
     (case names of
        [] \<Rightarrow> Some (None, tr)
      | name # rest \<Rightarrow>
          (case enter_dir ke hooks base parent name tr of
             (Returned (Some e), tr1) \<Rightarrow> Some (Some e, tr1)
           | (Returned None, tr1) \<Rightarrow> removeTrees ke hooks base parent rest tr1
           | (Entered children, tr1) \<Rightarrow>
               Option.bind (removeTrees ke hooks base (parent @ [name]) children tr1)
                 (\<lambda>(r, tr2).
                    case r of
                      Some e \<Rightarrow> Some (Some e, tr2 @ [XClose (parent @ [name])])
                    | None \<Rightarrow>
                        (case leave_dir ke parent name tr2 of
                           (Some e, tr3) \<Rightarrow> Some (Some e, tr3)
                         | (None, tr3) \<Rightarrow> removeTrees ke hooks base parent rest tr3))))"

declare removeTrees.simps [code]

definition removeTree ::
  "kernel \<Rightarrow> sweepHooks \<Rightarrow> stat \<Rightarrow> fd \<Rightarrow> string \<Rightarrow> systrace \<Rightarrow> (goerror option \<times> systrace) option"
where
  "removeTree ke hooks base parent name tr = removeTrees ke hooks base parent [name] tr"

section \<open>An entry\<close>

definition sweep_items :: "string list" where
  "sweep_items = [cacheName, checkoutName, tmpName, hooksName, usedName]"

text \<open>Moving the live items to trash; the result tells whether one was moved.\<close>

fun move_items :: "kernel \<Rightarrow> fd \<Rightarrow> string list \<Rightarrow> bool \<Rightarrow> systrace \<Rightarrow> bool \<times> systrace" where
  "move_items ke fd [] moved tr = (moved, tr)"
| "move_items ke fd (item # items) moved tr =
     (let (r, tr1) = stat_call ke fd item tr in
      case r of
        Inl e \<Rightarrow> move_items ke fd items moved tr1
      | Inr st \<Rightarrow>
          (if st_kind st = Symlink then move_items ke fd items moved tr1
           else
             (let trash = trashPrefix @ randomSuffix ke tr1; tr2 = tr1 @ [XRename fd item trash] in
              case ke_rename ke tr1 fd item trash of
                Some e \<Rightarrow> move_items ke fd items moved tr2
              | None \<Rightarrow> move_items ke fd items True tr2)))"

text \<open>The trash of an entry, item by item; only the end of the context stops the loop.\<close>

fun remove_trash ::
  "kernel \<Rightarrow> sweepHooks \<Rightarrow> stat \<Rightarrow> fd \<Rightarrow> string list \<Rightarrow> goerror list \<Rightarrow> systrace \<Rightarrow>
   (goerror option \<times> systrace) option"
where
  "remove_trash ke hooks base fd [] errs tr = Some (if errs = [] then None else Some (Errorf ''join'' errs), tr)"
| "remove_trash ke hooks base fd (n # ns) errs tr =
     (if \<not> HasPrefix n trashPrefix then remove_trash ke hooks base fd ns errs tr
      else
        Option.bind (removeTree ke hooks base fd n tr)
          (\<lambda>(r, tr1).
             case r of
               None \<Rightarrow> remove_trash ke hooks base fd ns errs tr1
             | Some e \<Rightarrow>
                 (if ke_ctx ke tr1 \<noteq> None then Some (Some e, tr1)
                  else remove_trash ke hooks base fd ns (errs @ [e]) tr1)))"

text \<open>Under the entry's lock: judge again, move what is live, remove the trash.\<close>

definition sweep_locked ::
  "kernel \<Rightarrow> sweepHooks \<Rightarrow> time \<Rightarrow> stat \<Rightarrow> fd \<Rightarrow> systrace \<Rightarrow> ((bool \<times> goerror option) \<times> systrace) option"
where
  "sweep_locked ke hooks now base fd tr =
     (case readEntry ke fd tr of
        (Inl e, tr1) \<Rightarrow> Some ((False, Some e), tr1)
      | (Inr st, tr1) \<Rightarrow>
          (let (moved, tr2) = (if stale now (es_lastUse st) then move_items ke fd sweep_items False tr1 else (False, tr1)) in
           case listNames ke fd tr2 of
             (Inl e, tr3) \<Rightarrow> Some ((moved, Some e), tr3)
           | (Inr names, tr3) \<Rightarrow>
               map_option (\<lambda>(r, tr4). ((moved, r), tr4)) (remove_trash ke hooks base fd names [] tr3)))"

text \<open>The lock file that was opened is the one the ownership check saw.\<close>

definition lock_file_ok :: "stat \<Rightarrow> stat res \<Rightarrow> bool" where
  "lock_file_ok lockSt r =
     (case r of
        Inl e \<Rightarrow> False
      | Inr opened \<Rightarrow>
          st_kind opened = Regular \<and> st_nlink opened = 1 \<and> st_dev opened = st_dev lockSt \<and> st_ino opened = st_ino lockSt)"

definition lock_entry ::
  "kernel \<Rightarrow> sweepHooks \<Rightarrow> time \<Rightarrow> stat \<Rightarrow> stat \<Rightarrow> fd \<Rightarrow> systrace \<Rightarrow> ((bool \<times> goerror option) \<times> systrace) option"
where
  "lock_entry ke hooks now base lockSt fd tr =
     (case ke_openlock ke tr fd of
        Some e \<Rightarrow> Some ((False, None), tr @ [XOpenLock fd False])
      | None \<Rightarrow>
          (let tr1 = tr @ [XOpenLock fd True];
               r = ke_fstatlock ke tr1 fd;
               tr2 = tr1 @ [XFstatLock fd r] in
           if \<not> lock_file_ok lockSt r then Some ((False, None), tr2 @ [XCloseLock fd])
           else
             (case TryLockFile (\<lambda>_. ke_flock ke tr2 fd) lockName of
                Inl e \<Rightarrow>
                  Some ((False, if errors_Is e (S_lock ErrLocked) then None else Some e),
                    tr2 @ [XFlock fd False, XCloseLock fd])
              | Inr l \<Rightarrow>
                  map_option (\<lambda>(r, tr3). (r, tr3 @ [XRelease fd]))
                    (sweep_locked ke hooks now base fd (tr2 @ [XFlock fd True])))))"

definition judge_entry ::
  "kernel \<Rightarrow> sweepHooks \<Rightarrow> time \<Rightarrow> fd \<Rightarrow> systrace \<Rightarrow> ((bool \<times> goerror option) \<times> systrace) option"
where
  "judge_entry ke hooks now fd tr =
     (let r = ke_fstat ke tr fd; tr1 = tr @ [XFstat fd r] in
      case r of
        Inl e \<Rightarrow> Some ((False, Some (Errorf ''fstat'' [e])), tr1)
      | Inr base \<Rightarrow>
          (let (lr, tr2) = stat_call ke fd lockName tr1 in
           case lr of
             Inl e \<Rightarrow> Some ((False, None), tr2)
           | Inr lockSt \<Rightarrow>
               (if st_kind lockSt \<noteq> Regular then Some ((False, None), tr2)
                else
                  (case readEntry ke fd tr2 of
                     (Inl e, tr3) \<Rightarrow> Some ((False, Some e), tr3)
                   | (Inr st, tr3) \<Rightarrow>
                       (if \<not> es_hasTrash st \<and> \<not> stale now (es_lastUse st) then Some ((False, None), tr3)
                        else lock_entry ke hooks now base lockSt fd tr3)))))"

definition sweepEntry ::
  "kernel \<Rightarrow> sweepHooks \<Rightarrow> time \<Rightarrow> string \<Rightarrow> systrace \<Rightarrow> ((bool \<times> goerror option) \<times> systrace) option"
where
  "sweepEntry ke hooks now name tr =
     (case ke_open ke tr [name] of
        Some e \<Rightarrow>
          Some ((False,
             if errors_Is e (S_std ENOTDIR) \<or> errors_Is e (S_std ELOOP) \<or> errors_Is e (S_std ENOENT) then None
             else Some (Errorf ''open'' [e])), tr @ [XOpen [name] False])
      | None \<Rightarrow>
          map_option (\<lambda>(r, tr1). (r, tr1 @ [XClose [name]])) (judge_entry ke hooks now [name] (tr @ [XOpen [name] True])))"

section \<open>The sweep\<close>

fun sweep_loop ::
  "kernel \<Rightarrow> sweepHooks \<Rightarrow> string \<Rightarrow> time \<Rightarrow> string list \<Rightarrow> nat \<Rightarrow> systrace \<Rightarrow> (nat \<times> systrace) option"
where
  "sweep_loop ke hooks exclude now [] swept tr = Some (swept, tr)"
| "sweep_loop ke hooks exclude now (name # names) swept tr =
     (if ke_ctx ke tr \<noteq> None then Some (swept, tr)
      else if name = exclude \<or> \<not> workflowNamePattern name then sweep_loop ke hooks exclude now names swept tr
      else
        Option.bind (sweepEntry ke hooks now name tr)
          (\<lambda>((did, err), tr1).
             let swept1 = (if did then swept + 1 else swept) in
             if err \<noteq> None \<and> ke_ctx ke tr1 \<noteq> None then Some (swept1, tr1)
             else sweep_loop ke hooks exclude now names swept1 tr1))"

definition sweep ::
  "kernel \<Rightarrow> sweepHooks \<Rightarrow> string \<Rightarrow> time \<Rightarrow> systrace \<Rightarrow> (nat \<times> systrace) option"
where
  "sweep ke hooks exclude now tr =
     (case ke_open ke tr [] of
        Some e \<Rightarrow> Some (0, tr @ [XOpen [] False])
      | None \<Rightarrow>
          (let tr1 = tr @ [XOpen [] True]; r = ke_list ke tr1 []; tr2 = tr1 @ [XList [] r] in
           case r of
             Inl e \<Rightarrow> Some (0, tr2 @ [XClose []])
           | Inr names \<Rightarrow>
               map_option (\<lambda>(swept, tr3). (swept, tr3 @ [XClose []])) (sweep_loop ke hooks exclude now names 0 tr2)))"

end
