(* ===== verification/PathSpec.thy ===== *)
theory PathSpec
  imports Paths "HOL-Library.Sublist"
begin

text \<open>
  What cleaning does to a path. An absolute path that is clean is a list of names, none of
  them empty, a dot or two dots; joining a name to it and taking the directory of the result
  are inverse to each other, and Dir makes a path that is not its own directory shorter.
\<close>

section \<open>Parts\<close>

lemma Split1_not_Nil [simp]: "Split1 a sep \<noteq> []"
  by (cases a) (auto split: list.split)

lemma Split1_sep: "Split1 (a @ sep # b) sep = Split1 a sep @ Split1 b sep"
  by (induction a) (auto split: list.split)

lemma Split1_free: "sep \<notin> set a \<Longrightarrow> Split1 a sep = [a]"
  by (induction a) auto

lemma Split1_parts_free: "p \<in> set (Split1 a sep) \<Longrightarrow> sep \<notin> set p"
  by (induction a arbitrary: p) (auto split: list.splits if_splits)

lemma Join_snoc: "xs \<noteq> [] \<Longrightarrow> Join (xs @ [x]) sep = Join xs sep @ sep @ x"
  by (induction xs sep rule: Join.induct) auto

lemma Split1_Join: "ns \<noteq> [] \<Longrightarrow> \<forall>n \<in> set ns. sep \<notin> set n \<Longrightarrow> Split1 (Join ns [sep]) sep = ns"
  by (induction ns "[sep]" rule: Join.induct) (auto simp: Split1_free Split1_sep)

lemma clean_parts_last:
  "q \<noteq> [] \<Longrightarrow> q \<noteq> ''.'' \<Longrightarrow> q \<noteq> ''..'' \<Longrightarrow> clean_parts rooted acc (ps @ [q]) = clean_parts rooted acc ps @ [q]"
  by (induction rooted acc ps rule: clean_parts.induct) (auto split: list.split)

lemma clean_parts_empty: "clean_parts rooted acc (ps @ [[]]) = clean_parts rooted acc ps"
  by (induction rooted acc ps rule: clean_parts.induct) (auto split: list.split)

lemma suffix_Join: "suffix q (Join (ps @ [q]) sep)"
  by (induction ps rule: induct_list012) (auto simp: suffix_def)

lemma suffix_Clean:
  assumes "slash \<notin> set q" and "q \<noteq> []" and "q \<noteq> ''.''" and "q \<noteq> ''..''"
  shows "suffix q (Clean (p @ slash # q))"
proof -
  let ?p = "p @ slash # q"
  have "clean_parts (IsAbs ?p) [] (Split1 ?p slash) = clean_parts (IsAbs ?p) [] (Split1 p slash) @ [q]"
    using assms by (simp add: Split1_sep Split1_free clean_parts_last)
  then have "suffix q (Join (clean_parts (IsAbs ?p) [] (Split1 ?p slash)) ''/'')"
    using suffix_Join by simp
  then show ?thesis using assms(2) by (auto simp: Clean_def Let_def suffix_def)
qed

lemma Clean_not_Nil: "Clean p \<noteq> []"
  by (auto simp: Clean_def Let_def)

section \<open>Clean absolute paths\<close>

definition plain_name :: "string \<Rightarrow> bool" where
  "plain_name n \<longleftrightarrow> n \<noteq> [] \<and> n \<noteq> ''.'' \<and> n \<noteq> ''..'' \<and> slash \<notin> set n"

definition path_of :: "string list \<Rightarrow> string" where
  "path_of ns = slash # Join ns ''/''"

lemma clean_parts_plain:
  "rooted \<Longrightarrow> list_all plain_name acc \<Longrightarrow> \<forall>p \<in> set ps. slash \<notin> set p \<Longrightarrow>
   list_all plain_name (clean_parts rooted acc ps)"
proof (induction rooted acc ps rule: clean_parts.induct)
  case (2 rooted acc p ps)
  then show ?case by (cases acc) (auto simp: plain_name_def)
qed simp

lemma clean_parts_id: "list_all plain_name ns \<Longrightarrow> clean_parts rooted acc ns = rev acc @ ns"
  by (induction ns arbitrary: acc) (auto simp: plain_name_def)

lemma Clean_abs: "IsAbs p \<Longrightarrow> \<exists>ns. list_all plain_name ns \<and> Clean p = path_of ns"
proof -
  assume "IsAbs p"
  then have "Clean p = path_of (clean_parts True [] (Split1 p slash))"
    by (cases p) (auto simp: Clean_def path_of_def Let_def)
  moreover have "list_all plain_name (clean_parts True [] (Split1 p slash))"
    by (rule clean_parts_plain) (auto simp: Split1_parts_free)
  ultimately show ?thesis by blast
qed

lemma Clean_path_slash:
  assumes "list_all plain_name ns" and "\<forall>p \<in> set (Split1 q slash). plain_name p \<or> p = []"
  shows "Clean (path_of ns @ slash # q) = path_of (ns @ filter (\<lambda>p. p \<noteq> []) (Split1 q slash))"
proof -
  have parts: "clean_parts True acc ps = rev acc @ filter (\<lambda>p. p \<noteq> []) ps" if "\<forall>p \<in> set ps. plain_name p \<or> p = []" for acc ps
    using that by (induction ps arbitrary: acc) (auto simp: plain_name_def)
  have split: "Split1 (path_of ns @ slash # q) slash = [] # (if ns = [] then [[]] else ns) @ Split1 q slash"
  proof (cases "ns = []")
    case False
    then have "Split1 (Join ns ''/'') slash = ns"
      using assms(1) by (intro Split1_Join) (auto simp: list_all_iff plain_name_def)
    then show ?thesis using False by (simp add: path_of_def Split1_sep)
  qed (simp add: path_of_def)
  have all: "\<forall>p \<in> set (Split1 (path_of ns @ slash # q) slash). plain_name p \<or> p = []"
    using assms by (auto simp: split list_all_iff)
  have "filter (\<lambda>p. p \<noteq> []) ns = ns" using assms(1) by (auto simp: list_all_iff plain_name_def filter_id_conv)
  then show ?thesis using parts [OF all, of "[]"]
    by (simp add: Clean_def path_of_def Let_def split [unfolded path_of_def, simplified])
qed

lemma Clean_path_of:
  assumes "list_all plain_name ns"
  shows "Clean (path_of ns) = path_of ns"
proof (cases "ns = []")
  case False
  then have "Split1 (Join ns ''/'') slash = ns"
    using assms by (intro Split1_Join) (auto simp: list_all_iff plain_name_def)
  then show ?thesis using assms by (simp add: Clean_def path_of_def clean_parts_id Let_def)
qed (simp add: Clean_def path_of_def)

lemma Clean_twice: "IsAbs p \<Longrightarrow> Clean (Clean p) = Clean p"
  using Clean_abs Clean_path_of by metis

lemma JoinPath_child:
  assumes "list_all plain_name ns" and "plain_name n"
  shows "JoinPath [path_of ns, n] = path_of (ns @ [n])"
proof -
  have "Split1 n slash = [n]" using assms(2) by (simp add: plain_name_def Split1_free)
  then show ?thesis using Clean_path_slash [OF assms(1), of n] assms(2)
    by (simp add: JoinPath_def path_of_def plain_name_def)
qed

lemma path_of_child: "path_of (ns @ [n]) = (if ns = [] then slash # n else path_of ns @ slash # n)"
  by (simp add: path_of_def Join_snoc)

lemma Dir_child:
  assumes "list_all plain_name ns" and "plain_name n"
  shows "Dir (path_of (ns @ [n])) = path_of ns"
proof -
  have "dropWhile (\<lambda>c. c \<noteq> slash) (rev (p @ slash # n)) = slash # rev p" for p
    using assms(2) by (auto simp: plain_name_def dropWhile_append)
  then have "Dir (p @ slash # n) = Clean (p @ [slash])" for p by (simp add: Dir_def)
  then have "Dir (path_of (ns @ [n])) = (if ns = [] then Clean [slash] else Clean (path_of ns @ [slash]))"
    by (metis append_Nil path_of_child)
  then show ?thesis using Clean_path_slash [OF assms(1), of "[]"] Clean_path_of [of "[]"]
    by (auto simp: path_of_def)
qed

lemma Base_child: "plain_name n \<Longrightarrow> Base (path_of (ns @ [n])) = n"
proof -
  assume n: "plain_name n"
  then obtain m c where m: "n = m @ [c]" "c \<noteq> slash" by (cases n rule: rev_cases) (auto simp: plain_name_def)
  have "takeWhile (\<lambda>c. c \<noteq> slash) (rev (p @ slash # n)) = rev n" for p
    using n by (auto simp: plain_name_def takeWhile_append)
  moreover have "TrimRight (p @ slash # n) ''/'' = p @ slash # n" for p
    using m by (simp add: TrimRight_def)
  ultimately have "Base (p @ slash # n) = n" for p by (simp add: Base_def)
  then show ?thesis by (metis append_Nil path_of_child)
qed

section \<open>Dir makes a path shorter\<close>

definition parts_length :: "string list \<Rightarrow> nat" where
  "parts_length ps = sum_list (map (Suc \<circ> length) ps)"

lemma parts_length_simps [simp]:
  "parts_length [] = 0" "parts_length (p # ps) = Suc (length p) + parts_length ps"
  "parts_length (ps @ qs) = parts_length ps + parts_length qs" "parts_length (rev ps) = parts_length ps"
  by (simp_all add: parts_length_def flip: rev_map)

lemma length_Join_parts: "ps \<noteq> [] \<Longrightarrow> Suc (length (Join ps ''/'')) = parts_length ps"
  by (induction ps "''/''" rule: Join.induct) auto

lemma parts_length_Split1: "parts_length (Split1 a sep) = Suc (length a)"
  by (induction a) (auto split: list.split)

lemma clean_parts_length: "parts_length (clean_parts rooted acc ps) \<le> parts_length acc + parts_length ps"
  by (induction rooted acc ps rule: clean_parts.induct) (auto split: list.split)

lemma length_Join_cleaned: "length (Join (clean_parts rooted [] (Split1 a slash)) ''/'') \<le> length a"
proof (cases "clean_parts rooted [] (Split1 a slash) = []")
  case False
  from length_Join_parts [OF this] clean_parts_length [of rooted "[]" "Split1 a slash"] show ?thesis
    by (simp add: parts_length_Split1)
qed simp

lemma Clean_slash_shorter:
  assumes "a \<noteq> []"
  shows "Clean (a @ [slash]) = ''.'' \<or> length (Clean (a @ [slash])) \<le> length a"
proof (cases "IsAbs a")
  case True
  then obtain t where a: "a = slash # t" by (cases a) auto
  have "Split1 (a @ [slash]) slash = Split1 a slash @ [[]]" using Split1_sep [of a slash "[]"] by simp
  then have "Clean (a @ [slash]) = slash # Join (clean_parts True [] (Split1 t slash)) ''/''"
    by (simp add: Clean_def a clean_parts_empty [of _ _ "[] # _", simplified] Let_def)
  then show ?thesis using length_Join_cleaned [of True t] by (simp add: a)
next
  case False
  then have "\<not> IsAbs (a @ [slash])" using assms by (cases a) auto
  then have "Clean (a @ [slash]) = (let body = Join (clean_parts False [] (Split1 a slash)) ''/'' in if body = [] then ''.'' else body)"
    using Split1_sep [of a slash "[]"] by (simp add: Clean_def clean_parts_empty Let_def)
  then show ?thesis using length_Join_cleaned [of False a] by (auto simp: Let_def)
qed

text \<open>The measure of the walk to the root: the length, except that a dot is the last.\<close>

definition path_size :: "string \<Rightarrow> nat" where
  "path_size p = (if p = ''.'' then 0 else Suc (length p))"

lemma Dir_smaller:
  assumes "Dir p \<noteq> p"
  shows "path_size (Dir p) < path_size p"
proof -
  define q where "q = rev (dropWhile (\<lambda>c. c \<noteq> slash) (rev p))"
  have dir: "Dir p = Clean q" by (simp add: Dir_def q_def)
  obtain t where p: "p = q @ t" unfolding q_def by (metis rev_append rev_rev_ident takeWhile_dropWhile_id)
  have dot: "Dir p = ''.'' \<Longrightarrow> ?thesis" using assms by (simp add: path_size_def)
  show ?thesis
  proof (cases q rule: rev_cases)
    case Nil
    then show ?thesis using dir dot by (simp add: Clean_def)
  next
    case (snoc a c)
    have "q \<noteq> []" using snoc by simp
    then have "hd (dropWhile (\<lambda>c. c \<noteq> slash) (rev p)) = slash"
      unfolding q_def by (intro hd_dropWhile [of "\<lambda>c. c \<noteq> slash", simplified]) simp
    then have c: "c = slash" using snoc unfolding q_def by (metis hd_rev last_snoc rev_rev_ident)
    show ?thesis
    proof (cases "a = []")
      case True
      then have "Dir p = ''/''" using dir snoc c by (simp add: Clean_def)
      then show ?thesis using assms p snoc c True by (cases t) (auto simp: path_size_def)
    next
      case False
      then have "length p \<ge> Suc (length a)" "p \<noteq> ''.''" using p snoc c by (auto simp: append_eq_Cons_conv)
      then show ?thesis using Clean_slash_shorter [OF False] dir snoc c dot by (auto simp: path_size_def)
    qed
  qed
qed

end
