(* ===== verification/Scratch.thy ===== *)
theory Scratch
  imports Sweep Gitrepo PathSpec
begin

text \<open>
  internal/scratch/scratch.go: the disposable checkout of a build-capable review. As for the
  sweep, the operating system answers each call from the calls so far; the lock is the one of
  Lock, the clone the one of Gitrepo and the sweep the one of Sweep, each on answers of its
  own.
\<close>

section \<open>The host\<close>

datatype hostcall =
    PLstat string "kind res"
  | PEvalSymlinks string
  | PMkdirAll string
  | PMkdir string
  | PLock string bool
  | PRelease string
  | PCreateTemp string
  | PWriteTemp string
  | PCloseTemp string
  | PRemove string
  | PRename string string
  | PSweep string string systrace
  | PRemoveAll string
  | PClone string string

type_synonym hosttrace = "hostcall list"

record host =
  ho_env :: string
  ho_cacheDir :: "string res"
  ho_ctx :: "hosttrace \<Rightarrow> goerror option"
  ho_lstat :: "hosttrace \<Rightarrow> string \<Rightarrow> kind res"
  ho_evalSymlinks :: "hosttrace \<Rightarrow> string \<Rightarrow> string res"
  ho_mkdirAll :: "hosttrace \<Rightarrow> string \<Rightarrow> goerror option"
  ho_mkdir :: "hosttrace \<Rightarrow> string \<Rightarrow> goerror option"
  ho_lock :: "hosttrace \<Rightarrow> LockIO"
  ho_unlock :: "hosttrace \<Rightarrow> goerror option \<times> goerror option"
  ho_createTemp :: "hosttrace \<Rightarrow> string \<Rightarrow> string \<Rightarrow> string res"
  ho_write :: "hosttrace \<Rightarrow> goerror option"
  ho_close :: "hosttrace \<Rightarrow> goerror option"
  ho_rename :: "hosttrace \<Rightarrow> string \<Rightarrow> string \<Rightarrow> goerror option"
  ho_kernel :: "hosttrace \<Rightarrow> kernel"
  ho_now :: "hosttrace \<Rightarrow> time"
  ho_removeAll :: "hosttrace \<Rightarrow> string \<Rightarrow> goerror option"
  ho_git :: "hosttrace \<Rightarrow> gitio"

section \<open>The root\<close>

definition cacheSubdir :: string where
  "cacheSubdir = ''counterpoint/checkouts''"

definition keyHashLen :: nat where
  "keyHashLen = 16"

definition ResolveRoot :: "host \<Rightarrow> string \<Rightarrow> string res" where
  "ResolveRoot h configured =
     (if ho_env h \<noteq> [] then
        (if \<not> IsAbs (ho_env h) then Err (System ''must be an absolute path'') else Ok (ho_env h))
      else if configured \<noteq> [] then
        (if \<not> IsAbs configured then Err (System ''configured checkout directory must be an absolute path'')
         else Ok configured)
      else
        (case ho_cacheDir h of
           Inl e \<Rightarrow> Err (Errorf ''locate user cache dir'' [e])
         | Inr dir \<Rightarrow> Ok (JoinPath [dir, cacheSubdir])))"

text \<open>The walk to the nearest ancestor that exists, keeping the components that are missing.\<close>

function existing_ancestor :: "host \<Rightarrow> string \<Rightarrow> string \<Rightarrow> hosttrace \<Rightarrow> (string \<times> string) res \<times> hosttrace" where
  "existing_ancestor h existing missing tr =
     (let r = ho_lstat h tr existing; tr1 = tr @ [PLstat existing r] in
      case r of
        Inr k \<Rightarrow> (Ok (existing, missing), tr1)
      | Inl e \<Rightarrow>
          (if \<not> errors_Is e (S_std ErrNotExist) then (Err (Errorf ''inspect'' [e]), tr1)
           else if Dir existing = existing then (Err (System ''no existing ancestor for scratch root''), tr1)
           else existing_ancestor h (Dir existing) (JoinPath [Base existing, missing]) tr1))"
  by pat_completeness auto
termination
  by (relation "measure (\<lambda>(h, existing, missing, tr). path_size existing)") (auto simp: Dir_smaller)

declare existing_ancestor.simps [simp del]

definition canonicalRoot :: "host \<Rightarrow> string \<Rightarrow> hosttrace \<Rightarrow> string res \<times> hosttrace" where
  "canonicalRoot h root tr =
     (if \<not> IsAbs root then (Err (System ''scratch root must be absolute''), tr)
      else
        (case existing_ancestor h (Clean root) [] tr of
           (Inl e, tr1) \<Rightarrow> (Err e, tr1)
         | (Inr (existing, missing), tr1) \<Rightarrow>
             (case ho_evalSymlinks h tr1 existing of
                Inl e \<Rightarrow> (Err (Errorf ''resolve scratch root'' [e]), tr1 @ [PEvalSymlinks existing])
              | Inr resolved \<Rightarrow> (Ok (JoinPath [resolved, missing]), tr1 @ [PEvalSymlinks existing]))))"

definition isWithin :: "string \<Rightarrow> string \<Rightarrow> bool" where
  "isWithin path dir \<longleftrightarrow> HasPrefix path (dir @ ''/'')"

definition rejectOverlap :: "string \<Rightarrow> string \<Rightarrow> goerror option" where
  "rejectOverlap root dir =
     (if root = dir \<or> isWithin root dir \<or> isWithin dir root
      then Some (Errorf ''overlap'' [Sentinel (S_scratch ErrRootOverlapsRepository)]) else None)"

definition requireNotSymlink :: "host \<Rightarrow> string \<Rightarrow> hosttrace \<Rightarrow> goerror option \<times> hosttrace" where
  "requireNotSymlink h path tr =
     (let r = ho_lstat h tr path in
      (case r of
         Inl e \<Rightarrow> Some (Errorf ''inspect'' [e])
       | Inr k \<Rightarrow>
           if k = Symlink then Some (Errorf ''symlink'' [Sentinel (S_scratch ErrUnexpectedSymlink)]) else None,
       tr @ [PLstat path r]))"

section \<open>The checkout\<close>

record Checkout =
  co_Dir :: string
  co_CacheDir :: string
  co_TmpDir :: string

text \<open>With the fields the package keeps to itself.\<close>

record OwnedCheckout = Checkout +
  co_workflowDir :: string
  co_hooksDir :: string
  co_lock :: Lock

definition removeOwned :: "host \<Rightarrow> OwnedCheckout \<Rightarrow> string \<Rightarrow> hosttrace \<Rightarrow> goerror option \<times> hosttrace" where
  "removeOwned h co path tr =
     (if Dir path \<noteq> co_workflowDir co then (Some (System ''refusing to remove''), tr)
      else
        (let r = ho_lstat h tr path; tr1 = tr @ [PLstat path r] in
         case r of
           Inl e \<Rightarrow> (if errors_Is e (S_std ErrNotExist) then None else Some (Errorf ''inspect'' [e]), tr1)
         | Inr k \<Rightarrow>
             (if k = Symlink then (Some (Errorf ''symlink'' [Sentinel (S_scratch ErrUnexpectedSymlink)]), tr1)
              else
                (map_option (\<lambda>e. Errorf ''remove'' [e]) (ho_removeAll h tr1 path), tr1 @ [PRemoveAll path]))))"

text \<open>Close goes on after a failure, and collects them all.\<close>

fun remove_all_owned ::
  "host \<Rightarrow> OwnedCheckout \<Rightarrow> string list \<Rightarrow> goerror list \<Rightarrow> hosttrace \<Rightarrow> goerror list \<times> hosttrace"
where
  "remove_all_owned h co [] errs tr = (errs, tr)"
| "remove_all_owned h co (d # ds) errs tr =
     (case removeOwned h co d tr of
        (None, tr1) \<Rightarrow> remove_all_owned h co ds errs tr1
      | (Some e, tr1) \<Rightarrow> remove_all_owned h co ds (errs @ [e]) tr1)"

definition release_lock :: "host \<Rightarrow> Lock \<Rightarrow> hosttrace \<Rightarrow> goerror option \<times> hosttrace" where
  "release_lock h l tr =
     (snd (Release (fst (ho_unlock h tr)) (snd (ho_unlock h tr)) l),
      case l of None \<Rightarrow> tr | Some path \<Rightarrow> tr @ [PRelease path])"

definition Close :: "host \<Rightarrow> OwnedCheckout option \<Rightarrow> hosttrace \<Rightarrow> (goerror option \<times> OwnedCheckout option) \<times> hosttrace" where
  "Close h c tr =
     (case c of
        None \<Rightarrow> ((None, None), tr)
      | Some co \<Rightarrow>
          (let (errs, tr1) = remove_all_owned h co [co_Dir co, co_TmpDir co, co_hooksDir co] [] tr;
               (e, tr2) = release_lock h (co_lock co) tr1;
               errs1 = (case e of None \<Rightarrow> errs | Some e' \<Rightarrow> errs @ [Errorf ''release scratch lock'' [e']]) in
           ((if errs1 = [] then None else Some (Errorf ''join'' errs1), Some (co\<lparr>co_lock := None\<rparr>)), tr2)))"

section \<open>The stamp\<close>

definition stamp :: "host \<Rightarrow> string \<Rightarrow> hosttrace \<Rightarrow> goerror option \<times> hosttrace" where
  "stamp h workflowDir tr =
     (case ho_createTemp h tr workflowDir (usedName @ ''.tmp-*'') of
        Inl e \<Rightarrow> (Some (Errorf ''create stamp'' [e]), tr)
      | Inr tmp \<Rightarrow>
          (let tr1 = tr @ [PCreateTemp tmp]; tr2 = tr1 @ [PWriteTemp tmp]; tr3 = tr2 @ [PCloseTemp tmp] in
           case ho_write h tr1 of
             Some e \<Rightarrow> (Some (Errorf ''write stamp'' [e]), tr3 @ [PRemove tmp])
           | None \<Rightarrow>
               (case ho_close h tr2 of
                  Some e \<Rightarrow> (Some (Errorf ''close stamp'' [e]), tr3 @ [PRemove tmp])
                | None \<Rightarrow>
                    (let used = JoinPath [workflowDir, usedName]; tr4 = tr3 @ [PRename tmp used] in
                     case ho_rename h tr3 tmp used of
                       Some e \<Rightarrow> (Some (Errorf ''rename stamp'' [e]), tr4 @ [PRemove tmp])
                     | None \<Rightarrow> (None, tr4)))))"

section \<open>Prepare\<close>

record Options =
  op_Root :: string
  op_WorkflowKey :: string
  op_Repo :: Repository
  op_Commit :: string
  op_LockWait :: int
  op_hooks :: sweepHooks

text \<open>Where the root really is, that it is clear of the repository, and that it exists.\<close>

definition prepare_root :: "host \<Rightarrow> Options \<Rightarrow> hosttrace \<Rightarrow> string res \<times> hosttrace" where
  "prepare_root h opts tr =
     (case (if op_Root opts = [] then ResolveRoot h [] else Ok (op_Root opts)) of
        Inl e \<Rightarrow> (Err e, tr)
      | Inr root0 \<Rightarrow>
          (case canonicalRoot h root0 tr of
             (Inl e, tr1) \<Rightarrow> (Err e, tr1)
           | (Inr root, tr1) \<Rightarrow>
               (case rejectOverlap root (rp_Worktree (op_Repo opts)) of
                  Some e \<Rightarrow> (Err e, tr1)
                | None \<Rightarrow>
                    (case rejectOverlap root (rp_CommonDir (op_Repo opts)) of
                       Some e \<Rightarrow> (Err e, tr1)
                     | None \<Rightarrow>
                         (case ho_mkdirAll h tr1 root of
                            Some e \<Rightarrow> (Err (Errorf ''create scratch root'' [e]), tr1 @ [PMkdirAll root])
                          | None \<Rightarrow> (Ok root, tr1 @ [PMkdirAll root]))))))"

definition workflow_dir :: "string \<Rightarrow> string \<Rightarrow> string" where
  "workflow_dir root key = JoinPath [root, take keyHashLen (hex_digest key)]"

text \<open>The name of a workflow directory is made of hexadecimal digits.\<close>

lemma hex_digest_lower: "set (hex_digest s) \<subseteq> Collect is_lower_hex"
proof -
  have "list_all (\<lambda>d. is_lower_hex (digit_char d)) [0 ..< 16]" by code_simp
  then have digit: "is_lower_hex (digit_char d)" if "d < 16" for d using that unfolding list_all_iff set_upt by simp
  have "is_lower_hex (digit_char (of_char c div 16)) \<and> is_lower_hex (digit_char (of_char c mod 16))" for c
    using nat_of_char_less_256 [of c] by (intro conjI digit) (simp_all add: less_mult_imp_div_less)
  then show ?thesis by (auto simp: hex_digest_def EncodeToString_def)
qed

lemma workflow_name_plain: "plain_name (take keyHashLen (hex_digest key))"
proof -
  have digit: "is_lower_hex c" if "c \<in> set (take keyHashLen (hex_digest key))" for c
    using that hex_digest_lower [of key] by (auto dest: in_set_takeD)
  have "\<not> is_lower_hex slash" "\<not> is_lower_hex (CHR ''.'')" by code_simp+
  then have "slash \<notin> set (take keyHashLen (hex_digest key))" "CHR ''.'' \<notin> set (take keyHashLen (hex_digest key))"
    using digit by blast+
  moreover have "take keyHashLen (hex_digest key) \<noteq> []" by (simp add: keyHashLen_def)
  ultimately show ?thesis by (auto simp: plain_name_def)
qed

definition prepare_workflow :: "host \<Rightarrow> string \<Rightarrow> hosttrace \<Rightarrow> goerror option \<times> hosttrace" where
  "prepare_workflow h workflowDir tr =
     (case ho_mkdirAll h tr workflowDir of
        Some e \<Rightarrow> (Some (Errorf ''create workflow scratch dir'' [e]), tr @ [PMkdirAll workflowDir])
      | None \<Rightarrow> requireNotSymlink h workflowDir (tr @ [PMkdirAll workflowDir]))"

text \<open>Replacing leftovers stops at the first failure.\<close>

fun replace_leftovers :: "host \<Rightarrow> OwnedCheckout \<Rightarrow> string list \<Rightarrow> hosttrace \<Rightarrow> goerror option \<times> hosttrace" where
  "replace_leftovers h co [] tr = (None, tr)"
| "replace_leftovers h co (d # ds) tr =
     (case removeOwned h co d tr of
        (Some e, tr1) \<Rightarrow> (Some e, tr1)
      | (None, tr1) \<Rightarrow> replace_leftovers h co ds tr1)"

definition fill_checkout :: "host \<Rightarrow> Options \<Rightarrow> OwnedCheckout \<Rightarrow> hosttrace \<Rightarrow> goerror option \<times> hosttrace" where
  "fill_checkout h opts co tr =
     (case replace_leftovers h co [co_Dir co, co_hooksDir co, co_TmpDir co] tr of
        (Some e, tr1) \<Rightarrow> (Some e, tr1)
      | (None, tr1) \<Rightarrow>
          (let tr2 = tr1 @ [PMkdir (co_hooksDir co)] in
           case ho_mkdir h tr1 (co_hooksDir co) of
             Some e \<Rightarrow> (Some (Errorf ''create hooks dir'' [e]), tr2)
           | None \<Rightarrow>
               (let tr3 = tr2 @ [PMkdir (co_TmpDir co)] in
                case ho_mkdir h tr2 (co_TmpDir co) of
                  Some e \<Rightarrow> (Some (Errorf ''create temp dir'' [e]), tr3)
                | None \<Rightarrow>
                    (let tr4 = tr3 @ [PMkdirAll (co_CacheDir co)] in
                     case ho_mkdirAll h tr3 (co_CacheDir co) of
                       Some e \<Rightarrow> (Some (Errorf ''create cache dir'' [e]), tr4)
                     | None \<Rightarrow>
                         (case requireNotSymlink h (co_CacheDir co) tr4 of
                            (Some e, tr5) \<Rightarrow> (Some e, tr5)
                          | (None, tr5) \<Rightarrow>
                              (CloneDetached (ho_git h tr5) (op_Repo opts) (co_Dir co) (op_Commit opts) (co_hooksDir co),
                               tr5 @ [PClone (co_Dir co) (op_Commit opts)]))))))"

definition new_checkout :: "string \<Rightarrow> Lock \<Rightarrow> OwnedCheckout" where
  "new_checkout workflowDir lock =
     \<lparr>co_Dir = JoinPath [workflowDir, checkoutName], co_CacheDir = JoinPath [workflowDir, cacheName],
      co_TmpDir = JoinPath [workflowDir, tmpName], co_workflowDir = workflowDir,
      co_hooksDir = JoinPath [workflowDir, hooksName], co_lock = lock\<rparr>"

text \<open>
  Once the workflow directory is locked; None is a sweep that does not return. A failure while
  the checkout is being filled returns nil, which sets the named result co before the deferred
  function runs, so the Close there is the one of a nil checkout.
\<close>

definition prepare_locked ::
  "host \<Rightarrow> Options \<Rightarrow> string \<Rightarrow> string \<Rightarrow> Lock \<Rightarrow> hosttrace \<Rightarrow> (OwnedCheckout res \<times> hosttrace) option"
where
  "prepare_locked h opts root workflowDir lock tr =
     (case stamp h workflowDir tr of
        (Some e, tr1) \<Rightarrow> Some (Err e, snd (release_lock h lock tr1))
      | (None, tr1) \<Rightarrow>
          Option.bind (sweep (ho_kernel h tr1) (op_hooks opts) (Base workflowDir) (ho_now h tr1) [])
            (\<lambda>(swept, calls).
               let tr2 = tr1 @ [PSweep root (Base workflowDir) calls] in
               case ho_ctx h tr2 of
                 Some e \<Rightarrow> Some (Err (Errorf ''scratch'' [e]), snd (release_lock h lock tr2))
               | None \<Rightarrow>
                   (let co = new_checkout workflowDir lock in
                    case fill_checkout h opts co tr2 of
                      (Some e, tr3) \<Rightarrow> Some (Err e, snd (Close h None tr3))
                    | (None, tr3) \<Rightarrow> Some (Ok co, tr3))))"

definition Prepare :: "host \<Rightarrow> Options \<Rightarrow> hosttrace \<Rightarrow> (OwnedCheckout res \<times> hosttrace) option" where
  "Prepare h opts tr =
     (case prepare_root h opts tr of
        (Inl e, tr1) \<Rightarrow> Some (Err e, tr1)
      | (Inr root, tr1) \<Rightarrow>
          (let workflowDir = workflow_dir root (op_WorkflowKey opts);
               path = JoinPath [workflowDir, lockName];
               wait = (if op_LockWait opts = 0 then LockWait else op_LockWait opts) in
           case prepare_workflow h workflowDir tr1 of
             (Some e, tr2) \<Rightarrow> Some (Err e, tr2)
           | (None, tr2) \<Rightarrow>
               Option.bind (AcquireLock (ho_lock h tr2) path wait)
                 (\<lambda>(l, calls).
                    case l of
                      Inl e \<Rightarrow> Some (Err (Errorf ''scratch'' [e]), tr2 @ [PLock path False])
                    | Inr lock \<Rightarrow> prepare_locked h opts root workflowDir lock (tr2 @ [PLock path True]))))"

text \<open>The file checks nothing of its own; it asks git in the checkout.\<close>

definition Checkout_ModifiedTrackedFiles :: "gitio \<Rightarrow> OwnedCheckout \<Rightarrow> int \<times> goerror option" where
  "Checkout_ModifiedTrackedFiles io c = ModifiedTrackedFiles io (co_Dir c)"

end
