(* ===== verification/SweepSpec.thy ===== *)
theory SweepSpec
  imports Sweep
begin

text \<open>
  What the sweep may do, over every kernel and whatever other processes do meanwhile: which
  entries and items it touches and why, that every operation is relative to a descriptor that
  is open and every change is made under the entry's lock, that everything is given back, and
  that it ends.
\<close>

section \<open>What allows a call\<close>

definition is_workflow_entry :: "string \<Rightarrow> string \<Rightarrow> bool" where
  "is_workflow_entry exclude entry \<longleftrightarrow> entry \<noteq> exclude \<and> workflowNamePattern entry"

text \<open>The entry's lock was granted and has not been released; Q reads the calls since.\<close>

definition under_lock :: "fd \<Rightarrow> (systrace \<Rightarrow> bool) \<Rightarrow> systrace \<Rightarrow> bool" where
  "under_lock fd Q tr \<longleftrightarrow> (\<exists>a b. tr = a @ XFlock fd True # b \<and> XRelease fd \<notin> set b \<and> Q b)"

text \<open>The last use that the calls at the head of a trace read.\<close>

fun read_back :: "systrace \<Rightarrow> time" where
  "read_back (XList fd l # XStat fd1 n1 used # cs) =
     (if is_kind Regular used then mtime_of used
      else (case cs of XStat fd2 n2 cache # cs' \<Rightarrow> if is_kind Directory cache then mtime_of cache else 0 | _ \<Rightarrow> 0))"
| "read_back cs = 0"

text \<open>Every directory on the way, from the first below the entry, is on the entry's device.\<close>

definition on_device :: "sweepHooks \<Rightarrow> stat \<Rightarrow> fd \<Rightarrow> systrace \<Rightarrow> bool" where
  "on_device hooks base fd tr \<longleftrightarrow>
     (\<forall>p q. fd = p @ q \<and> 1 < length p \<longrightarrow>
        (\<exists>st. XFstat p (Ok st) \<in> set tr \<and> st_kind st = Directory \<and> same_device hooks base st))"

definition in_trash :: "sweepHooks \<Rightarrow> string \<Rightarrow> stat \<Rightarrow> fd \<Rightarrow> string \<Rightarrow> systrace \<Rightarrow> bool" where
  "in_trash hooks exclude base fd n tr \<longleftrightarrow>
     (\<exists>entry sub. fd = entry # sub \<and> is_workflow_entry exclude entry \<and> HasPrefix (hd (sub @ [n])) trashPrefix \<and>
        under_lock [entry] (\<lambda>b. True) tr \<and> XFstat [entry] (Ok base) \<in> set tr \<and> on_device hooks base fd tr)"

definition may_move :: "string \<Rightarrow> time \<Rightarrow> fd \<Rightarrow> string \<Rightarrow> string \<Rightarrow> systrace \<Rightarrow> bool" where
  "may_move exclude now fd item trash tr \<longleftrightarrow>
     (\<exists>entry. fd = [entry] \<and> is_workflow_entry exclude entry) \<and> item \<in> set sweep_items \<and> HasPrefix trash trashPrefix \<and>
     under_lock fd (\<lambda>b. stale now (read_back b) \<and>
       (\<exists>st b'. b = b' @ [XStat fd item (Ok st)] \<and> st_kind st \<noteq> Symlink)) tr"

fun sweep_allowed :: "sweepHooks \<Rightarrow> string \<Rightarrow> time \<Rightarrow> systrace \<Rightarrow> syscall \<Rightarrow> bool" where
  "sweep_allowed hooks exclude now tr (XRename fd item trash) \<longleftrightarrow> may_move exclude now fd item trash tr"
| "sweep_allowed hooks exclude now tr (XUnlink fd n) \<longleftrightarrow> (\<exists>base. in_trash hooks exclude base fd n tr)"
| "sweep_allowed hooks exclude now tr (XRmdir fd n) \<longleftrightarrow> (\<exists>base. in_trash hooks exclude base fd n tr)"
| "sweep_allowed hooks exclude now tr c \<longleftrightarrow> True"

text \<open>The same, with no lock released.\<close>

definition inside :: "sweepHooks \<Rightarrow> string \<Rightarrow> time \<Rightarrow> systrace \<Rightarrow> syscall \<Rightarrow> bool" where
  "inside hooks exclude now tr c \<longleftrightarrow> sweep_allowed hooks exclude now tr c \<and> (\<forall>fd. c \<noteq> XRelease fd)"

lemma inside_released: "all_calls (inside hooks exclude now) tr cs \<Longrightarrow> XRelease fd \<notin> set cs"
  by (induction cs arbitrary: tr) (auto simp: inside_def)

lemma inside_allowed: "justified (inside hooks exclude now) tr tr' \<Longrightarrow> justified (sweep_allowed hooks exclude now) tr tr'"
  by (erule justified_mono [rotated]) (simp add: inside_def)

lemma under_lock_inside:
  assumes "under_lock fd (\<lambda>b. True) tr" and "justified (inside hooks exclude now) tr tr'"
  shows "under_lock fd (\<lambda>b. True) tr'"
proof -
  obtain cs where "tr' = tr @ cs" "XRelease fd \<notin> set cs"
    using assms(2) inside_released unfolding justified_def by blast
  then show ?thesis using assms(1) unfolding under_lock_def by fastforce
qed

lemma on_device_grows: "on_device hooks base fd tr \<Longrightarrow> on_device hooks base fd (tr @ cs)"
  unfolding on_device_def by fastforce

lemma in_trash_inside:
  assumes "in_trash hooks exclude base fd n tr" and "justified (inside hooks exclude now) tr tr'"
  shows "in_trash hooks exclude base fd n tr'"
proof -
  obtain cs where "tr' = tr @ cs" using justified_grows [OF assms(2)] by blast
  then show ?thesis
    using assms under_lock_inside [OF _ assms(2)] on_device_grows unfolding in_trash_def by auto
qed

lemma quiet_call: "inside hooks exclude now tr c" if "c \<notin> range XRelease" "\<forall>fd n. c \<noteq> XUnlink fd n \<and> c \<noteq> XRmdir fd n"
    "\<forall>fd i t. c \<noteq> XRename fd i t"
  using that by (cases c) (auto simp: inside_def)

lemma inside_simps [simp]:
  "inside hooks exclude now tr (XOpen fd b)" "inside hooks exclude now tr (XClose fd)"
  "inside hooks exclude now tr (XFstat fd r)" "inside hooks exclude now tr (XStat fd n r)"
  "inside hooks exclude now tr (XList fd l)"
  "inside hooks exclude now tr (XUnlink fd n) \<longleftrightarrow> (\<exists>base. in_trash hooks exclude base fd n tr)"
  "inside hooks exclude now tr (XRmdir fd n) \<longleftrightarrow> (\<exists>base. in_trash hooks exclude base fd n tr)"
  "inside hooks exclude now tr (XRename fd i t) \<longleftrightarrow> may_move exclude now fd i t tr"
  by (simp_all add: inside_def)

section \<open>Removing trash\<close>

lemma unlink_entry_calls: "\<exists>r. unlink_entry ke parent name tr = (Returned r, tr @ [XUnlink parent name])"
  by (auto simp: unlink_entry_def split: option.split)

lemma enter_dir_inside:
  assumes "in_trash hooks exclude base parent name tr" and "enter_dir ke hooks base parent name tr = (v, tr')"
  shows "justified (inside hooks exclude now) tr tr'"
proof -
  let ?J = "inside hooks exclude now" and ?s = "XStat parent name (ke_stat ke tr parent name)"
    and ?o = "XOpen (parent @ [name]) False"
  have stays: "in_trash hooks exclude base parent name (tr @ cs)" if "all_calls ?J tr cs" for cs
    using in_trash_inside [OF assms(1)] justified_calls [OF that] by blast
  have "all_calls ?J tr [?s]" "all_calls ?J tr [?s, ?o]" by simp_all
  from this [THEN stays] have un: "?J (tr @ [?s]) (XUnlink parent name)" "?J (tr @ [?s, ?o]) (XUnlink parent name)"
    by auto
  obtain r1 r2 where "unlink_entry ke parent name (tr @ [?s]) = (Returned r1, tr @ [?s, XUnlink parent name])"
    "unlink_entry ke parent name (tr @ [?s, ?o]) = (Returned r2, tr @ [?s, ?o, XUnlink parent name])"
    using unlink_entry_calls [of ke parent name "tr @ [?s]"] unlink_entry_calls [of ke parent name "tr @ [?s, ?o]"] by auto
  then show ?thesis using assms(2) un
    by (auto simp: enter_dir_def stat_call_def listNames_def Let_def
        split: option.splits sum.splits if_splits intro!: justified_calls simp del: inside_simps(6))
qed

lemma enter_dir_entered:
  assumes "enter_dir ke hooks base parent name tr = (Entered children, tr')"
  obtains st l where "tr' = tr @ [XStat parent name (ke_stat ke tr parent name), XOpen (parent @ [name]) True,
      XFstat (parent @ [name]) (Ok st), l]"
    "l = XList (parent @ [name]) (Ok children)" "st_kind st = Directory" "same_device hooks base st"
    "ke_open ke (tr @ [XStat parent name (ke_stat ke tr parent name)]) (parent @ [name]) = None"
  using assms
  by (auto simp: enter_dir_def unlink_entry_def stat_call_def listNames_def Let_def
      split: option.splits sum.splits if_splits)

lemma in_trash_below:
  assumes "in_trash hooks exclude base parent name tr" and "st_kind st = Directory" and "same_device hooks base st"
    and "all_calls (inside hooks exclude now) tr cs" and "XFstat (parent @ [name]) (Ok st) \<in> set cs"
  shows "in_trash hooks exclude base (parent @ [name]) child (tr @ cs)"
proof -
  have "in_trash hooks exclude base parent name (tr @ cs)"
    using in_trash_inside [OF assms(1)] justified_calls [OF assms(4)] by blast
  then obtain entry sub where e: "parent = entry # sub" "is_workflow_entry exclude entry"
    "HasPrefix (hd (sub @ [name])) trashPrefix" "under_lock [entry] (\<lambda>b. True) (tr @ cs)"
    "XFstat [entry] (Ok base) \<in> set (tr @ cs)" "on_device hooks base parent (tr @ cs)"
    unfolding in_trash_def by blast
  have "on_device hooks base (parent @ [name]) (tr @ cs)"
    unfolding on_device_def
  proof (intro allI impI)
    fix p q assume pq: "parent @ [name] = p @ q \<and> 1 < length p"
    show "\<exists>st. XFstat p (Ok st) \<in> set (tr @ cs) \<and> st_kind st = Directory \<and> same_device hooks base st"
    proof (cases q rule: rev_cases)
      case Nil
      then show ?thesis using pq assms(2,3,5) by auto
    next
      case (snoc q' c)
      then show ?thesis using pq e(6) unfolding on_device_def by auto
    qed
  qed
  moreover have "hd ((sub @ [name]) @ [child]) = hd (sub @ [name])" by (cases sub) simp_all
  ultimately show ?thesis using e unfolding in_trash_def by auto
qed

lemma leave_dir_calls: "\<exists>r. leave_dir ke parent name tr = (r, tr @ [XClose (parent @ [name]), XRmdir parent name])"
  by (auto simp: leave_dir_def Let_def split: option.split)

lemma leave_dir_inside:
  assumes "in_trash hooks exclude base parent name tr" and "justified (inside hooks exclude now) tr tr2"
    and "leave_dir ke parent name tr2 = (r, tr3)"
  shows "justified (inside hooks exclude now) tr tr3"
proof -
  let ?c = "XClose (parent @ [name])"
  have step: "justified (inside hooks exclude now) tr (tr2 @ [?c])" using assms(2) by (rule justified_snoc) simp
  have "inside hooks exclude now (tr2 @ [?c]) (XRmdir parent name)"
    using in_trash_inside [OF assms(1) step] by auto
  from justified_snoc [OF step this] show ?thesis using assms(3) leave_dir_calls [of ke parent name tr2] by auto
qed

text \<open>The walk of removeTree as a relation, for induction on its rules.\<close>

inductive walk :: "kernel \<Rightarrow> sweepHooks \<Rightarrow> stat \<Rightarrow> fd \<Rightarrow> string list \<Rightarrow> systrace \<Rightarrow> goerror option \<Rightarrow> systrace \<Rightarrow> bool"
  for ke hooks base where
  finished: "walk ke hooks base parent [] tr None tr"
| stopped: "enter_dir ke hooks base parent name tr = (Returned (Some e), tr1) \<Longrightarrow>
    walk ke hooks base parent (name # rest) tr (Some e) tr1"
| skipped: "enter_dir ke hooks base parent name tr = (Returned None, tr1) \<Longrightarrow>
    walk ke hooks base parent rest tr1 r tr' \<Longrightarrow> walk ke hooks base parent (name # rest) tr r tr'"
| child_failed: "enter_dir ke hooks base parent name tr = (Entered children, tr1) \<Longrightarrow>
    walk ke hooks base (parent @ [name]) children tr1 (Some e) tr2 \<Longrightarrow>
    walk ke hooks base parent (name # rest) tr (Some e) (tr2 @ [XClose (parent @ [name])])"
| not_removed: "enter_dir ke hooks base parent name tr = (Entered children, tr1) \<Longrightarrow>
    walk ke hooks base (parent @ [name]) children tr1 None tr2 \<Longrightarrow> leave_dir ke parent name tr2 = (Some e, tr3) \<Longrightarrow>
    walk ke hooks base parent (name # rest) tr (Some e) tr3"
| removed: "enter_dir ke hooks base parent name tr = (Entered children, tr1) \<Longrightarrow>
    walk ke hooks base (parent @ [name]) children tr1 None tr2 \<Longrightarrow> leave_dir ke parent name tr2 = (None, tr3) \<Longrightarrow>
    walk ke hooks base parent rest tr3 r tr' \<Longrightarrow> walk ke hooks base parent (name # rest) tr r tr'"

lemma removeTrees_walk:
  assumes "removeTrees ke hooks base parent names tr = Some (r, tr')"
  shows "walk ke hooks base parent names tr r tr'"
proof -
  have "walk ke hooks base parent names tr (fst (r, tr')) (snd (r, tr'))"
  proof (rule removeTrees.raw_induct
      [where P = "\<lambda>k h b p ns t y. walk k h b p ns t (fst y) (snd y)", OF _ assms])
    fix rec k h b p ns t y
    assume IH: "\<And>k h b p ns t y. rec k h b p ns t = Some y \<Longrightarrow> walk k h b p ns t (fst y) (snd y)"
      and body: "(case ns of
        [] \<Rightarrow> Some (None, t)
      | name # rest \<Rightarrow>
          (case enter_dir k h b p name t of
             (Returned (Some e), tr1) \<Rightarrow> Some (Some e, tr1)
           | (Returned None, tr1) \<Rightarrow> rec k h b p rest tr1
           | (Entered children, tr1) \<Rightarrow>
               Option.bind (rec k h b (p @ [name]) children tr1)
                 (\<lambda>(r, tr2).
                    case r of
                      Some e \<Rightarrow> Some (Some e, tr2 @ [XClose (p @ [name])])
                    | None \<Rightarrow>
                        (case leave_dir k p name tr2 of
                           (Some e, tr3) \<Rightarrow> Some (Some e, tr3)
                         | (None, tr3) \<Rightarrow> rec k h b p rest tr3)))) = Some y"
    show "walk k h b p ns t (fst y) (snd y)"
    proof (cases ns)
      case (Cons name rest)
      obtain v tr1 where enter: "enter_dir k h b p name t = (v, tr1)" by fastforce
      show ?thesis
      proof (cases v)
        case (Returned q)
        then show ?thesis using body Cons enter by (cases q) (auto intro: walk.intros dest: IH)
      next
        case (Entered children)
        then obtain q tr2 where sub: "rec k h b (p @ [name]) children tr1 = Some (q, tr2)"
          using body Cons enter by (cases "rec k h b (p @ [name]) children tr1") auto
        have below: "walk k h b (p @ [name]) children tr1 q tr2" using IH [OF sub] by simp
        obtain l tr3 where "leave_dir k p name tr2 = (l, tr3)" by fastforce
        then show ?thesis using body Cons enter Entered sub below
          by (cases q; cases l) (auto intro: walk.intros dest: IH)
      qed
    qed (use body in \<open>auto intro: walk.finished\<close>)
  qed
  then show ?thesis by simp
qed

lemma below_inside:
  assumes "in_trash hooks exclude base parent name tr" and "enter_dir ke hooks base parent name tr = (Entered children, tr1)"
    and "\<forall>n \<in> set children. in_trash hooks exclude base (parent @ [name]) n tr1 \<Longrightarrow> justified (inside hooks exclude now) tr1 tr2"
  shows "justified (inside hooks exclude now) tr tr2"
proof -
  have "in_trash hooks exclude base (parent @ [name]) n tr1" for n
    using assms(2) by (rule enter_dir_entered) (auto intro!: in_trash_below [OF assms(1)])
  then show ?thesis using justified_trans [OF enter_dir_inside [OF assms(1,2)]] assms(3) by blast
qed

lemma walk_inside:
  "walk ke hooks base parent names tr r tr' \<Longrightarrow> \<forall>n \<in> set names. in_trash hooks exclude base parent n tr \<Longrightarrow>
   justified (inside hooks exclude now) tr tr'"
proof (induction rule: walk.induct)
  case (stopped parent name tr e tr1 rest)
  then show ?case using enter_dir_inside by auto
next
  case (skipped parent name tr tr1 rest r tr')
  have step: "justified (inside hooks exclude now) tr tr1" using enter_dir_inside skipped.hyps(1) skipped.prems by auto
  then have "\<forall>n \<in> set rest. in_trash hooks exclude base parent n tr1" using in_trash_inside skipped.prems by auto
  from justified_trans [OF step skipped.IH [OF this]] show ?case .
next
  case (child_failed parent name tr children tr1 e tr2 rest)
  have "justified (inside hooks exclude now) tr tr2"
    by (rule below_inside [OF _ child_failed.hyps(1)]) (use child_failed in auto)
  then show ?case by (rule justified_snoc) simp
next
  case (not_removed parent name tr children tr1 tr2 e tr3 rest)
  have "justified (inside hooks exclude now) tr tr2"
    by (rule below_inside [OF _ not_removed.hyps(1)]) (use not_removed in auto)
  then show ?case using leave_dir_inside not_removed by auto
next
  case (removed parent name tr children tr1 tr2 tr3 rest r tr')
  have "justified (inside hooks exclude now) tr tr2"
    by (rule below_inside [OF _ removed.hyps(1)]) (use removed in auto)
  then have step: "justified (inside hooks exclude now) tr tr3" using leave_dir_inside removed by auto
  then have "\<forall>n \<in> set rest. in_trash hooks exclude base parent n tr3" using in_trash_inside removed.prems by auto
  from justified_trans [OF step removed.IH(2) [OF this]] show ?case .
qed simp

section \<open>An entry\<close>

lemma removeTree_inside:
  assumes "removeTree ke hooks base fd n tr = Some (r, tr')" and "in_trash hooks exclude base fd n tr"
  shows "justified (inside hooks exclude now) tr tr'"
  using walk_inside removeTrees_walk assms unfolding removeTree_def by fastforce

text \<open>The entry is locked and was judged stale under the lock.\<close>

definition judged :: "time \<Rightarrow> fd \<Rightarrow> systrace \<Rightarrow> bool" where
  "judged now fd tr \<longleftrightarrow> under_lock fd (\<lambda>b. \<forall>more. stale now (read_back (b @ more))) tr"

lemma judged_inside:
  assumes "judged now fd tr" and "justified (inside hooks exclude now) tr tr'"
  shows "judged now fd tr'"
proof -
  obtain cs where "tr' = tr @ cs" "XRelease fd \<notin> set cs"
    using assms(2) inside_released unfolding justified_def by blast
  moreover obtain a b where "tr = a @ XFlock fd True # b" "XRelease fd \<notin> set b" "\<forall>more. stale now (read_back (b @ more))"
    using assms(1) unfolding judged_def under_lock_def by blast
  ultimately have "tr' = a @ XFlock fd True # (b @ cs)" "XRelease fd \<notin> set (b @ cs)"
    "\<forall>more. stale now (read_back ((b @ cs) @ more))" by simp_all
  then show ?thesis unfolding judged_def under_lock_def by blast
qed

lemma judged_may_move:
  assumes "judged now [entry] tr" and "is_workflow_entry exclude entry" and "item \<in> set sweep_items"
    and "st_kind st \<noteq> Symlink"
  shows "may_move exclude now [entry] item (trashPrefix @ suff) (tr @ [XStat [entry] item (Ok st)])"
proof -
  let ?c = "XStat [entry] item (Ok st)"
  obtain a b where "tr = a @ XFlock [entry] True # b" "XRelease [entry] \<notin> set b" "\<forall>more. stale now (read_back (b @ more))"
    using assms(1) unfolding judged_def under_lock_def by blast
  then have "tr @ [?c] = a @ XFlock [entry] True # (b @ [?c])" "XRelease [entry] \<notin> set (b @ [?c])"
    "stale now (read_back (b @ [?c]))" by simp_all
  then have "under_lock [entry] (\<lambda>b. stale now (read_back b) \<and>
      (\<exists>st b'. b = b' @ [XStat [entry] item (Ok st)] \<and> st_kind st \<noteq> Symlink)) (tr @ [XStat [entry] item (Ok st)])"
    using assms(4) unfolding under_lock_def by blast
  then show ?thesis using assms(2,3) by (simp add: may_move_def)
qed

lemma move_items_inside:
  assumes "is_workflow_entry exclude entry" and "set items \<subseteq> set sweep_items" and "judged now [entry] tr"
    and "move_items ke [entry] items moved tr = (r, tr')"
  shows "justified (inside hooks exclude now) tr tr'"
  using assms(2-4)
proof (induction items arbitrary: moved tr)
  case (Cons item items)
  let ?J = "inside hooks exclude now" and ?r = "ke_stat ke tr [entry] item"
  let ?tr1 = "tr @ [XStat [entry] item ?r]"
  have one: "justified ?J tr ?tr1" by (rule justified_calls) simp
  show ?case
  proof (cases "\<exists>st. ?r = Ok st \<and> st_kind st \<noteq> Symlink")
    case True
    let ?trash = "trashPrefix @ randomSuffix ke ?tr1"
    obtain m where rest: "move_items ke [entry] items m (?tr1 @ [XRename [entry] item ?trash]) = (r, tr')"
      using True Cons.prems(3) by (auto simp: stat_call_def Let_def split: option.splits)
    have "?J ?tr1 (XRename [entry] item ?trash)"
      using judged_may_move [OF Cons.prems(2) assms(1)] True Cons.prems(1) by auto
    from justified_snoc [OF one this] have two: "justified ?J tr (?tr1 @ [XRename [entry] item ?trash])" .
    have "justified ?J (?tr1 @ [XRename [entry] item ?trash]) tr'"
      by (rule Cons.IH [OF _ judged_inside [OF Cons.prems(2) two] rest]) (use Cons.prems(1) in simp)
    from justified_trans [OF two this] show ?thesis .
  next
    case False
    then have rest: "move_items ke [entry] items moved ?tr1 = (r, tr')"
      using Cons.prems(3) by (auto simp: stat_call_def Let_def split: sum.splits if_splits)
    have "justified ?J ?tr1 tr'"
      by (rule Cons.IH [OF _ judged_inside [OF Cons.prems(2) one] rest]) (use Cons.prems(1) in simp)
    from justified_trans [OF one this] show ?thesis .
  qed
qed simp

lemma remove_trash_inside:
  assumes "is_workflow_entry exclude entry" and "under_lock [entry] (\<lambda>b. True) tr" and "XFstat [entry] (Ok base) \<in> set tr"
    and "remove_trash ke hooks base [entry] names errs tr = Some (r, tr')"
  shows "justified (inside hooks exclude now) tr tr'"
  using assms(2-4)
proof (induction names arbitrary: errs tr)
  case (Cons n ns)
  let ?J = "inside hooks exclude now"
  show ?case
  proof (cases "HasPrefix n trashPrefix")
    case True
    then have "in_trash hooks exclude base [entry] n tr"
      using assms(1) Cons.prems(1,2) by (auto simp: in_trash_def on_device_def Cons_eq_append_conv)
    moreover obtain q tr1 where tree: "removeTree ke hooks base [entry] n tr = Some (q, tr1)"
      and rest: "tr' = tr1 \<or> (\<exists>es. remove_trash ke hooks base [entry] ns es tr1 = Some (r, tr'))"
      using Cons.prems(3) True
      by (cases "removeTree ke hooks base [entry] n tr") (auto split: option.splits if_splits intro: that)
    ultimately have one: "justified ?J tr tr1" using removeTree_inside by blast
    have "under_lock [entry] (\<lambda>b. True) tr1" "XFstat [entry] (Ok base) \<in> set tr1"
      using under_lock_inside [OF Cons.prems(1) one] Cons.prems(2) justified_grows [OF one] by auto
    then have "justified ?J tr1 tr'" using rest Cons.IH by auto
    from justified_trans [OF one this] show ?thesis .
  next
    case False
    then show ?thesis using Cons by simp
  qed
qed simp

lemma readEntry_calls:
  assumes "readEntry ke fd tr = (r, tr')"
  obtains b where "tr' = tr @ b" "all_calls (inside hooks exclude now) tr b"
    "\<forall>st more. r = Ok st \<longrightarrow> read_back (b @ more) = es_lastUse st"
  using assms
  by (auto simp: readEntry_def listNames_def stat_call_def Let_def split: sum.splits if_splits prod.splits)

lemma sweep_locked_inside:
  assumes "is_workflow_entry exclude entry" and "XFstat [entry] (Ok base) \<in> set tr"
    and "sweep_locked ke hooks now base [entry] (tr @ [XFlock [entry] True]) = Some (r, tr')"
  shows "justified (inside hooks exclude now) (tr @ [XFlock [entry] True]) tr'"
proof -
  let ?J = "inside hooks exclude now" and ?tr = "tr @ [XFlock [entry] True]"
  obtain q tr1 where read: "readEntry ke [entry] ?tr = (q, tr1)" by fastforce
  then obtain b where b: "tr1 = ?tr @ b" "all_calls ?J ?tr b" "\<forall>st more. q = Ok st \<longrightarrow> read_back (b @ more) = es_lastUse st"
    by (rule readEntry_calls [where hooks = hooks and exclude = exclude and now = now])
  have one: "justified ?J ?tr tr1" using b(1,2) justified_calls by blast
  show ?thesis
  proof (cases q)
    case (Inl e)
    then show ?thesis using assms(3) read one by (simp add: sweep_locked_def)
  next
    case (Inr st)
    obtain moved tr2 where mv: "(if stale now (es_lastUse st) then move_items ke [entry] sweep_items False tr1 else (False, tr1)) = (moved, tr2)"
      by fastforce
    have two: "justified ?J tr1 tr2"
    proof (cases "stale now (es_lastUse st)")
      case True
      have "judged now [entry] tr1"
        unfolding judged_def under_lock_def
      proof (intro exI conjI)
        show "tr1 = tr @ XFlock [entry] True # b" using b(1) by simp
        show "XRelease [entry] \<notin> set b" using inside_released [OF b(2)] .
        show "\<forall>more. stale now (read_back (b @ more))" using b(3) Inr True by simp
      qed
      then show ?thesis
        by (rule move_items_inside [OF assms(1) subset_refl]) (use mv True in simp)
    next
      case False
      then show ?thesis using mv by simp
    qed
    let ?l = "XList [entry] (ke_list ke tr2 [entry])"
    have three: "justified ?J ?tr (tr2 @ [?l])"
      using justified_trans [OF one two] by (rule justified_snoc) simp
    have lock: "under_lock [entry] (\<lambda>b. True) ?tr"
      unfolding under_lock_def by (intro exI [of _ tr] exI [of _ "[]"]) simp
    have "under_lock [entry] (\<lambda>b. True) (tr2 @ [?l])" "XFstat [entry] (Ok base) \<in> set (tr2 @ [?l])"
      using under_lock_inside [OF lock three] assms(2) justified_grows [OF justified_trans [OF one two]] by auto
    then have "justified ?J (tr2 @ [?l]) tr'" if "remove_trash ke hooks base [entry] names [] (tr2 @ [?l]) = Some (z, tr')" for names z
      using remove_trash_inside [OF assms(1)] that by blast
    then have "tr' = tr2 @ [?l] \<or> justified ?J (tr2 @ [?l]) tr'"
      using assms(3) read Inr mv by (auto simp: sweep_locked_def listNames_def Let_def split: sum.splits)
    then show ?thesis using three justified_trans by metis
  qed
qed

text \<open>The calls before the lock change nothing.\<close>

lemma sweep_allowed_simps [simp]:
  "sweep_allowed hooks exclude now tr (XOpen fd b)" "sweep_allowed hooks exclude now tr (XClose fd)"
  "sweep_allowed hooks exclude now tr (XRelease fd)" "sweep_allowed hooks exclude now tr (XFlock fd b)"
  by simp_all

lemma lock_entry_allowed:
  assumes "is_workflow_entry exclude entry" and "XFstat [entry] (Ok base) \<in> set tr"
    and "lock_entry ke hooks now base lockSt [entry] tr = Some (r, tr')"
  shows "justified (sweep_allowed hooks exclude now) tr tr'"
proof -
  let ?J = "sweep_allowed hooks exclude now"
  let ?cs = "[XOpenLock [entry] True, XFstatLock [entry] (ke_fstatlock ke (tr @ [XOpenLock [entry] True]) [entry])]"
  have early: "justified ?J tr (tr @ [XOpenLock [entry] False])" "justified ?J tr (tr @ ?cs @ [XCloseLock [entry]])"
    "justified ?J tr (tr @ ?cs @ [XFlock [entry] False, XCloseLock [entry]])"
    "justified ?J tr ((tr @ ?cs) @ [XFlock [entry] True])"
    by (auto simp: justified_def)
  have late: "justified ?J tr (tr3 @ [XRelease [entry]])"
    if "sweep_locked ke hooks now base [entry] ((tr @ ?cs) @ [XFlock [entry] True]) = Some (q, tr3)" for q tr3
  proof -
    have "justified ?J ((tr @ ?cs) @ [XFlock [entry] True]) tr3"
      using sweep_locked_inside [OF assms(1) _ that] assms(2) by (auto intro: inside_allowed)
    from justified_snoc [OF justified_trans [OF early(4) this]] show ?thesis by simp
  qed
  from assms(3) early late show ?thesis
    by (auto simp: lock_entry_def Let_def split: option.splits sum.splits if_splits)
qed

lemma judge_entry_allowed:
  assumes "is_workflow_entry exclude entry" and "judge_entry ke hooks now [entry] tr = Some (r, tr')"
  shows "justified (sweep_allowed hooks exclude now) tr tr'"
proof -
  let ?J = "sweep_allowed hooks exclude now" and ?f = "XFstat [entry] (ke_fstat ke tr [entry])"
  let ?s = "XStat [entry] lockName (ke_stat ke (tr @ [?f]) [entry] lockName)"
  have early: "justified ?J tr (tr @ [?f])" "justified ?J tr (tr @ [?f, ?s])" by (auto simp: justified_def)
  obtain q tr3 where read: "readEntry ke [entry] (tr @ [?f, ?s]) = (q, tr3)" by fastforce
  have "justified (inside hooks exclude now) (tr @ [?f, ?s]) tr3"
    using read by (rule readEntry_calls) (auto simp: justified_def)
  then have three: "justified ?J tr tr3" using justified_trans [OF early(2)] inside_allowed by blast
  have "justified ?J tr tr'"
    if "ke_fstat ke tr [entry] = Ok base" "lock_entry ke hooks now base lockSt [entry] tr3 = Some (z, tr')" for base lockSt z
  proof -
    have "XFstat [entry] (Ok base) \<in> set tr3" using read that(1) by (rule_tac readEntry_calls) auto
    then show ?thesis using justified_trans [OF three] lock_entry_allowed [OF assms(1) _ that(2)] by blast
  qed
  then show ?thesis using assms(2) early three read
    by (auto simp: judge_entry_def stat_call_def Let_def split: sum.splits if_splits)
qed

lemma sweepEntry_allowed:
  assumes "is_workflow_entry exclude entry" and "sweepEntry ke hooks now entry tr = Some (r, tr')"
  shows "justified (sweep_allowed hooks exclude now) tr tr'"
proof (cases "ke_open ke tr [entry]")
  case None
  let ?o = "XOpen [entry] True"
  obtain q tr1 where q: "judge_entry ke hooks now [entry] (tr @ [?o]) = Some (q, tr1)" "tr' = tr1 @ [XClose [entry]]"
    using assms(2) None by (auto simp: sweepEntry_def)
  have "justified (sweep_allowed hooks exclude now) tr (tr @ [?o])" by (rule justified_calls) simp
  from justified_snoc [OF justified_trans [OF this judge_entry_allowed [OF assms(1) q(1)]]] q(2) show ?thesis by simp
next
  case (Some e)
  then show ?thesis using assms(2) by (auto simp: sweepEntry_def intro!: justified_calls)
qed

lemma sweep_loop_allowed:
  "sweep_loop ke hooks exclude now names swept tr = Some (n, tr') \<Longrightarrow> justified (sweep_allowed hooks exclude now) tr tr'"
proof (induction names arbitrary: swept tr)
  case (Cons name names)
  show ?case
  proof (cases "ke_ctx ke tr = None \<and> is_workflow_entry exclude name")
    case True
    then obtain z tr1 where one: "sweepEntry ke hooks now name tr = Some (z, tr1)"
      and "tr' = tr1 \<or> (\<exists>k. sweep_loop ke hooks exclude now names k tr1 = Some (n, tr'))"
      using Cons.prems
      by (cases "sweepEntry ke hooks now name tr")
        (auto simp: is_workflow_entry_def Let_def split: if_splits intro: that)
    then show ?thesis using sweepEntry_allowed [OF _ one] True Cons.IH justified_trans by metis
  next
    case False
    then show ?thesis using Cons by (auto simp: is_workflow_entry_def split: if_splits)
  qed
qed simp

lemma sweep_justified:
  assumes "sweep ke hooks exclude now [] = Some (n, tr)"
  shows "justified (sweep_allowed hooks exclude now) [] tr"
proof -
  let ?J = "sweep_allowed hooks exclude now"
  let ?cs = "[XOpen [] True, XList [] (ke_list ke [XOpen [] True] [])]"
  have early: "justified ?J [] [XOpen [] False]" "justified ?J [] ?cs" "justified ?J [] (?cs @ [XClose []])"
    by (auto simp: justified_def)
  have late: "justified ?J [] (tr1 @ [XClose []])" if "sweep_loop ke hooks exclude now names 0 ?cs = Some (k, tr1)" for names k tr1
    using justified_snoc [OF justified_trans [OF early(2) sweep_loop_allowed [OF that]]] by simp
  from assms early late show ?thesis
    by (auto simp: sweep_def Let_def split: option.splits sum.splits)
qed

section \<open>What is held\<close>

text \<open>The open directories and the lock files, the one opened last first; a granted lock is marked.\<close>

datatype held = HDir fd | HLock fd bool

text \<open>
  Every call is relative to a directory that is open; a change inside an entry needs the
  entry's lock; what is opened is closed in reverse order.
\<close>

fun sweep_step :: "held list \<Rightarrow> syscall \<Rightarrow> held list option" where
  "sweep_step hs (XOpen fd ok) =
     (if fd \<noteq> [] \<and> HDir (butlast fd) \<notin> set hs then None else Some (if ok then HDir fd # hs else hs))"
| "sweep_step hs (XClose fd) = (if hs \<noteq> [] \<and> hd hs = HDir fd then Some (tl hs) else None)"
| "sweep_step hs (XFstat fd r) = (if HDir fd \<in> set hs then Some hs else None)"
| "sweep_step hs (XStat fd n r) = (if HDir fd \<in> set hs then Some hs else None)"
| "sweep_step hs (XList fd l) = (if HDir fd \<in> set hs then Some hs else None)"
| "sweep_step hs (XOpenLock fd ok) =
     (if HDir fd \<notin> set hs then None else Some (if ok then HLock fd False # hs else hs))"
| "sweep_step hs (XFstatLock fd r) = (if hs \<noteq> [] \<and> hd hs = HLock fd False then Some hs else None)"
| "sweep_step hs (XCloseLock fd) = (if hs \<noteq> [] \<and> hd hs = HLock fd False then Some (tl hs) else None)"
| "sweep_step hs (XFlock fd ok) =
     (if hs \<noteq> [] \<and> hd hs = HLock fd False then Some (if ok then HLock fd True # tl hs else hs) else None)"
| "sweep_step hs (XRelease fd) = (if hs \<noteq> [] \<and> hd hs = HLock fd True then Some (tl hs) else None)"
| "sweep_step hs (XRename fd i t) = (if HDir fd \<in> set hs \<and> HLock (take 1 fd) True \<in> set hs then Some hs else None)"
| "sweep_step hs (XUnlink fd n) = (if HDir fd \<in> set hs \<and> HLock (take 1 fd) True \<in> set hs then Some hs else None)"
| "sweep_step hs (XRmdir fd n) = (if HDir fd \<in> set hs \<and> HLock (take 1 fd) True \<in> set hs then Some hs else None)"

definition may_remove :: "fd \<Rightarrow> held list \<Rightarrow> bool" where
  "may_remove fd hs \<longleftrightarrow> fd \<noteq> [] \<and> HDir fd \<in> set hs \<and> HLock (take 1 fd) True \<in> set hs"

lemma may_remove_below: "may_remove fd hs \<Longrightarrow> may_remove (fd @ [n]) (HDir (fd @ [n]) # hs)"
  by (cases fd) (auto simp: may_remove_def)

lemma enter_dir_keeps:
  assumes "may_remove parent hs" and "enter_dir ke hooks base parent name tr = (Returned r, tr')"
  shows "keeps sweep_step hs tr tr'"
proof -
  let ?s = "XStat parent name (ke_stat ke tr parent name)" and ?o = "XOpen (parent @ [name]) False"
  obtain r1 r2 where "unlink_entry ke parent name (tr @ [?s]) = (Returned r1, tr @ [?s, XUnlink parent name])"
    "unlink_entry ke parent name (tr @ [?s, ?o]) = (Returned r2, tr @ [?s, ?o, XUnlink parent name])"
    using unlink_entry_calls [of ke parent name "tr @ [?s]"] unlink_entry_calls [of ke parent name "tr @ [?s, ?o]"] by auto
  then show ?thesis using assms
    by (auto simp: enter_dir_def stat_call_def listNames_def may_remove_def Let_def
        split: option.splits sum.splits if_splits intro!: keeps_calls)
qed

lemma enter_dir_opens:
  assumes "may_remove parent hs" and "enter_dir ke hooks base parent name tr = (Entered children, tr')"
  shows "\<exists>cs. tr' = tr @ cs \<and> monitor sweep_step hs cs = Some (HDir (parent @ [name]) # hs)"
  using assms(2)
proof (rule enter_dir_entered)
  fix st l assume "tr' = tr @ [XStat parent name (ke_stat ke tr parent name), XOpen (parent @ [name]) True,
      XFstat (parent @ [name]) (Ok st), l]" "l = XList (parent @ [name]) (Ok children)"
  then show ?thesis using assms(1) by (auto simp: may_remove_def)
qed

lemma opened_keeps:
  assumes "monitor sweep_step hs cs = Some (d # hs)" and "keeps sweep_step (d # hs) (tr @ cs) tr2"
    and "monitor sweep_step (d # hs) ds = Some hs"
  shows "keeps sweep_step hs tr (tr2 @ ds)"
proof -
  obtain bs where "tr2 = tr @ cs @ bs" "monitor sweep_step (d # hs) bs = Some (d # hs)"
    using assms(2) by (auto simp: keeps_def)
  then have "tr2 @ ds = tr @ (cs @ bs @ ds)" "monitor sweep_step hs (cs @ bs @ ds) = Some hs"
    using assms(1,3) by (simp_all add: monitor_append)
  then show ?thesis unfolding keeps_def by blast
qed

lemma walk_keeps:
  "walk ke hooks base parent names tr r tr' \<Longrightarrow> may_remove parent hs \<Longrightarrow> keeps sweep_step hs tr tr'"
proof (induction arbitrary: hs rule: walk.induct)
  case (stopped parent name tr e tr1 rest)
  then show ?case using enter_dir_keeps by blast
next
  case (skipped parent name tr tr1 rest r tr')
  show ?case by (rule keeps_trans [OF enter_dir_keeps [OF skipped.prems skipped.hyps(1)] skipped.IH [OF skipped.prems]])
next
  case (child_failed parent name tr children tr1 e tr2 rest)
  let ?d = "HDir (parent @ [name])"
  obtain cs where cs: "tr1 = tr @ cs" "monitor sweep_step hs cs = Some (?d # hs)"
    using enter_dir_opens child_failed.prems child_failed.hyps(1) by blast
  show ?case
    by (rule opened_keeps [OF cs(2)]) (use child_failed.IH may_remove_below child_failed.prems cs(1) in auto)
next
  case (not_removed parent name tr children tr1 tr2 e tr3 rest)
  let ?d = "HDir (parent @ [name])"
  obtain cs where cs: "tr1 = tr @ cs" "monitor sweep_step hs cs = Some (?d # hs)"
    using enter_dir_opens not_removed.prems not_removed.hyps(1) by blast
  have "keeps sweep_step hs tr (tr2 @ [XClose (parent @ [name]), XRmdir parent name])"
    by (rule opened_keeps [OF cs(2)])
      (use not_removed.IH may_remove_below not_removed.prems cs(1) in \<open>auto simp: may_remove_def\<close>)
  then show ?case using leave_dir_calls [of ke parent name tr2] not_removed.hyps(3) by auto
next
  case (removed parent name tr children tr1 tr2 tr3 rest r tr')
  let ?d = "HDir (parent @ [name])"
  obtain cs where cs: "tr1 = tr @ cs" "monitor sweep_step hs cs = Some (?d # hs)"
    using enter_dir_opens removed.prems removed.hyps(1) by blast
  have "keeps sweep_step hs tr (tr2 @ [XClose (parent @ [name]), XRmdir parent name])"
    by (rule opened_keeps [OF cs(2)])
      (use removed.IH(1) may_remove_below removed.prems cs(1) in \<open>auto simp: may_remove_def\<close>)
  then have "keeps sweep_step hs tr tr3" using leave_dir_calls [of ke parent name tr2] removed.hyps(3) by auto
  from keeps_trans [OF this removed.IH(2) [OF removed.prems]] show ?case .
qed simp

lemma move_items_keeps:
  "may_remove fd hs \<Longrightarrow> move_items ke fd items moved tr = (r, tr') \<Longrightarrow> keeps sweep_step hs tr tr'"
proof (induction items arbitrary: moved tr)
  case (Cons item items)
  let ?s = "XStat fd item (ke_stat ke tr fd item)"
  let ?m = "XRename fd item (trashPrefix @ randomSuffix ke (tr @ [?s]))"
  have "keeps sweep_step hs tr (tr @ [?s])" "keeps sweep_step hs tr (tr @ [?s, ?m])"
    using Cons.prems(1) by (auto simp: may_remove_def keeps_def)
  moreover have "\<exists>m. move_items ke fd items m (tr @ [?s]) = (r, tr') \<or> move_items ke fd items m (tr @ [?s, ?m]) = (r, tr')"
    using Cons.prems(2) by (auto simp: stat_call_def Let_def split: sum.splits if_splits option.splits)
  ultimately show ?case using Cons.IH [OF Cons.prems(1)] keeps_trans by metis
qed simp

lemma remove_trash_keeps:
  "may_remove fd hs \<Longrightarrow> remove_trash ke hooks base fd names errs tr = Some (r, tr') \<Longrightarrow> keeps sweep_step hs tr tr'"
proof (induction names arbitrary: errs tr)
  case (Cons n ns)
  show ?case
  proof (cases "HasPrefix n trashPrefix")
    case True
    then obtain q tr1 where tree: "removeTree ke hooks base fd n tr = Some (q, tr1)"
      and rest: "tr' = tr1 \<or> (\<exists>es. remove_trash ke hooks base fd ns es tr1 = Some (r, tr'))"
      using Cons.prems(2)
      by (cases "removeTree ke hooks base fd n tr") (auto split: option.splits if_splits intro: that)
    have "keeps sweep_step hs tr tr1"
      using walk_keeps [OF removeTrees_walk Cons.prems(1)] tree by (simp add: removeTree_def)
    then show ?thesis using rest Cons.IH [OF Cons.prems(1)] keeps_trans by metis
  next
    case False
    then show ?thesis using Cons by simp
  qed
qed simp

lemma readEntry_keeps:
  assumes "HDir fd \<in> set hs" and "readEntry ke fd tr = (r, tr')"
  shows "keeps sweep_step hs tr tr'"
  using assms
  by (auto simp: readEntry_def listNames_def stat_call_def Let_def split: sum.splits if_splits prod.splits)

lemma sweep_locked_keeps:
  assumes "may_remove fd hs" and "sweep_locked ke hooks now base fd tr = Some (r, tr')"
  shows "keeps sweep_step hs tr tr'"
proof -
  have dir: "HDir fd \<in> set hs" using assms(1) by (simp add: may_remove_def)
  obtain q tr1 where read: "readEntry ke fd tr = (q, tr1)" by fastforce
  have one: "keeps sweep_step hs tr tr1" by (rule readEntry_keeps [OF dir read])
  show ?thesis
  proof (cases q)
    case (Inl e)
    then show ?thesis using assms(2) read one by (simp add: sweep_locked_def)
  next
    case (Inr st)
    obtain moved tr2 where mv: "(if stale now (es_lastUse st) then move_items ke fd sweep_items False tr1 else (False, tr1)) = (moved, tr2)"
      by fastforce
    have "keeps sweep_step hs tr1 tr2"
      using mv move_items_keeps [OF assms(1)] by (cases "stale now (es_lastUse st)") auto
    moreover have "keeps sweep_step hs tr2 (tr2 @ [XList fd (ke_list ke tr2 fd)])" using dir by auto
    ultimately have list: "keeps sweep_step hs tr (tr2 @ [XList fd (ke_list ke tr2 fd)])"
      using one keeps_trans by meson
    have "tr' = tr2 @ [XList fd (ke_list ke tr2 fd)] \<or>
        (\<exists>names z. remove_trash ke hooks base fd names [] (tr2 @ [XList fd (ke_list ke tr2 fd)]) = Some (z, tr'))"
      using assms(2) read Inr mv by (auto simp: sweep_locked_def listNames_def Let_def split: sum.splits)
    then show ?thesis using list remove_trash_keeps [OF assms(1)] keeps_trans by meson
  qed
qed

lemma lock_entry_keeps:
  assumes "HDir fd \<in> set hs" and "length fd = 1" and "lock_entry ke hooks now base lockSt fd tr = Some (r, tr')"
  shows "keeps sweep_step hs tr tr'"
proof -
  let ?cs = "[XOpenLock fd True, XFstatLock fd (ke_fstatlock ke (tr @ [XOpenLock fd True]) fd)]"
  have early: "keeps sweep_step hs tr (tr @ [XOpenLock fd False])" "keeps sweep_step hs tr (tr @ ?cs @ [XCloseLock fd])"
    "keeps sweep_step hs tr (tr @ ?cs @ [XFlock fd False, XCloseLock fd])"
    using assms(1) by (auto simp: keeps_def)
  have late: "keeps sweep_step hs tr (tr3 @ [XRelease fd])"
    if "sweep_locked ke hooks now base fd (tr @ (?cs @ [XFlock fd True])) = Some (q, tr3)" for q tr3
  proof (rule opened_keeps)
    show "monitor sweep_step hs (?cs @ [XFlock fd True]) = Some (HLock fd True # hs)" using assms(1) by simp
    have "may_remove fd (HLock fd True # hs)" using assms(1,2) by (cases fd) (auto simp: may_remove_def)
    then show "keeps sweep_step (HLock fd True # hs) (tr @ (?cs @ [XFlock fd True])) tr3"
      using sweep_locked_keeps that by blast
    show "monitor sweep_step (HLock fd True # hs) [XRelease fd] = Some hs" by simp
  qed
  from assms(3) early late show ?thesis
    by (auto simp: lock_entry_def Let_def split: option.splits sum.splits if_splits)
qed

lemma judge_entry_keeps:
  assumes "HDir fd \<in> set hs" and "length fd = 1" and "judge_entry ke hooks now fd tr = Some (r, tr')"
  shows "keeps sweep_step hs tr tr'"
proof -
  let ?f = "XFstat fd (ke_fstat ke tr fd)"
  let ?s = "XStat fd lockName (ke_stat ke (tr @ [?f]) fd lockName)"
  have early: "keeps sweep_step hs tr (tr @ [?f])" "keeps sweep_step hs tr (tr @ [?f, ?s])"
    using assms(1) by (auto simp: keeps_def)
  obtain q tr3 where read: "readEntry ke fd (tr @ [?f, ?s]) = (q, tr3)" by fastforce
  have three: "keeps sweep_step hs tr tr3" by (rule keeps_trans [OF early(2) readEntry_keeps [OF assms(1) read]])
  have "tr' \<in> {tr @ [?f], tr @ [?f, ?s], tr3} \<or> (\<exists>base lockSt. lock_entry ke hooks now base lockSt fd tr3 = Some (r, tr'))"
    using assms(3) read by (auto simp: judge_entry_def stat_call_def Let_def split: sum.splits if_splits)
  then show ?thesis using early three keeps_trans [OF three lock_entry_keeps [OF assms(1,2)]] by blast
qed

lemma sweepEntry_keeps:
  assumes "HDir [] \<in> set hs" and "sweepEntry ke hooks now name tr = Some (r, tr')"
  shows "keeps sweep_step hs tr tr'"
proof (cases "ke_open ke tr [name]")
  case None
  obtain q tr1 where q: "judge_entry ke hooks now [name] (tr @ [XOpen [name] True]) = Some (q, tr1)" "tr' = tr1 @ [XClose [name]]"
    using assms(2) None by (auto simp: sweepEntry_def)
  show ?thesis unfolding q(2)
    by (rule opened_keeps [of hs "[XOpen [name] True]" "HDir [name]"]) (use assms(1) judge_entry_keeps [OF _ _ q(1)] in auto)
next
  case (Some e)
  then show ?thesis using assms by (auto simp: sweepEntry_def)
qed

lemma sweep_loop_keeps:
  "HDir [] \<in> set hs \<Longrightarrow> sweep_loop ke hooks exclude now names swept tr = Some (n, tr') \<Longrightarrow> keeps sweep_step hs tr tr'"
proof (induction names arbitrary: swept tr)
  case (Cons name names)
  show ?case
  proof (cases "ke_ctx ke tr = None \<and> is_workflow_entry exclude name")
    case True
    then obtain z tr1 where one: "sweepEntry ke hooks now name tr = Some (z, tr1)"
      and "tr' = tr1 \<or> (\<exists>k. sweep_loop ke hooks exclude now names k tr1 = Some (n, tr'))"
      using Cons.prems(2)
      by (cases "sweepEntry ke hooks now name tr")
        (auto simp: is_workflow_entry_def Let_def split: if_splits intro: that)
    then show ?thesis using sweepEntry_keeps [OF Cons.prems(1) one] Cons.IH [OF Cons.prems(1)] keeps_trans by metis
  next
    case False
    then show ?thesis using Cons by (auto simp: is_workflow_entry_def split: if_splits)
  qed
qed simp

lemma sweep_released:
  assumes "sweep ke hooks exclude now [] = Some (n, tr)"
  shows "monitor sweep_step [] tr = Some []"
proof -
  let ?cs = "[XOpen [] True, XList [] (ke_list ke [XOpen [] True] [])]"
  have late: "keeps sweep_step [] [] (tr1 @ [XClose []])" if "sweep_loop ke hooks exclude now names 0 ?cs = Some (k, tr1)" for names k tr1
    by (rule opened_keeps [of "[]" ?cs "HDir []"]) (use sweep_loop_keeps [OF _ that] in auto)
  have "keeps sweep_step [] [] tr"
    using assms late by (auto simp: sweep_def Let_def keeps_def split: option.splits sum.splits)
  then show ?thesis by (simp add: keeps_def)
qed

section \<open>The sweep ends\<close>

text \<open>No directory of the file system is nested as deep as the bound.\<close>

definition shallow :: "kernel \<Rightarrow> nat \<Rightarrow> bool" where
  "shallow ke bound \<longleftrightarrow> (\<forall>tr fd. bound \<le> length fd \<longrightarrow> ke_open ke tr fd \<noteq> None)"

lemma removeTrees_returns:
  assumes "shallow ke bound"
  shows "removeTrees ke hooks base parent names tr \<noteq> None"
proof (induction "bound - length parent" arbitrary: parent names tr rule: less_induct)
  case (less parent)
  show ?case
  proof (induction names arbitrary: tr)
    case (Cons name rest)
    obtain v tr1 where enter: "enter_dir ke hooks base parent name tr = (v, tr1)" by fastforce
    show ?case
    proof (cases v)
      case (Returned r)
      then show ?thesis using enter Cons.IH by (subst removeTrees.simps) (auto split: option.split)
    next
      case (Entered children)
      have "ke_open ke (tr @ [XStat parent name (ke_stat ke tr parent name)]) (parent @ [name]) = None"
        using enter Entered by (auto elim: enter_dir_entered)
      then have "\<not> bound \<le> length (parent @ [name])" using assms unfolding shallow_def by metis
      then have "removeTrees ke hooks base (parent @ [name]) children tr1 \<noteq> None" by (intro less) simp
      then show ?thesis using enter Entered Cons.IH
        by (subst removeTrees.simps) (auto split: option.split prod.split)
    qed
  qed (simp add: removeTrees.simps)
qed

lemma remove_trash_returns:
  assumes "shallow ke bound"
  shows "remove_trash ke hooks base fd names errs tr \<noteq> None"
proof (induction names arbitrary: errs tr)
  case (Cons n ns)
  obtain q tr1 where "removeTree ke hooks base fd n tr = Some (q, tr1)"
    using removeTrees_returns [OF assms, of hooks base fd "[n]" tr] by (auto simp: removeTree_def)
  then show ?case using Cons by (auto split: option.split)
qed simp

lemma sweepEntry_returns:
  assumes "shallow ke bound"
  shows "sweepEntry ke hooks now name tr \<noteq> None"
proof -
  have locked: "sweep_locked ke hooks now base fd t \<noteq> None" for base fd t
    using remove_trash_returns [OF assms]
    by (auto simp: sweep_locked_def Let_def split: prod.split sum.split)
  have "lock_entry ke hooks now base lockSt fd t \<noteq> None" for base lockSt fd t
    using locked by (auto simp: lock_entry_def Let_def split: option.split sum.split)
  then have "judge_entry ke hooks now fd t \<noteq> None" for fd t
    by (auto simp: judge_entry_def Let_def split: prod.split sum.split)
  then show ?thesis by (auto simp: sweepEntry_def split: option.split)
qed

lemma sweep_returns:
  assumes "shallow ke bound"
  shows "sweep ke hooks exclude now tr \<noteq> None"
proof -
  have "sweep_loop ke hooks exclude now names swept t \<noteq> None" for names swept t
  proof (induction names arbitrary: swept t)
    case (Cons name names)
    obtain did err tr1 where "sweepEntry ke hooks now name t = Some ((did, err), tr1)"
      using sweepEntry_returns [OF assms, of hooks now name t] by auto
    then show ?case using Cons by (auto simp: Let_def)
  qed simp
  then show ?thesis by (auto simp: sweep_def Let_def split: option.split sum.split)
qed

section \<open>The claims\<close>



text \<open>
  The sweep ends, whatever the kernel answers, when directories nest no deeper than some
  bound; every system call it made was relative to a directory it had open, every change
  under the lock of the entry it is in, and it has closed every directory and lock file and
  released every lock, in reverse order, on every path.
\<close>

theorem sweep_disciplined:
  assumes "\<forall>tr fd. bound \<le> length fd \<longrightarrow> ke_open ke tr fd \<noteq> None"
  shows "\<exists>n tr. sweep ke hooks exclude now [] = Some (n, tr) \<and> monitor sweep_step [] tr = Some []"
proof -
  have "shallow ke bound" using assms by (simp add: shallow_def)
  then obtain n tr where "sweep ke hooks exclude now [] = Some (n, tr)"
    using sweep_returns [of ke bound hooks exclude now "[]"] by auto
  then show ?thesis using sweep_released by blast
qed

section \<open>A sample sweep\<close>

definition dir_stat :: stat where
  "dir_stat = \<lparr>st_kind = Directory, st_dev = 1, st_ino = 10, st_nlink = 2, st_mtime = 1\<rparr>"

definition file_stat :: stat where
  "file_stat = \<lparr>st_kind = Regular, st_dev = 1, st_ino = 11, st_nlink = 1, st_mtime = 1\<rparr>"

definition sample_entry :: string where
  "sample_entry = ''0123456789abcdef''"

text \<open>One stale entry with a cache and some trash of an earlier sweep.\<close>

definition sample_kernel :: kernel where
  "sample_kernel =
     \<lparr>ke_ctx = (\<lambda>tr. None),
      ke_open = (\<lambda>tr fd. if 3 \<le> length fd then Some (Sentinel (S_std ENOTDIR)) else None),
      ke_fstat = (\<lambda>tr fd. Ok dir_stat),
      ke_stat = (\<lambda>tr fd n.
        if n = ''lock'' \<or> n = ''used'' then Ok file_stat
        else if n = ''cache'' \<or> HasPrefix n ''trash-'' then Ok dir_stat else Err (Sentinel (S_std ENOENT))),
      ke_list = (\<lambda>tr fd. Ok (if fd = [] then [''notes'', sample_entry] else if length fd = 1 then [''lock'', ''trash-1''] else [])),
      ke_openlock = (\<lambda>tr fd. None), ke_fstatlock = (\<lambda>tr fd. Ok file_stat), ke_flock = (\<lambda>tr fd. None),
      ke_rename = (\<lambda>tr fd i t. None), ke_unlink = (\<lambda>tr fd n. None), ke_rmdir = (\<lambda>tr fd n. None),
      ke_random = (\<lambda>tr. None), ke_nano = (\<lambda>tr. 7)\<rparr>"

definition sample_run :: "nat \<times> systrace" where
  "sample_run = the (sweep sample_kernel \<lparr>hk_sameDevice = None\<rparr> ''x'' (MaxCacheAge + 10) [])"

lemma sample_sweep: "sweep sample_kernel \<lparr>hk_sameDevice = None\<rparr> ''x'' (MaxCacheAge + 10) [] = Some (1, snd sample_run)"
  by code_simp

lemma sample_calls:
  "length (snd sample_run) = 29" "snd sample_run ! 13 = XRename [sample_entry] ''cache'' ''trash-7''"
  "snd sample_run ! 25 = XRmdir [sample_entry] ''trash-1''"
  by code_simp+

lemma sample_sweep_at:
  "k < 29 \<Longrightarrow> sweep sample_kernel \<lparr>hk_sameDevice = None\<rparr> ''x'' (MaxCacheAge + 10) [] =
     Some (1, take k (snd sample_run) @ snd sample_run ! k # drop (Suc k) (snd sample_run))"
  using sample_sweep by (simp add: sample_calls flip: id_take_nth_drop)



lemma sweep_disciplined_witness:
  "\<exists>n tr. sweep sample_kernel \<lparr>hk_sameDevice = None\<rparr> ''x'' 5 [] = Some (n, tr) \<and> monitor sweep_step [] tr = Some []"
  by (rule sweep_disciplined [of 3]) (simp add: sample_kernel_def)

end
