(* ===== verification/ScratchSpec.thy ===== *)
theory ScratchSpec
  imports Scratch SweepSpec
begin

text \<open>
  What Prepare and Close may do to the file system, over every host: nothing before the root
  is known to be clear of the repository, everything else inside the workflow's own directory
  and under its lock, no removal through a link, and the lock given back on every path.
\<close>

section \<open>What allows a call\<close>

definition clear_of :: "Repository \<Rightarrow> string \<Rightarrow> bool" where
  "clear_of repo root \<longleftrightarrow> rejectOverlap root (rp_Worktree repo) = None \<and> rejectOverlap root (rp_CommonDir repo) = None"

definition locked :: "string \<Rightarrow> hosttrace \<Rightarrow> bool" where
  "locked path tr \<longleftrightarrow> (\<exists>a b. tr = a @ PLock path True # b \<and> PRelease path \<notin> set b)"

text \<open>The last call looked at the path and found something that is not a link.\<close>

definition seen_no_link :: "string \<Rightarrow> hosttrace \<Rightarrow> bool" where
  "seen_no_link p tr \<longleftrightarrow> tr \<noteq> [] \<and> (\<exists>k. last tr = PLstat p (Ok k) \<and> k \<noteq> Symlink)"

abbreviation lock_path :: "string \<Rightarrow> string" where
  "lock_path wd \<equiv> JoinPath [wd, lockName]"

definition disposable :: "string \<Rightarrow> string set" where
  "disposable wd = {JoinPath [wd, checkoutName], JoinPath [wd, hooksName], JoinPath [wd, tmpName]}"

fun prepare_allowed :: "Options \<Rightarrow> string \<Rightarrow> string \<Rightarrow> hosttrace \<Rightarrow> hostcall \<Rightarrow> bool" where
  "prepare_allowed opts root wd tr (PMkdirAll p) \<longleftrightarrow>
     p = root \<or> p = wd \<or> p = JoinPath [wd, cacheName] \<and> locked (lock_path wd) tr"
| "prepare_allowed opts root wd tr (PLock p granted) \<longleftrightarrow> p = lock_path wd \<and> seen_no_link wd tr"
| "prepare_allowed opts root wd tr (PMkdir p) \<longleftrightarrow> p \<in> disposable wd \<and> locked (lock_path wd) tr"
| "prepare_allowed opts root wd tr (PRename q p) \<longleftrightarrow> p = JoinPath [wd, usedName] \<and> locked (lock_path wd) tr"
| "prepare_allowed opts root wd tr (PSweep r ex xs) \<longleftrightarrow> r = root \<and> ex = Base wd \<and> locked (lock_path wd) tr"
| "prepare_allowed opts root wd tr (PRemoveAll p) \<longleftrightarrow>
     p \<in> disposable wd \<and> locked (lock_path wd) tr \<and> seen_no_link p tr"
| "prepare_allowed opts root wd tr (PClone p i) \<longleftrightarrow>
     p = JoinPath [wd, checkoutName] \<and> i = op_Commit opts \<and> locked (lock_path wd) tr \<and>
     seen_no_link (JoinPath [wd, cacheName]) tr"
| "prepare_allowed opts root wd tr c \<longleftrightarrow> True"

definition within :: "Options \<Rightarrow> string \<Rightarrow> string \<Rightarrow> hosttrace \<Rightarrow> hostcall \<Rightarrow> bool" where
  "within opts root wd tr c \<longleftrightarrow> prepare_allowed opts root wd tr c \<and> (\<forall>p. c \<noteq> PRelease p)"

lemma within_simps [simp]:
  "within opts root wd tr (PLstat p lr)" "within opts root wd tr (PCreateTemp p)" "within opts root wd tr (PWriteTemp p)"
  "within opts root wd tr (PCloseTemp p)" "within opts root wd tr (PRemove p)"
  "within opts root wd tr (PMkdirAll p) \<longleftrightarrow> p = root \<or> p = wd \<or> p = JoinPath [wd, cacheName] \<and> locked (lock_path wd) tr"
  "within opts root wd tr (PMkdir p) \<longleftrightarrow> p \<in> disposable wd \<and> locked (lock_path wd) tr"
  "within opts root wd tr (PRename q p) \<longleftrightarrow> p = JoinPath [wd, usedName] \<and> locked (lock_path wd) tr"
  "within opts root wd tr (PSweep r ex xs) \<longleftrightarrow> r = root \<and> ex = Base wd \<and> locked (lock_path wd) tr"
  "within opts root wd tr (PRemoveAll p) \<longleftrightarrow> p \<in> disposable wd \<and> locked (lock_path wd) tr \<and> seen_no_link p tr"
  "within opts root wd tr (PClone p i) \<longleftrightarrow> p = JoinPath [wd, checkoutName] \<and> i = op_Commit opts \<and>
     locked (lock_path wd) tr \<and> seen_no_link (JoinPath [wd, cacheName]) tr"
  by (simp_all add: within_def)

lemma within_released: "all_calls (within opts root wd) tr cs \<Longrightarrow> PRelease p \<notin> set cs"
  by (induction cs arbitrary: tr) (auto simp: within_def)

lemma within_allowed: "justified (within opts root wd) tr tr' \<Longrightarrow> justified (prepare_allowed opts root wd) tr tr'"
  by (erule justified_mono [rotated]) (simp add: within_def)

lemma locked_within:
  assumes "locked p tr" and "justified (within opts root wd) tr tr'"
  shows "locked p tr'"
proof -
  obtain cs where "tr' = tr @ cs" "PRelease p \<notin> set cs"
    using assms(2) within_released unfolding justified_def by blast
  moreover obtain a b where "tr = a @ PLock p True # b" "PRelease p \<notin> set b"
    using assms(1) unfolding locked_def by blast
  ultimately have "tr' = a @ PLock p True # (b @ cs)" "PRelease p \<notin> set (b @ cs)" by simp_all
  then show ?thesis unfolding locked_def by blast
qed

lemma locked_now: "locked p (tr @ [PLock p True])"
  unfolding locked_def by (intro exI [of _ tr] exI [of _ "[]"]) simp

lemma locked_append: "locked p tr \<Longrightarrow> PRelease p \<notin> set cs \<Longrightarrow> locked p (tr @ cs)"
  unfolding locked_def by fastforce

section \<open>The parts\<close>

lemma removeOwned_within:
  assumes "locked (lock_path wd) tr" and "p \<in> disposable wd" and "removeOwned h co p tr = (r, tr')"
  shows "justified (within opts root wd) tr tr'"
proof -
  let ?s = "PLstat p (ho_lstat h tr p)"
  have "justified (within opts root wd) tr (tr @ [?s])" by (rule justified_calls) simp
  moreover have "justified (within opts root wd) tr (tr @ [?s, PRemoveAll p])" if "ho_lstat h tr p = Ok k" "k \<noteq> Symlink" for k
    by (rule justified_calls) (use that assms(1,2) locked_append in \<open>auto simp: seen_no_link_def\<close>)
  ultimately show ?thesis using assms(3)
    by (auto simp: removeOwned_def Let_def split: if_splits sum.splits)
qed

lemma replace_leftovers_within:
  "locked (lock_path wd) tr \<Longrightarrow> set ds \<subseteq> disposable wd \<Longrightarrow> replace_leftovers h co ds tr = (r, tr') \<Longrightarrow>
   justified (within opts root wd) tr tr'"
proof (induction ds arbitrary: tr)
  case (Cons d ds)
  obtain q tr1 where one: "removeOwned h co d tr = (q, tr1)" by fastforce
  have step: "justified (within opts root wd) tr tr1"
    by (rule removeOwned_within [OF Cons.prems(1) _ one]) (use Cons.prems(2) in simp)
  then have "locked (lock_path wd) tr1" using locked_within Cons.prems(1) by blast
  then show ?case using Cons one step justified_trans [OF step] by (cases q) auto
qed simp

lemma remove_all_owned_within:
  "locked (lock_path wd) tr \<Longrightarrow> set ds \<subseteq> disposable wd \<Longrightarrow> remove_all_owned h co ds errs tr = (r, tr') \<Longrightarrow>
   justified (within opts root wd) tr tr'"
proof (induction ds arbitrary: tr errs)
  case (Cons d ds)
  obtain q tr1 where one: "removeOwned h co d tr = (q, tr1)" by fastforce
  have step: "justified (within opts root wd) tr tr1"
    by (rule removeOwned_within [OF Cons.prems(1) _ one]) (use Cons.prems(2) in simp)
  then have "locked (lock_path wd) tr1" using locked_within Cons.prems(1) by blast
  then show ?case using Cons one justified_trans [OF step] by (cases q) auto
qed simp

lemma stamp_within:
  assumes "locked (lock_path wd) tr" and "stamp h wd tr = (r, tr')"
  shows "justified (within opts root wd) tr tr'"
  using assms
  by (auto simp: stamp_def Let_def split: sum.splits option.splits intro!: justified_calls locked_append)

lemma fill_checkout_within:
  assumes "locked (lock_path wd) tr" and "fill_checkout h opts (new_checkout wd lk) tr = (r, tr')"
  shows "justified (within opts root wd) tr tr'"
proof -
  let ?J = "within opts root wd" and ?co = "new_checkout wd lk"
  obtain q tr1 where one: "replace_leftovers h ?co [co_Dir ?co, co_hooksDir ?co, co_TmpDir ?co] tr = (q, tr1)" by fastforce
  have step: "justified ?J tr tr1"
    by (rule replace_leftovers_within [OF assms(1) _ one]) (simp add: new_checkout_def disposable_def)
  have lk: "locked (lock_path wd) tr1" by (rule locked_within [OF assms(1) step])
  have "justified ?J tr1 tr'" if "q = None"
    using assms(2) one that lk
    by (auto simp: fill_checkout_def requireNotSymlink_def new_checkout_def disposable_def seen_no_link_def Let_def
        split: option.splits sum.splits if_splits intro!: justified_calls locked_append)
  then show ?thesis using assms(2) one step justified_trans [OF step]
    by (cases q) (auto simp: fill_checkout_def)
qed

lemma release_lock_calls: "\<exists>cs. snd (release_lock h l tr) = tr @ cs \<and> set cs \<subseteq> range PRelease"
  by (auto simp: release_lock_def split: option.split)

lemma released_allowed: "set cs \<subseteq> range PRelease \<Longrightarrow> all_calls (prepare_allowed opts root wd) tr cs"
  by (induction cs arbitrary: tr) auto

lemma release_lock_allowed:
  assumes "justified (prepare_allowed opts root wd) tr tr'"
  shows "justified (prepare_allowed opts root wd) tr (snd (release_lock h l tr'))"
proof -
  obtain cs where "snd (release_lock h l tr') = tr' @ cs" "set cs \<subseteq> range PRelease" using release_lock_calls by blast
  then show ?thesis using justified_trans [OF assms justified_calls [OF released_allowed]] by metis
qed

lemma prepare_locked_allowed:
  assumes "locked (lock_path wd) tr" and "prepare_locked h opts root wd lk tr = Some (r, tr')"
  shows "justified (prepare_allowed opts root wd) tr tr'"
proof -
  let ?J = "within opts root wd"
  obtain q tr1 where st: "stamp h wd tr = (q, tr1)" by fastforce
  have one: "justified ?J tr tr1" by (rule stamp_within [OF assms(1) st])
  show ?thesis
  proof (cases q)
    case (Some e)
    then show ?thesis using assms(2) st release_lock_allowed [OF within_allowed [OF one]]
      by (auto simp: prepare_locked_def)
  next
    case None
    obtain n xs where sw: "sweep (ho_kernel h tr1) (op_hooks opts) (Base wd) (ho_now h tr1) [] = Some (n, xs)"
      using assms(2) st None by (cases "sweep (ho_kernel h tr1) (op_hooks opts) (Base wd) (ho_now h tr1) []")
        (auto simp: prepare_locked_def)
    let ?tr2 = "tr1 @ [PSweep root (Base wd) xs]"
    have two: "justified ?J tr ?tr2"
      by (rule justified_snoc [OF one]) (use locked_within [OF assms(1) one] in simp)
    have lk2: "locked (lock_path wd) ?tr2" by (rule locked_within [OF assms(1) two])
    obtain f tr3 where fill: "fill_checkout h opts (new_checkout wd lk) ?tr2 = (f, tr3)" by fastforce
    have three: "justified ?J tr tr3" by (rule justified_trans [OF two fill_checkout_within [OF lk2 fill]])
    have "tr' \<in> {snd (release_lock h lk ?tr2), tr3}"
      using assms(2) st None sw fill by (auto simp: prepare_locked_def Close_def Let_def split: option.splits)
    then show ?thesis
      using release_lock_allowed [OF within_allowed [OF two]] within_allowed [OF three] by blast
  qed
qed

section \<open>The root\<close>

text \<open>Calls that only look.\<close>

fun is_look :: "hostcall \<Rightarrow> bool" where
  "is_look (PLstat p r) \<longleftrightarrow> True"
| "is_look (PEvalSymlinks p) \<longleftrightarrow> True"
| "is_look c \<longleftrightarrow> False"

lemma existing_ancestor_looks:
  "existing_ancestor h p m tr = (r, tr') \<Longrightarrow> \<exists>cs. tr' = tr @ cs \<and> list_all is_look cs"
proof (induction h p m tr arbitrary: r tr' rule: existing_ancestor.induct)
  case (1 h existing missing tr)
  show ?case
  proof (cases "\<exists>e. ho_lstat h tr existing = Err e \<and> errors_Is e (S_std ErrNotExist) \<and> Dir existing \<noteq> existing")
    case True
    then obtain e where e: "ho_lstat h tr existing = Err e" "errors_Is e (S_std ErrNotExist)" "Dir existing \<noteq> existing"
      by blast
    then have rest: "existing_ancestor h (Dir existing) (JoinPath [Base existing, missing])
        (tr @ [PLstat existing (Err e)]) = (r, tr')"
      using 1(2) by (simp add: existing_ancestor.simps [of h existing] Let_def)
    from 1(1) [OF refl refl e(1) _ _ rest [folded e(1)]] e show ?thesis by fastforce
  next
    case False
    then show ?thesis using 1(2)
      by (auto simp: existing_ancestor.simps [of h existing] Let_def split: sum.splits if_splits)
  qed
qed

lemma canonicalRoot_looks:
  assumes "canonicalRoot h root tr = (r, tr')"
  shows "\<exists>cs. tr' = tr @ cs \<and> list_all is_look cs"
proof (cases "IsAbs root")
  case True
  obtain q tr1 where anc: "existing_ancestor h (Clean root) [] tr = (q, tr1)" by fastforce
  from existing_ancestor_looks [OF anc] show ?thesis
    using assms True anc by (auto simp: canonicalRoot_def split: sum.splits)
qed (use assms in \<open>simp add: canonicalRoot_def\<close>)

lemma looks_allowed:
  "list_all is_look cs \<Longrightarrow> all_calls (prepare_allowed opts root wd) tr cs"
proof (induction cs arbitrary: tr)
  case (Cons c cs)
  then show ?case by (cases c) auto
qed simp

lemma prepare_root_cases:
  assumes "prepare_root h opts tr = (r, tr')"
  obtains (refused) e cs where "r = Err e" "tr' = tr @ cs"
      "list_all is_look cs"
  | (found) root cs root0 tr1 where "r = Ok root \<or> \<not> is_ok r" "tr' = tr @ cs @ [PMkdirAll root]" "clear_of (op_Repo opts) root"
      "list_all is_look cs" "canonicalRoot h root0 tr = (Ok root, tr1)"
proof -
  obtain x where x: "(if op_Root opts = [] then ResolveRoot h [] else Ok (op_Root opts)) = x" by blast
  show ?thesis
  proof (cases x)
    case (Inl e)
    then show ?thesis using assms x refused [of e "[]"] by (auto simp: prepare_root_def)
  next
    case (Inr root0)
    obtain y tr1 where y: "canonicalRoot h root0 tr = (y, tr1)" by fastforce
    obtain cs where cs: "tr1 = tr @ cs" "list_all is_look cs"
      using canonicalRoot_looks [OF y] by blast
    show ?thesis
    proof (cases "\<exists>root. y = Ok root \<and> clear_of (op_Repo opts) root")
      case True
      then obtain root where root: "y = Ok root" "clear_of (op_Repo opts) root" by blast
      then have "tr' = tr @ cs @ [PMkdirAll root]" "r = Ok root \<or> \<not> is_ok r"
        using assms x Inr y cs(1) by (auto simp: prepare_root_def clear_of_def split: option.splits)
      then show ?thesis using found root cs y by blast
    next
      case False
      then have "tr' = tr @ cs" "\<exists>e. r = Err e"
        using assms x Inr y cs(1) by (auto simp: prepare_root_def clear_of_def split: option.splits sum.splits)
      then show ?thesis using refused cs(2) by blast
    qed
  qed
qed

text \<open>Every call of Prepare is allowed, for a root that is clear of the repository.\<close>

lemma Prepare_justified:
  assumes "Prepare h opts [] = Some (r, tr)"
  obtains (nothing) "list_all is_look tr"
  | (made) root where "clear_of (op_Repo opts) root"
      "justified (prepare_allowed opts root (workflow_dir root (op_WorkflowKey opts))) [] tr"
proof -
  obtain q tr1 where q: "prepare_root h opts [] = (q, tr1)" by fastforce
  then show ?thesis
  proof (cases rule: prepare_root_cases)
    case (refused e cs)
    then have "tr = cs" using assms q by (auto simp: Prepare_def)
    with refused(3) have "list_all is_look tr" by simp
    then show ?thesis by (rule nothing)
  next
    case (found root cs root0 tr0)
    let ?wd = "workflow_dir root (op_WorkflowKey opts)"
    let ?J = "prepare_allowed opts root ?wd"
    have one: "justified ?J [] tr1"
      using found(2) looks_allowed [OF found(4)] by (auto simp: justified_def all_calls_append)
    show ?thesis
    proof (cases "q = Ok root")
      case False
      then have "tr = tr1" using found(1) assms q by (auto simp: Prepare_def is_ok_def split: sum.splits)
      then show ?thesis using made found(3) one by blast
    next
      case True
      obtain w tr2 where w: "prepare_workflow h ?wd tr1 = (w, tr2)" by fastforce
      have two: "justified ?J [] tr2" "w = None \<Longrightarrow> seen_no_link ?wd tr2"
      proof -
        have m: "justified ?J [] (tr1 @ [PMkdirAll ?wd])" by (rule justified_snoc [OF one]) simp
        moreover have "justified ?J [] ((tr1 @ [PMkdirAll ?wd]) @ [PLstat ?wd x])" for x
          by (rule justified_snoc [OF m]) simp
        ultimately show "justified ?J [] tr2" using w
          by (auto simp: prepare_workflow_def requireNotSymlink_def Let_def split: option.splits)
        show "seen_no_link ?wd tr2" if "w = None"
          using w that by (auto simp: prepare_workflow_def requireNotSymlink_def seen_no_link_def Let_def
              split: option.splits sum.splits if_splits)
      qed
      have three: "justified ?J [] (tr2 @ [PLock (lock_path ?wd) g])" if "w = None" for g
        by (rule justified_snoc [OF two(1)]) (use two(2) that in simp)
      have four: "justified ?J [] tr'" if "w = None" "prepare_locked h opts root ?wd lk (tr2 @ [PLock (lock_path ?wd) True]) = Some (z, tr')"
        for lk z tr'
        by (rule justified_trans [OF three [OF that(1)] prepare_locked_allowed [OF locked_now that(2)]])
      have "justified ?J [] tr"
        using assms q True w two three four
        by (auto simp: Prepare_def Let_def split: option.splits sum.splits bind_splits)
      then show ?thesis using made found(3) by blast
    qed
  qed
qed

section \<open>The lock\<close>

text \<open>The locks a trace holds.\<close>

fun lock_step :: "string list \<Rightarrow> hostcall \<Rightarrow> string list option" where
  "lock_step held (PLock p granted) = (if held \<noteq> [] then None else Some (if granted then [p] else []))"
| "lock_step held (PRelease p) = (if held = [p] then Some [] else None)"
| "lock_step held c = Some held"

fun lock_free :: "hostcall \<Rightarrow> bool" where
  "lock_free (PLock p granted) \<longleftrightarrow> False"
| "lock_free (PRelease p) \<longleftrightarrow> False"
| "lock_free (PSweep root ex xs) \<longleftrightarrow> False"
| "lock_free c \<longleftrightarrow> True"

lemma lock_free_keeps: "list_all lock_free cs \<Longrightarrow> monitor lock_step held cs = Some held"
proof (induction cs)
  case (Cons c cs)
  then show ?case by (cases c) auto
qed simp

text \<open>From tr to tr' nothing is locked, released or swept.\<close>

definition lock_idle :: "hosttrace \<Rightarrow> hosttrace \<Rightarrow> bool" where
  "lock_idle tr tr' \<longleftrightarrow> (\<exists>cs. tr' = tr @ cs \<and> list_all lock_free cs)"

lemma lock_idle_trans: "lock_idle a b \<Longrightarrow> lock_idle b c \<Longrightarrow> lock_idle a c"
  unfolding lock_idle_def by fastforce

lemma lock_idle_refl [simp]: "lock_idle a a"
  by (simp add: lock_idle_def)

lemma lock_idle_calls: "list_all lock_free cs \<Longrightarrow> lock_idle tr (tr @ cs)"
  by (auto simp: lock_idle_def)

lemma lock_idle_snoc: "lock_idle a b \<Longrightarrow> lock_free c \<Longrightarrow> lock_idle a (b @ [c])"
  by (auto simp: lock_idle_def)

lemma lock_idle_monitor: "lock_idle tr tr' \<Longrightarrow> monitor lock_step [] tr = Some held \<Longrightarrow> monitor lock_step [] tr' = Some held"
  by (auto simp: lock_idle_def monitor_append lock_free_keeps)

lemma removeOwned_idle: "removeOwned h co p tr = (r, tr') \<Longrightarrow> lock_idle tr tr'"
  by (auto simp: removeOwned_def Let_def split: if_splits sum.splits intro!: lock_idle_calls)

lemma replace_leftovers_idle: "replace_leftovers h co ds tr = (r, tr') \<Longrightarrow> lock_idle tr tr'"
proof (induction ds arbitrary: tr)
  case (Cons d ds)
  obtain q tr1 where one: "removeOwned h co d tr = (q, tr1)" by fastforce
  from Cons.IH Cons.prems one removeOwned_idle [OF one] lock_idle_trans show ?case by (cases q) auto
qed simp

lemma remove_all_owned_idle: "remove_all_owned h co ds errs tr = (r, tr') \<Longrightarrow> lock_idle tr tr'"
proof (induction ds arbitrary: tr errs)
  case (Cons d ds)
  obtain q tr1 where one: "removeOwned h co d tr = (q, tr1)" by fastforce
  have "\<exists>es. remove_all_owned h co ds es tr1 = (r, tr')" using Cons.prems one by (cases q) auto
  then show ?case using Cons.IH removeOwned_idle [OF one] lock_idle_trans by blast
qed simp

lemma stamp_idle: "stamp h wd tr = (r, tr') \<Longrightarrow> lock_idle tr tr'"
  by (auto simp: stamp_def Let_def split: sum.splits option.splits intro!: lock_idle_calls)

lemma fill_checkout_idle:
  assumes "fill_checkout h opts co tr = (r, tr')"
  shows "lock_idle tr tr'"
proof -
  obtain q tr1 where one: "replace_leftovers h co [co_Dir co, co_hooksDir co, co_TmpDir co] tr = (q, tr1)" by fastforce
  have "lock_idle tr1 tr'"
    using assms one
    by (cases q) (auto simp: fill_checkout_def requireNotSymlink_def Let_def simp del: replace_leftovers.simps
        split: option.splits intro!: lock_idle_calls)
  then show ?thesis using replace_leftovers_idle [OF one] lock_idle_trans by blast
qed

lemma release_lock_Some: "snd (release_lock h (Some p) tr) = tr @ [PRelease p]"
  by (simp add: release_lock_def)

text \<open>Close looks at each of the three directories and then lets go of the lock, once.\<close>

lemma Close_cases:
  assumes "Close h (Some co) tr = (z, tr')"
  obtains e tr1 where "z = (e, Some (co\<lparr>co_lock := None\<rparr>))" "lock_idle tr tr1"
    "tr' = (case co_lock co of None \<Rightarrow> tr1 | Some p \<Rightarrow> tr1 @ [PRelease p])"
proof -
  obtain errs tr1 where one: "remove_all_owned h co [co_Dir co, co_TmpDir co, co_hooksDir co] [] tr = (errs, tr1)"
    by fastforce
  have "\<exists>e. z = (e, Some (co\<lparr>co_lock := None\<rparr>))" "tr' = snd (release_lock h (co_lock co) tr1)"
    using assms one by (auto simp: Close_def Let_def split: prod.splits simp del: remove_all_owned.simps)
  then show ?thesis using that remove_all_owned_idle [OF one] by (auto simp: release_lock_def)
qed

lemma is_look_free: "list_all is_look cs \<Longrightarrow> list_all lock_free cs"
proof (induction cs)
  case (Cons c cs)
  then show ?case by (cases c) auto
qed simp

lemma prepare_root_idle:
  assumes "prepare_root h opts tr = (r, tr')"
  shows "lock_idle tr tr'"
  using assms by (cases rule: prepare_root_cases) (auto simp: lock_idle_def is_look_free)

lemma prepare_workflow_idle: "prepare_workflow h wd tr = (r, tr') \<Longrightarrow> lock_idle tr tr'"
  by (auto simp: prepare_workflow_def requireNotSymlink_def Let_def split: option.splits intro!: lock_idle_calls)

section \<open>Returning\<close>

text \<open>The locks poll against a clock that advances, the sweep meets no bottomless tree.\<close>

definition host_sane :: "host \<Rightarrow> nat \<Rightarrow> bool" where
  "host_sane h bound \<longleftrightarrow> (\<forall>tr. clock_advances (ho_lock h tr) \<and> shallow (ho_kernel h tr) bound) \<and>
     (\<forall>tr p q. IsAbs p \<longrightarrow> ho_evalSymlinks h tr p = Ok q \<longrightarrow> IsAbs q)"

lemma AcquireLock_path:
  assumes "clock_advances io" and "0 \<le> wait"
  shows "\<exists>r calls. AcquireLock io path wait = Some (r, calls) \<and> (\<forall>l. r = Ok l \<longrightarrow> l = Some path)"
proof (cases "lk_enter io = None \<and> lk_mkdir io (Dir path) = None \<and> lk_open io path = None")
  case True
  then obtain r calls k where "AcquireLock io path wait = Some (r, LMkdirAll (Dir path) # LOpen path # calls)"
    "lock_end io path (lk_start io + wait) 0 k r calls"
    using AcquireLock_ends [OF assms] by blast
  then show ?thesis by (auto elim: lock_endE)
next
  case False
  then show ?thesis by (auto simp: AcquireLock_def Let_def split: option.splits)
qed

text \<open>
  How Prepare ends once the directory is locked. The sweep ran and setup had not ended when
  the lock is kept.
\<close>

definition past_sweep :: "host \<Rightarrow> hosttrace \<Rightarrow> bool" where
  "past_sweep h tr \<longleftrightarrow> (\<exists>a root ex xs b. tr = a @ PSweep root ex xs # b \<and> ho_ctx h (a @ [PSweep root ex xs]) = None)"

fun is_sweep :: "hostcall \<Rightarrow> bool" where
  "is_sweep (PSweep root ex xs) \<longleftrightarrow> True"
| "is_sweep c \<longleftrightarrow> False"

definition unswept :: "hosttrace \<Rightarrow> bool" where
  "unswept tr \<longleftrightarrow> list_all (\<lambda>c. \<not> is_sweep c) tr"

lemma lock_free_unswept: "lock_free c \<Longrightarrow> \<not> is_sweep c"
  by (cases c) auto

lemma unswept_idle: "lock_idle tr tr' \<Longrightarrow> unswept tr \<Longrightarrow> unswept tr'"
  using lock_free_unswept by (auto simp: lock_idle_def unswept_def list_all_iff)

lemma unswept_past: "unswept tr \<Longrightarrow> \<not> past_sweep h tr"
  by (auto simp: unswept_def past_sweep_def)

lemma past_sweep_once:
  assumes "unswept tr" and "unswept cs"
  shows "past_sweep h (tr @ PSweep root ex xs # cs) \<longleftrightarrow> ho_ctx h (tr @ [PSweep root ex xs]) = None"
proof
  assume "past_sweep h (tr @ PSweep root ex xs # cs)"
  then obtain a r e x b where eq: "tr @ PSweep root ex xs # cs = a @ PSweep r e x # b" and ctx: "ho_ctx h (a @ [PSweep r e x]) = None"
    unfolding past_sweep_def by blast
  have "a = tr"
  proof (rule ccontr)
    assume "a \<noteq> tr"
    then obtain us where "tr = a @ us \<and> us @ PSweep root ex xs # cs = PSweep r e x # b \<or> a = tr @ us \<and> PSweep root ex xs # cs = us @ PSweep r e x # b"
      "us \<noteq> []"
      using eq by (auto simp: append_eq_append_conv2)
    then show False using assms by (cases us) (auto simp: unswept_def)
  qed
  then show "ho_ctx h (tr @ [PSweep root ex xs]) = None" using eq ctx by simp
next
  assume "ho_ctx h (tr @ [PSweep root ex xs]) = None"
  then show "past_sweep h (tr @ PSweep root ex xs # cs)" unfolding past_sweep_def by blast
qed

lemma prepare_locked_ends:
  assumes "host_sane h bound" and "monitor lock_step [] tr = Some [p]" and "unswept tr"
  shows "\<exists>r tr'. prepare_locked h opts root wd (Some p) tr = Some (r, tr') \<and>
    (case r of Inl e \<Rightarrow> monitor lock_step [] tr' = Some (if past_sweep h tr' then [p] else [])
     | Inr co \<Rightarrow> co = new_checkout wd (Some p) \<and> monitor lock_step [] tr' = Some [p])"
proof -
  obtain q tr1 where st: "stamp h wd tr = (q, tr1)" by fastforce
  have mon1: "monitor lock_step [] tr1 = Some [p]" by (rule lock_idle_monitor [OF stamp_idle [OF st] assms(2)])
  have un1: "unswept tr1" by (rule unswept_idle [OF stamp_idle [OF st] assms(3)])
  show ?thesis
  proof (cases q)
    case (Some e)
    have "unswept (tr1 @ [PRelease p])" using un1 by (simp add: unswept_def)
    then show ?thesis using st Some mon1 unswept_past by (simp add: prepare_locked_def release_lock_Some monitor_append)
  next
    case None
    have "shallow (ho_kernel h tr1) bound" using assms(1) by (simp add: host_sane_def)
    then obtain n xs where sw: "sweep (ho_kernel h tr1) (op_hooks opts) (Base wd) (ho_now h tr1) [] = Some (n, xs)"
      using sweep_returns [of _ bound "op_hooks opts" "Base wd" _ "[]"] by fastforce
    let ?sw = "PSweep root (Base wd) xs"
    have mon2: "monitor lock_step [] (tr1 @ [?sw]) = Some [p]" using mon1 by (simp add: monitor_append)
    show ?thesis
    proof (cases "ho_ctx h (tr1 @ [?sw])")
      case (Some e)
      have "unswept [PRelease p]" by (simp add: unswept_def)
      then have "\<not> past_sweep h (tr1 @ ?sw # [PRelease p])" using past_sweep_once [OF un1] Some by simp
      then show ?thesis using st None sw Some
        by (simp add: prepare_locked_def release_lock_Some monitor_append [OF mon1] Let_def)
    next
      case ctx: None
      obtain f tr3 where fill: "fill_checkout h opts (new_checkout wd (Some p)) (tr1 @ [?sw]) = (f, tr3)" by fastforce
      have mon3: "monitor lock_step [] tr3 = Some [p]" by (rule lock_idle_monitor [OF fill_checkout_idle [OF fill] mon2])
      show ?thesis
      proof (cases f)
        case None
        then show ?thesis using st \<open>q = None\<close> sw ctx fill mon3 by (simp add: prepare_locked_def Let_def)
      next
        case (Some e)
        obtain cs where "tr3 = tr1 @ ?sw # cs"
          using fill_checkout_idle [OF fill] by (auto simp: lock_idle_def)
        then have "past_sweep h tr3" using ctx unfolding past_sweep_def by blast
        then show ?thesis using st \<open>q = None\<close> sw ctx fill Some mon3
          by (simp add: prepare_locked_def Close_def Let_def)
      qed
    qed
  qed
qed

section \<open>The directories\<close>

lemma existing_ancestor_abs:
  "existing_ancestor h p m tr = (Ok (q, m'), tr') \<Longrightarrow> IsAbs p \<Longrightarrow> IsAbs q"
proof (induction h p m tr arbitrary: tr' rule: existing_ancestor.induct)
  case (1 h existing missing tr)
  show ?case
  proof (cases "\<exists>e. ho_lstat h tr existing = Err e \<and> errors_Is e (S_std ErrNotExist) \<and> Dir existing \<noteq> existing")
    case True
    then obtain e where e: "ho_lstat h tr existing = Err e" "errors_Is e (S_std ErrNotExist)" "Dir existing \<noteq> existing"
      by blast
    then have "existing_ancestor h (Dir existing) (JoinPath [Base existing, missing])
        (tr @ [PLstat existing (ho_lstat h tr existing)]) = (Ok (q, m'), tr')"
      using 1(2) by (simp add: existing_ancestor.simps [of h existing] Let_def)
    from 1(1) [OF refl refl e(1) _ _ this IsAbs_Dir [OF 1(3)]] e show ?thesis by simp
  next
    case False
    then show ?thesis using 1(2,3)
      by (auto simp: existing_ancestor.simps [of h existing] Let_def split: sum.splits if_splits)
  qed
qed

lemma canonicalRoot_clean:
  assumes "host_sane h bound" and "canonicalRoot h root0 tr = (Ok root, tr')"
  shows "\<exists>ns. list_all plain_name ns \<and> root = path_of ns"
proof -
  obtain existing missing tr1 resolved where
    "existing_ancestor h (Clean root0) [] tr = (Ok (existing, missing), tr1)" "IsAbs root0"
    "ho_evalSymlinks h tr1 existing = Ok resolved" "root = JoinPath [resolved, missing]"
    using assms(2) by (auto simp: canonicalRoot_def split: if_splits sum.splits prod.splits)
  moreover from this have "IsAbs resolved"
    using existing_ancestor_abs IsAbs_Clean assms(1) unfolding host_sane_def by blast
  ultimately show ?thesis
    using Clean_abs [of "resolved @ slash # missing"] by (cases resolved) (auto simp: JoinPath_def)
qed

lemma workflow_children:
  assumes "list_all plain_name ns" and "root = path_of ns" and "plain_name n"
  shows "Dir (JoinPath [workflow_dir root key, n]) = workflow_dir root key"
proof -
  have wd: "workflow_dir root key = path_of (ns @ [take keyHashLen (hex_digest key)])"
    unfolding workflow_dir_def assms(2) by (rule JoinPath_child [OF assms(1) workflow_name_plain])
  have all: "list_all plain_name (ns @ [take keyHashLen (hex_digest key)])" using assms(1) workflow_name_plain by simp
  show ?thesis unfolding wd using JoinPath_child [OF all assms(3)] Dir_child [OF all assms(3)] by simp
qed

text \<open>What Close does to a directory that is a child of the workflow directory.\<close>

definition close_attempts :: "string \<Rightarrow> hostcall list \<Rightarrow> bool" where
  "close_attempts d cs \<longleftrightarrow>
     (\<exists>x. PLstat d x \<in> set cs \<and> (\<forall>k. x = Ok k \<and> k \<noteq> Symlink \<longrightarrow> PRemoveAll d \<in> set cs))"

lemma remove_all_owned_attempts:
  "remove_all_owned h co ds errs tr = (r, tr') \<Longrightarrow> \<forall>d \<in> set ds. Dir d = co_workflowDir co \<Longrightarrow>
   \<exists>cs. tr' = tr @ cs \<and> (\<forall>d \<in> set ds. close_attempts d cs)"
proof (induction ds arbitrary: tr errs)
  case (Cons d ds)
  obtain q tr1 where one: "removeOwned h co d tr = (q, tr1)" by fastforce
  have "\<exists>cs. tr1 = tr @ cs \<and> close_attempts d cs"
    using one Cons.prems(2)
    by (auto simp: removeOwned_def close_attempts_def Let_def split: sum.splits if_splits)
  then obtain cs where cs: "tr1 = tr @ cs" "close_attempts d cs" by blast
  have "\<exists>es. remove_all_owned h co ds es tr1 = (r, tr')" using Cons.prems(1) one by (cases q) auto
  then obtain ds' where "tr' = tr1 @ ds'" "\<forall>d \<in> set ds. close_attempts d ds'" using Cons by fastforce
  then show ?case using cs by (intro exI [of _ "cs @ ds'"]) (fastforce simp: close_attempts_def)
qed simp

section \<open>The claims\<close>


text \<open>Closing, and closing again.\<close>

lemma Close_held:
  assumes "Close h (Some co) tr = (z, tr')" and "co_lock co = Some p" and "monitor lock_step [] tr = Some [p]"
    and "\<forall>d \<in> {co_Dir co, co_hooksDir co, co_TmpDir co}. Dir d = co_workflowDir co"
  shows "(\<exists>e. z = (e, Some (co\<lparr>co_lock := None\<rparr>))) \<and> monitor lock_step [] tr' = Some [] \<and>
    (\<exists>cs. tr' = tr @ cs \<and> (\<forall>d \<in> {co_Dir co, co_hooksDir co, co_TmpDir co}. close_attempts d cs))"
proof -
  obtain errs tr1 where one: "remove_all_owned h co [co_Dir co, co_TmpDir co, co_hooksDir co] [] tr = (errs, tr1)"
    by fastforce
  obtain cs where cs: "tr1 = tr @ cs" "\<forall>d \<in> set [co_Dir co, co_TmpDir co, co_hooksDir co]. close_attempts d cs"
    using remove_all_owned_attempts [OF one] assms(4) by auto
  have tr': "tr' = tr1 @ [PRelease p]" and z: "\<exists>e. z = (e, Some (co\<lparr>co_lock := None\<rparr>))"
    using assms(1,2) one
    by (auto simp: Close_def release_lock_def Let_def split: prod.splits simp del: remove_all_owned.simps)
  have "monitor lock_step [] tr1 = Some [p]" by (rule lock_idle_monitor [OF remove_all_owned_idle [OF one] assms(3)])
  then have "monitor lock_step [] tr' = Some []" by (simp add: tr' monitor_append)
  moreover have "\<forall>d \<in> {co_Dir co, co_hooksDir co, co_TmpDir co}. close_attempts d (cs @ [PRelease p])"
    using cs(2) by (auto simp: close_attempts_def)
  ultimately show ?thesis using z tr' cs(1) by auto
qed

lemma Close_again:
  assumes "Close h (Some co) tr = (z, tr')" and "co_lock co = None" and "monitor lock_step [] tr = Some []"
  shows "(\<exists>e. z = (e, Some co)) \<and> monitor lock_step [] tr' = Some []"
  using assms(1)
proof (rule Close_cases)
  fix e tr1
  assume "z = (e, Some (co\<lparr>co_lock := None\<rparr>))" "lock_idle tr tr1"
    "tr' = (case co_lock co of None \<Rightarrow> tr1 | Some p \<Rightarrow> tr1 @ [PRelease p])"
  then show ?thesis using assms(2,3) lock_idle_monitor by (cases co) auto
qed

text \<open>
  C10. Prepare always returns. On success exactly the workflow directory's lock is held, and
  the checkout, hooks and temporary directories are its direct children, so that Close
  attempts to remove each of them; Close gives the lock back whatever fails, and closing again
  releases nothing more. An error up to the sweep has given everything back. An error after
  it, while the checkout is being filled, leaves the lock held: the deferred Close of the
  error path closes nothing, because the failing return has set the named result to nil.
\<close>

theorem prepare_ends:
  assumes "host_sane h bound" and "0 \<le> op_LockWait opts"
  shows "\<exists>r tr. Prepare h opts [] = Some (r, tr) \<and>
    (case r of
       Inl e \<Rightarrow> (if past_sweep h tr then \<exists>p. monitor lock_step [] tr = Some [p] else monitor lock_step [] tr = Some [])
     | Inr co \<Rightarrow>
         monitor lock_step [] tr = Some [JoinPath [co_workflowDir co, ''lock'']] \<and>
         (\<forall>d \<in> {co_Dir co, co_hooksDir co, co_TmpDir co}. Dir d = co_workflowDir co) \<and>
         (case Close h (Some co) tr of
            ((e, co1), tr1) \<Rightarrow>
              monitor lock_step [] tr1 = Some [] \<and>
              (\<exists>cs. tr1 = tr @ cs \<and> (\<forall>d \<in> {co_Dir co, co_hooksDir co, co_TmpDir co}. close_attempts d cs)) \<and>
              (case Close h co1 tr1 of ((e2, co2), tr2) \<Rightarrow> co2 = co1 \<and> monitor lock_step [] tr2 = Some [])))"
proof -
  obtain q tr1 where q: "prepare_root h opts [] = (q, tr1)" by fastforce
  have free1: "monitor lock_step [] tr1 = Some []" by (rule lock_idle_monitor [OF prepare_root_idle [OF q]]) simp
  have un1: "unswept tr1" by (rule unswept_idle [OF prepare_root_idle [OF q]]) (simp add: unswept_def)
  show ?thesis
  proof (cases q)
    case (Inl e)
    then show ?thesis using q free1 unswept_past [OF un1] by (simp add: Prepare_def)
  next
    case (Inr root)
    let ?wd = "workflow_dir root (op_WorkflowKey opts)"
    let ?p = "lock_path ?wd" and ?wait = "if op_LockWait opts = 0 then LockWait else op_LockWait opts"
    obtain w tr2 where w: "prepare_workflow h ?wd tr1 = (w, tr2)" by fastforce
    have free2: "monitor lock_step [] tr2 = Some []" by (rule lock_idle_monitor [OF prepare_workflow_idle [OF w] free1])
    have un2: "unswept tr2" by (rule unswept_idle [OF prepare_workflow_idle [OF w] un1])
    have none: "unswept (tr2 @ [PLock (lock_path ?wd) False])" using un2 by (simp add: unswept_def)
    show ?thesis
    proof (cases w)
      case (Some e)
      then show ?thesis using q Inr w free2 unswept_past [OF un2] by (simp add: Prepare_def Let_def)
    next
      case None
      have "clock_advances (ho_lock h tr2)" "0 \<le> ?wait" using assms by (simp_all add: host_sane_def LockWait_def)
      then obtain l calls where l: "AcquireLock (ho_lock h tr2) ?p ?wait = Some (l, calls)" "\<And>k. l = Ok k \<Longrightarrow> k = Some ?p"
        using AcquireLock_path by blast
      show ?thesis
      proof (cases l)
        case (Inl e)
        then show ?thesis using q Inr w None l free2 unswept_past [OF none] by (simp add: Prepare_def Let_def monitor_append)
      next
        case lk: (Inr k)
        then have k: "k = Some ?p" using l(2) by blast
        have "monitor lock_step [] (tr2 @ [PLock ?p True]) = Some [?p]" using free2 by (simp add: monitor_append)
        moreover have un: "unswept (tr2 @ [PLock ?p True])" using un2 by (simp add: unswept_def)
        ultimately obtain r tr where
          run: "prepare_locked h opts root ?wd (Some ?p) (tr2 @ [PLock ?p True]) = Some (r, tr)" and
          fin: "case r of Inl e \<Rightarrow> monitor lock_step [] tr = Some (if past_sweep h tr then [?p] else [])
            | Inr co \<Rightarrow> co = new_checkout ?wd (Some ?p) \<and> monitor lock_step [] tr = Some [?p]"
          using prepare_locked_ends [OF assms(1)] by blast
        have prep: "Prepare h opts [] = Some (r, tr)" using q Inr w None l(1) lk k run by (simp add: Prepare_def Let_def)
        show ?thesis
        proof (cases r)
          case (Inl e)
          then show ?thesis using prep fin by auto
        next
          case r: (Inr co)
          have co: "co = new_checkout ?wd (Some ?p)" and held: "monitor lock_step [] tr = Some [?p]" using fin r by simp_all
          obtain root0 tr0 where "canonicalRoot h root0 [] = (Ok root, tr0)"
            using q Inr by (cases rule: prepare_root_cases) auto
          then obtain ns where ns: "list_all plain_name ns" "root = path_of ns" using canonicalRoot_clean [OF assms(1)] by blast
          have "plain_name checkoutName" "plain_name hooksName" "plain_name tmpName"
            by (simp_all add: plain_name_def scratch_names)
          then have children: "\<forall>d \<in> {co_Dir co, co_hooksDir co, co_TmpDir co}. Dir d = co_workflowDir co"
            using workflow_children [OF ns] by (simp add: co new_checkout_def)
          obtain z trc where close: "Close h (Some co) tr = (z, trc)" by fastforce
          have "co_lock co = Some ?p" by (simp add: co new_checkout_def)
          note first = Close_held [OF close this held children]
          then obtain e where z: "z = (e, Some (co\<lparr>co_lock := None\<rparr>))" by blast
          obtain z2 trd where again: "Close h (Some (co\<lparr>co_lock := None\<rparr>)) trc = (z2, trd)" by fastforce
          have second: "(\<exists>e. z2 = (e, Some (co\<lparr>co_lock := None\<rparr>))) \<and> monitor lock_step [] trd = Some []"
            by (rule Close_again [OF again]) (use first in simp_all)
          have lock: "JoinPath [co_workflowDir co, ''lock''] = ?p" by (simp add: co new_checkout_def lockName_def)
          show ?thesis
            by (intro exI [of _ r] exI [of _ tr]) (use prep r held children close z first second again lock in auto)
        qed
      qed
    qed
  qed
qed

section \<open>A sample host\<close>

definition free_lock :: LockIO where
  "free_lock = held_lock\<lparr>lk_flock := (\<lambda>n. None)\<rparr>"

lemma free_lock_granted: "AcquireLock free_lock path wait = Some (Ok (Some path), [LMkdirAll (Dir path), LOpen path, LFlock 0])"
  by (simp add: AcquireLock_def lock_loop.simps free_lock_def held_lock_def Let_def)

text \<open>Everything is there and is a directory; removing anything fails.\<close>

definition sample_host :: host where
  "sample_host =
     \<lparr>ho_env = [], ho_cacheDir = Ok ''/c'', ho_ctx = (\<lambda>tr. None), ho_lstat = (\<lambda>tr p. Ok Directory),
      ho_evalSymlinks = (\<lambda>tr p. Ok p), ho_mkdirAll = (\<lambda>tr p. None), ho_mkdir = (\<lambda>tr p. None),
      ho_lock = (\<lambda>tr. free_lock), ho_unlock = (\<lambda>tr. (None, None)), ho_createTemp = (\<lambda>tr d p. Ok ''tmp''),
      ho_write = (\<lambda>tr. None), ho_close = (\<lambda>tr. None), ho_rename = (\<lambda>tr a b. None),
      ho_kernel = (\<lambda>tr. sample_kernel\<lparr>ke_open := (\<lambda>xs fd. Some (Sentinel (S_std ENOENT)))\<rparr>), ho_now = (\<lambda>tr. 5),
      ho_removeAll = (\<lambda>tr p. Some (System ''busy'')), ho_git = (\<lambda>tr. undefined)\<rparr>"

definition sample_options :: Options where
  "sample_options =
     \<lparr>op_Root = ''/x'', op_WorkflowKey = ''k'', op_Repo = \<lparr>rp_Worktree = ''/r'', rp_CommonDir = ''/r/.git''\<rparr>,
      op_Commit = ''c'', op_LockWait = 0, op_hooks = \<lparr>hk_sameDevice = None\<rparr>\<rparr>"

definition sample_wd :: string where
  "sample_wd = workflow_dir ''/x'' ''k''"

lemma sample_host_sane: "host_sane sample_host 1"
proof -
  have "clock_advances free_lock" using held_lock_ok(1) by (simp add: clock_advances_def free_lock_def)
  then show ?thesis by (simp add: host_sane_def sample_host_def shallow_def)
qed

lemma sample_children:
  assumes "plain_name n"
  shows "Dir (JoinPath [sample_wd, n]) = sample_wd"
  unfolding sample_wd_def
  by (rule workflow_children [of "[''x'']", OF _ _ assms]) (simp_all add: plain_name_def path_of_def)

text \<open>
  The run that finds a leftover checkout it cannot remove: Prepare fails, and the lock it took
  is still held.
\<close>

lemma sample_prepare:
  "\<exists>pre. Prepare sample_host sample_options [] =
     Some (Err (Errorf ''remove'' [System ''busy'']), (pre @ [PLstat (JoinPath [sample_wd, checkoutName]) (Ok Directory)]) @
       PRemoveAll (JoinPath [sample_wd, checkoutName]) # []) \<and>
     monitor lock_step [] pre = Some [lock_path sample_wd]"
proof -
  have clean: "Clean ''/x'' = ''/x''" "JoinPath [''/x'', []] = ''/x''" by code_simp+
  have root: "prepare_root sample_host sample_options [] = (Ok ''/x'', [PLstat ''/x'' (Ok Directory), PEvalSymlinks ''/x'', PMkdirAll ''/x''])"
    using clean
    by (simp add: prepare_root_def canonicalRoot_def existing_ancestor.simps rejectOverlap_def isWithin_def sample_host_def
        sample_options_def)
  let ?wd = "sample_wd"
  let ?tr1 = "[PLstat ''/x'' (Ok Directory), PEvalSymlinks ''/x'', PMkdirAll ''/x'']"
  let ?tr2 = "?tr1 @ [PMkdirAll ?wd, PLstat ?wd (Ok Directory)]"
  have wd: "workflow_dir ''/x'' (op_WorkflowKey sample_options) = ?wd" by (simp add: sample_wd_def sample_options_def)
  have work: "prepare_workflow sample_host ?wd ?tr1 = (None, ?tr2)"
    by (simp add: prepare_workflow_def requireNotSymlink_def sample_host_def Let_def)
  let ?tr3 = "?tr2 @ [PLock (lock_path ?wd) True]"
  let ?tr4 = "?tr3 @ [PCreateTemp ''tmp'', PWriteTemp ''tmp'', PCloseTemp ''tmp'', PRename ''tmp'' (JoinPath [?wd, usedName])]"
  have st: "stamp sample_host ?wd ?tr3 = (None, ?tr4)" by (simp add: stamp_def sample_host_def Let_def)
  let ?tr5 = "?tr4 @ [PSweep ''/x'' (Base ?wd) [XOpen [] False]]"
  have sw: "sweep (ho_kernel sample_host ?tr4) (op_hooks sample_options) (Base ?wd) (ho_now sample_host ?tr4) [] =
      Some (0, [XOpen [] False])"
    by (simp add: sweep_def sample_host_def)
  let ?co = "new_checkout ?wd (Some (lock_path ?wd))"
  let ?tr6 = "?tr5 @ [PLstat (co_Dir ?co) (Ok Directory), PRemoveAll (co_Dir ?co)]"
  have child: "Dir (co_Dir ?co) = co_workflowDir ?co"
    using sample_children [of checkoutName] by (simp add: new_checkout_def plain_name_def scratch_names)
  then have "removeOwned sample_host ?co (co_Dir ?co) ?tr5 = (Some (Errorf ''remove'' [System ''busy'']), ?tr6)"
    by (simp add: removeOwned_def sample_host_def Let_def)
  then have fill: "fill_checkout sample_host sample_options ?co ?tr5 = (Some (Errorf ''remove'' [System ''busy'']), ?tr6)"
    by (simp add: fill_checkout_def)
  have "ho_ctx sample_host t = None" for t by (simp add: sample_host_def)
  then have "prepare_locked sample_host sample_options ''/x'' ?wd (Some (lock_path ?wd)) ?tr3 =
      Some (Err (Errorf ''remove'' [System ''busy'']), ?tr6)"
    using st sw fill by (simp add: prepare_locked_def Close_def Let_def)
  moreover have "AcquireLock (ho_lock sample_host t) p w = Some (Ok (Some p), [LMkdirAll (Dir p), LOpen p, LFlock 0])" for t p w
    by (simp add: sample_host_def free_lock_granted)
  ultimately have "Prepare sample_host sample_options [] = Some (Err (Errorf ''remove'' [System ''busy'']), ?tr6)"
    using root wd work by (simp add: Prepare_def Let_def)
  moreover have "monitor lock_step [] ?tr5 = Some [lock_path ?wd]" by simp
  ultimately show ?thesis by (intro exI [of _ ?tr5]) (simp add: new_checkout_def)
qed

text \<open>
  An error of Prepare does not imply that its lock was given back: the deferred Close of the
  error path closes nothing.
\<close>

lemma prepare_leaks_lock:
  "\<exists>e tr. Prepare sample_host sample_options [] = Some (Err e, tr) \<and> monitor lock_step [] tr = Some [lock_path sample_wd]"
proof -
  obtain pre where "Prepare sample_host sample_options [] =
      Some (Err (Errorf ''remove'' [System ''busy'']), (pre @ [PLstat (JoinPath [sample_wd, checkoutName]) (Ok Directory)]) @
        PRemoveAll (JoinPath [sample_wd, checkoutName]) # [])"
    "monitor lock_step [] pre = Some [lock_path sample_wd]"
    using sample_prepare by blast
  then show ?thesis by (auto simp: monitor_append)
qed


lemma prepare_ends_witness: "\<exists>r tr. Prepare sample_host sample_options [] = Some (r, tr) \<and> (is_ok r \<longrightarrow> monitor lock_step [] tr \<noteq> Some [])"
  using prepare_ends [OF sample_host_sane, of sample_options] by (auto simp: sample_options_def is_ok_iff)

end
