(* ===== verification/Wire.thy ===== *)
theory Wire
  imports Errors Json
begin

text \<open>
  internal/appserver: the protocol values (wire.go), the policy a thread must report back,
  the TOML quoting of configuration overrides, and the bounded warning list (client.go,
  conn.go). Messages are decoded values here; Protocol has them as bytes.
\<close>

section \<open>Protocol values\<close>

definition sandboxReadOnly :: string where "sandboxReadOnly = ''read-only''"
definition sandboxWorkspaceWrite :: string where "sandboxWorkspaceWrite = ''workspace-write''"
definition sandboxPolicyReadOnly :: string where "sandboxPolicyReadOnly = ''readOnly''"
definition sandboxPolicyWorkspaceWrite :: string where "sandboxPolicyWorkspaceWrite = ''workspaceWrite''"
definition approvalNever :: string where "approvalNever = ''never''"
definition turnStatusCompleted :: string where "turnStatusCompleted = ''completed''"
definition turnStatusFailed :: string where "turnStatusFailed = ''failed''"
definition turnStatusInterrupted :: string where "turnStatusInterrupted = ''interrupted''"
definition itemTypeExitedReviewMode :: string where "itemTypeExitedReviewMode = ''exitedReviewMode''"
definition itemTypeAgentMessage :: string where "itemTypeAgentMessage = ''agentMessage''"

lemmas protocol_defs = sandboxReadOnly_def sandboxWorkspaceWrite_def sandboxPolicyReadOnly_def
  sandboxPolicyWorkspaceWrite_def approvalNever_def turnStatusCompleted_def turnStatusFailed_def
  turnStatusInterrupted_def itemTypeExitedReviewMode_def itemTypeAgentMessage_def

section \<open>Sandbox and thread policy\<close>

record Sandbox =
  sb_Build :: bool
  sb_WritableRoots :: "string list"

definition sb_mode :: "Sandbox \<Rightarrow> string" where
  "sb_mode s = (if sb_Build s then sandboxWorkspaceWrite else sandboxReadOnly)"

record sandboxPolicy =
  sp_Type :: string
  sp_NetworkAccess :: bool
  sp_WritableRoots :: "string list"
  sp_ExcludeSlashTmp :: bool
  sp_ExcludeTmpdirEnvVar :: bool

text \<open>The approval policy is raw JSON; the field is the string it decodes to, None when it is no string.\<close>

record threadResponse =
  tr_ThreadID :: string
  tr_Model :: string
  tr_ReasoningEffort :: "string option"
  tr_ApprovalPolicy :: "string option"
  tr_Sandbox :: sandboxPolicy
  tr_Cwd :: string

record Thread =
  th_ID :: string
  th_Model :: string
  th_ReasoningEffort :: string

fun seen_all :: "string list \<Rightarrow> string list \<Rightarrow> string list option" where
  "seen_all seen [] = Some seen"
| "seen_all seen (s # ss) = (if s \<in> set seen then None else seen_all (s # seen) ss)"

definition sameSet :: "string list \<Rightarrow> string list \<Rightarrow> bool" where
  "sameSet a b =
     (if length a \<noteq> length b then False
      else (case seen_all [] a of None \<Rightarrow> False | Some seen \<Rightarrow> list_all (\<lambda>s. s \<in> set seen) b))"

definition checkSandbox :: "sandboxPolicy \<Rightarrow> Sandbox \<Rightarrow> goerror option" where
  "checkSandbox got want =
     (if sp_NetworkAccess got then Some (Errorf ''networkAccess'' [Sentinel (S_client ErrPolicyMismatch)])
      else if \<not> sb_Build want then
        (if sp_Type got \<noteq> sandboxPolicyReadOnly then Some (Errorf ''read-only'' [Sentinel (S_client ErrPolicyMismatch)])
         else None)
      else if sp_Type got \<noteq> sandboxPolicyWorkspaceWrite
        then Some (Errorf ''workspace-write'' [Sentinel (S_client ErrPolicyMismatch)])
      else if \<not> sp_ExcludeSlashTmp got \<or> \<not> sp_ExcludeTmpdirEnvVar got
        then Some (Errorf ''temp root'' [Sentinel (S_client ErrPolicyMismatch)])
      else if \<not> sameSet (sp_WritableRoots got) (sb_WritableRoots want)
        then Some (Errorf ''writable roots'' [Sentinel (S_client ErrPolicyMismatch)])
      else None)"

definition threadFromResponse :: "threadResponse \<Rightarrow> string \<Rightarrow> Sandbox \<Rightarrow> Thread res" where
  "threadFromResponse resp requestedCwd sb =
     (if tr_ThreadID resp = [] then Err (Errorf ''thread response has no id'' [Sentinel (S_client ErrIncompatible)])
      else if tr_Cwd resp \<noteq> requestedCwd then Err (Errorf ''effective cwd'' [Sentinel (S_client ErrPolicyMismatch)])
      else if tr_ApprovalPolicy resp \<noteq> Some approvalNever
        then Err (Errorf ''approval policy'' [Sentinel (S_client ErrPolicyMismatch)])
      else
        (case checkSandbox (tr_Sandbox resp) sb of
           Some e \<Rightarrow> Err e
         | None \<Rightarrow>
             Ok \<lparr>th_ID = tr_ThreadID resp, th_Model = tr_Model resp,
                 th_ReasoningEffort = (case tr_ReasoningEffort resp of None \<Rightarrow> [] | Some e \<Rightarrow> e)\<rparr>))"

section \<open>Configuration overrides\<close>

definition upper_hex :: "nat \<Rightarrow> char" where
  "upper_hex d = (if d < 10 then char_of (48 + d) else char_of (55 + d))"

text \<open>A rune below 32, or 127; a byte that is no UTF-8 ranges as U+FFFD, whose encoding is EF BF BD.\<close>

function toml_body :: "string \<Rightarrow> string" where
  "toml_body s =
     (if s = [] then []
      else if rune_size s = 0 then [CHR 0xEF, CHR 0xBF, CHR 0xBD] @ toml_body (drop 1 s)
      else if rune_size s = 1 then
        (let c = hd s in
         (if c = CHR 0x22 \<or> c = CHR 0x5C then [CHR 0x5C, c]
          else if byte c < 32 \<or> byte c = 127
            then CHR 0x5C # ''u00'' @ [upper_hex (byte c div 16), upper_hex (byte c mod 16)]
          else [c]) @ toml_body (drop 1 s))
      else take (rune_size s) s @ toml_body (drop (rune_size s) s))"
  by pat_completeness auto
termination
  by (relation "measure length") auto

declare toml_body.simps [simp del]

definition tomlString :: "string \<Rightarrow> string" where
  "tomlString s = CHR 0x22 # toml_body s @ [CHR 0x22]"

definition BuildConfigArgs :: "string \<Rightarrow> string \<Rightarrow> string list" where
  "BuildConfigArgs cacheDir tmpDir =
     [''-c'', ''sandbox_workspace_write.writable_roots=['' @ tomlString cacheDir @ '','' @ tomlString tmpDir @ '']'',
      ''-c'', ''sandbox_workspace_write.exclude_slash_tmp=true'',
      ''-c'', ''sandbox_workspace_write.exclude_tmpdir_env_var=true'',
      ''-c'', ''shell_environment_policy.set.TMPDIR='' @ tomlString tmpDir,
      ''-c'', ''shell_environment_policy.set.'' @ ''COUNTERPOINT_CACHE_DIR'' @ ''='' @ tomlString cacheDir]"

section \<open>Warnings\<close>

definition maxWarnings :: nat where
  [size_defs]: "maxWarnings = 32"

definition maxWarningBytes :: nat where
  [size_defs]: "maxWarningBytes = 8192"

definition maxIdentifierLen :: nat where
  [size_defs]: "maxIdentifierLen = 64"

record warning_log =
  wl_warnings :: "string list"
  wl_bytes :: nat
  wl_omitted :: nat

definition no_warnings :: warning_log where
  "no_warnings = \<lparr>wl_warnings = [], wl_bytes = 0, wl_omitted = 0\<rparr>"

definition recordWarning :: "string \<Rightarrow> warning_log \<Rightarrow> warning_log" where
  "recordWarning w c =
     (if length (wl_warnings c) \<ge> maxWarnings \<or> wl_bytes c + length w > maxWarningBytes
      then c\<lparr>wl_omitted := Suc (wl_omitted c)\<rparr>
      else c\<lparr>wl_warnings := wl_warnings c @ [w], wl_bytes := wl_bytes c + length w\<rparr>)"

definition omitted_marker :: "nat \<Rightarrow> string" where
  "omitted_marker n =
     Itoa (int n) @ '' additional app-server warnings omitted (bounded at '' @ Itoa (int maxWarnings) @
     '' entries or '' @ Itoa (int maxWarningBytes) @ '' bytes)''"

definition takeWarnings :: "warning_log \<Rightarrow> string list \<times> warning_log" where
  "takeWarnings c =
     (if wl_omitted c > 0 then wl_warnings c @ [omitted_marker (wl_omitted c)] else wl_warnings c,
      no_warnings)"

definition AppendWarning :: "string list \<Rightarrow> string \<Rightarrow> string list \<times> bool" where
  "AppendWarning xs w =
     (if length xs \<ge> maxWarnings \<or> sum_list (map length xs) + length w > maxWarningBytes then (xs, False)
      else (xs @ [w], True))"

definition truncateIdentifier :: "string \<Rightarrow> string" where
  "truncateIdentifier i = (if length i > maxIdentifierLen then take maxIdentifierLen i @ ''...'' else i)"

definition identifiers :: "string \<Rightarrow> string \<Rightarrow> string" where
  "identifiers itemID turnID =
     (let parts = (if itemID \<noteq> [] then [''item '' @ truncateIdentifier itemID] else []) @
                  (if turnID \<noteq> [] then [''turn '' @ truncateIdentifier turnID] else [])
      in if parts = [] then [] else '' ('' @ Join parts '', '' @ '')'')"

section \<open>Requests of the server\<close>

definition requestCommandApproval :: string where "requestCommandApproval = ''item/commandExecution/requestApproval''"
definition requestFileChangeApproval :: string where "requestFileChangeApproval = ''item/fileChange/requestApproval''"
definition requestPermissions :: string where "requestPermissions = ''item/permissions/requestApproval''"
definition requestUserInput :: string where "requestUserInput = ''item/tool/requestUserInput''"
definition requestLegacyExecApproval :: string where "requestLegacyExecApproval = ''execCommandApproval''"
definition requestLegacyPatchApproval :: string where "requestLegacyPatchApproval = ''applyPatchApproval''"
definition decisionDecline :: string where "decisionDecline = ''decline''"

lemmas request_defs = requestCommandApproval_def requestFileChangeApproval_def requestPermissions_def
  requestUserInput_def requestLegacyExecApproval_def requestLegacyPatchApproval_def decisionDecline_def

text \<open>The answer to a server-originated request: never a grant.\<close>

datatype reply = Decline string | LegacyDenied string | NoPermissions | NoAnswers | MethodNotFound string

definition legacyRejection :: string where
  "legacyRejection = ''Counterpoint reviews in read-only mode and never grants execution or write approval''"

definition handleServerRequest :: "string \<Rightarrow> string \<Rightarrow> string \<Rightarrow> warning_log \<Rightarrow> reply \<times> warning_log" where
  "handleServerRequest meth itemID turnID c =
     (let declined = recordWarning (''declined app-server request '' @ meth @ identifiers itemID turnID) c in
      if meth = requestCommandApproval \<or> meth = requestFileChangeApproval
        then (Decline decisionDecline, declined)
      else if meth = requestLegacyExecApproval \<or> meth = requestLegacyPatchApproval
        then (LegacyDenied legacyRejection, declined)
      else if meth = requestPermissions then (NoPermissions, declined)
      else if meth = requestUserInput then (NoAnswers, declined)
      else (MethodNotFound (''unsupported request: '' @ meth),
            recordWarning (''rejected unsupported app-server request '' @ meth @ identifiers itemID turnID) c))"

section \<open>Token usage reports\<close>

record wireBreakdown =
  wb_InputTokens :: "int option"
  wb_CachedInputTokens :: "int option"
  wb_CacheWriteInputTokens :: "int option"
  wb_OutputTokens :: "int option"
  wb_ReasoningOutputTokens :: "int option"
  wb_TotalTokens :: "int option"

record AppUsageBreakdown =
  ab_Input :: int
  ab_Cached :: int
  ab_CacheWrite :: int
  ab_Output :: int
  ab_Reasoning :: int
  ab_Total :: int

record AppUsage =
  au_Last :: AppUsageBreakdown
  au_Total :: AppUsageBreakdown

definition counter_ok :: "int option \<Rightarrow> bool" where
  "counter_ok c = (case c of None \<Rightarrow> False | Some n \<Rightarrow> \<not> n < 0)"

definition breakdown_valid :: "wireBreakdown option \<Rightarrow> bool" where
  "breakdown_valid b =
     (case b of
        None \<Rightarrow> False
      | Some v \<Rightarrow>
          list_all counter_ok [wb_InputTokens v, wb_CachedInputTokens v, wb_OutputTokens v,
            wb_ReasoningOutputTokens v, wb_TotalTokens v] \<and>
          (case wb_CacheWriteInputTokens v of None \<Rightarrow> True | Some n \<Rightarrow> n \<ge> 0))"

definition counter_at :: "int option \<Rightarrow> int" where
  "counter_at c = (case c of None \<Rightarrow> 0 | Some n \<Rightarrow> n)"

definition breakdown_resolve :: "wireBreakdown option \<Rightarrow> AppUsageBreakdown" where
  "breakdown_resolve b =
     (case b of
        None \<Rightarrow> \<lparr>ab_Input = 0, ab_Cached = 0, ab_CacheWrite = 0, ab_Output = 0, ab_Reasoning = 0, ab_Total = 0\<rparr>
      | Some v \<Rightarrow>
          \<lparr>ab_Input = counter_at (wb_InputTokens v), ab_Cached = counter_at (wb_CachedInputTokens v),
           ab_CacheWrite = counter_at (wb_CacheWriteInputTokens v), ab_Output = counter_at (wb_OutputTokens v),
           ab_Reasoning = counter_at (wb_ReasoningOutputTokens v), ab_Total = counter_at (wb_TotalTokens v)\<rparr>)"

record tokenUsageNotification =
  tu_ThreadID :: string
  tu_TurnID :: string
  tu_Usage :: "(wireBreakdown option \<times> wireBreakdown option) option"

definition tokenUsage_valid :: "tokenUsageNotification \<Rightarrow> bool" where
  "tokenUsage_valid n =
     (case tu_Usage n of None \<Rightarrow> False | Some (l, t) \<Rightarrow> breakdown_valid l \<and> breakdown_valid t)"

end
