(* ===== verification/Watcher.thy ===== *)
theory Watcher
  imports Wire
begin

text \<open>
  The turn watcher of internal/appserver/client.go: a state machine over the notifications
  of the reader goroutine, the text it selects when the turn has ended, and Review, which
  drives it. A notification is its method with the decoded parameters, None where decoding
  fails. The string builders are strings; close(w.done) is the field tw_finished.
\<close>

section \<open>Notifications\<close>

record turnError =
  te_Message :: string
  te_CodexErrorInfo :: string

record threadItem =
  ti_Type :: string
  ti_Text :: string
  ti_Review :: string

record turnInfo =
  tn_ID :: string
  tn_Status :: string
  tn_Error :: "turnError option"
  tn_Items :: "threadItem list"

datatype notification =
    TurnStarted "(string \<times> turnInfo) option"
  | AgentMessageDelta "(string \<times> string \<times> string) option"
  | ItemCompleted "(string \<times> string \<times> threadItem) option"
  | TokenUsage "tokenUsageNotification option"
  | ErrorNotification "(string \<times> string \<times> turnError \<times> bool) option"
  | TurnCompleted "(string \<times> turnInfo) option"
  | OtherNotification string

section \<open>The watcher\<close>

definition maxCollectedText :: nat where
  [size_defs]: "maxCollectedText = 16777216"

definition maxUnattributedUsage :: nat where
  [size_defs]: "maxUnattributedUsage = 4"

record turnWatcher =
  tw_threadID :: string
  tw_turnID :: string
  tw_review :: string
  tw_messages :: string
  tw_deltas :: string
  tw_overflow :: bool
  tw_status :: string
  tw_turnErr :: "turnError option"
  tw_lastErr :: "turnError option"
  tw_usage :: "AppUsage option"
  tw_usageSeen :: nat
  tw_badUsage :: nat
  tw_unattributed :: nat
  tw_unattributedUsage :: "string list"
  tw_finished :: bool

definition newTurnWatcher :: "string \<Rightarrow> turnWatcher" where
  "newTurnWatcher threadID =
     \<lparr>tw_threadID = threadID, tw_turnID = [], tw_review = [], tw_messages = [], tw_deltas = [], tw_overflow = False,
      tw_status = [], tw_turnErr = None, tw_lastErr = None, tw_usage = None, tw_usageSeen = 0, tw_badUsage = 0,
      tw_unattributed = 0, tw_unattributedUsage = [], tw_finished = False\<rparr>"

definition setTurn :: "string \<Rightarrow> turnWatcher \<Rightarrow> bool \<times> turnWatcher" where
  "setTurn i w = (if tw_turnID w = [] then (True, w\<lparr>tw_turnID := i\<rparr>) else (tw_turnID w = i, w))"

definition tw_matches :: "turnWatcher \<Rightarrow> string \<Rightarrow> string \<Rightarrow> bool" where
  "tw_matches w threadID turnID \<longleftrightarrow>
     tw_turnID w \<noteq> [] \<and> threadID = tw_threadID w \<and> turnID \<noteq> [] \<and> turnID = tw_turnID w"

definition append_messages :: "string \<Rightarrow> turnWatcher \<Rightarrow> turnWatcher" where
  "append_messages s w =
     (if tw_overflow w then w
      else if length (tw_messages w) + length s > maxCollectedText then w\<lparr>tw_overflow := True\<rparr>
      else w\<lparr>tw_messages := tw_messages w @ s\<rparr>)"

definition append_deltas :: "string \<Rightarrow> turnWatcher \<Rightarrow> turnWatcher" where
  "append_deltas s w =
     (if tw_overflow w then w
      else if length (tw_deltas w) + length s > maxCollectedText then w\<lparr>tw_overflow := True\<rparr>
      else w\<lparr>tw_deltas := tw_deltas w @ s\<rparr>)"

definition blank_lines :: string where
  "blank_lines = [CHR 0x0A, CHR 0x0A]"

definition handle_item :: "threadItem \<Rightarrow> turnWatcher \<Rightarrow> turnWatcher" where
  "handle_item item w =
     (if ti_Type item = itemTypeExitedReviewMode then w\<lparr>tw_review := ti_Review item\<rparr>
      else if ti_Type item = itemTypeAgentMessage then
        append_messages (ti_Text item)
          (if length (tw_messages w) > 0 then append_messages blank_lines w else w)
      else w)"

definition handle_usage :: "tokenUsageNotification option \<Rightarrow> turnWatcher \<Rightarrow> turnWatcher" where
  "handle_usage params w0 =
     (let w = w0\<lparr>tw_usageSeen := Suc (tw_usageSeen w0)\<rparr> in
      case params of
        None \<Rightarrow> w\<lparr>tw_badUsage := Suc (tw_badUsage w)\<rparr>
      | Some n \<Rightarrow>
          (if tu_ThreadID n = [] \<or> tu_TurnID n = [] then w\<lparr>tw_badUsage := Suc (tw_badUsage w)\<rparr>
           else if \<not> tw_matches w (tu_ThreadID n) (tu_TurnID n) then
             w\<lparr>tw_unattributed := Suc (tw_unattributed w),
               tw_unattributedUsage :=
                 (if length (tw_unattributedUsage w) < maxUnattributedUsage
                  then tw_unattributedUsage w @ [tu_ThreadID n @ ''/'' @ tu_TurnID n]
                  else tw_unattributedUsage w)\<rparr>
           else if \<not> tokenUsage_valid n then w\<lparr>tw_badUsage := Suc (tw_badUsage w)\<rparr>
           else
             w\<lparr>tw_usage :=
                 (case tu_Usage n of
                    None \<Rightarrow> tw_usage w
                  | Some (l, t) \<Rightarrow> Some \<lparr>au_Last = breakdown_resolve l, au_Total = breakdown_resolve t\<rparr>)\<rparr>))"

text \<open>The last review item of the completed turn's items that has text.\<close>

fun review_of_items :: "string \<Rightarrow> threadItem list \<Rightarrow> string" where
  "review_of_items rv [] = rv"
| "review_of_items rv (item # items) =
     review_of_items (if ti_Type item = itemTypeExitedReviewMode \<and> ti_Review item \<noteq> [] then ti_Review item else rv) items"

definition handle_completed :: "string \<Rightarrow> turnInfo \<Rightarrow> turnWatcher \<Rightarrow> turnWatcher" where
  "handle_completed threadID turn w =
     (if \<not> tw_matches w threadID (tn_ID turn) then w
      else
        w\<lparr>tw_status := tn_Status turn, tw_turnErr := tn_Error turn,
          tw_review := (if tw_review w = [] then review_of_items [] (tn_Items turn) else tw_review w),
          tw_finished := True\<rparr>)"

definition is_usage :: "notification \<Rightarrow> bool" where
  "is_usage n = (case n of TokenUsage p \<Rightarrow> True | _ \<Rightarrow> False)"

definition handle :: "notification \<Rightarrow> turnWatcher \<Rightarrow> turnWatcher" where
  "handle n w =
     (if tw_finished w \<and> \<not> is_usage n then w
      else
        (case n of
           TurnStarted p \<Rightarrow>
             (case p of
                None \<Rightarrow> w
              | Some (threadID, turn) \<Rightarrow>
                  (if threadID = tw_threadID w \<and> tw_turnID w = [] \<and> tn_ID turn \<noteq> []
                   then w\<lparr>tw_turnID := tn_ID turn\<rparr> else w))
         | AgentMessageDelta p \<Rightarrow>
             (case p of
                None \<Rightarrow> w
              | Some (threadID, turnID, delta) \<Rightarrow>
                  if tw_matches w threadID turnID then append_deltas delta w else w)
         | ItemCompleted p \<Rightarrow>
             (case p of
                None \<Rightarrow> w
              | Some (threadID, turnID, item) \<Rightarrow>
                  if tw_matches w threadID turnID then handle_item item w else w)
         | TokenUsage p \<Rightarrow> handle_usage p w
         | ErrorNotification p \<Rightarrow>
             (case p of
                None \<Rightarrow> w
              | Some (threadID, turnID, e, willRetry) \<Rightarrow>
                  if tw_matches w threadID turnID \<and> \<not> willRetry then w\<lparr>tw_lastErr := Some e\<rparr> else w)
         | TurnCompleted p \<Rightarrow>
             (case p of None \<Rightarrow> w | Some (threadID, turn) \<Rightarrow> handle_completed threadID turn w)
         | OtherNotification m \<Rightarrow> w))"

definition handle_all :: "notification list \<Rightarrow> turnWatcher \<Rightarrow> turnWatcher" where
  "handle_all ns w = foldl (\<lambda>w n. handle n w) w ns"

section \<open>The result\<close>

definition result_text :: "turnWatcher \<Rightarrow> string res" where
  "result_text r =
     (if tw_review r \<noteq> [] then Ok (tw_review r)
      else if tw_overflow r then Err (Errorf ''accumulated output'' [Sentinel (S_client ErrReviewTooLarge)])
      else if tw_messages r \<noteq> [] then Ok (tw_messages r)
      else if tw_deltas r \<noteq> [] then Ok (tw_deltas r)
      else Err (Sentinel (S_client ErrNoReviewText)))"

datatype waitOutcome = turnFinished | connectionClosed | callerCancelled

text \<open>
  The select of awaitTurn: picked is the ready channel it chose (any of the ready ones), and
  done whether the turn has finished when it is looked at again.
\<close>

definition awaitTurn :: "bool \<Rightarrow> waitOutcome \<Rightarrow> waitOutcome" where
  "awaitTurn finished picked =
     (case picked of
        turnFinished \<Rightarrow> turnFinished
      | connectionClosed \<Rightarrow> if finished then turnFinished else connectionClosed
      | callerCancelled \<Rightarrow> if finished then turnFinished else callerCancelled)"

section \<open>Review\<close>

record reviewStartResponse =
  rs_ReviewThreadID :: string
  rs_TurnID :: string

record Review =
  rv_TurnID :: string
  rv_Text :: string
  rv_Warnings :: "string list"
  rv_Usage :: "AppUsage option"

text \<open>
  What one call of Review observes: the notifications handled before review/start answered,
  its answer, the context then; the notifications handled until the wait ended, how the wait
  was woken, why the connection closed and why the context ended; the notifications of the
  grace window; the warnings recorded by then.
\<close>

record ReviewIO =
  ri_before :: "notification list"
  ri_start :: "reviewStartResponse res"
  ri_ctx :: "goerror option"
  ri_during :: "notification list"
  ri_picked :: waitOutcome
  ri_closedErr :: goerror
  ri_ctxErr :: goerror
  ri_grace :: "notification list"
  ri_warnings :: warning_log

text \<open>The second component says whether turn/interrupt was sent, and for which turn.\<close>

definition review_result :: "ReviewIO \<Rightarrow> string \<Rightarrow> turnWatcher \<Rightarrow> Review res" where
  "review_result io turnID w =
     (let final = (if tw_status w = turnStatusCompleted then handle_all (ri_grace io) w else w);
          warnings = fst (takeWarnings (ri_warnings io))
      in
      if tw_status final = turnStatusCompleted then
        (case result_text final of
           Inl e \<Rightarrow> Err e
         | Inr txt \<Rightarrow>
             Ok \<lparr>rv_TurnID = turnID, rv_Text = txt, rv_Warnings = warnings, rv_Usage = tw_usage final\<rparr>)
      else if tw_status final = turnStatusFailed then Err (Errorf ''turn failed'' [Sentinel (S_client ErrTurnFailed)])
      else if tw_status final = turnStatusInterrupted
        then Err (Errorf ''by app-server'' [Sentinel (S_client ErrTurnInterrupted)])
      else Err (Errorf ''unexpected terminal status'' [Sentinel (S_client ErrTurnFailed)]))"

definition client_Review :: "ReviewIO \<Rightarrow> string \<Rightarrow> Review res \<times> string option" where
  "client_Review io threadID =
     (let w0 = handle_all (ri_before io) (newTurnWatcher threadID) in
      case ri_start io of
        Inl err \<Rightarrow>
          (if ri_ctx io \<noteq> None \<and> tw_turnID w0 \<noteq> []
           then (Err (Errorf ''interrupted'' [Sentinel (S_client ErrTurnInterrupted), err]), Some (tw_turnID w0))
           else (Err err, None))
      | Inr resp \<Rightarrow>
          (if rs_TurnID resp = [] then (Err (Errorf ''no turn id'' [Sentinel (S_client ErrIncompatible)]), None)
           else if rs_ReviewThreadID resp \<noteq> threadID
             then (Err (Errorf ''review/start thread'' [Sentinel (S_client ErrPolicyMismatch)]), None)
           else
             (let (same, w1) = setTurn (rs_TurnID resp) w0 in
              if \<not> same then (Err (Errorf ''turn/started'' [Sentinel (S_client ErrIncompatible)]), None)
              else
                (let w2 = handle_all (ri_during io) w1 in
                 case awaitTurn (tw_finished w2) (ri_picked io) of
                   turnFinished \<Rightarrow> (review_result io (rs_TurnID resp) w2, None)
                 | connectionClosed \<Rightarrow> (Err (Errorf ''review'' [ri_closedErr io]), None)
                 | callerCancelled \<Rightarrow>
                     (Err (Errorf ''interrupted'' [Sentinel (S_client ErrTurnInterrupted), ri_ctxErr io]),
                      Some (rs_TurnID resp))))))"

end
