(* ===== verification/WatcherSpec.thy ===== *)
theory WatcherSpec
  imports Watcher
begin

text \<open>
  What the app-server client promises about a turn: the text it returns is complete, other
  threads and late messages cannot change it, usage is never negative, a finished turn is
  never discarded, and every warning is kept or counted.
\<close>

section \<open>One notification\<close>

lemmas handle_defs = handle_def handle_item_def handle_usage_def handle_completed_def append_messages_def
  append_deltas_def is_usage_def

lemma handle_all_simps [simp]:
  "handle_all [] w = w" "handle_all (n # ns) w = handle_all ns (handle n w)"
  "handle_all (ns @ ms) w = handle_all ms (handle_all ns w)"
  by (simp_all add: handle_all_def)

text \<open>A property of the watcher that every notification keeps, all of them keep.\<close>

lemma handle_all_keeps: "P w \<Longrightarrow> (\<And>n w. P w \<Longrightarrow> P (handle n w)) \<Longrightarrow> P (handle_all ns w)"
  by (induction ns arbitrary: w) simp_all

lemma handle_threadID [simp]: "tw_threadID (handle n w) = tw_threadID w"
  by (simp add: handle_defs Let_def split: notification.split option.split prod.split)

lemma handle_all_threadID [simp]: "tw_threadID (handle_all ns w) = tw_threadID w"
  by (induction ns arbitrary: w) simp_all

lemma newTurnWatcher_threadID [simp]: "tw_threadID (newTurnWatcher t) = t"
  by (simp add: newTurnWatcher_def)

section \<open>Usage\<close>

definition app_counters :: "AppUsageBreakdown \<Rightarrow> int list" where
  "app_counters b = [ab_Input b, ab_Cached b, ab_CacheWrite b, ab_Output b, ab_Reasoning b, ab_Total b]"

definition usage_nonneg :: "AppUsage option \<Rightarrow> bool" where
  "usage_nonneg u =
     (case u of None \<Rightarrow> True | Some v \<Rightarrow> list_all (\<lambda>c. 0 \<le> c) (app_counters (au_Last v) @ app_counters (au_Total v)))"

lemma counter_nonneg: "counter_ok c \<Longrightarrow> 0 \<le> counter_at c" "case c of None \<Rightarrow> True | Some n \<Rightarrow> 0 \<le> n \<Longrightarrow> 0 \<le> counter_at c"
  by (cases c; simp add: counter_ok_def counter_at_def)+

lemma breakdown_resolve_nonneg: "breakdown_valid b \<Longrightarrow> list_all (\<lambda>c. 0 \<le> c) (app_counters (breakdown_resolve b))"
  by (cases b) (simp_all add: breakdown_valid_def breakdown_resolve_def app_counters_def counter_nonneg)

lemma handle_usage_nonneg: "usage_nonneg (tw_usage w) \<Longrightarrow> usage_nonneg (tw_usage (handle n w))"
  using breakdown_resolve_nonneg
  by (auto simp: handle_defs Let_def usage_nonneg_def tokenUsage_valid_def
      split: notification.splits option.splits prod.splits)

section \<open>Finished\<close>

text \<open>What a late notification may still change: the usage and the counters of usage reports.\<close>

definition verdict :: "turnWatcher \<Rightarrow> turnWatcher" where
  "verdict w = w\<lparr>tw_usage := None, tw_usageSeen := 0, tw_badUsage := 0, tw_unattributed := 0, tw_unattributedUsage := []\<rparr>"

lemma handle_usage_verdict: "verdict (handle_usage p w) = verdict w"
  by (simp add: handle_usage_def verdict_def Let_def split: option.split prod.split)

lemma handle_finished: "tw_finished w \<Longrightarrow> verdict (handle n w) = verdict w \<and> tw_finished (handle n w)"
proof (cases "is_usage n")
  case False
  then show "tw_finished w \<Longrightarrow> verdict (handle n w) = verdict w \<and> tw_finished (handle n w)"
    by (simp add: handle_def)
next
  case True
  then obtain p where "n = TokenUsage p" by (cases n) (auto simp: is_usage_def)
  moreover have "tw_finished (handle_usage p w) = tw_finished w"
    by (simp add: handle_usage_def Let_def split: option.split prod.split)
  ultimately show "tw_finished w \<Longrightarrow> verdict (handle n w) = verdict w \<and> tw_finished (handle n w)"
    using handle_usage_verdict [of p w] by (simp add: handle_def is_usage_def)
qed

lemma handle_all_finished: "tw_finished w \<Longrightarrow> verdict (handle_all ns w) = verdict w"
proof (induction ns arbitrary: w)
  case (Cons n ns)
  then show ?case using handle_finished [of w n] by simp
qed simp

section \<open>Other threads and turns\<close>

text \<open>The thread a notification names; one that names none, or cannot be decoded, concerns no thread.\<close>

definition names_thread :: "string \<Rightarrow> notification \<Rightarrow> bool" where
  "names_thread threadID n =
     (case n of
        TurnStarted (Some (t, _)) \<Rightarrow> t = threadID
      | AgentMessageDelta (Some (t, _)) \<Rightarrow> t = threadID
      | ItemCompleted (Some (t, _)) \<Rightarrow> t = threadID
      | TokenUsage (Some u) \<Rightarrow> tu_ThreadID u = threadID
      | ErrorNotification (Some (t, _)) \<Rightarrow> t = threadID
      | TurnCompleted (Some (t, _)) \<Rightarrow> t = threadID
      | _ \<Rightarrow> False)"

text \<open>The watcher without the diagnostic counters, which also count foreign reports.\<close>

definition essence :: "turnWatcher \<Rightarrow> turnWatcher" where
  "essence w = w\<lparr>tw_usageSeen := 0, tw_badUsage := 0, tw_unattributed := 0, tw_unattributedUsage := []\<rparr>"

lemma handle_foreign: "\<not> names_thread (tw_threadID w) n \<Longrightarrow> essence (handle n w) = essence w"
  by (cases n) (auto simp: handle_defs Let_def essence_def names_thread_def tw_matches_def
      split: option.splits prod.splits)

lemma essence_fields [simp]:
  "tw_threadID (essence w) = tw_threadID w" "tw_turnID (essence w) = tw_turnID w" "tw_review (essence w) = tw_review w"
  "tw_messages (essence w) = tw_messages w" "tw_deltas (essence w) = tw_deltas w" "tw_overflow (essence w) = tw_overflow w"
  "tw_status (essence w) = tw_status w" "tw_usage (essence w) = tw_usage w" "tw_finished (essence w) = tw_finished w"
  by (simp_all add: essence_def)

lemma essence_usage: "essence (handle_usage p (essence w)) = essence (handle_usage p w)"
  by (simp add: handle_usage_def essence_def Let_def tw_matches_def split: option.split prod.split)

lemma essence_item: "essence (handle_item i (essence w)) = essence (handle_item i w)"
  by (simp add: handle_item_def essence_def append_messages_def)

lemma essence_completed: "essence (handle_completed t i (essence w)) = essence (handle_completed t i w)"
  by (simp add: handle_completed_def essence_def tw_matches_def)

lemma tw_matches_essence [simp]: "tw_matches (essence w) t i = tw_matches w t i"
  by (simp add: tw_matches_def)

lemma handle_essence: "essence (handle n (essence w)) = essence (handle n w)"
proof (cases "tw_finished w \<and> \<not> is_usage n")
  case True
  then show ?thesis by (simp add: handle_def essence_def)
next
  case False
  then show ?thesis
    by (cases n)
      (auto simp: handle_def essence_usage essence_item essence_completed is_usage_def append_deltas_def
        essence_def [of "essence w"] split: option.split, auto simp: essence_def)
qed

lemma handle_all_essence: "essence (handle_all ns (essence w)) = essence (handle_all ns w)"
proof (induction ns arbitrary: w)
  case Nil
  show ?case by (simp add: essence_def)
next
  case (Cons n ns)
  have "essence (handle_all ns (handle n (essence w))) = essence (handle_all ns (essence (handle n (essence w))))"
    using Cons.IH by simp
  also have "\<dots> = essence (handle_all ns (essence (handle n w)))" by (simp add: handle_essence)
  finally show ?case using Cons.IH by simp
qed

lemma handle_all_relevant:
  "essence (handle_all (filter (names_thread (tw_threadID w)) ns) w) = essence (handle_all ns w)"
proof (induction ns arbitrary: w)
  case (Cons n ns)
  show ?case
  proof (cases "names_thread (tw_threadID w) n")
    case True
    then show ?thesis using Cons.IH [of "handle n w"] by simp
  next
    case False
    then have "essence (handle_all ns (handle n w)) = essence (handle_all ns w)"
      using handle_foreign handle_all_essence by metis
    then show ?thesis using False Cons.IH by simp
  qed
qed simp

section \<open>The collected text\<close>

text \<open>
  A reference that keeps every agent message and every delta of the turn, however long they
  are, where the builders stop at their bound.
\<close>

definition message_of :: "turnWatcher \<Rightarrow> notification \<Rightarrow> string list" where
  "message_of w n =
     (case n of
        ItemCompleted (Some (t, i, item)) \<Rightarrow>
          if \<not> tw_finished w \<and> tw_matches w t i \<and> ti_Type item = itemTypeAgentMessage then [ti_Text item] else []
      | _ \<Rightarrow> [])"

definition delta_of :: "turnWatcher \<Rightarrow> notification \<Rightarrow> string" where
  "delta_of w n =
     (case n of
        AgentMessageDelta (Some (t, i, d)) \<Rightarrow> if \<not> tw_finished w \<and> tw_matches w t i then d else []
      | _ \<Rightarrow> [])"

fun all_messages :: "turnWatcher \<Rightarrow> notification list \<Rightarrow> string list" where
  "all_messages w [] = []"
| "all_messages w (n # ns) = message_of w n @ all_messages (handle n w) ns"

fun all_deltas :: "turnWatcher \<Rightarrow> notification list \<Rightarrow> string" where
  "all_deltas w [] = []"
| "all_deltas w (n # ns) = delta_of w n @ all_deltas (handle n w) ns"

definition add_message :: "string \<Rightarrow> string \<Rightarrow> string" where
  "add_message m s = (if m = [] then s else m @ blank_lines @ s)"

definition join_messages :: "string \<Rightarrow> string list \<Rightarrow> string" where
  "join_messages m ss = foldl add_message m ss"

lemma handle_collects:
  assumes "\<not> tw_overflow (handle n w)"
  shows "\<not> tw_overflow w \<and> tw_messages (handle n w) = join_messages (tw_messages w) (message_of w n) \<and>
    tw_deltas (handle n w) = tw_deltas w @ delta_of w n"
  using assms
  by (cases n)
    (auto simp: handle_defs Let_def message_of_def delta_of_def join_messages_def add_message_def
      protocol_defs split: option.splits prod.splits if_splits)

lemma handle_all_collects:
  assumes "\<not> tw_overflow (handle_all ns w)"
  shows "\<not> tw_overflow w \<and> tw_messages (handle_all ns w) = join_messages (tw_messages w) (all_messages w ns) \<and>
    tw_deltas (handle_all ns w) = tw_deltas w @ all_deltas w ns"
  using assms
proof (induction ns arbitrary: w)
  case Nil
  then show ?case by (simp add: join_messages_def)
next
  case (Cons n ns)
  then have "\<not> tw_overflow (handle n w)" by simp
  then show ?case using Cons handle_collects [of n w] by (auto simp: join_messages_def)
qed

lemma handle_bounded:
  "length (tw_messages w) \<le> maxCollectedText \<and> length (tw_deltas w) \<le> maxCollectedText \<Longrightarrow>
   length (tw_messages (handle n w)) \<le> maxCollectedText \<and> length (tw_deltas (handle n w)) \<le> maxCollectedText"
  by (cases n) (auto simp: handle_defs Let_def split: option.splits prod.splits)

section \<open>Review\<close>

definition review_started :: "ReviewIO \<Rightarrow> string \<Rightarrow> string \<Rightarrow> turnWatcher" where
  "review_started io turnID threadID = snd (setTurn turnID (handle_all (ri_before io) (newTurnWatcher threadID)))"

definition review_final :: "ReviewIO \<Rightarrow> string \<Rightarrow> string \<Rightarrow> turnWatcher" where
  "review_final io turnID threadID =
     handle_all (ri_grace io) (handle_all (ri_during io) (review_started io turnID threadID))"

definition review_messages :: "ReviewIO \<Rightarrow> string \<Rightarrow> string \<Rightarrow> string list" where
  "review_messages io turnID threadID =
     all_messages (newTurnWatcher threadID) (ri_before io) @
     all_messages (review_started io turnID threadID) (ri_during io @ ri_grace io)"

definition review_deltas :: "ReviewIO \<Rightarrow> string \<Rightarrow> string \<Rightarrow> string" where
  "review_deltas io turnID threadID =
     all_deltas (newTurnWatcher threadID) (ri_before io) @
     all_deltas (review_started io turnID threadID) (ri_during io @ ri_grace io)"

text \<open>The cases in which Review returns a review.\<close>

lemma client_Review_Ok:
  assumes "client_Review io threadID = (Ok r, i)"
  obtains resp where "ri_start io = Ok resp" "rs_TurnID resp \<noteq> []" "rs_ReviewThreadID resp = threadID"
    "i = None" "rv_TurnID r = rs_TurnID resp"
    "result_text (review_final io (rs_TurnID resp) threadID) = Ok (rv_Text r)"
    "rv_Warnings r = fst (takeWarnings (ri_warnings io))"
    "rv_Usage r = tw_usage (review_final io (rs_TurnID resp) threadID)"
proof -
  obtain resp where resp: "ri_start io = Ok resp" "rs_TurnID resp \<noteq> []" "rs_ReviewThreadID resp = threadID"
    using assms by (auto simp: client_Review_def Let_def split: sum.splits if_splits)
  let ?w = "handle_all (ri_during io) (review_started io (rs_TurnID resp) threadID)"
  have "i = None" and res: "review_result io (rs_TurnID resp) ?w = Ok r"
    using assms resp
    by (auto simp: client_Review_def Let_def review_started_def split: prod.splits if_splits waitOutcome.splits)
  then show ?thesis using that [OF resp] 
    by (auto simp: review_result_def Let_def review_final_def split: if_splits sum.splits)
qed

lemma setTurn_fields [simp]:
  "tw_messages (snd (setTurn i w)) = tw_messages w" "tw_deltas (snd (setTurn i w)) = tw_deltas w"
  "tw_overflow (snd (setTurn i w)) = tw_overflow w" "tw_usage (snd (setTurn i w)) = tw_usage w"
  "tw_threadID (snd (setTurn i w)) = tw_threadID w"
  by (simp_all add: setTurn_def)

lemma all_messages_append: "all_messages w (ns @ ms) = all_messages w ns @ all_messages (handle_all ns w) ms"
  by (induction ns arbitrary: w) simp_all

lemma review_final_collects:
  assumes "\<not> tw_overflow (review_final io turnID threadID)"
  shows "tw_messages (review_final io turnID threadID) = join_messages [] (review_messages io turnID threadID) \<and>
    tw_deltas (review_final io turnID threadID) = review_deltas io turnID threadID"
proof -
  have final: "review_final io turnID threadID = handle_all (ri_during io @ ri_grace io) (review_started io turnID threadID)"
    by (simp add: review_final_def)
  note second = handle_all_collects [OF assms [unfolded final]]
  then have "\<not> tw_overflow (handle_all (ri_before io) (newTurnWatcher threadID))"
    by (simp add: review_started_def)
  from handle_all_collects [OF this] show ?thesis using second
    by (simp add: final review_messages_def review_deltas_def join_messages_def)
      (simp add: review_started_def newTurnWatcher_def)
qed

lemma result_text_not_Nil: "result_text w = Ok s \<Longrightarrow> s \<noteq> []"
  by (auto simp: result_text_def split: if_splits)

lemma review_final_usage: "usage_nonneg (tw_usage (review_final io turnID threadID))"
proof -
  have new: "usage_nonneg (tw_usage (newTurnWatcher threadID))" by (simp add: newTurnWatcher_def usage_nonneg_def)
  have keep: "usage_nonneg (tw_usage w) \<Longrightarrow> usage_nonneg (tw_usage (handle_all ns w))" for ns w
    by (rule handle_all_keeps [where P = "\<lambda>w. usage_nonneg (tw_usage w)"]) (simp_all add: handle_usage_nonneg)
  show ?thesis
    unfolding review_final_def review_started_def by (intro keep) (simp add: keep new)
qed


lemma essence_eqD:
  assumes "essence w = essence v"
  shows "tw_turnID w = tw_turnID v" "tw_finished w = tw_finished v" "tw_status w = tw_status v"
    "tw_usage w = tw_usage v" "tw_threadID w = tw_threadID v" "result_text w = result_text v"
proof -
  have "result_text (essence u) = result_text u" for u by (simp add: result_text_def)
  then show "result_text w = result_text v" using assms by metis
qed (use assms in \<open>metis essence_fields\<close>)+

lemma essence_relevant:
  assumes "essence w = essence v" and "tw_threadID w = threadID"
  shows "essence (handle_all (filter (names_thread threadID) ns) w) = essence (handle_all ns v)"
  using handle_all_relevant [of w ns] handle_all_essence [of ns w] handle_all_essence [of ns v] assms by simp

lemma client_Review_alt:
  "client_Review io threadID =
     (case ri_start io of
        Inl err \<Rightarrow>
          (if ri_ctx io \<noteq> None \<and> tw_turnID (handle_all (ri_before io) (newTurnWatcher threadID)) \<noteq> []
           then (Err (Errorf ''interrupted'' [Sentinel (S_client ErrTurnInterrupted), err]),
                 Some (tw_turnID (handle_all (ri_before io) (newTurnWatcher threadID))))
           else (Err err, None))
      | Inr resp \<Rightarrow>
          (if rs_TurnID resp = [] then (Err (Errorf ''no turn id'' [Sentinel (S_client ErrIncompatible)]), None)
           else if rs_ReviewThreadID resp \<noteq> threadID
             then (Err (Errorf ''review/start thread'' [Sentinel (S_client ErrPolicyMismatch)]), None)
           else if \<not> fst (setTurn (rs_TurnID resp) (handle_all (ri_before io) (newTurnWatcher threadID)))
             then (Err (Errorf ''turn/started'' [Sentinel (S_client ErrIncompatible)]), None)
           else
             (case awaitTurn (tw_finished (handle_all (ri_during io) (review_started io (rs_TurnID resp) threadID)))
                     (ri_picked io) of
                turnFinished \<Rightarrow>
                  (review_result io (rs_TurnID resp)
                     (handle_all (ri_during io) (review_started io (rs_TurnID resp) threadID)), None)
              | connectionClosed \<Rightarrow> (Err (Errorf ''review'' [ri_closedErr io]), None)
              | callerCancelled \<Rightarrow>
                  (Err (Errorf ''interrupted'' [Sentinel (S_client ErrTurnInterrupted), ri_ctxErr io]),
                   Some (rs_TurnID resp)))))"
  by (simp add: client_Review_def Let_def review_started_def split_beta split: sum.split waitOutcome.split)

lemma setTurn_essence:
  assumes "essence w = essence v"
  shows "fst (setTurn i w) = fst (setTurn i v) \<and> essence (snd (setTurn i w)) = essence (snd (setTurn i v))"
proof -
  have "fst (setTurn i (essence u)) = fst (setTurn i u) \<and> essence (snd (setTurn i (essence u))) = essence (snd (setTurn i u))" for u
    by (simp add: setTurn_def) (simp add: essence_def)
  then show ?thesis using assms by metis
qed

lemma review_result_essence:
  assumes "essence w = essence v" and "tw_threadID w = threadID"
  shows "review_result (io\<lparr>ri_before := b, ri_during := d, ri_grace := filter (names_thread threadID) (ri_grace io)\<rparr>) i w =
    review_result io i v"
proof -
  have "essence (handle_all (filter (names_thread threadID) (ri_grace io)) w) = essence (handle_all (ri_grace io) v)"
    using essence_relevant [OF assms] .
  from essence_eqD [OF this] essence_eqD [OF assms(1)] show ?thesis
    by (cases "tw_status v = turnStatusCompleted") (simp_all add: review_result_def Let_def protocol_defs split: sum.split)
qed

text \<open>
  What other threads do is invisible: deleting every notification that names another
  thread, or none, anywhere before, during or after the turn, changes neither the review nor
  the decision to interrupt.
\<close>

theorem review_isolated:
  "client_Review
     (io\<lparr>ri_before := filter (names_thread threadID) (ri_before io),
         ri_during := filter (names_thread threadID) (ri_during io),
         ri_grace := filter (names_thread threadID) (ri_grace io)\<rparr>) threadID =
   client_Review io threadID" (is "client_Review ?f threadID = _")
proof -
  let ?b = "handle_all (ri_before io) (newTurnWatcher threadID)"
  let ?fb = "handle_all (ri_before ?f) (newTurnWatcher threadID)"
  have before: "essence ?fb = essence ?b" using essence_relevant [of "newTurnWatcher threadID" "newTurnWatcher threadID" threadID "ri_before io"] by simp
  have started: "essence (review_started ?f i threadID) = essence (review_started io i threadID)"
    and same: "fst (setTurn i ?fb) = fst (setTurn i ?b)" for i
    using setTurn_essence [OF before] by (simp_all add: review_started_def)
  have thread: "tw_threadID (review_started ?f i threadID) = threadID" for i
    by (simp add: review_started_def)
  have during: "essence (handle_all (ri_during ?f) (review_started ?f i threadID)) =
      essence (handle_all (ri_during io) (review_started io i threadID))" for i
    using essence_relevant [OF started thread] by simp
  have result: "review_result ?f i (handle_all (ri_during ?f) (review_started ?f i threadID)) =
      review_result io i (handle_all (ri_during io) (review_started io i threadID))" for i
    using review_result_essence [OF during] thread by simp
  have turn: "tw_turnID ?fb = tw_turnID ?b" using essence_eqD(1) [OF before] .
  show ?thesis
    unfolding client_Review_alt essence_eqD(2) [OF during] turn same result
    by (simp split: sum.split waitOutcome.split)
qed

text \<open>
  A finished turn has priority. When the turn's completion was handled before the wait
  ended, the outcome is the turn's own, whichever of the ready channels the select happened
  to choose: a connection that closes, or a caller that gives up, right after the terminal
  event does not discard a completed review.
\<close>

theorem finished_turn_kept:
  assumes "ri_start io = Ok resp"
    and "tw_finished (handle_all (ri_during io) (review_started io (rs_TurnID resp) threadID))"
  shows "client_Review io threadID = client_Review (io\<lparr>ri_picked := turnFinished\<rparr>) threadID \<and>
    snd (client_Review io threadID) = None"
proof -
  have started: "review_started (io\<lparr>ri_picked := x\<rparr>) i t = review_started io i t" for x i t
    by (simp add: review_started_def)
  have result: "review_result (io\<lparr>ri_picked := x\<rparr>) i w = review_result io i w" for x i w
    by (cases "tw_status w = turnStatusCompleted") (simp_all add: review_result_def Let_def protocol_defs split: sum.split)
  show ?thesis using assms
    by (simp add: client_Review_alt started result awaitTurn_def split: waitOutcome.split)
qed

text \<open>
  A review's usage never has a negative counter, whatever the child reported and in
  whatever order: a malformed, foreign or negative report is refused and leaves the last
  valid one standing.
\<close>

theorem review_usage_nonneg:
  assumes "client_Review io threadID = (Ok r, i)"
  shows "usage_nonneg (rv_Usage r)"
  using client_Review_Ok [OF assms] review_final_usage by metis

section \<open>Witnesses: a turn whose connection closes right after it completes\<close>

definition sample_breakdown :: "wireBreakdown option" where
  "sample_breakdown = Some \<lparr>wb_InputTokens = Some 5, wb_CachedInputTokens = Some 0, wb_CacheWriteInputTokens = None,
     wb_OutputTokens = Some 2, wb_ReasoningOutputTokens = Some 1, wb_TotalTokens = Some 8\<rparr>"

definition sample_review_io :: ReviewIO where
  "sample_review_io =
     \<lparr>ri_before = [TurnStarted (Some (''x'', \<lparr>tn_ID = ''v'', tn_Status = [], tn_Error = None, tn_Items = []\<rparr>))],
      ri_start = Ok \<lparr>rs_ReviewThreadID = ''t'', rs_TurnID = ''u''\<rparr>, ri_ctx = None,
      ri_during =
        [ItemCompleted (Some (''t'', ''u'', \<lparr>ti_Type = itemTypeAgentMessage, ti_Text = ''LGTM'', ti_Review = []\<rparr>)),
         TurnCompleted (Some (''t'', \<lparr>tn_ID = ''u'', tn_Status = turnStatusCompleted, tn_Error = None, tn_Items = []\<rparr>))],
      ri_picked = connectionClosed, ri_closedErr = Sentinel (S_conn ErrProcessExited),
      ri_ctxErr = Sentinel (S_std Canceled),
      ri_grace = [TokenUsage (Some \<lparr>tu_ThreadID = ''t'', tu_TurnID = ''u'', tu_Usage = Some (sample_breakdown, sample_breakdown)\<rparr>)],
      ri_warnings = no_warnings\<rparr>"

definition sample_review :: Review where
  "sample_review = \<lparr>rv_TurnID = ''u'', rv_Text = ''LGTM'', rv_Warnings = [],
     rv_Usage = Some \<lparr>au_Last = breakdown_resolve sample_breakdown, au_Total = breakdown_resolve sample_breakdown\<rparr>\<rparr>"

lemma sample_client_Review: "client_Review sample_review_io ''t'' = (Ok sample_review, None)"
proof -
  have "tokenUsage_valid \<lparr>tu_ThreadID = ''t'', tu_TurnID = ''u'', tu_Usage = Some (sample_breakdown, sample_breakdown)\<rparr>"
    by code_simp
  then show ?thesis
    by (simp add: client_Review_def sample_review_io_def newTurnWatcher_def handle_defs tw_matches_def setTurn_def
        protocol_defs awaitTurn_def review_result_def result_text_def takeWarnings_def no_warnings_def sample_review_def
        size_defs Let_def)
qed


lemma finished_turn_kept_witness:
  "client_Review sample_review_io ''t'' = client_Review (sample_review_io\<lparr>ri_picked := turnFinished\<rparr>) ''t''"
proof -
  have start: "ri_start sample_review_io = Ok \<lparr>rs_ReviewThreadID = ''t'', rs_TurnID = ''u''\<rparr>"
    by (simp add: sample_review_io_def)
  have "tw_finished (handle_all (ri_during sample_review_io) (review_started sample_review_io ''u'' ''t''))"
    by (simp add: review_started_def sample_review_io_def newTurnWatcher_def handle_defs tw_matches_def setTurn_def
        protocol_defs size_defs Let_def)
  then show ?thesis using finished_turn_kept [OF start] by simp
qed

lemma review_usage_nonneg_witness: "usage_nonneg (rv_Usage sample_review)"
  by (rule review_usage_nonneg [OF sample_client_Review])

end
