(* ===== verification/ClientSpec.thy ===== *)
theory ClientSpec
  imports WatcherSpec "HOL-Library.Sublist"
begin

text \<open>
  The rest of the app-server client: the calls of a session as the service makes them, what
  the interface Reviewer of internal/review promises the service (a locale, interpreted on
  the client), the bounded warning lists (one locale, interpreted on both), and the policy a
  thread must have before anything runs on it.
\<close>

section \<open>The calls of a session\<close>

text \<open>
  What the app-server answers: thread/start for a directory and a sandbox mode, thread/resume
  and thread/unarchive for a thread, thread/name/set, and everything one review observes. The
  approval policy never is a constant of both thread requests.
\<close>

record AppServer =
  sv_thread_start :: "string \<Rightarrow> string \<Rightarrow> threadResponse res"
  sv_thread_resume :: "string \<Rightarrow> string \<Rightarrow> string \<Rightarrow> threadResponse res"
  sv_thread_unarchive :: "string \<Rightarrow> string res"
  sv_name_set :: "string \<Rightarrow> string \<Rightarrow> goerror option"
  sv_review :: "string \<Rightarrow> string \<Rightarrow> ReviewIO"

definition client_StartThread :: "AppServer \<Rightarrow> string \<Rightarrow> Sandbox \<Rightarrow> Thread res" where
  "client_StartThread sv cwd sb =
     (case sv_thread_start sv cwd (sb_mode sb) of
        Inl e \<Rightarrow> Err (Errorf ''thread/start'' [e])
      | Inr resp \<Rightarrow> threadFromResponse resp cwd sb)"

definition client_ResumeThread :: "AppServer \<Rightarrow> string \<Rightarrow> string \<Rightarrow> Sandbox \<Rightarrow> Thread res" where
  "client_ResumeThread sv threadID cwd sb =
     (case sv_thread_resume sv threadID cwd (sb_mode sb) of
        Inl e \<Rightarrow> Err (Errorf ''thread/resume'' [e])
      | Inr resp \<Rightarrow>
          (if tr_ThreadID resp \<noteq> threadID then Err (Errorf ''resume returned thread'' [Sentinel (S_client ErrPolicyMismatch)])
           else threadFromResponse resp cwd sb))"

definition client_UnarchiveThread :: "AppServer \<Rightarrow> string \<Rightarrow> goerror option" where
  "client_UnarchiveThread sv threadID =
     (case sv_thread_unarchive sv threadID of
        Inl e \<Rightarrow> Some (Errorf ''thread/unarchive'' [e])
      | Inr i \<Rightarrow>
          (if i \<noteq> threadID then Some (Errorf ''unarchive returned thread'' [Sentinel (S_client ErrIncompatible)])
           else None))"

definition client_SetThreadName :: "AppServer \<Rightarrow> string \<Rightarrow> string \<Rightarrow> goerror option" where
  "client_SetThreadName sv threadID name = map_option (\<lambda>e. Errorf ''thread/name/set'' [e]) (sv_name_set sv threadID name)"

section \<open>The interface the service relies on\<close>

locale reviewer_session =
  fixes start_thread :: "string \<Rightarrow> Sandbox \<Rightarrow> Thread res"
    and resume_thread :: "string \<Rightarrow> string \<Rightarrow> Sandbox \<Rightarrow> Thread res"
    and run_review :: "string \<Rightarrow> string \<Rightarrow> Review res"
  assumes start_has_id: "start_thread cwd sb = Ok t \<Longrightarrow> th_ID t \<noteq> []"
    and resume_same_id: "resume_thread threadID cwd sb = Ok t \<Longrightarrow> th_ID t = threadID \<and> th_ID t \<noteq> []"
    and review_has_text: "run_review threadID prompt = Ok r \<Longrightarrow> rv_Text r \<noteq> [] \<and> usage_nonneg (rv_Usage r)"

lemma threadFromResponse_Ok:
  assumes "threadFromResponse resp cwd sb = Ok t"
  shows "th_ID t = tr_ThreadID resp \<and> tr_ThreadID resp \<noteq> [] \<and> tr_Cwd resp = cwd \<and>
    tr_ApprovalPolicy resp = Some approvalNever \<and> checkSandbox (tr_Sandbox resp) sb = None"
  using assms by (auto simp: threadFromResponse_def split: if_splits option.splits)

interpretation client: reviewer_session "client_StartThread sv" "client_ResumeThread sv"
  "\<lambda>threadID prompt. fst (client_Review (sv_review sv threadID prompt) threadID)" for sv
proof unfold_locales
  fix cwd sb t
  show "client_StartThread sv cwd sb = Ok t \<Longrightarrow> th_ID t \<noteq> []"
    using threadFromResponse_Ok by (auto simp: client_StartThread_def split: sum.splits)
next
  fix threadID cwd sb t
  show "client_ResumeThread sv threadID cwd sb = Ok t \<Longrightarrow> th_ID t = threadID \<and> th_ID t \<noteq> []"
    using threadFromResponse_Ok by (fastforce simp: client_ResumeThread_def split: sum.splits if_splits)
next
  fix threadID prompt r
  assume "fst (client_Review (sv_review sv threadID prompt) threadID) = Ok r"
  then obtain i where run: "client_Review (sv_review sv threadID prompt) threadID = (Ok r, i)"
    by (metis prod.collapse)
  show "rv_Text r \<noteq> [] \<and> usage_nonneg (rv_Usage r)"
    using client_Review_Ok [OF run] result_text_not_Nil review_final_usage by metis
qed

section \<open>Bounded warnings\<close>

definition total_length :: "string list \<Rightarrow> nat" where
  "total_length ws = sum_list (map length ws)"

text \<open>A list of warnings that takes each new one at its end, or leaves it out when a bound is reached.\<close>

locale bounded_log =
  fixes add :: "string \<Rightarrow> 'l \<Rightarrow> 'l"
    and entries :: "'l \<Rightarrow> string list"
    and inv :: "'l \<Rightarrow> bool"
  assumes add_inv: "inv l \<Longrightarrow> inv (add w l)"
    and add_entries: "inv l \<Longrightarrow>
      entries (add w l) =
        (if length (entries l) < maxWarnings \<and> total_length (entries l) + length w \<le> maxWarningBytes
         then entries l @ [w] else entries l)"
begin

definition add_all :: "string list \<Rightarrow> 'l \<Rightarrow> 'l" where
  "add_all ws l = foldl (\<lambda>l w. add w l) l ws"

lemma add_all_bounded:
  assumes "inv l" and "length (entries l) \<le> maxWarnings" and "total_length (entries l) \<le> maxWarningBytes"
  shows "inv (add_all ws l) \<and> length (entries (add_all ws l)) \<le> maxWarnings \<and>
    total_length (entries (add_all ws l)) \<le> maxWarningBytes"
  using assms
proof (induction ws arbitrary: l)
  case Nil
  then show ?case by (simp add: add_all_def)
next
  case (Cons w ws)
  then have "length (entries (add w l)) \<le> maxWarnings \<and> total_length (entries (add w l)) \<le> maxWarningBytes"
    by (simp add: add_entries total_length_def)
  with Cons.IH [of "add w l"] Cons.prems(1) add_inv show ?case by (simp add: add_all_def)
qed

text \<open>What was there stays, in front; what is added is some of the warnings, in their order.\<close>

lemma add_all_keeps:
  assumes "inv l"
  shows "\<exists>kept. entries (add_all ws l) = entries l @ kept \<and> subseq kept ws"
  using assms
proof (induction ws arbitrary: l)
  case Nil
  then show ?case by (simp add: add_all_def)
next
  case (Cons w ws)
  from Cons.IH [OF add_inv [OF Cons.prems]] obtain kept where
    "entries (add_all ws (add w l)) = entries (add w l) @ kept" "subseq kept ws" by blast
  then show ?case using add_entries [OF Cons.prems]
    by (auto simp: add_all_def)
qed

end

definition log_ok :: "warning_log \<Rightarrow> bool" where
  "log_ok c \<longleftrightarrow> wl_bytes c = total_length (wl_warnings c)"

interpretation connlog: bounded_log recordWarning wl_warnings log_ok
  by unfold_locales (auto simp: recordWarning_def log_ok_def total_length_def)

interpretation reviewlog: bounded_log "\<lambda>w ws. fst (AppendWarning ws w)" "\<lambda>ws. ws" "\<lambda>ws. True"
  by unfold_locales (auto simp: AppendWarning_def total_length_def)

definition record_all :: "string list \<Rightarrow> warning_log \<Rightarrow> warning_log" where
  "record_all ws c = foldl (\<lambda>c w. recordWarning w c) c ws"

lemma record_all_eq: "record_all = connlog.add_all"
  by (intro ext) (simp add: record_all_def connlog.add_all_def)

lemma record_all_counts:
  "length (wl_warnings (record_all ws c)) + wl_omitted (record_all ws c) =
   length (wl_warnings c) + wl_omitted c + length ws"
proof (induction ws arbitrary: c)
  case (Cons w ws)
  then show ?case by (simp add: record_all_def recordWarning_def)
qed (simp add: record_all_def)

text \<open>
  Warnings from the untrusted child are bounded and none is lost silently: of any
  sequence of them the client keeps a subsequence within the count and byte bounds, the rest
  is counted, and what a review returns is that subsequence with, when anything was left out,
  one marker that states how many.
\<close>

theorem warnings_bounded_and_counted:
  "let c = record_all ws no_warnings; out = fst (takeWarnings c) in
   length (wl_warnings c) \<le> maxWarnings \<and> total_length (wl_warnings c) \<le> maxWarningBytes \<and>
   subseq (wl_warnings c) ws \<and> length (wl_warnings c) + wl_omitted c = length ws \<and>
   out = wl_warnings c @ (if wl_omitted c = 0 then [] else [omitted_marker (wl_omitted c)])"
proof -
  have ok: "log_ok no_warnings" by (simp add: log_ok_def no_warnings_def total_length_def)
  then show ?thesis
    using connlog.add_all_bounded [OF ok, of ws] connlog.add_all_keeps [OF ok, of ws]
      record_all_counts [of ws no_warnings]
    by (auto simp: record_all_eq no_warnings_def takeWarnings_def total_length_def Let_def)
qed

text \<open>
  A request the server makes is never granted. Whatever it asks, the answer declines,
  denies, grants no permission, answers nothing or reports the method unsupported; and each
  one leaves exactly one warning, kept or counted.
\<close>

theorem server_request_never_granted:
  "fst (handleServerRequest meth itemID turnID c) \<in>
     {Decline ''decline'', LegacyDenied legacyRejection, NoPermissions, NoAnswers,
      MethodNotFound (''unsupported request: '' @ meth)} \<and>
   (let c' = snd (handleServerRequest meth itemID turnID c) in
    length (wl_warnings c') + wl_omitted c' = Suc (length (wl_warnings c) + wl_omitted c))"
  by (simp add: handleServerRequest_def decisionDecline_def recordWarning_def Let_def)

section \<open>The policy of a thread\<close>

lemma seen_all_Some: "seen_all seen ss = Some s' \<Longrightarrow> distinct ss \<and> set s' = set seen \<union> set ss \<and> set seen \<inter> set ss = {}"
proof (induction ss arbitrary: seen)
  case (Cons a ss)
  then have "a \<notin> set seen" and "seen_all (a # seen) ss = Some s'" by (auto split: if_splits)
  from Cons.IH [OF this(2)] this(1) show ?case by auto
qed simp

lemma sameSet_set:
  assumes "sameSet a b" and "distinct b"
  shows "set a = set b \<and> distinct a"
proof -
  obtain seen where "seen_all [] a = Some seen" and sub: "set b \<subseteq> set seen" and len: "length a = length b"
    using assms(1) by (auto simp: sameSet_def list_all_iff split: if_splits option.splits)
  then have a: "distinct a" "set b \<subseteq> set a" using seen_all_Some by fastforce+
  then have "card (set b) = card (set a)" using len assms(2) by (simp add: distinct_card)
  then show ?thesis using a card_subset_eq [of "set a" "set b"] by simp
qed

lemma thread_policy_of_response:
  assumes "threadFromResponse resp cwd sb = Ok t" and "distinct (sb_WritableRoots sb)"
  shows "\<not> sp_NetworkAccess (tr_Sandbox resp) \<and>
    (if sb_Build sb
     then sp_Type (tr_Sandbox resp) = ''workspaceWrite'' \<and> sp_ExcludeSlashTmp (tr_Sandbox resp) \<and>
       sp_ExcludeTmpdirEnvVar (tr_Sandbox resp) \<and>
       set (sp_WritableRoots (tr_Sandbox resp)) = set (sb_WritableRoots sb)
     else sp_Type (tr_Sandbox resp) = ''readOnly'')"
proof -
  have "checkSandbox (tr_Sandbox resp) sb = None" using threadFromResponse_Ok [OF assms(1)] by blast
  then show ?thesis using sameSet_set [OF _ assms(2)]
    by (auto simp: checkSandbox_def protocol_defs split: if_splits)
qed

text \<open>
  A thread that is started or resumed runs under exactly the policy that was asked for,
  or not at all: the working directory is the requested one, approvals are never given, the
  network is off and the sandbox is read-only, or for a build workspace-write with both
  temporary roots excluded and no writable root beyond the ones requested. A resumed thread
  is the one that was asked for.
\<close>

theorem thread_policy_enforced:
  assumes "client_StartThread sv cwd sb = Ok t \<or> client_ResumeThread sv threadID cwd sb = Ok t"
    and "distinct (sb_WritableRoots sb)"
  shows "\<exists>resp :: threadResponse. th_ID t = tr_ThreadID resp \<and> th_ID t \<noteq> [] \<and> tr_Cwd resp = cwd \<and>
    tr_ApprovalPolicy resp = Some ''never'' \<and> \<not> sp_NetworkAccess (tr_Sandbox resp) \<and>
    (if sb_Build sb
     then sp_Type (tr_Sandbox resp) = ''workspaceWrite'' \<and> sp_ExcludeSlashTmp (tr_Sandbox resp) \<and>
       sp_ExcludeTmpdirEnvVar (tr_Sandbox resp) \<and>
       set (sp_WritableRoots (tr_Sandbox resp)) = set (sb_WritableRoots sb)
     else sp_Type (tr_Sandbox resp) = ''readOnly'') \<and>
    (client_StartThread sv cwd sb \<noteq> Ok t \<longrightarrow> th_ID t = threadID)"
proof -
  obtain resp where resp: "threadFromResponse resp cwd sb = Ok t"
    and same: "client_StartThread sv cwd sb \<noteq> Ok t \<longrightarrow> tr_ThreadID resp = threadID"
    using assms(1)
    by (auto simp: client_StartThread_def client_ResumeThread_def split: sum.splits if_splits)
  show ?thesis using threadFromResponse_Ok [OF resp] thread_policy_of_response [OF resp assms(2)] same
    by (intro exI [of _ resp]) (auto simp: protocol_defs)
qed

definition sample_response :: threadResponse where
  "sample_response = \<lparr>tr_ThreadID = ''t'', tr_Model = ''m'', tr_ReasoningEffort = None,
     tr_ApprovalPolicy = Some ''never'',
     tr_Sandbox = \<lparr>sp_Type = ''workspaceWrite'', sp_NetworkAccess = False, sp_WritableRoots = [''/t'', ''/c''],
       sp_ExcludeSlashTmp = True, sp_ExcludeTmpdirEnvVar = True\<rparr>, tr_Cwd = ''/w''\<rparr>"

definition sample_server :: AppServer where
  "sample_server = \<lparr>sv_thread_start = (\<lambda>c m. Ok sample_response), sv_thread_resume = (\<lambda>t c m. Ok sample_response),
     sv_thread_unarchive = Ok, sv_name_set = (\<lambda>t n. None), sv_review = (\<lambda>t p. sample_review_io)\<rparr>"

definition sample_sandbox :: Sandbox where
  "sample_sandbox = \<lparr>sb_Build = True, sb_WritableRoots = [''/c'', ''/t'']\<rparr>"

lemma thread_policy_enforced_witness:
  "\<exists>resp :: threadResponse. tr_ApprovalPolicy resp = Some ''never'' \<and> tr_Cwd resp = ''/w'' \<and> \<not> sp_NetworkAccess (tr_Sandbox resp) \<and>
     set (sp_WritableRoots (tr_Sandbox resp)) = {''/c'', ''/t''}"
proof -
  have "client_StartThread sample_server ''/w'' sample_sandbox =
      Ok \<lparr>th_ID = ''t'', th_Model = ''m'', th_ReasoningEffort = []\<rparr>" by code_simp
  then have run: "client_StartThread sample_server ''/w'' sample_sandbox = Ok \<lparr>th_ID = ''t'', th_Model = ''m'', th_ReasoningEffort = []\<rparr> \<or>
      client_ResumeThread sample_server ''t'' ''/w'' sample_sandbox = Ok \<lparr>th_ID = ''t'', th_Model = ''m'', th_ReasoningEffort = []\<rparr>" ..
  have "distinct (sb_WritableRoots sample_sandbox)" by (simp add: sample_sandbox_def)
  from thread_policy_enforced [OF run this] show ?thesis by (auto simp: sample_sandbox_def)
qed

text \<open>
  The set comparison is not symmetric: duplicates are refused in the effective roots only,
  so an expected list with a repeated entry accepts a root it does not name.
\<close>

lemma sameSet_repeated_expectation: "sameSet [''/cache'', ''/other''] [''/cache'', ''/cache'']"
  by code_simp

end
