(* ===== verification/Service.thy ===== *)
theory Service
  imports Eviction Prompt Request Scratch ClientSpec
begin

text \<open>
  internal/review/review.go: one review round. The service is a function of the environment,
  a record of what every call it makes is answered, each answer a function of the calls made
  so far (so the environment may change its mind, fail at any point, or be changed by other
  processes), and it returns the outcome with the trace of its calls. A deferred call is a
  call appended to the trace when the body has returned. An outcome None is a panic.
\<close>

section \<open>Constants\<close>

definition MaxBranchNotesBytes :: nat where
  [size_defs]: "MaxBranchNotesBytes = 1048576"

definition DefaultReasoningEffort :: string where
  "DefaultReasoningEffort = ''high''"

definition acceptedEfforts :: "string list" where
  "acceptedEfforts = [''low'', ''medium'', ''high'', ''xhigh'']"

definition EffortAccepted :: "string \<Rightarrow> bool" where
  "EffortAccepted s \<longleftrightarrow> s \<in> set acceptedEfforts"

section \<open>Requests, results, calls\<close>

record ReviewRequest =
  req_Repo :: string
  req_Branch :: string
  req_Commit :: string
  req_BranchNotes :: string
  req_Build :: bool

record Result =
  res_Repo :: string
  res_Branch :: string
  res_Commit :: string
  res_Base :: string
  res_Round :: int
  res_Review :: string
  res_Warnings :: "string list"
  res_Replayed :: bool
  res_Usage :: "Usage option"

datatype call =
    CGit string
  | CAcquire string int bool
  | CRelease string
  | CLoad
  | CSave disk
  | CPrepare string string bool
  | CCloseCheckout string
  | CStartReviewer "string list" bool
  | CCloseReviewer
  | CStartThread string Sandbox
  | CResumeThread string string Sandbox
  | CUnarchiveThread string
  | CSetThreadName string string
  | CAddWarning string
  | CReview string string
  | CModified string

type_synonym trace = "call list"

section \<open>The environment\<close>

record env =
  en_git :: "trace \<Rightarrow> gitio"
  en_lock :: "trace \<Rightarrow> string \<Rightarrow> int \<Rightarrow> goerror option"
  en_read :: "trace \<Rightarrow> ReadIO"
  en_disk :: "trace \<Rightarrow> disk"
  en_unmarshal :: "string \<Rightarrow> envelope res"
  en_write :: "trace \<Rightarrow> WriteIO"
  en_ctx :: "trace \<Rightarrow> nat \<Rightarrow> goerror option"
  en_prepare :: "trace \<Rightarrow> string \<Rightarrow> string \<Rightarrow> Checkout res"
  en_newReviewer :: "trace \<Rightarrow> string list \<Rightarrow> goerror option"
  en_start :: "trace \<Rightarrow> string \<Rightarrow> Sandbox \<Rightarrow> Thread res"
  en_resume :: "trace \<Rightarrow> string \<Rightarrow> string \<Rightarrow> Sandbox \<Rightarrow> Thread res"
  en_unarchive :: "trace \<Rightarrow> string \<Rightarrow> goerror option"
  en_name :: "trace \<Rightarrow> string \<Rightarrow> string \<Rightarrow> goerror option"
  en_review :: "trace \<Rightarrow> string \<Rightarrow> string \<Rightarrow> Review res"
  en_setup :: "trace \<Rightarrow> goerror option"
  en_turn :: "trace \<Rightarrow> goerror option"

text \<open>context.Cause of the setup context and of the turn context; None while they have not ended.\<close>

record service =
  se_store :: Store
  se_recordBytes :: "HistoryRecord \<Rightarrow> int"

section \<open>Small decisions\<close>

definition validate_request :: "ReviewRequest \<Rightarrow> goerror option" where
  "validate_request req =
     (if req_Repo req = [] \<or> req_Branch req = [] \<or> req_Commit req = [] \<or> req_BranchNotes req = []
      then Some (Errorf ''repo, branch, commit, and branch_notes are all required'' [Sentinel (S_review ErrInvalidRequest)])
      else if length (req_BranchNotes req) > MaxBranchNotesBytes
        then Some (Errorf ''branch_notes'' [Sentinel (S_review ErrInvalidRequest)])
      else None)"

definition incompleteWorkflowField :: "Workflow \<Rightarrow> string" where
  "incompleteWorkflowField w =
     (if wf_ThreadID w = [] then ''thread_id''
      else if \<not> IsObjectID (wf_LastCommit w) then ''a full object id in last_commit''
      else if \<not> IsObjectID (wf_LastBase w) then ''a full object id in last_base''
      else if wf_LastRequestHash w = [] then ''last_request_hash''
      else if wf_LastReview w = [] then ''last_review''
      else if wf_Round w < 1 then ''a round of at least 1''
      else [])"

definition check_stored :: "Workflow \<Rightarrow> goerror option" where
  "check_stored w =
     (if incompleteWorkflowField w \<noteq> [] then Some (Errorf ''is missing'' [Sentinel (S_review ErrStateInvalid)])
      else if InvalidHistory w \<noteq> [] then Some (Errorf ''history'' [Sentinel (S_review ErrStateInvalid)])
      else if wf_Round w \<ge> MaxInt then Some (Errorf ''round'' [Sentinel (S_review ErrStateInvalid)])
      else None)"

definition replay :: "Workflow \<Rightarrow> bool \<Rightarrow> string \<Rightarrow> Workflow \<times> bool" where
  "replay w known hash =
     (if \<not> known \<or> hash = [] \<or> wf_LastRequestHash w \<noteq> hash then (zero_Workflow, False) else (w, True))"

definition usageBreakdown :: "AppUsageBreakdown \<Rightarrow> UsageBreakdown" where
  "usageBreakdown b =
     \<lparr>ub_Input = ab_Input b, ub_Cached = ab_Cached b, ub_CacheWrite = ab_CacheWrite b, ub_Output = ab_Output b,
      ub_Reasoning = ab_Reasoning b, ub_Total = ab_Total b\<rparr>"

definition usageFrom :: "AppUsage option \<Rightarrow> Usage option" where
  "usageFrom u =
     (case u of
        None \<Rightarrow> None
      | Some v \<Rightarrow>
          (let out = \<lparr>us_Last = usageBreakdown (au_Last v), us_Total = usageBreakdown (au_Total v)\<rparr> in
           if Invalid (Some out) \<noteq> [] then None else Some out))"

text \<open>errors.Is with an error value that need not be a sentinel.\<close>

fun errors_Is_value :: "goerror \<Rightarrow> goerror \<Rightarrow> bool" where
  "errors_Is_value (Errorf op es) t = (Errorf op es = t \<or> list_ex (\<lambda>e. errors_Is_value e t) es)"
| "errors_Is_value (TooLargeError n l p) t = (TooLargeError n l p = t \<or> t = Sentinel (S_state ErrTooLarge))"
| "errors_Is_value e t = (e = t)"

definition setupError :: "goerror option \<Rightarrow> goerror \<Rightarrow> goerror" where
  "setupError cause err =
     (case cause of
        None \<Rightarrow> err
      | Some c \<Rightarrow>
          (if errors_Is_value err c then err
           else if errors_Is c (S_review ErrSetupTimeout) then Errorf ''setup'' [Sentinel (S_review ErrSetupTimeout), err]
           else Errorf ''setup'' [c, err]))"

definition threadName :: "string \<Rightarrow> string \<Rightarrow> string" where
  "threadName worktree branchRef =
     ''Counterpoint review: '' @ Base worktree @ '' '' @ TrimPrefix branchRef ''refs/heads/''"

definition abbreviate :: "string \<Rightarrow> string" where
  "abbreviate i = (if length i > 12 then take 12 i @ ''...'' else i)"

section \<open>The state file\<close>

text \<open>acquireStateLock: a refusal because another holder has it is reported as a busy state file.\<close>

definition acquireStateLock :: "env \<Rightarrow> service \<Rightarrow> int \<Rightarrow> trace \<Rightarrow> goerror option \<times> trace" where
  "acquireStateLock en s wait tr =
     (let path = LockPath (se_store s) in
      case en_lock en tr path wait of
        None \<Rightarrow> (None, tr @ [CAcquire path wait True])
      | Some e \<Rightarrow>
          (Some (if errors_Is e (S_lock ErrLocked) then Errorf ''the state file is busy'' [e] else e),
           tr @ [CAcquire path wait False]))"

definition load_state :: "env \<Rightarrow> service \<Rightarrow> trace \<Rightarrow> (State res \<times> Store) \<times> trace" where
  "load_state en s tr = (Load (en_unmarshal en) (en_read en tr) (se_store s) (en_disk en tr), tr @ [CLoad])"

definition loadWorkflow :: "env \<Rightarrow> service \<Rightarrow> string \<Rightarrow> trace \<Rightarrow> (Workflow \<times> bool) res \<times> trace" where
  "loadWorkflow en s key tr =
     (case acquireStateLock en s LockWait tr of
        (Some e, tr1) \<Rightarrow> (Err e, tr1)
      | (None, tr1) \<Rightarrow>
          (case load_state en s tr1 of
             ((r, st), tr2) \<Rightarrow>
               (case r of Inl e \<Rightarrow> Err e | Inr m \<Rightarrow> Ok (Get m key), tr2 @ [CRelease (LockPath (se_store s))])))"

text \<open>What saveCompleted decides once the state has been read again; None is a panic.\<close>

definition reconcile ::
  "State \<Rightarrow> string \<Rightarrow> Workflow \<Rightarrow> bool \<Rightarrow> HistoryRecord \<Rightarrow> Workflow \<Rightarrow> State res option"
where
  "reconcile st key before known previous dn =
     (let (fresh, present) = Get st key in
      if present \<noteq> known \<or> (known \<and> \<not> SameReplayFields fresh before)
      then Some (Err (Errorf ''changed during the review'' [Sentinel (S_review ErrStateInvalid)]))
      else if \<not> known then Some (Ok (Put st key dn))
      else if InvalidHistory fresh \<noteq> []
        then Some (Err (Errorf ''changed during the review'' [Sentinel (S_review ErrStateInvalid)]))
      else
        (case RetainHistory (wf_History fresh) previous (wf_LastReview dn) of
           None \<Rightarrow> None
         | Some h \<Rightarrow> Some (Ok (Put st key (dn\<lparr>wf_History := h\<rparr>)))))"

definition saveCompleted ::
  "env \<Rightarrow> service \<Rightarrow> string \<Rightarrow> Workflow \<Rightarrow> bool \<Rightarrow> HistoryRecord \<Rightarrow> Workflow \<Rightarrow> trace \<Rightarrow>
   goerror option option \<times> trace"
where
  "saveCompleted en s key before known previous dn tr =
     (case acquireStateLock en s FinalSaveLockWait tr of
        (Some e, tr1) \<Rightarrow> (Some (Some e), tr1)
      | (None, tr1) \<Rightarrow>
          (let rel = CRelease (LockPath (se_store s)) in
           case load_state en s tr1 of
             ((Inl e, st), tr2) \<Rightarrow> (Some (Some e), tr2 @ [rel])
           | ((Inr m, st), tr2) \<Rightarrow>
               (case reconcile m key before known previous dn of
                  None \<Rightarrow> (None, tr2 @ [rel])
                | Some (Inl e) \<Rightarrow> (Some (Some e), tr2 @ [rel])
                | Some (Inr m') \<Rightarrow>
                    (case saveEvictingHistory (en_write en tr2) (en_ctx en tr2) (se_recordBytes s) st m' (en_disk en tr2) of
                       None \<Rightarrow> (None, tr2 @ [rel])
                     | Some ev \<Rightarrow> (Some (ev_err ev), tr2 @ [CSave (ev_disk ev), rel])))))"

section \<open>The thread\<close>

definition unarchived_warning :: string where
  "unarchived_warning = ''the stored Codex thread was archived; Counterpoint unarchived it and resumed the review there''"

definition not_named_warning :: string where
  "not_named_warning = ''the new Codex thread could not be named; see the Counterpoint log''"

text \<open>Resuming, and once more after unarchiving when the app-server refused and setup has not ended.\<close>

definition resume_attempts :: "env \<Rightarrow> string \<Rightarrow> string \<Rightarrow> Sandbox \<Rightarrow> trace \<Rightarrow> Thread res \<times> trace" where
  "resume_attempts en threadID cwd sb tr =
     (let r = en_resume en tr threadID cwd sb; tr1 = tr @ [CResumeThread threadID cwd sb] in
      case r of
        Inr t \<Rightarrow> (Ok t, tr1)
      | Inl e \<Rightarrow>
          (if errors_As as_ServerError e \<noteq> None \<and> en_setup en tr1 = None then
             (let tr2 = tr1 @ [CUnarchiveThread threadID] in
              case en_unarchive en tr1 threadID of
                Some u \<Rightarrow> (Err e, tr2)
              | None \<Rightarrow>
                  (if en_setup en tr2 = None then
                     (let tr3 = tr2 @ [CAddWarning unarchived_warning] in
                      (en_resume en tr3 threadID cwd sb, tr3 @ [CResumeThread threadID cwd sb]))
                   else (Err e, tr2)))
           else (Err e, tr1)))"

definition resume_stored :: "env \<Rightarrow> string \<Rightarrow> string \<Rightarrow> Sandbox \<Rightarrow> trace \<Rightarrow> Thread res \<times> trace" where
  "resume_stored en threadID cwd sb tr =
     (case resume_attempts en threadID cwd sb tr of
        (Inr t, tr1) \<Rightarrow> (Ok t, tr1)
      | (Inl e, tr1) \<Rightarrow>
          (case en_setup en tr1 of
             Some c \<Rightarrow> (Err (setupError (Some c) e), tr1)
           | None \<Rightarrow> (Err (Errorf ''resume'' [Sentinel (S_review ErrThreadUnavailable), e]), tr1)))"

definition start_new :: "env \<Rightarrow> string \<Rightarrow> string \<Rightarrow> string \<Rightarrow> Sandbox \<Rightarrow> trace \<Rightarrow> Thread res \<times> trace" where
  "start_new en worktree branchRef cwd sb tr =
     (let tr1 = tr @ [CStartThread cwd sb] in
      case en_start en tr cwd sb of
        Inl e \<Rightarrow> (Err (setupError (en_setup en tr1) e), tr1)
      | Inr t \<Rightarrow>
          (let name = threadName worktree branchRef; tr2 = tr1 @ [CSetThreadName (th_ID t) name] in
           case en_name en tr1 (th_ID t) name of
             None \<Rightarrow> (Ok t, tr2)
           | Some n \<Rightarrow>
               (case en_setup en tr2 of
                  Some c \<Rightarrow> (Err (setupError (Some c) n), tr2)
                | None \<Rightarrow> (Ok t, tr2 @ [CAddWarning not_named_warning]))))"

section \<open>The round\<close>

text \<open>What a round knows once its request has been validated.\<close>

record round =
  rd_req :: ReviewRequest
  rd_repo :: Repository
  rd_branch :: Branch
  rd_key :: string
  rd_before :: Workflow
  rd_known :: bool
  rd_target :: Target
  rd_hash :: string
  rd_instructions :: string

definition zero_HistoryRecord :: HistoryRecord where
  "zero_HistoryRecord = \<lparr>hr_Round = 0, hr_Commit = [], hr_Base = [], hr_Review = [], hr_Omitted = [], hr_Usage = None\<rparr>"

definition round_number :: "round \<Rightarrow> int" where
  "round_number rd = go_int (wf_Round (rd_before rd) + 1)"

definition round_previous :: "round \<Rightarrow> HistoryRecord" where
  "round_previous rd =
     (let w = rd_before rd in
      if rd_known rd
      then NewHistoryRecord (wf_Round w) (wf_LastCommit w) (wf_LastBase w) (wf_LastReview w) (wf_LastUsage w)
      else zero_HistoryRecord)"

definition round_prompt :: "round \<Rightarrow> Checkout option \<Rightarrow> Prompt" where
  "round_prompt rd co =
     (let history = (if rd_known rd then wf_History (rd_before rd) @ [round_previous rd] else []) in
      \<lparr>pt_Round = round_number rd, pt_Worktree = rp_Worktree (rd_repo rd), pt_BranchRef = br_Ref (rd_branch rd),
       pt_Commit = tg_Commit (rd_target rd), pt_Base = tg_Base (rd_target rd),
       pt_PrimaryName = tg_PrimaryName (rd_target rd), pt_PrimaryRef = tg_PrimaryRef (rd_target rd),
       pt_PreviousTip = wf_LastCommit (rd_before rd), pt_HistoryRewritten = tg_HistoryRewritten (rd_target rd),
       pt_BranchNotes = req_BranchNotes (rd_req rd),
       pt_Checkout = (case co of None \<Rightarrow> [] | Some c \<Rightarrow> co_Dir c),
       pt_CacheDir = (case co of None \<Rightarrow> [] | Some c \<Rightarrow> co_CacheDir c),
       pt_History = history,
       pt_OmittedRounds = (case history of [] \<Rightarrow> 0 | r # rs \<Rightarrow> go_int (hr_Round r - 1)),
       pt_Instructions = rd_instructions rd\<rparr>)"

definition round_cwd :: "round \<Rightarrow> Checkout option \<Rightarrow> string" where
  "round_cwd rd co = (case co of None \<Rightarrow> rp_Worktree (rd_repo rd) | Some c \<Rightarrow> co_Dir c)"

definition round_sandbox :: "Checkout option \<Rightarrow> Sandbox" where
  "round_sandbox co =
     (case co of
        None \<Rightarrow> \<lparr>sb_Build = False, sb_WritableRoots = []\<rparr>
      | Some c \<Rightarrow> \<lparr>sb_Build = True, sb_WritableRoots = [co_CacheDir c, co_TmpDir c]\<rparr>)"

definition round_args :: "Checkout option \<Rightarrow> string list" where
  "round_args co = (case co of None \<Rightarrow> [] | Some c \<Rightarrow> BuildConfigArgs (co_CacheDir c) (co_TmpDir c))"

definition round_thread :: "env \<Rightarrow> round \<Rightarrow> Checkout option \<Rightarrow> trace \<Rightarrow> Thread res \<times> trace" where
  "round_thread en rd co tr =
     (if rd_known rd
      then resume_stored en (wf_ThreadID (rd_before rd)) (round_cwd rd co) (round_sandbox co) tr
      else start_new en (rp_Worktree (rd_repo rd)) (br_Ref (rd_branch rd)) (round_cwd rd co) (round_sandbox co) tr)"

definition round_turn :: "env \<Rightarrow> round \<Rightarrow> Checkout option \<Rightarrow> Thread \<Rightarrow> trace \<Rightarrow> Review res \<times> trace" where
  "round_turn en rd co t tr =
     (let prompt = Build (round_prompt rd co); tr1 = tr @ [CReview (th_ID t) prompt] in
      case en_review en tr (th_ID t) prompt of
        Inr rw \<Rightarrow> (Ok rw, tr1)
      | Inl e \<Rightarrow>
          (case en_turn en tr1 of
             None \<Rightarrow> (Err e, tr1)
           | Some c \<Rightarrow>
               (Err (if errors_Is c (S_review ErrTimeout) then Errorf ''after'' [Sentinel (S_review ErrTimeout), e] else e),
                tr1)))"

definition changed_warning :: "int \<Rightarrow> string" where
  "changed_warning n = Sprintf ''the reviewer changed %d tracked file(s) in the disposable checkout; its build and test results may not describe the reviewed commit'' [Itoa n]"

definition unchecked_warning :: string where
  "unchecked_warning = ''the disposable checkout could not be checked for changes; the reviewer's build and test results may not describe the reviewed commit''"

definition round_integrity :: "env \<Rightarrow> Checkout option \<Rightarrow> Review \<Rightarrow> trace \<Rightarrow> Review \<times> trace" where
  "round_integrity en co rw tr =
     (case co of
        None \<Rightarrow> (rw, tr)
      | Some c \<Rightarrow>
          (let tr1 = tr @ [CModified (co_Dir c)]; (n, cerr) = ModifiedTrackedFiles (en_git en tr) (co_Dir c) in
           if n > 0 \<or> cerr \<noteq> None then
             (let w = (if cerr = None then changed_warning n else unchecked_warning);
                  (ws, added) = AppendWarning (rv_Warnings rw) w
              in (if added then rw\<lparr>rv_Warnings := ws\<rparr> else rw, tr1))
           else (rw, tr1)))"

definition round_done :: "round \<Rightarrow> Thread \<Rightarrow> Review \<Rightarrow> Workflow" where
  "round_done rd t rw =
     \<lparr>wf_ThreadID = th_ID t, wf_LastCommit = tg_Commit (rd_target rd), wf_LastBase = tg_Base (rd_target rd),
      wf_LastRequestHash = rd_hash rd, wf_Round = round_number rd, wf_LastReview = rv_Text rw,
      wf_LastWarnings = rv_Warnings rw, wf_LastUsage = usageFrom (rv_Usage rw), wf_History = []\<rparr>"

definition round_result :: "round \<Rightarrow> Workflow \<Rightarrow> Result" where
  "round_result rd dn =
     \<lparr>res_Repo = rp_Worktree (rd_repo rd), res_Branch = br_Ref (rd_branch rd), res_Commit = tg_Commit (rd_target rd),
      res_Base = tg_Base (rd_target rd), res_Round = round_number rd, res_Review = wf_LastReview dn,
      res_Warnings = wf_LastWarnings dn, res_Replayed = False, res_Usage = wf_LastUsage dn\<rparr>"

text \<open>With the reviewer running: the thread, the turn, the integrity check, the save.\<close>

definition round_session :: "env \<Rightarrow> service \<Rightarrow> round \<Rightarrow> Checkout option \<Rightarrow> trace \<Rightarrow> Result res option \<times> trace" where
  "round_session en s rd co tr =
     (case round_thread en rd co tr of
        (Inl e, tr1) \<Rightarrow> (Some (Err e), tr1)
      | (Inr t, tr1) \<Rightarrow>
          (case round_turn en rd co t tr1 of
             (Inl e, tr2) \<Rightarrow> (Some (Err e), tr2)
           | (Inr rw0, tr2) \<Rightarrow>
               (let (rw, tr3) = round_integrity en co rw0 tr2; dn = round_done rd t rw in
                case saveCompleted en s (rd_key rd) (rd_before rd) (rd_known rd) (round_previous rd) dn tr3 of
                  (None, tr4) \<Rightarrow> (None, tr4)
                | (Some (Some e), tr4) \<Rightarrow> (Some (Err (Errorf ''review completed but state was not saved'' [e])), tr4)
                | (Some None, tr4) \<Rightarrow> (Some (Ok (round_result rd dn)), tr4))))"

definition round_reviewer :: "env \<Rightarrow> service \<Rightarrow> round \<Rightarrow> Checkout option \<Rightarrow> trace \<Rightarrow> Result res option \<times> trace" where
  "round_reviewer en s rd co tr =
     (let args = round_args co in
      case en_newReviewer en tr args of
        Some e \<Rightarrow>
          (let tr1 = tr @ [CStartReviewer args False] in (Some (Err (setupError (en_setup en tr1) e)), tr1))
      | None \<Rightarrow>
          (case round_session en s rd co (tr @ [CStartReviewer args True]) of
             (r, tr2) \<Rightarrow> (r, tr2 @ [CCloseReviewer])))"

definition round_run :: "env \<Rightarrow> service \<Rightarrow> round \<Rightarrow> trace \<Rightarrow> Result res option \<times> trace" where
  "round_run en s rd tr =
     (if \<not> req_Build (rd_req rd) then round_reviewer en s rd None tr
      else
        (case en_prepare en tr (rd_key rd) (tg_Commit (rd_target rd)) of
           Inl e \<Rightarrow> (Some (Err e), tr @ [CPrepare (rd_key rd) (tg_Commit (rd_target rd)) False])
         | Inr c \<Rightarrow>
             (case round_reviewer en s rd (Some c) (tr @ [CPrepare (rd_key rd) (tg_Commit (rd_target rd)) True]) of
                (r, tr1) \<Rightarrow> (r, tr1 @ [CCloseCheckout (co_Dir c)]))))"

section \<open>Review\<close>

definition replay_result :: "Repository \<Rightarrow> Branch \<Rightarrow> Target \<Rightarrow> Workflow \<Rightarrow> Result" where
  "replay_result repo branch target prev =
     \<lparr>res_Repo = rp_Worktree repo, res_Branch = br_Ref branch, res_Commit = tg_Commit target, res_Base = tg_Base target,
      res_Round = wf_Round prev, res_Review = wf_LastReview prev, res_Warnings = wf_LastWarnings prev,
      res_Replayed = True, res_Usage = None\<rparr>"

definition request_ident :: "Repository \<Rightarrow> Branch \<Rightarrow> Target \<Rightarrow> ReviewRequest \<Rightarrow> Request" where
  "request_ident repo branch target req =
     \<lparr>rq_Identity = repo_Identity repo, rq_BranchRef = br_Ref branch, rq_Commit = tg_Commit target,
      rq_Base = tg_Base target, rq_BranchNotes = req_BranchNotes req, rq_Build = req_Build req\<rparr>"

text \<open>Under the workflow lock, once the stored record has been read and checked.\<close>

definition review_target ::
  "env \<Rightarrow> service \<Rightarrow> ReviewRequest \<Rightarrow> Repository \<Rightarrow> Branch \<Rightarrow> string \<Rightarrow> Workflow \<Rightarrow> bool \<Rightarrow> trace \<Rightarrow>
   Result res option \<times> trace"
where
  "review_target en s req repo branch key w known tr =
     (let tr1 = tr @ [CGit ''target''] in
      case ValidateTarget (en_git en tr) repo (req_Branch req) (req_Commit req) (wf_LastCommit w) of
        Inl e \<Rightarrow> (Some (Err e), tr1)
      | Inr target \<Rightarrow>
          (let hash = Hash (request_ident repo branch target req) in
           case replay w known hash of
             (prev, True) \<Rightarrow> (Some (Ok (replay_result repo branch target prev)), tr1)
           | (_, False) \<Rightarrow>
               (let tr2 = tr1 @ [CGit ''instructions''] in
                case ReadInstructions (en_git en tr1) repo (tg_Commit target) of
                  Inl e \<Rightarrow> (Some (Err e), tr2)
                | Inr instructions \<Rightarrow>
                    round_run en s
                      \<lparr>rd_req = req, rd_repo = repo, rd_branch = branch, rd_key = key, rd_before = w, rd_known = known,
                       rd_target = target, rd_hash = hash, rd_instructions = instructions\<rparr> tr2)))"

definition review_locked ::
  "env \<Rightarrow> service \<Rightarrow> ReviewRequest \<Rightarrow> Repository \<Rightarrow> Branch \<Rightarrow> string \<Rightarrow> trace \<Rightarrow> Result res option \<times> trace"
where
  "review_locked en s req repo branch key tr =
     (case loadWorkflow en s key tr of
        (Inl e, tr1) \<Rightarrow> (Some (Err e), tr1)
      | (Inr (w, known), tr1) \<Rightarrow>
          (case (if known then check_stored w else None) of
             Some e \<Rightarrow> (Some (Err e), tr1)
           | None \<Rightarrow> review_target en s req repo branch key w known tr1))"

definition service_review :: "env \<Rightarrow> service \<Rightarrow> ReviewRequest \<Rightarrow> Result res option \<times> trace" where
  "service_review en s req =
     (case validate_request req of
        Some e \<Rightarrow> (Some (Err e), [])
      | None \<Rightarrow>
          (case Open (en_git en []) (req_Repo req) of
             Inl e \<Rightarrow> (Some (Err e), [CGit ''open''])
           | Inr repo \<Rightarrow>
               (case ResolveBranch (en_git en [CGit ''open'']) repo (req_Branch req) of
                  Inl e \<Rightarrow> (Some (Err e), [CGit ''open'', CGit ''branch''])
                | Inr branch \<Rightarrow>
                    (let tr = [CGit ''open'', CGit ''branch''];
                         key = WorkflowKey (repo_Identity repo) (br_Ref branch);
                         path = WorkflowLockPath (se_store s) key
                     in
                     case en_lock en tr path LockWait of
                       Some e \<Rightarrow>
                         (Some (Err (if errors_Is e (S_lock ErrLocked) then Errorf ''another review is in progress'' [e] else e)),
                          tr @ [CAcquire path LockWait False])
                     | None \<Rightarrow>
                         (case review_locked en s req repo branch key (tr @ [CAcquire path LockWait True]) of
                            (r, tr1) \<Rightarrow> (r, tr1 @ [CRelease path]))))))"

datatype terminal_status = Failed | Replayed | Completed

text \<open>Review logs each outcome once; what it logs is its status.\<close>

definition review_status :: "Result res \<Rightarrow> terminal_status" where
  "review_status r =
     (case r of Inl e \<Rightarrow> Failed | Inr x \<Rightarrow> if res_Replayed x then Replayed else Completed)"

end
