(* ===== verification/ServiceCalls.thy ===== *)
theory ServiceCalls
  imports Service Samples Traces PathSpec
begin

text \<open>
  What the service does and in which order, over every environment: its calls respect the
  lock order and release everything in reverse order on every path (a small automaton over
  what is held), and every call that matters is preceded by what allows it (a predicate over
  the calls made so far).
\<close>

section \<open>Case analysis\<close>

text \<open>How each stage of a review ends, for the proofs below and in ServiceSpec.\<close>

lemma round_session_cases:
  assumes "round_session en s rd co tr = (r, tr')"
  obtains (thread) e where "round_thread en rd co tr = (Inl e, tr')" "r = Some (Err e)"
  | (turn) t tr1 e where "round_thread en rd co tr = (Inr t, tr1)" "round_turn en rd co t tr1 = (Inl e, tr')"
      "r = Some (Err e)"
  | (save) t tr1 rw0 tr2 rw tr3 q where "round_thread en rd co tr = (Inr t, tr1)"
      "round_turn en rd co t tr1 = (Inr rw0, tr2)" "round_integrity en co rw0 tr2 = (rw, tr3)"
      "saveCompleted en s (rd_key rd) (rd_before rd) (rd_known rd) (round_previous rd) (round_done rd t rw) tr3 = (q, tr')"
      "q = None \<longleftrightarrow> r = None" "q = Some None \<longleftrightarrow> r = Some (Ok (round_result rd (round_done rd t rw)))"
      "(\<exists>e. q = Some (Some e)) \<longleftrightarrow> (\<exists>e. r = Some (Err e))"
  using assms
  by (auto simp: round_session_def Let_def split: prod.splits sum.splits option.splits)

lemma round_reviewer_cases:
  assumes "round_reviewer en s rd co tr = (r, tr')"
  obtains (refused) e where "r = Some (Err e)" "tr' = tr @ [CStartReviewer (round_args co) False]"
  | (started) tr1 where "round_session en s rd co (tr @ [CStartReviewer (round_args co) True]) = (r, tr1)"
      "tr' = tr1 @ [CCloseReviewer]"
  using assms by (auto simp: round_reviewer_def Let_def split: option.splits prod.splits)

lemma round_run_cases:
  assumes "round_run en s rd tr = (r, tr')"
  obtains (plain) "\<not> req_Build (rd_req rd)" "round_reviewer en s rd None tr = (r, tr')"
  | (unprepared) e where "req_Build (rd_req rd)" "r = Some (Err e)"
      "tr' = tr @ [CPrepare (rd_key rd) (tg_Commit (rd_target rd)) False]"
  | (prepared) c tr1 where "req_Build (rd_req rd)"
      "en_prepare en tr (rd_key rd) (tg_Commit (rd_target rd)) = Ok c"
      "round_reviewer en s rd (Some c) (tr @ [CPrepare (rd_key rd) (tg_Commit (rd_target rd)) True]) = (r, tr1)"
      "tr' = tr1 @ [CCloseCheckout (co_Dir c)]"
  using assms by (auto simp: round_run_def split: if_splits sum.splits prod.splits)

lemma review_target_cases:
  assumes "review_target en s req repo branch key w known tr = (r, tr')"
  obtains (invalid) e where "r = Some (Err e)" "tr' = tr @ [CGit ''target'']"
      "ValidateTarget (en_git en tr) repo (req_Branch req) (req_Commit req) (wf_LastCommit w) = Err e"
  | (replayed) target where "tr' = tr @ [CGit ''target'']"
      "ValidateTarget (en_git en tr) repo (req_Branch req) (req_Commit req) (wf_LastCommit w) = Ok target"
      "known" "wf_LastRequestHash w = Hash (request_ident repo branch target req)"
      "r = Some (Ok (replay_result repo branch target w))"
  | (unread) e where "r = Some (Err e)" "tr' = tr @ [CGit ''target'', CGit ''instructions'']"
  | (run) target txt' where
      "ValidateTarget (en_git en tr) repo (req_Branch req) (req_Commit req) (wf_LastCommit w) = Ok target"
      "\<not> known \<or> wf_LastRequestHash w \<noteq> Hash (request_ident repo branch target req)"
      "round_run en s
         \<lparr>rd_req = req, rd_repo = repo, rd_branch = branch, rd_key = key, rd_before = w, rd_known = known,
          rd_target = target, rd_hash = Hash (request_ident repo branch target req), rd_instructions = txt'\<rparr>
         (tr @ [CGit ''target'', CGit ''instructions'']) = (r, tr')"
  using assms
  by (auto simp: review_target_def replay_def Let_def split: sum.splits prod.splits bool.splits if_splits)

lemma review_locked_cases:
  assumes "review_locked en s req repo branch key tr = (r, tr')"
  obtains (unloaded) e where "loadWorkflow en s key tr = (Inl e, tr')" "r = Some (Err e)"
  | (unusable) e w where "loadWorkflow en s key tr = (Ok (w, True), tr')" "check_stored w = Some e" "r = Some (Err e)"
  | (target) w known tr1 where "loadWorkflow en s key tr = (Ok (w, known), tr1)"
      "known \<Longrightarrow> check_stored w = None" "review_target en s req repo branch key w known tr1 = (r, tr')"
  using assms
  by (auto simp: review_locked_def split: sum.splits prod.splits option.splits if_splits)

lemma service_review_cases:
  assumes "service_review en s req = (r, tr')"
  obtains (early) e where "r = Some (Err e)" "set tr' \<subseteq> range CGit"
  | (busy) e repo branch where "r = Some (Err e)" "Open (en_git en []) (req_Repo req) = Ok repo"
      "ResolveBranch (en_git en [CGit ''open'']) repo (req_Branch req) = Ok branch"
      "tr' = [CGit ''open'', CGit ''branch'',
         CAcquire (WorkflowLockPath (se_store s) (WorkflowKey (repo_Identity repo) (br_Ref branch))) LockWait False]"
  | (locked) repo branch key tr1 where "Open (en_git en []) (req_Repo req) = Ok repo"
      "ResolveBranch (en_git en [CGit ''open'']) repo (req_Branch req) = Ok branch"
      "key = WorkflowKey (repo_Identity repo) (br_Ref branch)"
      "en_lock en [CGit ''open'', CGit ''branch''] (WorkflowLockPath (se_store s) key) LockWait = None"
      "review_locked en s req repo branch key
         [CGit ''open'', CGit ''branch'', CAcquire (WorkflowLockPath (se_store s) key) LockWait True] = (r, tr1)"
      "tr' = tr1 @ [CRelease (WorkflowLockPath (se_store s) key)]"
  using assms
  by (auto simp: service_review_def Let_def split: sum.splits prod.splits option.splits)

section \<open>The discipline of calls\<close>

text \<open>The resources a trace holds, innermost first, and what each call needs of them.\<close>

datatype resource = Locked string | Running | Prepared

fun call_step :: "string \<Rightarrow> resource list \<Rightarrow> call \<Rightarrow> resource list option" where
  "call_step sp held (CGit m) = (if Locked sp \<in> set held \<or> Running \<in> set held then None else Some held)"
| "call_step sp held (CAcquire p w granted) =
     (if Locked p \<in> set held \<or> Locked sp \<in> set held \<or> (p = sp \<and> held = []) then None
      else Some (if granted then Locked p # held else held))"
| "call_step sp held (CRelease p) = (if held \<noteq> [] \<and> hd held = Locked p then Some (tl held) else None)"
| "call_step sp held CLoad = (if held \<noteq> [] \<and> hd held = Locked sp then Some held else None)"
| "call_step sp held (CSave d) = (if held \<noteq> [] \<and> hd held = Locked sp then Some held else None)"
| "call_step sp held (CPrepare k c done) =
     (if Locked sp \<in> set held \<or> Prepared \<in> set held \<or> held = [] then None
      else Some (if done then Prepared # held else held))"
| "call_step sp held (CCloseCheckout d) = (if held \<noteq> [] \<and> hd held = Prepared then Some (tl held) else None)"
| "call_step sp held (CStartReviewer args started) =
     (if Locked sp \<in> set held \<or> Running \<in> set held \<or> held = [] then None
      else Some (if started then Running # held else held))"
| "call_step sp held CCloseReviewer = (if held \<noteq> [] \<and> hd held = Running then Some (tl held) else None)"
| "call_step sp held (CModified d) =
     (if held \<noteq> [] \<and> hd held = Running \<and> Prepared \<in> set held then Some held else None)"
| "call_step sp held c = (if held \<noteq> [] \<and> hd held = Running then Some held else None)"

abbreviation call_run :: "string \<Rightarrow> resource list \<Rightarrow> call list \<Rightarrow> resource list option" where
  "call_run sp \<equiv> monitor (call_step sp)"

abbreviation balanced :: "string \<Rightarrow> resource list \<Rightarrow> trace \<Rightarrow> trace \<Rightarrow> bool" where
  "balanced sp \<equiv> keeps (call_step sp)"

text \<open>With the reviewer running and the state lock free.\<close>

definition at_work :: "string \<Rightarrow> resource list \<Rightarrow> bool" where
  "at_work sp held \<longleftrightarrow> held \<noteq> [] \<and> hd held = Running \<and> Locked sp \<notin> set held"

lemma resume_stored_balanced:
  "at_work sp held \<Longrightarrow> balanced sp held tr (snd (resume_stored en threadID cwd sb tr))"
  by (auto simp: resume_stored_def resume_attempts_def Let_def at_work_def keeps_def
      split: sum.split option.split prod.split if_split)

lemma start_new_balanced:
  "at_work sp held \<Longrightarrow> balanced sp held tr (snd (start_new en worktree ref cwd sb tr))"
  by (auto simp: start_new_def Let_def at_work_def keeps_def split: sum.split option.split)

text \<open>The state lock is not one of the workflow locks.\<close>

definition locks_distinct :: "Store \<Rightarrow> bool" where
  "locks_distinct st \<longleftrightarrow> (\<forall>key. WorkflowLockPath st key \<noteq> LockPath st)"

definition only_workflow :: "string \<Rightarrow> resource list \<Rightarrow> bool" where
  "only_workflow sp held \<longleftrightarrow> held \<noteq> [] \<and> Locked sp \<notin> set held"

lemma state_section:
  assumes "only_workflow sp held" and "set cs \<subseteq> {CLoad} \<union> range CSave"
  shows "call_run sp held ([CAcquire sp w True] @ cs @ [CRelease sp]) = Some held"
proof -
  have "call_run sp (Locked sp # held) (ds @ [CRelease sp]) = Some held" if "set ds \<subseteq> {CLoad} \<union> range CSave" for ds
    using that by (induction ds) auto
  then show ?thesis using assms by (simp add: only_workflow_def)
qed

lemma loadWorkflow_balanced:
  assumes "only_workflow (LockPath (se_store s)) held"
  shows "balanced (LockPath (se_store s)) held tr (snd (loadWorkflow en s key tr))"
proof (cases "en_lock en tr (LockPath (se_store s)) LockWait")
  case None
  then show ?thesis using state_section [OF assms, of "[CLoad]" LockWait]
    by (auto simp: loadWorkflow_def acquireStateLock_def load_state_def keeps_def Let_def split: prod.split)
next
  case (Some e)
  then show ?thesis using assms
    by (auto simp: loadWorkflow_def acquireStateLock_def keeps_def Let_def only_workflow_def)
qed

lemma saveCompleted_balanced:
  assumes "only_workflow (LockPath (se_store s)) held"
  shows "balanced (LockPath (se_store s)) held tr (snd (saveCompleted en s key before known previous dn tr))"
proof (cases "en_lock en tr (LockPath (se_store s)) FinalSaveLockWait")
  case None
  show ?thesis using None state_section [OF assms, of "[CLoad]" FinalSaveLockWait]
      state_section [OF assms, of "[CLoad, CSave _]" FinalSaveLockWait]
    by (auto simp: saveCompleted_def acquireStateLock_def load_state_def keeps_def Let_def
        split: prod.split sum.split option.split)
next
  case (Some e)
  then show ?thesis using assms
    by (auto simp: saveCompleted_def acquireStateLock_def keeps_def Let_def only_workflow_def)
qed

lemma round_integrity_balanced:
  "at_work sp held \<Longrightarrow> (co \<noteq> None \<Longrightarrow> Prepared \<in> set held) \<Longrightarrow> balanced sp held tr (snd (round_integrity en co rw tr))"
  by (auto simp: round_integrity_def Let_def at_work_def keeps_def split: option.split prod.split)

lemma round_turn_balanced: "at_work sp held \<Longrightarrow> balanced sp held tr (snd (round_turn en rd co t tr))"
  by (auto simp: round_turn_def Let_def at_work_def keeps_def split: sum.split option.split)

lemma round_thread_balanced: "at_work sp held \<Longrightarrow> balanced sp held tr (snd (round_thread en rd co tr))"
  by (simp add: round_thread_def resume_stored_balanced start_new_balanced)

lemma round_session_balanced:
  assumes "at_work (LockPath (se_store s)) held" and "co \<noteq> None \<Longrightarrow> Prepared \<in> set held"
    and "round_session en s rd co tr = (r, tr')"
  shows "balanced (LockPath (se_store s)) held tr tr'"
  using assms(3)
proof (cases rule: round_session_cases)
  case (thread e)
  then show ?thesis using round_thread_balanced [OF assms(1)] by (metis snd_conv)
next
  case (turn t tr1 e)
  then show ?thesis
    using round_thread_balanced [OF assms(1)] round_turn_balanced [OF assms(1)] keeps_trans by (metis snd_conv)
next
  case (save t tr1 rw0 tr2 rw tr3 q)
  have free: "only_workflow (LockPath (se_store s)) held" using assms(1) by (simp add: at_work_def only_workflow_def)
  have "balanced (LockPath (se_store s)) held tr2 tr3"
    using round_integrity_balanced [OF assms(1,2), of co tr2 en rw0] save(3) by simp
  moreover have "balanced (LockPath (se_store s)) held tr tr1" "balanced (LockPath (se_store s)) held tr1 tr2"
    using round_thread_balanced [OF assms(1)] round_turn_balanced [OF assms(1)] save(1,2) by (metis snd_conv)+
  moreover have "balanced (LockPath (se_store s)) held tr3 tr'"
    using saveCompleted_balanced [OF free] save(4) by (metis snd_conv)
  ultimately show ?thesis using keeps_trans by meson
qed

lemma round_reviewer_balanced:
  assumes "held \<noteq> []" and "Locked (LockPath (se_store s)) \<notin> set held" and "Running \<notin> set held"
    and "co \<noteq> None \<Longrightarrow> Prepared \<in> set held" and "round_reviewer en s rd co tr = (r, tr')"
  shows "balanced (LockPath (se_store s)) held tr tr'"
  using assms(5)
proof (cases rule: round_reviewer_cases)
  case (refused e)
  then show ?thesis using assms by (auto simp: keeps_def)
next
  case (started tr1)
  have "balanced (LockPath (se_store s)) (Running # held) (tr @ [CStartReviewer (round_args co) True]) tr1"
    using assms(1,2,4) by (intro round_session_balanced [OF _ _ started(1)]) (auto simp: at_work_def)
  then show ?thesis using assms started(2) by (auto intro: keeps_within)
qed

lemma round_run_balanced:
  assumes "held \<noteq> []" and "Locked (LockPath (se_store s)) \<notin> set held" and "Running \<notin> set held"
    and "Prepared \<notin> set held" and "round_run en s rd tr = (r, tr')"
  shows "balanced (LockPath (se_store s)) held tr tr'"
  using assms(5)
proof (cases rule: round_run_cases)
  case plain
  then show ?thesis using round_reviewer_balanced [OF assms(1-3) _ plain(2)] by simp
next
  case (unprepared e)
  then show ?thesis using assms by (auto simp: keeps_def)
next
  case (prepared c tr1)
  have "balanced (LockPath (se_store s)) (Prepared # held)
      (tr @ [CPrepare (rd_key rd) (tg_Commit (rd_target rd)) True]) tr1"
    using assms(1-3) by (intro round_reviewer_balanced [OF _ _ _ _ prepared(3)]) auto
  then show ?thesis using assms prepared(4) by (auto intro: keeps_within)
qed

lemma review_locked_balanced:
  assumes "held \<noteq> []" and "Locked (LockPath (se_store s)) \<notin> set held" and "Running \<notin> set held"
    and "Prepared \<notin> set held" and "review_locked en s req repo branch key tr = (r, tr')"
  shows "balanced (LockPath (se_store s)) held tr tr'"
proof -
  let ?sp = "LockPath (se_store s)"
  have load: "balanced ?sp held tr tr1" if "loadWorkflow en s key tr = (x, tr1)" for x tr1
    using loadWorkflow_balanced [of s held tr en key] assms that by (simp add: only_workflow_def)
  have git: "balanced ?sp held a (a @ [CGit m])" "balanced ?sp held a (a @ [CGit m, CGit n])" for a m n
    using assms by (auto simp: keeps_def)
  show ?thesis using assms(5)
  proof (cases rule: review_locked_cases)
    case (target w known tr1)
    have "balanced ?sp held tr1 tr'" using target(3)
    proof (cases rule: review_target_cases)
      case (run target txt')
      show ?thesis by (rule keeps_trans [OF git(2) round_run_balanced [OF assms(1-4) run(3)]])
    qed (use git in simp_all)
    then show ?thesis by (rule keeps_trans [OF load [OF target(1)]])
  qed (use load in blast)+
qed

section \<open>The lock files\<close>

text \<open>A workflow lock is named by hexadecimal digits, so a state file that is not has a lock of its own.\<close>

lemma workflow_lock_suffix: "suffix (take lockNameLen (hex_digest key) @ ''.lock'') (WorkflowLockPath st key)"
proof -
  let ?q = "take lockNameLen (hex_digest key) @ ''.lock''"
  have hex: "set (hex_digest key) \<subseteq> Collect is_lower_hex" by (rule hex_digest_lower)
  have "slash \<notin> set ?q"
  proof -
    have "\<not> is_lower_hex slash" by code_simp
    then show ?thesis using hex by (auto dest: in_set_takeD)
  qed
  then have "suffix ?q (Clean ((Dir (sto_path st) @ ''/locks'') @ slash # ?q))" by (intro suffix_Clean) auto
  then show ?thesis using Clean_not_Nil by (simp add: WorkflowLockPath_def JoinPath_def Dir_def)
qed

lemma locks_distinct_digit:
  assumes "sto_path st \<noteq> []" and "\<not> is_lower_hex (last (sto_path st))"
  shows "WorkflowLockPath st key \<noteq> LockPath st"
proof
  assume "WorkflowLockPath st key = LockPath st"
  then have "suffix (take lockNameLen (hex_digest key) @ ''.lock'') (sto_path st @ ''.lock'')"
    using workflow_lock_suffix [of key st] by (simp add: LockPath_def)
  then have "suffix (take lockNameLen (hex_digest key)) (sto_path st)" by (simp add: suffix_def)
  moreover have ne: "take lockNameLen (hex_digest key) \<noteq> []" by (simp add: lockNameLen_def)
  ultimately have "last (sto_path st) = last (take lockNameLen (hex_digest key))" by (auto simp: suffix_def)
  then have "last (sto_path st) \<in> set (hex_digest key)" using last_in_set [OF ne] by (metis in_set_takeD)
  then show False using hex_digest_lower [of key] assms(2) by auto
qed

lemma calls_of_git: "set cs \<subseteq> range CGit \<Longrightarrow> call_run sp [] cs = Some []"
  by (induction cs) auto



end
