(* ===== verification/ServiceOrder.thy ===== *)
theory ServiceOrder
  imports ServiceCalls StoreSpec GitSpec EvictionSpec
begin

text \<open>
  What allows a call: every call of a review that starts, resumes, moves or reads a thread, or
  that saves, is preceded by what entitles it to (the record that names the thread, the
  checkout it works in, the refusal it reacts to, the review it records).
\<close>

section \<open>What allows a call\<close>

text \<open>The record the state file holds for the workflow when it is loaded after the given calls.\<close>

definition stored_record :: "env \<Rightarrow> service \<Rightarrow> string \<Rightarrow> trace \<Rightarrow> (Workflow \<times> bool) option" where
  "stored_record en s key tr =
     (case fst (Load (en_unmarshal en) (en_read en tr) (se_store s) (en_disk en tr)) of
        Inl e \<Rightarrow> None | Inr m \<Rightarrow> Some (Get m key))"

definition loaded :: "env \<Rightarrow> service \<Rightarrow> string \<Rightarrow> Workflow \<Rightarrow> bool \<Rightarrow> trace \<Rightarrow> call \<Rightarrow> bool" where
  "loaded en s key w known pre c \<longleftrightarrow> c = CLoad \<and> stored_record en s key pre = Some (w, known)"

definition made :: "env \<Rightarrow> Checkout \<Rightarrow> trace \<Rightarrow> call \<Rightarrow> bool" where
  "made en co pre c \<longleftrightarrow> (\<exists>k i. c = CPrepare k i True \<and> en_prepare en pre k i = Ok co)"

definition opened :: "env \<Rightarrow> string \<Rightarrow> trace \<Rightarrow> call \<Rightarrow> bool" where
  "opened en threadID pre c \<longleftrightarrow>
     (\<exists>cwd sb t. th_ID t = threadID \<and> (c = CStartThread cwd sb \<and> en_start en pre cwd sb = Ok t \<or>
        (\<exists>i. c = CResumeThread i cwd sb \<and> en_resume en pre i cwd sb = Ok t)))"

definition answered :: "env \<Rightarrow> Review \<Rightarrow> trace \<Rightarrow> call \<Rightarrow> bool" where
  "answered en rw pre c \<longleftrightarrow> (\<exists>t p. c = CReview t p \<and> en_review en pre t p = Ok rw)"

text \<open>Where a thread may work and what it may write: the worktree, nothing; a checkout, its cache.\<close>

definition placed :: "env \<Rightarrow> string \<Rightarrow> bool \<Rightarrow> trace \<Rightarrow> string \<Rightarrow> Sandbox \<Rightarrow> bool" where
  "placed en worktree build tr cwd sb \<longleftrightarrow>
     (if build then \<exists>co. happened (made en co) tr \<and> cwd = co_Dir co \<and> sb = round_sandbox (Some co)
      else cwd = worktree \<and> sb = round_sandbox None)"

fun allowed :: "env \<Rightarrow> service \<Rightarrow> string \<Rightarrow> string \<Rightarrow> bool \<Rightarrow> trace \<Rightarrow> call \<Rightarrow> bool" where
  "allowed en s key worktree build tr (CStartThread cwd sb) \<longleftrightarrow>
     (\<exists>w. happened (loaded en s key w False) tr) \<and> placed en worktree build tr cwd sb"
| "allowed en s key worktree build tr (CResumeThread t cwd sb) \<longleftrightarrow>
     (\<exists>w. happened (loaded en s key w True) tr \<and> wf_ThreadID w = t) \<and> placed en worktree build tr cwd sb"
| "allowed en s key worktree build tr (CUnarchiveThread t) \<longleftrightarrow>
     (\<exists>pre cwd sb e. tr = pre @ [CResumeThread t cwd sb] \<and> en_resume en pre t cwd sb = Err e \<and>
        errors_As as_ServerError e \<noteq> None \<and> en_setup en tr = None)"
| "allowed en s key worktree build tr (CReview t p) \<longleftrightarrow> happened (opened en t) tr"
| "allowed en s key worktree build tr (CSave d) \<longleftrightarrow> (\<exists>rw. happened (answered en rw) tr)"
| "allowed en s key worktree build tr c \<longleftrightarrow> True"

lemma placed_append: "placed en wt build tr cwd sb \<Longrightarrow> placed en wt build (tr @ cs) cwd sb"
  unfolding placed_def using happened_append by metis

lemma resume_stored_cases:
  assumes "resume_stored en tid cwd sb tr = (r, tr')"
  obtains (once) "tr' = tr @ [CResumeThread tid cwd sb]" "is_ok r \<Longrightarrow> r = en_resume en tr tid cwd sb"
  | (refused) e where "tr' = tr @ [CResumeThread tid cwd sb, CUnarchiveThread tid]" "\<not> is_ok r"
      "en_resume en tr tid cwd sb = Err e" "errors_As as_ServerError e \<noteq> None"
      "en_setup en (tr @ [CResumeThread tid cwd sb]) = None"
  | (twice) e tr3 where "tr3 = tr @ [CResumeThread tid cwd sb, CUnarchiveThread tid, CAddWarning unarchived_warning]"
      "tr' = tr3 @ [CResumeThread tid cwd sb]" "is_ok r \<Longrightarrow> r = en_resume en tr3 tid cwd sb"
      "en_resume en tr tid cwd sb = Err e" "errors_As as_ServerError e \<noteq> None"
      "en_setup en (tr @ [CResumeThread tid cwd sb]) = None"
  using assms
  by (auto simp: resume_stored_def resume_attempts_def Let_def is_ok_def split: sum.splits option.splits prod.splits if_splits)

lemma resume_stored_justified:
  assumes "happened (loaded en s key w True) tr" and "wf_ThreadID w = tid" and "placed en wt build tr cwd sb"
    and "resume_stored en tid cwd sb tr = (r, tr')"
  shows "justified (allowed en s key wt build) tr tr' \<and> (\<forall>t. r = Ok t \<longrightarrow> happened (opened en (th_ID t)) tr')"
proof -
  let ?J = "allowed en s key wt build" and ?c = "CResumeThread tid cwd sb"
  have may: "?J (tr @ cs) ?c" for cs
    using happened_append [OF assms(1)] placed_append [OF assms(3)] assms(2) by (auto intro!: exI [of _ w])
  have un: "?J (tr @ [?c]) (CUnarchiveThread tid)"
    if "en_resume en tr tid cwd sb = Err e" "errors_As as_ServerError e \<noteq> None" "en_setup en (tr @ [?c]) = None" for e
    using that by simp
  have got: "happened (opened en (th_ID t)) (a @ [?c])" if "en_resume en a tid cwd sb = Ok t" for a t
    by (rule happened_last) (use that in \<open>auto simp: opened_def\<close>)
  show ?thesis using assms(4)
  proof (cases rule: resume_stored_cases)
    case once
    then show ?thesis using may [of "[]"] got by (auto intro!: justified_calls simp del: allowed.simps)
  next
    case (refused e)
    then show ?thesis using may [of "[]"] un
      by (auto intro!: justified_calls simp: is_ok_def simp del: allowed.simps)
  next
    case (twice e tr3)
    have "all_calls ?J tr [?c, CUnarchiveThread tid, CAddWarning unarchived_warning, ?c]"
      using may [of "[]"] may [of "[?c, CUnarchiveThread tid, CAddWarning unarchived_warning]"] un [OF twice(4-6)]
      by (simp del: allowed.simps(2,3))
    then have "justified ?J tr tr'" using twice(1,2) by (auto simp: justified_def)
    then show ?thesis using twice(2,3) got by (auto simp: is_ok_def)
  qed
qed

lemma start_new_justified:
  assumes "happened (loaded en s key w False) tr" and "placed en wt build tr cwd sb"
    and "start_new en worktree ref cwd sb tr = (r, tr')"
  shows "justified (allowed en s key wt build) tr tr' \<and> (\<forall>t. r = Ok t \<longrightarrow> happened (opened en (th_ID t)) tr')"
proof -
  let ?J = "allowed en s key wt build" and ?c = "CStartThread cwd sb"
  have may: "?J tr ?c" using assms(1,2) by auto
  have got: "happened (opened en (th_ID t)) (tr @ ?c # cs)" if "en_start en tr cwd sb = Ok t" for t cs
    by (rule happened_now) (use that in \<open>auto simp: opened_def\<close>)
  show ?thesis
  proof (cases "en_start en tr cwd sb")
    case (Inl e)
    then show ?thesis using assms(3) may
      by (auto simp: start_new_def Let_def intro!: justified_calls simp del: allowed.simps)
  next
    case (Inr t)
    let ?n = "CSetThreadName (th_ID t) (threadName worktree ref)"
    have "all_calls ?J tr [?c, ?n]" "all_calls ?J tr [?c, ?n, CAddWarning not_named_warning]"
      using may by (simp_all del: allowed.simps(1))
    then have "justified ?J tr (tr @ [?c, ?n])" "justified ?J tr (tr @ [?c, ?n, CAddWarning not_named_warning])"
      by (auto simp: justified_def)
    then show ?thesis using assms(3) Inr got
      by (auto simp: start_new_def Let_def split: option.splits)
  qed
qed

lemma plain_calls:
  "set cs \<subseteq> range CGit \<union> {CLoad} \<union> range CRelease \<union> {c. \<exists>p w g. c = CAcquire p w g} \<union> range CModified \<Longrightarrow>
   all_calls (allowed en s key wt build) tr cs"
  by (induction cs arbitrary: tr) auto

lemma loadWorkflow_justified:
  assumes "loadWorkflow en s key tr = (r, tr')"
  shows "justified (allowed en s key wt build) tr tr' \<and>
    (\<forall>w known. r = Ok (w, known) \<longrightarrow> happened (loaded en s key w known) tr')"
proof (cases "en_lock en tr (LockPath (se_store s)) LockWait")
  case None
  let ?a = "CAcquire (LockPath (se_store s)) LockWait True" and ?z = "CRelease (LockPath (se_store s))"
  obtain x st where x: "Load (en_unmarshal en) (en_read en (tr @ [?a])) (se_store s) (en_disk en (tr @ [?a])) = (x, st)"
    by fastforce
  have tr': "tr' = tr @ [?a, CLoad, ?z]" and r: "r = (case x of Inl e \<Rightarrow> Err e | Inr m \<Rightarrow> Ok (Get m key))"
    using assms None x
    by (auto simp: loadWorkflow_def acquireStateLock_def load_state_def Let_def split: prod.splits)
  have "happened (loaded en s key w known) ((tr @ [?a]) @ CLoad # [?z])" if "r = Ok (w, known)" for w known
    by (rule happened_now) (use that x r in \<open>auto simp: loaded_def stored_record_def split: sum.splits\<close>)
  then show ?thesis using tr' by (auto intro!: justified_calls)
next
  case (Some e)
  then show ?thesis using assms
    by (auto simp: loadWorkflow_def acquireStateLock_def Let_def intro!: justified_calls)
qed

lemma saveCompleted_calls:
  assumes "saveCompleted en s key before known previous dn tr = (q, tr')"
  shows "\<exists>cs. tr' = tr @ cs \<and>
    set cs \<subseteq> {CLoad} \<union> range CRelease \<union> {c. \<exists>p w g. c = CAcquire p w g} \<union> range CSave"
  using assms
  by (auto simp: saveCompleted_def acquireStateLock_def load_state_def Let_def split: prod.splits option.splits sum.splits)

lemma save_calls:
  "happened (answered en rw) tr \<Longrightarrow>
   set cs \<subseteq> {CLoad} \<union> range CRelease \<union> {c. \<exists>p w g. c = CAcquire p w g} \<union> range CSave \<Longrightarrow>
   all_calls (allowed en s key wt build) tr cs"
proof (induction cs arbitrary: tr)
  case (Cons c cs)
  have "allowed en s key wt build tr c" using Cons.prems by auto
  moreover have "all_calls (allowed en s key wt build) (tr @ [c]) cs"
    using Cons.IH [OF happened_append [OF Cons.prems(1)]] Cons.prems(2) by simp
  ultimately show ?case by simp
qed simp

lemma saveCompleted_justified:
  assumes "happened (answered en rw) tr" and "saveCompleted en s key before known previous dn tr = (q, tr')"
  shows "justified (allowed en s key2 wt build) tr tr'"
proof -
  obtain cs where "tr' = tr @ cs" "all_calls (allowed en s key2 wt build) tr cs"
    using saveCompleted_calls [OF assms(2)] save_calls [OF assms(1)] by blast
  then show ?thesis by (simp add: justified_calls)
qed

lemma round_thread_justified:
  assumes "happened (loaded en s key (rd_before rd) (rd_known rd)) tr"
    and "placed en wt build tr (round_cwd rd co) (round_sandbox co)" and "round_thread en rd co tr = (r, tr')"
  shows "justified (allowed en s key wt build) tr tr' \<and> (\<forall>t. r = Ok t \<longrightarrow> happened (opened en (th_ID t)) tr')"
proof (cases "rd_known rd")
  case True
  show ?thesis
    by (rule resume_stored_justified [of en s key "rd_before rd"]) (use assms True in \<open>simp_all add: round_thread_def\<close>)
next
  case False
  show ?thesis
    by (rule start_new_justified [of en s key "rd_before rd"]) (use assms False in \<open>simp_all add: round_thread_def\<close>)
qed

lemma round_turn_justified:
  assumes "happened (opened en (th_ID t)) tr" and "round_turn en rd co t tr = (r, tr')"
  shows "justified (allowed en s key wt build) tr tr' \<and> (\<forall>rw. r = Ok rw \<longrightarrow> happened (answered en rw) tr')"
proof -
  have tr': "tr' = tr @ [CReview (th_ID t) (Build (round_prompt rd co))]"
    and ok: "\<And>rw. r = Ok rw \<Longrightarrow> en_review en tr (th_ID t) (Build (round_prompt rd co)) = Ok rw"
    using assms(2) by (auto simp: round_turn_def Let_def split: sum.splits option.splits)
  have "happened (answered en rw) tr'" if "r = Ok rw" for rw
    unfolding tr' by (rule happened_last) (use ok [OF that] in \<open>auto simp: answered_def\<close>)
  then show ?thesis using assms(1) tr' by (auto intro!: justified_calls)
qed

lemma round_integrity_justified:
  assumes "round_integrity en co rw tr = (rw', tr')"
  shows "justified (allowed en s key wt build) tr tr'"
proof -
  have "\<exists>cs. tr' = tr @ cs \<and> set cs \<subseteq> range CModified"
    using assms by (auto simp: round_integrity_def Let_def split: option.splits prod.splits if_splits)
  then obtain cs where "tr' = tr @ cs" "set cs \<subseteq> range CModified" by blast
  moreover from this have "all_calls (allowed en s key wt build) tr cs" by (intro plain_calls) auto
  ultimately show ?thesis by (simp add: justified_calls)
qed

lemma round_session_justified:
  assumes "happened (loaded en s key (rd_before rd) (rd_known rd)) tr"
    and "placed en wt build tr (round_cwd rd co) (round_sandbox co)" and "round_session en s rd co tr = (r, tr')"
  shows "justified (allowed en s key wt build) tr tr'"
  using assms(3)
proof (cases rule: round_session_cases)
  case (thread e)
  then show ?thesis using round_thread_justified [OF assms(1,2)] by blast
next
  case (turn t tr1 e)
  then show ?thesis
    using round_thread_justified [OF assms(1,2)] round_turn_justified justified_trans by metis
next
  case (save t tr1 rw0 tr2 rw tr3 q)
  let ?J = "allowed en s key wt build"
  have th: "justified ?J tr tr1" "happened (opened en (th_ID t)) tr1"
    using round_thread_justified [OF assms(1,2) save(1)] by blast+
  have tu: "justified ?J tr1 tr2" "happened (answered en rw0) tr2"
    using round_turn_justified [OF th(2) save(2)] by blast+
  have ri: "justified ?J tr2 tr3" by (rule round_integrity_justified [OF save(3)])
  have "justified ?J tr3 tr'"
    by (rule saveCompleted_justified [OF justified_happened [OF ri tu(2)] save(4)])
  then show ?thesis using th(1) tu(1) ri justified_trans by meson
qed

lemma round_reviewer_justified:
  assumes "happened (loaded en s key (rd_before rd) (rd_known rd)) tr"
    and "placed en wt build tr (round_cwd rd co) (round_sandbox co)" and "round_reviewer en s rd co tr = (r, tr')"
  shows "justified (allowed en s key wt build) tr tr'"
  using assms(3)
proof (cases rule: round_reviewer_cases)
  case (refused e)
  then show ?thesis by (auto intro!: justified_calls)
next
  case (started tr1)
  let ?tr = "tr @ [CStartReviewer (round_args co) True]"
  have "justified (allowed en s key wt build) ?tr tr1"
    by (rule round_session_justified [OF _ _ started(1)]) (simp_all add: assms(1,2) happened_append placed_append)
  moreover have "justified (allowed en s key wt build) tr ?tr" by (rule justified_calls) simp
  ultimately have "justified (allowed en s key wt build) tr tr1" using justified_trans by blast
  from justified_snoc [OF this] show ?thesis using started(2) by simp
qed

lemma round_run_justified:
  assumes "happened (loaded en s key (rd_before rd) (rd_known rd)) tr" and "round_run en s rd tr = (r, tr')"
  shows "justified (allowed en s key (rp_Worktree (rd_repo rd)) (req_Build (rd_req rd))) tr tr'"
  using assms(2)
proof (cases rule: round_run_cases)
  case plain
  show ?thesis
    by (rule round_reviewer_justified [OF assms(1) _ plain(2)]) (simp add: placed_def plain(1) round_cwd_def)
next
  case (unprepared e)
  then show ?thesis by (auto intro!: justified_calls)
next
  case (prepared c tr1)
  let ?p = "CPrepare (rd_key rd) (tg_Commit (rd_target rd)) True"
  let ?J = "allowed en s key (rp_Worktree (rd_repo rd)) (req_Build (rd_req rd))"
  have "happened (made en c) (tr @ [?p])"
    by (rule happened_last) (use prepared(2) in \<open>auto simp: made_def\<close>)
  then have "justified ?J (tr @ [?p]) tr1"
    using happened_append [OF assms(1)] prepared(1)
    by (intro round_reviewer_justified [OF _ _ prepared(3)]) (auto simp: placed_def round_cwd_def)
  moreover have "justified ?J tr (tr @ [?p])" by (rule justified_calls) simp
  ultimately have "justified ?J tr tr1" using justified_trans by blast
  from justified_snoc [OF this] show ?thesis using prepared(4) by simp
qed

lemma review_locked_justified:
  assumes "review_locked en s req repo branch key tr = (r, tr')"
  shows "justified (allowed en s key (rp_Worktree repo) (req_Build req)) tr tr'"
  using assms
proof (cases rule: review_locked_cases)
  case (unloaded e)
  then show ?thesis using loadWorkflow_justified by blast
next
  case (unusable e w)
  then show ?thesis using loadWorkflow_justified by blast
next
  case (target w known tr1)
  let ?J = "allowed en s key (rp_Worktree repo) (req_Build req)"
  have lw: "justified ?J tr tr1" "happened (loaded en s key w known) tr1"
    using loadWorkflow_justified [OF target(1)] by blast+
  have git: "justified ?J tr1 (tr1 @ [CGit m])" "justified ?J tr1 (tr1 @ [CGit m, CGit n])" for m n
    by (rule justified_calls, simp)+
  have "justified ?J tr1 tr'" using target(3)
  proof (cases rule: review_target_cases)
    case (run target txt')
    have "justified ?J (tr1 @ [CGit ''target'', CGit ''instructions'']) tr'"
      using round_run_justified [OF _ run(3)] happened_append [OF lw(2)] by simp
    then show ?thesis using justified_trans [OF git(2)] by blast
  qed (use git in simp_all)
  then show ?thesis using lw(1) justified_trans by blast
qed

text \<open>Every call of a review, with the workflow it is for.\<close>

lemma service_review_justified:
  assumes "service_review en s req = (r, tr')" and "\<not> set tr' \<subseteq> range CGit"
  shows "\<exists>repo branch. Open (en_git en []) (req_Repo req) = Ok repo \<and>
    ResolveBranch (en_git en [CGit ''open'']) repo (req_Branch req) = Ok branch \<and>
    all_calls (allowed en s (WorkflowKey (repo_Identity repo) (br_Ref branch)) (rp_Worktree repo) (req_Build req)) [] tr'"
  using assms(1)
proof (cases rule: service_review_cases)
  case (early e)
  then show ?thesis using assms(2) by simp
next
  case (busy e repo branch)
  then show ?thesis by (intro exI [of _ repo] exI [of _ branch]) simp
next
  case (locked repo branch key tr1)
  let ?J = "allowed en s key (rp_Worktree repo) (req_Build req)"
  let ?tr0 = "[CGit ''open'', CGit ''branch'', CAcquire (WorkflowLockPath (se_store s) key) LockWait True]"
  obtain cs where "tr1 = ?tr0 @ cs" "all_calls ?J ?tr0 cs"
    using review_locked_justified [OF locked(5)] by (auto simp: justified_def)
  then have "all_calls ?J [] tr'" using locked(6) by (simp add: all_calls_append)
  then show ?thesis using locked(1-3) by blast
qed

section \<open>A sample environment\<close>

text \<open>
  Everything succeeds, except that a thread is archived until it is unarchived; the state
  file holds the given state.
\<close>

definition sample_env :: "State \<Rightarrow> env" where
  "sample_env st =
     \<lparr>en_git = (\<lambda>tr. sample_git), en_lock = (\<lambda>tr p w. None), en_read = (\<lambda>tr. sample_read),
      en_disk = (\<lambda>tr. Map.empty(sample_path \<mapsto> ''{}'')),
      en_unmarshal = (\<lambda>s. Ok \<lparr>env_Version = Version, env_Workflows = st\<rparr>),
      en_write = (\<lambda>tr. sample_write), en_ctx = (\<lambda>tr n. None),
      en_prepare = (\<lambda>tr k c. Ok \<lparr>co_Dir = ''/c/src'', co_CacheDir = ''/c/cache'', co_TmpDir = ''/c/tmp''\<rparr>),
      en_newReviewer = (\<lambda>tr args. None),
      en_start = (\<lambda>tr cwd sb. Ok \<lparr>th_ID = ''t'', th_Model = ''m'', th_ReasoningEffort = ''high''\<rparr>),
      en_resume = (\<lambda>tr i cwd sb.
        if CUnarchiveThread i \<in> set tr then Ok \<lparr>th_ID = i, th_Model = ''m'', th_ReasoningEffort = ''high''\<rparr>
        else Err (ServerError (-32600) ''archived'')),
      en_unarchive = (\<lambda>tr i. None), en_name = (\<lambda>tr i n. None),
      en_review = (\<lambda>tr i p. Ok \<lparr>rv_TurnID = ''u'', rv_Text = ''APPROVED'', rv_Warnings = [], rv_Usage = None\<rparr>),
      en_setup = (\<lambda>tr. None), en_turn = (\<lambda>tr. None)\<rparr>"

definition sample_service :: service where
  "sample_service = \<lparr>se_store = sample_store, se_recordBytes = historyRecordBytes\<rparr>"

definition sample_req :: "bool \<Rightarrow> ReviewRequest" where
  "sample_req build = \<lparr>req_Repo = ''/r'', req_Branch = ''topic'', req_Commit = ''HEAD'', req_BranchNotes = ''notes'', req_Build = build\<rparr>"

definition topic_key :: string where
  "topic_key = ''/r/.git::refs/heads/topic''"

text \<open>How a run of the sample service begins, up to the round.\<close>

definition sample_lock :: string where
  "sample_lock = WorkflowLockPath sample_store topic_key"

definition sample_begin :: trace where
  "sample_begin = [CGit ''open'', CGit ''branch'', CAcquire sample_lock LockWait True,
     CAcquire (LockPath sample_store) LockWait True, CLoad, CRelease (LockPath sample_store),
     CGit ''target'', CGit ''instructions'']"

lemma sample_resolve: "ResolveBranch sample_git sample_repo ''topic'' = Ok (tg_Branch sample_target)"
  using ValidateTarget_Ok [OF sample_validate] by blast

definition sample_round :: "State \<Rightarrow> bool \<Rightarrow> Target \<Rightarrow> round" where
  "sample_round st build target =
     \<lparr>rd_req = sample_req build, rd_repo = sample_repo, rd_branch = tg_Branch sample_target, rd_key = topic_key,
      rd_before = fst (Get st topic_key), rd_known = snd (Get st topic_key), rd_target = target,
      rd_hash = Hash (request_ident sample_repo (tg_Branch sample_target) target (sample_req build)), rd_instructions = []\<rparr>"

lemma sample_load [simp]:
  "Load (en_unmarshal (sample_env st)) (en_read (sample_env st) tr) sample_store (en_disk (sample_env st) tr) =
   (Ok st, sample_store)"
  by (simp add: sample_env_def Load_def readBounded_def sample_store_def sample_read_def Let_def size_defs Version_def
      oldestReadableVersion_def)

text \<open>What the beginning of the run needs of an environment.\<close>

definition sample_like :: "env \<Rightarrow> State \<Rightarrow> bool" where
  "sample_like en st \<longleftrightarrow> en_git en = (\<lambda>tr. sample_git) \<and> en_lock en = (\<lambda>tr p w. None) \<and>
     (\<forall>tr. Load (en_unmarshal en) (en_read en tr) sample_store (en_disk en tr) = (Ok st, sample_store))"

lemma sample_env_like: "sample_like (sample_env st) st"
  unfolding sample_like_def using sample_load by (simp add: sample_env_def)

lemma sample_service_review:
  assumes "sample_like en st" and "snd (Get st topic_key) \<Longrightarrow> check_stored (fst (Get st topic_key)) = None"
    and "length (wf_LastRequestHash (fst (Get st topic_key))) < 64"
    and "ValidateTarget sample_git sample_repo ''topic'' ''HEAD'' (wf_LastCommit (fst (Get st topic_key))) = Ok target"
    and "tg_Commit target = sample_oid (CHR ''a'')"
    and "round_run en sample_service (sample_round st build target) sample_begin = (r, tr)"
  shows "service_review en sample_service (sample_req build) = (r, tr @ [CRelease sample_lock])"
proof -
  obtain w known where g: "Get st topic_key = (w, known)" by fastforce
  have key: "WorkflowKey (repo_Identity sample_repo) (br_Ref (tg_Branch sample_target)) = topic_key"
    by (simp add: WorkflowKey_def repo_Identity_def sample_repo_def sample_target_def topic_key_def)
  let ?b = "[CGit ''open'', CGit ''branch'', CAcquire sample_lock LockWait True]"
  have load: "loadWorkflow en sample_service topic_key ?b =
      (Ok (w, known), take 6 sample_begin)"
    using g assms(1)
    by (simp add: loadWorkflow_def acquireStateLock_def load_state_def sample_like_def sample_service_def
        sample_begin_def Let_def)
  have differs: "wf_LastRequestHash w \<noteq> Hash x" for x
    using assms(3) g by (auto simp: Hash_def dest: arg_cong [where f = length])
  have "ReadInstructions sample_git sample_repo (sample_oid (CHR ''a'')) = Ok []"
    by (simp add: ReadInstructions_def repo_git_def TrimRight_def)
  then have "review_target en sample_service (sample_req build) sample_repo (tg_Branch sample_target) topic_key
      w known (take 6 sample_begin) = (r, tr)"
    using assms(1,4,5,6) g differs
    by (simp add: review_target_def sample_like_def sample_req_def replay_def sample_begin_def sample_round_def Let_def)
  then have "review_locked en sample_service (sample_req build) sample_repo (tg_Branch sample_target)
      topic_key ?b = (r, tr)"
    using load assms(2) g by (cases known) (simp_all add: review_locked_def)
  moreover have "validate_request (sample_req build) = None"
    by (simp add: validate_request_def sample_req_def size_defs)
  moreover have "se_store sample_service = sample_store" by (simp add: sample_service_def)
  ultimately show ?thesis
    using sample_open sample_resolve key assms(1)
    by (simp add: service_review_def sample_like_def sample_req_def sample_lock_def Let_def)
qed

lemma sample_targets:
  "ValidateTarget sample_git sample_repo ''topic'' ''HEAD'' [] = Ok (sample_target\<lparr>tg_HistoryRewritten := False\<rparr>)"
  "ValidateTarget sample_git sample_repo ''topic'' ''HEAD'' sample_id = Ok sample_target"
  by (simp_all add: ValidateTarget_def ResolveBranch_def sample_normalize repo_git_def PrimaryBranch_def remoteHeadName_def
      fallbackPrimaryNames_def primaryRef_def refExists_def headsPrefix_def sample_target_def target_commit_def
      ResolveCommit_def sample_clean mergeBase_def historyRewritten_def sample_id_def)

lemma sample_saves: "\<exists>ev. saveEvictingHistory io ctx historyRecordBytes sto [(k, w)] d = Some ev"
  using save_loop_total [of historyRecordBytes "[(k, w)]" None "[(k, w)]" "[]"] historyRecordBytes_pos
  by (auto simp: saveEvictingHistory_def loop_on_track_def)

lemma sample_save:
  assumes "reconcile st key before known previous dn = Some (Ok [(k, w)])"
  shows "\<exists>q d. saveCompleted (sample_env st) sample_service key before known previous dn tr =
    (q, tr @ [CAcquire (LockPath sample_store) FinalSaveLockWait True, CLoad, CSave d, CRelease (LockPath sample_store)])"
proof -
  have "se_store sample_service = sample_store" "se_recordBytes sample_service = historyRecordBytes"
    "en_lock (sample_env st) tr p v = None" for p v
    by (simp_all add: sample_service_def sample_env_def)
  moreover obtain ev where "saveEvictingHistory (en_write (sample_env st) (tr @ [CAcquire (LockPath sample_store) FinalSaveLockWait True, CLoad]))
      (en_ctx (sample_env st) (tr @ [CAcquire (LockPath sample_store) FinalSaveLockWait True, CLoad]))
      historyRecordBytes sample_store [(k, w)]
      (en_disk (sample_env st) (tr @ [CAcquire (LockPath sample_store) FinalSaveLockWait True, CLoad])) = Some ev"
    using sample_saves by blast
  ultimately show ?thesis using assms
    by (simp add: saveCompleted_def acquireStateLock_def load_state_def Let_def)
qed

lemma sample_unknown [simp]: "Get [] topic_key = (zero_Workflow, False)"
  by (simp add: Get_def)

text \<open>A first review: a new thread in the worktree, one turn, one save.\<close>

lemma sample_first_run:
  "\<exists>r p d post. service_review (sample_env []) sample_service (sample_req False) =
     (r, sample_begin @ [CStartReviewer [] True, CStartThread ''/r'' (round_sandbox None),
        CSetThreadName ''t'' ''Counterpoint review: r topic'', CReview ''t'' p,
        CAcquire (LockPath sample_store) FinalSaveLockWait True, CLoad, CSave d] @ post)"
proof -
  let ?rd = "sample_round [] False (sample_target\<lparr>tg_HistoryRewritten := False\<rparr>)"
  let ?tr = "sample_begin @ [CStartReviewer [] True, CStartThread ''/r'' (round_sandbox None),
    CSetThreadName ''t'' ''Counterpoint review: r topic'', CReview ''t'' (Build (round_prompt ?rd None))]"
  let ?t = "\<lparr>th_ID = ''t'', th_Model = ''m'', th_ReasoningEffort = ''high''\<rparr>"
  let ?rw = "\<lparr>rv_TurnID = ''u'', rv_Text = ''APPROVED'', rv_Warnings = [], rv_Usage = None\<rparr>"
  have name: "threadName ''/r'' ''refs/heads/topic'' = ''Counterpoint review: r topic''"
    by (simp add: threadName_def Base_def TrimRight_def TrimPrefix_def HasPrefix_def)
  have th: "round_thread (sample_env []) ?rd None (sample_begin @ [CStartReviewer [] True]) = (Ok ?t, butlast ?tr)"
    using name
    by (simp add: round_thread_def start_new_def sample_round_def sample_repo_def sample_target_def round_cwd_def
        sample_env_def butlast_append Let_def)
  have tu: "round_turn (sample_env []) ?rd None ?t (butlast ?tr) = (Ok ?rw, ?tr)"
    by (simp add: round_turn_def sample_env_def butlast_append Let_def)
  have "reconcile [] topic_key (rd_before ?rd) False (round_previous ?rd) (round_done ?rd ?t ?rw) =
      Some (Ok [(topic_key, round_done ?rd ?t ?rw)])"
    by (simp add: reconcile_def Put_def)
  then obtain q d where sv: "saveCompleted (sample_env []) sample_service topic_key (rd_before ?rd) False
      (round_previous ?rd) (round_done ?rd ?t ?rw) ?tr =
    (q, ?tr @ [CAcquire (LockPath sample_store) FinalSaveLockWait True, CLoad, CSave d, CRelease (LockPath sample_store)])"
    using sample_save by blast
  have "\<exists>r post. round_session (sample_env []) sample_service ?rd None (sample_begin @ [CStartReviewer [] True]) =
      (r, ?tr @ [CAcquire (LockPath sample_store) FinalSaveLockWait True, CLoad, CSave d] @ post)"
    using th tu sv
    by (simp add: round_session_def round_integrity_def Let_def sample_round_def [of "[]"] split: option.splits)
  then obtain r post where ses: "round_session (sample_env []) sample_service ?rd None (sample_begin @ [CStartReviewer [] True]) =
      (r, ?tr @ [CAcquire (LockPath sample_store) FinalSaveLockWait True, CLoad, CSave d] @ post)" by blast
  have run: "round_run (sample_env []) sample_service ?rd sample_begin =
      (r, ?tr @ [CAcquire (LockPath sample_store) FinalSaveLockWait True, CLoad, CSave d] @ post @ [CCloseReviewer])"
    using ses
    by (simp add: round_run_def round_reviewer_def round_args_def sample_round_def [of "[]"] sample_req_def sample_env_def Let_def)
  have "service_review (sample_env []) sample_service (sample_req False) =
      (r, (?tr @ [CAcquire (LockPath sample_store) FinalSaveLockWait True, CLoad, CSave d] @ post @ [CCloseReviewer]) @ [CRelease sample_lock])"
    by (rule sample_service_review [OF sample_env_like _ _ _ _ run]) (simp_all add: zero_Workflow_def sample_targets sample_target_def)
  then show ?thesis by fastforce
qed

text \<open>A later review with build on: the archived thread is refused, unarchived and resumed.\<close>

definition topic_state :: State where
  "topic_state = [(topic_key, sample_workflow)]"

lemma sample_known [simp]: "Get topic_state topic_key = (sample_workflow, True)"
  by (simp add: Get_def topic_state_def)

lemma sample_checked: "check_stored sample_workflow = None"
proof -
  have "InvalidHistory sample_workflow = []"
    by (subst InvalidHistory_empty_iff) (simp_all add: sample_ledger, simp_all add: sample_workflow_def MaxInt_def)
  then show ?thesis by (simp add: check_stored_def incompleteWorkflowField_def) (simp add: sample_workflow_def MaxInt_def)
qed

lemma sample_later_run:
  "\<exists>r args cwd sb post. service_review (sample_env topic_state) sample_service (sample_req True) =
     (r, sample_begin @ [CPrepare topic_key (sample_oid (CHR ''a'')) True, CStartReviewer args True,
        CResumeThread ''t'' cwd sb, CUnarchiveThread ''t''] @ post)"
proof -
  let ?rd = "sample_round topic_state True sample_target"
  let ?co = "Some \<lparr>co_Dir = ''/c/src'', co_CacheDir = ''/c/cache'', co_TmpDir = ''/c/tmp''\<rparr>"
  let ?p = "CPrepare topic_key (sample_oid (CHR ''a'')) True"
  let ?res = "CResumeThread ''t'' ''/c/src'' (round_sandbox ?co)"
  let ?tr0 = "sample_begin @ [?p, CStartReviewer (round_args ?co) True]"
  let ?tr1 = "?tr0 @ [?res, CUnarchiveThread ''t'', CAddWarning unarchived_warning, ?res]"
  let ?t = "\<lparr>th_ID = ''t'', th_Model = ''m'', th_ReasoningEffort = ''high''\<rparr>"
  have th: "round_thread (sample_env topic_state) ?rd ?co ?tr0 = (Ok ?t, ?tr1)"
    by (simp add: round_thread_def resume_stored_def resume_attempts_def sample_round_def round_cwd_def
        sample_env_def as_ServerError_def sample_begin_def Let_def) (simp add: sample_workflow_def)
  obtain r tr' where ses: "round_session (sample_env topic_state) sample_service ?rd ?co ?tr0 = (r, tr')" by fastforce
  then have "\<exists>post. tr' = ?tr1 @ post"
  proof (cases rule: round_session_cases)
    case (turn t tr1 e)
    then show ?thesis using th by (simp add: round_turn_def sample_env_def Let_def)
  next
    case (save t tr1 rw0 tr2 rw tr3 q)
    have "\<exists>cs. tr2 = tr1 @ cs" using save(2) by (auto simp: round_turn_def Let_def split: sum.splits option.splits)
    moreover have "\<exists>cs. tr3 = tr2 @ cs"
      using save(3) by (auto simp: round_integrity_def Let_def split: prod.splits if_splits)
    moreover have "\<exists>cs. tr' = tr3 @ cs" using saveCompleted_calls [OF save(4)] by blast
    ultimately show ?thesis using th save(1) by auto
  qed (use th in simp)
  then obtain post where tr': "tr' = ?tr1 @ post" by blast
  have run: "round_run (sample_env topic_state) sample_service ?rd sample_begin =
      (r, tr' @ [CCloseReviewer, CCloseCheckout ''/c/src''])"
    using ses
    by (simp add: round_run_def round_reviewer_def sample_round_def [of topic_state] sample_req_def sample_env_def
        sample_target_def Let_def)
  have "service_review (sample_env topic_state) sample_service (sample_req True) =
      (r, (tr' @ [CCloseReviewer, CCloseCheckout ''/c/src'']) @ [CRelease sample_lock])"
    by (rule sample_service_review [OF sample_env_like _ _ _ _ run])
      (simp_all add: sample_checked, simp_all add: sample_workflow_def sample_targets sample_target_def)
  then show ?thesis using tr' by fastforce
qed

section \<open>The claims\<close>

lemma service_review_call:
  assumes "service_review en s req = (r, pre @ c # post)" and "\<And>m. c \<noteq> CGit m"
  shows "\<exists>repo branch. Open (en_git en []) (req_Repo req) = Ok repo \<and>
    ResolveBranch (en_git en [CGit ''open'']) repo (req_Branch req) = Ok branch \<and>
    allowed en s (WorkflowKey (repo_Identity repo) (br_Ref branch)) (rp_Worktree repo) (req_Build req) pre c"
proof -
  have "\<not> set (pre @ c # post) \<subseteq> range CGit" using assms(2) by auto
  from service_review_justified [OF assms(1) this]
  obtain repo and branch :: Branch where "Open (en_git en []) (req_Repo req) = Ok repo"
    "ResolveBranch (en_git en [CGit ''open'']) repo (req_Branch req) = Ok branch"
    "all_calls (allowed en s (WorkflowKey (repo_Identity repo) (br_Ref branch)) (rp_Worktree repo) (req_Build req)) [] (pre @ c # post)"
    by blast
  then show ?thesis using all_calls_at [of _ pre c post] by blast
qed

text \<open>
  C5. A workflow's reviews stay on its own Codex thread: a thread is resumed only when it is
  the one the record loaded for this repository and branch names, and a new thread is
  started only when the state file, as loaded, has no record of the workflow. A stored
  thread that cannot be resumed is therefore never replaced.
\<close>

theorem thread_follows_record:
  assumes "service_review en s req = (r, pre @ c # post)"
    and "c = CStartThread cwd sb \<or> c = CResumeThread t cwd sb"
  shows "\<exists>repo branch w. Open (en_git en []) (req_Repo req) = Ok repo \<and>
    ResolveBranch (en_git en [CGit ''open'']) repo (req_Branch req) = Ok branch \<and>
    happened (loaded en s (WorkflowKey (repo_Identity repo) (br_Ref branch)) w (c \<noteq> CStartThread cwd sb)) pre \<and>
    (c \<noteq> CStartThread cwd sb \<longrightarrow> wf_ThreadID w = t)"
proof -
  have "c \<noteq> CGit m" for m using assms(2) by auto
  from service_review_call [OF assms(1) this] show ?thesis using assms(2) by (elim disjE; simp; blast)
qed

lemma thread_follows_record_witness:
  "\<exists>w. happened (loaded (sample_env []) sample_service topic_key w False) (sample_begin @ [CStartReviewer [] True])"
proof -
  obtain r p d post where run: "service_review (sample_env []) sample_service (sample_req False) =
     (r, (sample_begin @ [CStartReviewer [] True]) @ CStartThread ''/r'' (round_sandbox None) #
        [CSetThreadName ''t'' ''Counterpoint review: r topic'', CReview ''t'' p,
        CAcquire (LockPath sample_store) FinalSaveLockWait True, CLoad, CSave d] @ post)"
    using sample_first_run by auto
  have "Open (en_git (sample_env []) []) (req_Repo (sample_req False)) = Ok sample_repo"
    "ResolveBranch (en_git (sample_env []) [CGit ''open'']) sample_repo (req_Branch (sample_req False)) =
       Ok (tg_Branch sample_target)"
    by (simp_all add: sample_env_def sample_req_def sample_open sample_resolve)
  moreover have "WorkflowKey (repo_Identity sample_repo) (br_Ref (tg_Branch sample_target)) = topic_key"
    by (simp add: WorkflowKey_def repo_Identity_def sample_repo_def sample_target_def topic_key_def)
  ultimately show ?thesis using thread_follows_record [OF run, of "''/r''" "round_sandbox None"] by auto
qed

text \<open>
  C6. Where a thread may work and what it may write: without build it runs in the worktree
  with nothing writable; with build it runs in the disposable checkout prepared for this very
  review, and only the checkout's cache and temporary directories are writable besides it.
\<close>

theorem thread_confined:
  assumes "service_review en s req = (r, pre @ c # post)"
    and "c = CStartThread cwd sb \<or> c = CResumeThread t cwd sb"
  shows "if req_Build req
    then \<exists>co pre1 k oid mid. pre = pre1 @ CPrepare k oid True # mid \<and> en_prepare en pre1 k oid = Ok co \<and>
      cwd = co_Dir co \<and> sb_Build sb \<and> sb_WritableRoots sb = [co_CacheDir co, co_TmpDir co]
    else (\<exists>repo. Open (en_git en []) (req_Repo req) = Ok repo \<and> cwd = rp_Worktree repo) \<and>
      \<not> sb_Build sb \<and> sb_WritableRoots sb = []"
proof -
  have git: "c \<noteq> CGit m" for m using assms(2) by auto
  obtain repo and branch :: Branch where "Open (en_git en []) (req_Repo req) = Ok repo"
    "allowed en s (WorkflowKey (repo_Identity repo) (br_Ref branch)) (rp_Worktree repo) (req_Build req) pre c"
    using service_review_call [OF assms(1) git] by blast
  then have "placed en (rp_Worktree repo) (req_Build req) pre cwd sb" using assms(2) by auto
  then show ?thesis using \<open>Open (en_git en []) (req_Repo req) = Ok repo\<close>
    by (fastforce simp: placed_def happened_def made_def round_sandbox_def)
qed

lemma thread_confined_witness:
  "\<exists>repo. Open sample_git ''/r'' = Ok repo \<and> ''/r'' = rp_Worktree repo"
proof -
  obtain r p d post where run: "service_review (sample_env []) sample_service (sample_req False) =
     (r, (sample_begin @ [CStartReviewer [] True]) @ CStartThread ''/r'' (round_sandbox None) #
        [CSetThreadName ''t'' ''Counterpoint review: r topic'', CReview ''t'' p,
        CAcquire (LockPath sample_store) FinalSaveLockWait True, CLoad, CSave d] @ post)"
    using sample_first_run by auto
  then show ?thesis using thread_confined [OF run, of "''/r''" "round_sandbox None"]
    by (simp add: sample_req_def sample_env_def)
qed

text \<open>
  C7. The only change the service makes to a stored thread on its own is unarchiving it, and
  only as an answer: immediately after the app-server itself refused to resume that thread,
  while setup has neither timed out nor been cancelled.
\<close>

theorem unarchive_only_when_refused:
  assumes "service_review en s req = (r, pre @ CUnarchiveThread t # post)"
  shows "\<exists>pre1 cwd sb e. pre = pre1 @ [CResumeThread t cwd sb] \<and> en_resume en pre1 t cwd sb = Err e \<and>
    errors_As as_ServerError e \<noteq> None \<and> en_setup en pre = None"
  using service_review_call [OF assms] by auto

lemma unarchive_only_when_refused_witness:
  "\<exists>pre cwd sb e. en_resume (sample_env topic_state) pre ''t'' cwd sb = Err e \<and> errors_As as_ServerError e \<noteq> None"
proof -
  obtain r args cwd sb post where "service_review (sample_env topic_state) sample_service (sample_req True) =
     (r, (sample_begin @ [CPrepare topic_key (sample_oid (CHR ''a'')) True, CStartReviewer args True,
        CResumeThread ''t'' cwd sb]) @ CUnarchiveThread ''t'' # post)"
    using sample_later_run by auto
  from unarchive_only_when_refused [OF this] show ?thesis by blast
qed

text \<open>
  C8. Only a review that was answered is recorded, and only on a thread that was opened in the
  same request: the state is written only after a turn that returned a review, and a turn
  runs only on a thread a start or a resume of this request returned.
\<close>

theorem only_answered_reviews_saved:
  assumes "service_review en s req = (r, pre @ c # post)" and "c = CSave d \<or> c = CReview t p"
  shows "if c = CSave d
    then \<exists>pre1 t1 p1 mid rw. pre = pre1 @ CReview t1 p1 # mid \<and> en_review en pre1 t1 p1 = Ok rw
    else happened (opened en t) pre"
  using service_review_call [OF assms(1)] assms(2) by (fastforce simp: happened_def answered_def)

lemma only_answered_reviews_saved_witness:
  "\<exists>pre1 t1 p1 rw. en_review (sample_env []) pre1 t1 p1 = Ok rw"
proof -
  obtain r p d post where "service_review (sample_env []) sample_service (sample_req False) =
     (r, (sample_begin @ [CStartReviewer [] True, CStartThread ''/r'' (round_sandbox None),
        CSetThreadName ''t'' ''Counterpoint review: r topic'', CReview ''t'' p,
        CAcquire (LockPath sample_store) FinalSaveLockWait True, CLoad]) @ CSave d # post)"
    using sample_first_run by auto
  from only_answered_reviews_saved [OF this, of d] show ?thesis by auto
qed

end
