(* ===== verification/JsonParse.thy ===== *)
theory JsonParse
  imports Json Text
begin

text \<open>
  The input side of encoding/json: the values a text decodes to, as json.Unmarshal and
  json.Valid read it, byte by byte (white space, literals, the number grammar, string escapes
  with surrogate pairs, replacement of what is no UTF-8, the limit on nesting), and that
  reading back what MarshalIndent writes gives the value that was written.
\<close>

section \<open>Values\<close>

datatype jval = VNull | VBool bool | VNum string | VText string | VList "jval list" | VDict "(string \<times> jval) list"

text \<open>decode.go's limit on nested arrays and objects.\<close>

definition maxNestingDepth :: nat where
  "maxNestingDepth = 10000"

definition is_ws :: "char \<Rightarrow> bool" where
  "is_ws c \<longleftrightarrow> c = CHR 0x20 \<or> c = CHR 0x09 \<or> c = CHR 0x0A \<or> c = CHR 0x0D"

definition skip_ws :: "string \<Rightarrow> string" where
  "skip_ws s = dropWhile is_ws s"

lemma length_skip_ws: "length (skip_ws s) \<le> length s"
  by (simp add: skip_ws_def length_dropWhile_le)

section \<open>Strings\<close>

definition hex_value :: "char \<Rightarrow> nat option" where
  "hex_value c =
     (if is_digit c then Some (byte c - 48)
      else if CHR ''a'' \<le> c \<and> c \<le> CHR ''f'' then Some (byte c - 87)
      else if CHR ''A'' \<le> c \<and> c \<le> CHR ''F'' then Some (byte c - 55)
      else None)"

text \<open>Four hexadecimal digits.\<close>

definition hex4 :: "string \<Rightarrow> nat option" where
  "hex4 s =
     (case s of
        a # b # c # d # t \<Rightarrow>
          (case (hex_value a, hex_value b, hex_value c, hex_value d) of
             (Some w, Some x, Some y, Some z) \<Rightarrow> Some (4096 * w + 256 * x + 16 * y + z)
           | _ \<Rightarrow> None)
      | _ \<Rightarrow> None)"

definition utf8_encode :: "nat \<Rightarrow> string" where
  "utf8_encode r =
     (if r < 128 then [char_of r]
      else if r < 2048 then [char_of (192 + r div 64), char_of (128 + r mod 64)]
      else if r < 65536 then [char_of (224 + r div 4096), char_of (128 + r div 64 mod 64), char_of (128 + r mod 64)]
      else [char_of (240 + r div 262144), char_of (128 + r div 4096 mod 64), char_of (128 + r div 64 mod 64),
            char_of (128 + r mod 64)])"

definition replacement :: string where
  "replacement = [CHR 0xEF, CHR 0xBF, CHR 0xBD]"

definition is_surrogate :: "nat \<Rightarrow> bool" where
  "is_surrogate r \<longleftrightarrow> 55296 \<le> r \<and> r < 57344"

text \<open>What a unicode escape of value r stands for, with the text after it, and what is left of that.\<close>

definition unicode_escape :: "nat \<Rightarrow> string \<Rightarrow> string \<times> string" where
  "unicode_escape r s =
     (if \<not> is_surrogate r then (utf8_encode r, s)
      else
        (case (take 2 s = [CHR 0x5C, CHR ''u''], hex4 (drop 2 s)) of
           (True, Some r2) \<Rightarrow>
             (if r < 56320 \<and> 56320 \<le> r2 \<and> r2 < 57344
              then (utf8_encode (65536 + 1024 * (r - 55296) + (r2 - 56320)), drop 6 s) else (replacement, s))
         | _ \<Rightarrow> (replacement, s)))"

lemma unicode_escape_rest: "unicode_escape r s = (t, s') \<Longrightarrow> length s' \<le> length s"
  by (auto simp: unicode_escape_def split: if_splits option.splits bool.splits)

definition simple_escape :: "char \<Rightarrow> char option" where
  "simple_escape c =
     (if c = CHR 0x22 \<or> c = CHR 0x5C \<or> c = CHR ''/'' then Some c
      else if c = CHR ''b'' then Some (CHR 0x08)
      else if c = CHR ''f'' then Some (CHR 0x0C)
      else if c = CHR ''n'' then Some (CHR 0x0A)
      else if c = CHR ''r'' then Some (CHR 0x0D)
      else if c = CHR ''t'' then Some (CHR 0x09)
      else None)"

text \<open>The text of a string after its opening quote, and what follows the closing one.\<close>

definition prepend :: "string \<Rightarrow> (string \<times> string) option \<Rightarrow> (string \<times> string) option" where
  "prepend p r = map_option (\<lambda>(t, s). (p @ t, s)) r"

function str_body :: "string \<Rightarrow> (string \<times> string) option" where
  "str_body s =
     (case s of
        [] \<Rightarrow> None
      | c # t \<Rightarrow>
          (if c = CHR 0x22 then Some ([], t)
           else if c = CHR 0x5C then
             (case t of
                [] \<Rightarrow> None
              | e # u \<Rightarrow>
                  (if e = CHR ''u'' then
                     (case hex4 u of
                        None \<Rightarrow> None
                      | Some r \<Rightarrow> (case unicode_escape r (drop 4 u) of (x, v) \<Rightarrow> prepend x (str_body v)))
                   else (case simple_escape e of None \<Rightarrow> None | Some x \<Rightarrow> prepend [x] (str_body u))))
           else if byte c < 32 then None
           else if rune_size s = 0 then prepend replacement (str_body t)
           else prepend (take (rune_size s) s) (str_body (drop (rune_size s) s))))"
  by pat_completeness auto
termination
  by (relation "measure length") (auto dest!: sym [of _ "unicode_escape _ _"] unicode_escape_rest)

declare str_body.simps [simp del]

section \<open>Numbers\<close>

definition leading_digits :: "string \<Rightarrow> string" where
  "leading_digits s = takeWhile is_digit s"

text \<open>The text of a number: sign, integer part without leading zeros, fraction, exponent.\<close>

definition frac_part :: "string \<Rightarrow> string option" where
  "frac_part s =
     (if HasPrefix s ''.'' then
        (if leading_digits (tl s) = [] then None else Some (CHR ''.'' # leading_digits (tl s)))
      else Some [])"

definition exp_part :: "string \<Rightarrow> string option" where
  "exp_part s =
     (if HasPrefix s ''e'' \<or> HasPrefix s ''E'' then
        (let sign = (if HasPrefix (tl s) ''+'' \<or> HasPrefix (tl s) ''-'' then [hd (tl s)] else []);
             ds = leading_digits (drop (length sign) (tl s))
         in if ds = [] then None else Some (hd s # sign @ ds))
      else Some [])"

definition int_digits :: "string \<Rightarrow> string" where
  "int_digits s = (if HasPrefix s ''0'' then ''0'' else leading_digits s)"

definition number :: "string \<Rightarrow> (string \<times> string) option" where
  "number s =
     (let sign = (if HasPrefix s ''-'' then ''-'' else []);
          u = drop (length sign) s;
          ip = int_digits u
      in if ip = [] then None
      else
        (case frac_part (drop (length ip) u) of
           None \<Rightarrow> None
         | Some fp \<Rightarrow>
             (case exp_part (drop (length ip + length fp) u) of
                None \<Rightarrow> None
              | Some ep \<Rightarrow>
                  (let t = sign @ ip @ fp @ ep in Some (t, drop (length t) s)))))"

section \<open>The parser\<close>

text \<open>
  The first argument bounds the number of calls still allowed, the second is the nesting so
  far. Every call consumes a byte, so the length of the text is enough of a bound.
\<close>

fun p_value :: "nat \<Rightarrow> nat \<Rightarrow> string \<Rightarrow> (jval \<times> string) option"
  and p_elements :: "nat \<Rightarrow> nat \<Rightarrow> string \<Rightarrow> (jval list \<times> string) option"
  and p_members :: "nat \<Rightarrow> nat \<Rightarrow> string \<Rightarrow> ((string \<times> jval) list \<times> string) option" where
  "p_value 0 d s = None"
| "p_value (Suc n) d s =
     (case s of
        [] \<Rightarrow> None
      | c # t \<Rightarrow>
          (if c = CHR 0x22 then map_option (\<lambda>(x, r). (VText x, r)) (str_body t)
           else if c = CHR ''['' then
             (if maxNestingDepth \<le> d then None
              else if HasPrefix (skip_ws t) '']'' then Some (VList [], tl (skip_ws t))
              else map_option (\<lambda>(xs, r). (VList xs, r)) (p_elements n (Suc d) (skip_ws t)))
           else if c = CHR ''{'' then
             (if maxNestingDepth \<le> d then None
              else if HasPrefix (skip_ws t) ''}'' then Some (VDict [], tl (skip_ws t))
              else map_option (\<lambda>(ms, r). (VDict ms, r)) (p_members n (Suc d) (skip_ws t)))
           else if HasPrefix s ''true'' then Some (VBool True, drop 4 s)
           else if HasPrefix s ''false'' then Some (VBool False, drop 5 s)
           else if HasPrefix s ''null'' then Some (VNull, drop 4 s)
           else map_option (\<lambda>(x, r). (VNum x, r)) (number s)))"
| "p_elements 0 d s = None"
| "p_elements (Suc n) d s =
     (case p_value n d s of
        None \<Rightarrow> None
      | Some (x, r) \<Rightarrow>
          (if HasPrefix (skip_ws r) '','' then
             map_option (\<lambda>(xs, q). (x # xs, q)) (p_elements n d (skip_ws (tl (skip_ws r))))
           else if HasPrefix (skip_ws r) '']'' then Some ([x], tl (skip_ws r))
           else None))"
| "p_members 0 d s = None"
| "p_members (Suc n) d s =
     (if \<not> HasPrefix s [CHR 0x22] then None
      else
        (case str_body (tl s) of
           None \<Rightarrow> None
         | Some (k, r) \<Rightarrow>
             (if \<not> HasPrefix (skip_ws r) '':'' then None
              else
                (case p_value n d (skip_ws (tl (skip_ws r))) of
                   None \<Rightarrow> None
                 | Some (x, q) \<Rightarrow>
                     (if HasPrefix (skip_ws q) '','' then
                        map_option (\<lambda>(ms, p). ((k, x) # ms, p)) (p_members n d (skip_ws (tl (skip_ws q))))
                      else if HasPrefix (skip_ws q) ''}'' then Some ([(k, x)], tl (skip_ws q))
                      else None)))))"

definition parse_json :: "string \<Rightarrow> jval option" where
  "parse_json s =
     (case p_value (2 * length s + 1) 0 (skip_ws s) of
        None \<Rightarrow> None
      | Some (v, r) \<Rightarrow> if skip_ws r = [] then Some v else None)"

definition json_Valid :: "string \<Rightarrow> bool" where
  "json_Valid s \<longleftrightarrow> parse_json s \<noteq> None"

section \<open>Reading back a string\<close>

text \<open>A Go string with what is no UTF-8 replaced, as the encoder writes it.\<close>

function to_utf8 :: "string \<Rightarrow> string" where
  "to_utf8 s =
     (if s = [] then []
      else if rune_size s = 0 then replacement @ to_utf8 (drop 1 s)
      else take (rune_size s) s @ to_utf8 (drop (rune_size s) s))"
  by pat_completeness auto
termination
  by (relation "measure length") auto

declare to_utf8.simps [simp del]

lemma to_utf8_valid: "ValidString s \<Longrightarrow> to_utf8 s = s"
proof (induction s rule: to_utf8.induct)
  case (1 s)
  then show ?case
    by (cases "s = []"; cases "rune_size s = 0") (simp_all add: to_utf8.simps [of s] to_utf8.simps [of "[]"] ValidString.simps [of s])
qed

lemma prepend_Some [simp]: "prepend p (Some (t, r)) = Some (p @ t, r)"
  by (simp add: prepend_def)

lemma rune_size_le: "rune_size s \<le> length s"
  by (auto simp: rune_size_def Let_def split: list.splits)

lemma rune_size_one: "rune_size s = 1 \<longleftrightarrow> s \<noteq> [] \<and> byte (hd s) < 128"
  by (auto simp: rune_size_def Let_def split: list.splits)

lemma rune_size_4: "rune_size s \<in> {0, 1, 2, 3, 4}"
  by (auto simp: rune_size_def Let_def split: list.splits)

lemma rune_size_2: "rune_size (a # b # u) = 2 \<longleftrightarrow> 194 \<le> byte a \<and> byte a \<le> 223 \<and> is_cont b"
  by (auto simp: rune_size_def Let_def split: list.splits)

lemma rune_size_3: "rune_size (a # b # c # u) = 3 \<longleftrightarrow> 224 \<le> byte a \<and> byte a \<le> 239 \<and> second_ok (byte a) b \<and> is_cont c"
  by (auto simp: rune_size_def Let_def split: list.splits)

lemma rune_size_4': "rune_size (a # b # c # d # u) = 4 \<longleftrightarrow>
    240 \<le> byte a \<and> byte a \<le> 244 \<and> second_ok (byte a) b \<and> is_cont c \<and> is_cont d"
  by (auto simp: rune_size_def Let_def split: list.splits)

lemma rune_size_prefix:
  assumes "rune_size s \<noteq> 0"
  shows "rune_size (take (rune_size s) s @ t) = rune_size s"
proof -
  consider "rune_size s = 1" | "rune_size s = 2" | "rune_size s = 3" | "rune_size s = 4"
    using rune_size_4 [of s] assms by auto
  then show ?thesis
  proof cases
    case 1
    then obtain c u where "s = c # u" "byte c < 128" using rune_size_one by (cases s) auto
    then show ?thesis using 1 by (simp add: rune_size_def)
  next
    case 2
    then have "2 \<le> length s" using rune_size_le [of s] by simp
    then obtain a b u where "s = a # b # u" by (auto simp: numeral_2_eq_2 Suc_le_length_iff)
    then show ?thesis using 2 rune_size_2 [of a b "t"] rune_size_2 [of a b u] by simp
  next
    case 3
    then have "3 \<le> length s" using rune_size_le [of s] by simp
    then obtain a b c u where "s = a # b # c # u" by (auto simp: numeral_3_eq_3 Suc_le_length_iff)
    then show ?thesis using 3 rune_size_3 [of a b c t] rune_size_3 [of a b c u] by simp
  next
    case 4
    then have "4 \<le> length s" using rune_size_le [of s] by simp
    then obtain a b c d u where "s = a # b # c # d # u" by (auto simp: numeral_eq_Suc Suc_le_length_iff)
    then show ?thesis using 4 rune_size_4' [of a b c d t] rune_size_4' [of a b c d u] by simp
  qed
qed

lemma rune_size_head: "2 \<le> rune_size s \<Longrightarrow> s \<noteq> [] \<and> 194 \<le> byte (hd s)"
  by (auto simp: rune_size_def Let_def split: list.splits if_splits)

lemma hex_digits: "\<forall>d\<in>set [0..<16]. hex_value (digit_char d) = Some d"
  by code_simp

lemma hex_digit [simp]: "d < 16 \<Longrightarrow> hex_value (digit_char d) = Some d"
  using hex_digits by simp

lemma byte_char [simp]: "char_of (byte c) = c"
  by (simp add: byte_def)

lemma hex4_byte: "byte c < 128 \<Longrightarrow> hex4 (CHR ''0'' # CHR ''0'' # digit_char (byte c div 16) # digit_char (byte c mod 16) # t) = Some (byte c)"
proof -
  assume "byte c < 128"
  then have "byte c div 16 < 16" "byte c mod 16 < 16" by (simp_all add: less_mult_imp_div_less)
  moreover have "hex_value (CHR ''0'') = Some 0" by code_simp
  ultimately show ?thesis by (simp add: hex4_def)
qed

lemma str_body_hex: "byte c < 128 \<Longrightarrow> str_body (hex_escape (byte c) @ t) = prepend [c] (str_body t)"
  by (simp add: str_body.simps [of "CHR 0x5C # _"] hex_escape_def hex4_byte unicode_escape_def is_surrogate_def utf8_encode_def)

lemma str_body_plain:
  assumes "rune_size s \<noteq> 0" and "hd s \<noteq> CHR 0x22" and "hd s \<noteq> CHR 0x5C" and "32 \<le> byte (hd s)"
  shows "str_body (take (rune_size s) s @ t) = prepend (take (rune_size s) s) (str_body t)"
proof -
  obtain n where n: "rune_size s = n" by simp
  obtain c u where s: "s = c # u" using assms(1) by (cases s) (auto simp: rune_size_def)
  obtain m where m: "n = Suc m" using assms(1) n by (cases n) auto
  have len: "n \<le> length s" using rune_size_le [of s] n by simp
  define v where "v = take m u @ t"
  have v: "take n s @ t = c # v" by (simp add: s m v_def)
  have size: "rune_size (c # v) = n" using rune_size_prefix [OF assms(1), of t] n v by simp
  have c: "c \<noteq> CHR 0x22" "c \<noteq> CHR 0x5C" "\<not> byte c < 32" using assms s by simp_all
  have "str_body (c # v) = prepend (take n (c # v)) (str_body (drop n (c # v)))"
    unfolding str_body.simps [of "c # v"] using c size m by simp
  moreover have "take n (c # v) = take n s" "drop n (c # v) = t"
    using len by (simp_all add: v [symmetric])
  ultimately show ?thesis using v n by simp
qed

lemma rune_size_byte: "byte c < 128 \<Longrightarrow> rune_size (c # t) = 1"
  by (simp add: rune_size_def)

lemma str_body_byte:
  assumes "byte c < 128"
  shows "str_body (escape_byte c @ t) = prepend [c] (str_body t)"
proof -
  have simple: "simple_escape (CHR 0x22) = Some (CHR 0x22)" "simple_escape (CHR 0x5C) = Some (CHR 0x5C)"
    "simple_escape (CHR ''b'') = Some (CHR 0x08)" "simple_escape (CHR ''f'') = Some (CHR 0x0C)"
    "simple_escape (CHR ''n'') = Some (CHR 0x0A)" "simple_escape (CHR ''r'') = Some (CHR 0x0D)"
    "simple_escape (CHR ''t'') = Some (CHR 0x09)"
    by code_simp+
  consider "escape_byte c = hex_escape (byte c)"
    | e where "escape_byte c = [CHR 0x5C, e]" "simple_escape e = Some c" "e \<noteq> CHR ''u''"
    | "escape_byte c = [c]" "c \<noteq> CHR 0x22" "c \<noteq> CHR 0x5C" "32 \<le> byte c"
  proof (cases "c = CHR 0x22 \<or> c = CHR 0x5C \<or> c = CHR 0x08 \<or> c = CHR 0x0C \<or> c = CHR 0x0A \<or> c = CHR 0x0D \<or> c = CHR 0x09")
    case True
    then have "\<exists>e. escape_byte c = [CHR 0x5C, e] \<and> simple_escape e = Some c \<and> e \<noteq> CHR ''u''"
      by (elim disjE) (simp_all add: escape_byte_def simple)
    then show ?thesis using that(2) by blast
  next
    case False
    then show ?thesis using that(1,3)
      by (cases "byte c < 32 \<or> c \<in> {CHR ''<'', CHR ''>'', CHR ''&''}") (simp_all add: escape_byte_def)
  qed
  then show ?thesis
  proof cases
    case 1
    then show ?thesis using str_body_hex assms by simp
  next
    case 2
    then show ?thesis by (simp add: str_body.simps [of "CHR 0x5C # _"])
  next
    case 3
    then show ?thesis using str_body_plain [of "[c]" t] assms by (simp add: rune_size_byte)
  qed
qed

lemma str_body_fffd: "str_body (CHR 0x5C # CHR ''u'' # CHR ''f'' # CHR ''f'' # CHR ''f'' # CHR ''d'' # t) = prepend replacement (str_body t)"
proof -
  have "hex_value (CHR ''f'') = Some 15" "hex_value (CHR ''d'') = Some 13" by code_simp+
  then have "hex4 (CHR ''f'' # CHR ''f'' # CHR ''f'' # CHR ''d'' # t) = Some 65533" by (simp add: hex4_def)
  moreover have "unicode_escape 65533 t = (replacement, t)"
  proof -
    have "char_of (239::nat) = CHR 0xEF" "char_of (191::nat) = CHR 0xBF" "char_of (189::nat) = CHR 0xBD" by code_simp+
    then have "utf8_encode 65533 = replacement" by (simp add: utf8_encode_def replacement_def)
    then show ?thesis by (simp add: unicode_escape_def is_surrogate_def)
  qed
  ultimately show ?thesis by (simp add: str_body.simps [of "CHR 0x5C # _"])
qed

lemma str_body_sep:
  assumes "is_line_sep r"
  shows "str_body (escape_rune r @ t) = prepend r (str_body t)"
proof -
  have hex: "hex_value (CHR ''2'') = Some 2" "hex_value (CHR ''0'') = Some 0" "hex_value (CHR ''8'') = Some 8"
      "hex_value (CHR ''9'') = Some 9" by code_simp+
  have "char_of (226::nat) = CHR 0xE2" "char_of (128::nat) = CHR 0x80" "char_of (168::nat) = CHR 0xA8"
      "char_of (169::nat) = CHR 0xA9" by code_simp+
  then have enc: "utf8_encode 8232 = [CHR 0xE2, CHR 0x80, CHR 0xA8]" "utf8_encode 8233 = [CHR 0xE2, CHR 0x80, CHR 0xA9]"
    by (simp_all add: utf8_encode_def)
  have "unicode_escape 8232 t = ([CHR 0xE2, CHR 0x80, CHR 0xA8], t)" "unicode_escape 8233 t = ([CHR 0xE2, CHR 0x80, CHR 0xA9], t)"
    by (simp_all add: unicode_escape_def is_surrogate_def enc)
  moreover have "hex4 (CHR ''2'' # CHR ''0'' # CHR ''2'' # CHR ''8'' # t) = Some 8232"
      "hex4 (CHR ''2'' # CHR ''0'' # CHR ''2'' # CHR ''9'' # t) = Some 8233"
    by (simp_all add: hex4_def hex)
  moreover have "r = [CHR 0xE2, CHR 0x80, CHR 0xA8] \<or> r = [CHR 0xE2, CHR 0x80, CHR 0xA9]"
    using assms by (simp add: is_line_sep_def)
  ultimately show ?thesis
    by (elim disjE) (simp_all add: is_line_sep_def escape_rune_def str_body.simps [of "CHR 0x5C # _"])
qed

lemma str_body_escape: "str_body (escape s @ CHR 0x22 # rest) = Some (to_utf8 s, rest)"
proof (induction s rule: escape.induct)
  case (1 s)
  show ?case
  proof (cases "s = []")
    case True
    then show ?thesis by (simp add: escape.simps [of "[]"] to_utf8.simps [of "[]"] str_body.simps [of "CHR 0x22 # rest"])
  next
    case False
    consider "rune_size s = 0" | "rune_size s = 1" | "2 \<le> rune_size s" by linarith
    then show ?thesis
    proof cases
      case 1
      then show ?thesis using "1.IH"(1) [OF False 1] False
        by (simp add: escape.simps [of s] to_utf8.simps [of s] str_body_fffd)
    next
      case 2
      then have "byte (hd s) < 128" using rune_size_one by blast
      moreover have "take (Suc 0) s = [hd s]" using False by (cases s) auto
      ultimately show ?thesis using "1.IH"(2) [OF False _ 2] False 2
        by (simp add: escape.simps [of s] to_utf8.simps [of s] str_body_byte)
    next
      case 3
      let ?r = "take (rune_size s) s"
      have IH: "str_body (escape (drop (rune_size s) s) @ CHR 0x22 # rest) = Some (to_utf8 (drop (rune_size s) s), rest)"
        using "1.IH"(3) False 3 by simp
      have "str_body (escape_rune ?r @ t) = prepend ?r (str_body t)" for t
      proof (cases "is_line_sep ?r")
        case True
        then show ?thesis by (rule str_body_sep)
      next
        case plain: False
        have "194 \<le> byte (hd s)" using rune_size_head [OF 3] by blast
        moreover have "byte (CHR 0x22) = 34" "byte (CHR 0x5C) = 92" by code_simp+
        ultimately have "hd s \<noteq> CHR 0x22" "hd s \<noteq> CHR 0x5C" "32 \<le> byte (hd s)" by auto
        then show ?thesis using str_body_plain [of s t] 3 plain by (simp add: escape_rune_def)
      qed
      then show ?thesis using IH False 3
        by (simp add: escape.simps [of s] to_utf8.simps [of s])
    qed
  qed
qed

section \<open>Reading back a value\<close>

text \<open>What a written value reads back as.\<close>

function val_of :: "json \<Rightarrow> jval" where
  "val_of (JInt i) = VNum (Itoa i)"
| "val_of (JStr s) = VText (to_utf8 s)"
| "val_of (JArr xs) = VList (map (\<lambda>x. val_of x) xs)"
| "val_of (JObj fs) = VDict (map (\<lambda>kv. (to_utf8 (fst kv), val_of (snd kv))) fs)"
  by pat_completeness auto
termination
proof (relation "measure size", simp_all)
  fix xs and x :: json
  assume "x \<in> set xs"
  then show "size x < Suc (size_list size xs)"
    by (simp add: size_list_estimation' [of x xs] le_imp_less_Suc)
next
  fix fs and kv :: "string \<times> json"
  assume "kv \<in> set fs"
  then have "size_prod (\<lambda>s. 0) size kv \<le> size_list (size_prod (\<lambda>s. 0) size) fs"
    by (rule size_list_estimation') simp
  then show "size (snd kv) < Suc (size_list (size_prod (\<lambda>s. 0) size) fs)"
    by (cases kv) simp
qed

text \<open>How deep a value nests.\<close>

function nesting :: "json \<Rightarrow> nat" where
  "nesting (JInt i) = 0"
| "nesting (JStr s) = 0"
| "nesting (JArr xs) = Suc (Max (set (0 # map (\<lambda>x. nesting x) xs)))"
| "nesting (JObj fs) = Suc (Max (set (0 # map (\<lambda>kv. nesting (snd kv)) fs)))"
  by pat_completeness auto
termination
proof (relation "measure size", simp_all)
  fix xs and x :: json
  assume "x \<in> set xs"
  then show "size x < Suc (size_list size xs)"
    by (simp add: size_list_estimation' [of x xs] le_imp_less_Suc)
next
  fix fs and kv :: "string \<times> json"
  assume "kv \<in> set fs"
  then have "size_prod (\<lambda>s. 0) size kv \<le> size_list (size_prod (\<lambda>s. 0) size) fs"
    by (rule size_list_estimation') simp
  then show "size (snd kv) < Suc (size_list (size_prod (\<lambda>s. 0) size) fs)"
    by (cases kv) simp
qed

lemma nesting_arr:
  assumes "x \<in> set xs" and "d + nesting (JArr xs) \<le> m"
  shows "Suc d + nesting x \<le> m"
proof -
  have "nesting x \<le> Max (set (0 # map nesting xs))" by (rule Max_ge) (use assms(1) in auto)
  then show ?thesis using assms(2) by simp
qed

lemma nesting_obj:
  assumes "kv \<in> set fs" and "d + nesting (JObj fs) \<le> m"
  shows "Suc d + nesting (snd kv) \<le> m"
proof -
  have "nesting (snd kv) \<le> Max (set (0 # map (\<lambda>kv. nesting (snd kv)) fs))" by (rule Max_ge) (use assms(1) in auto)
  then show ?thesis using assms(2) by simp
qed

lemma nesting_le_Suc:
  "nesting (JArr xs) \<le> Suc m \<longleftrightarrow> (\<forall>x\<in>set xs. nesting x \<le> m)"
  "nesting (JObj fs) \<le> Suc m \<longleftrightarrow> (\<forall>kv\<in>set fs. nesting (snd kv) \<le> m)"
  by (auto simp: Max_le_iff simp del: Max_insert)

lemma skip_ws_ws [simp]: "is_ws c \<Longrightarrow> skip_ws (c # s) = skip_ws s"
  by (simp add: skip_ws_def)

lemma skip_ws_Cons [simp]: "\<not> is_ws c \<Longrightarrow> skip_ws (c # s) = c # s"
  by (simp add: skip_ws_def)

lemma skip_ws_newline [simp]: "skip_ws (newline_at d @ s) = skip_ws s"
proof -
  have "is_ws (CHR 0x0A)" "is_ws (CHR '' '')" by code_simp+
  then show ?thesis unfolding newline_at_def skip_ws_def by (induction d) simp_all
qed

lemma no_ws [simp]: "\<not> is_ws (CHR 0x22)" "\<not> is_ws (CHR ''['')" "\<not> is_ws (CHR '']'')" "\<not> is_ws (CHR ''{'')"
    "\<not> is_ws (CHR ''}'')" "\<not> is_ws (CHR '','')" "\<not> is_ws (CHR '':'')" "is_ws (CHR '' '')" "\<not> is_ws (CHR ''-'')"
  by code_simp+

text \<open>After a number comes a byte that cannot continue it.\<close>

definition stops :: "string \<Rightarrow> bool" where
  "stops s \<longleftrightarrow> s = [] \<or> hd s \<in> {CHR '','', CHR '']'', CHR ''}''} \<or> is_ws (hd s)"

lemma is_digit_char: "d < 10 \<Longrightarrow> is_digit (digit_char d)"
proof -
  have "\<forall>d\<in>set [0..<10]. is_digit (digit_char d)" by code_simp
  then show "d < 10 \<Longrightarrow> is_digit (digit_char d)" by simp
qed

lemma no_digit: "\<not> is_digit (CHR '','')" "\<not> is_digit (CHR 0x0A)" "\<not> is_digit (CHR ''-'')" "\<not> is_digit (CHR '']'')" "\<not> is_digit (CHR ''}'')"
    "\<not> is_digit (CHR 0x20)" "\<not> is_digit (CHR 0x09)" "\<not> is_digit (CHR 0x0D)"
  by code_simp+

lemma nat_text_digits: "\<forall>c\<in>set (nat_text n). is_digit c"
  using digits_lt_10 is_digit_char by (auto simp: nat_text_def)

lemma digits_hd: "0 < n \<Longrightarrow> hd (digits n) \<noteq> 0"
proof (induction n rule: digits.induct)
  case (1 n)
  show ?case
  proof (cases "n < 10")
    case True
    then show ?thesis using 1(2) by (simp add: digits.simps [of n])
  next
    case False
    then have "hd (digits (n div 10)) \<noteq> 0" using 1(1) by simp
    then show ?thesis using False by (simp add: digits.simps [of n])
  qed
qed

lemma digit_char_0: "d < 10 \<Longrightarrow> digit_char d = CHR ''0'' \<Longrightarrow> d = 0"
proof -
  have "\<forall>d\<in>set [0..<10]. digit_char d = CHR ''0'' \<longrightarrow> d = 0" by code_simp
  then show "d < 10 \<Longrightarrow> digit_char d = CHR ''0'' \<Longrightarrow> d = 0" by simp
qed

lemma takeWhile_digits:
  assumes "\<forall>c\<in>set t. is_digit c" and "stops rest"
  shows "leading_digits (t @ rest) = t"
proof -
  have "takeWhile is_digit rest = []" using assms(2) no_digit by (cases rest) (auto simp: stops_def is_ws_def)
  then show ?thesis using assms(1) by (simp add: leading_digits_def takeWhile_append)
qed

lemma int_part:
  assumes "stops rest"
  shows "int_digits (nat_text n @ rest) = nat_text n"
proof (cases "n = 0")
  case True
  have "nat_text 0 = ''0''" by code_simp
  then show ?thesis using True by (simp add: int_digits_def)
next
  case False
  obtain d ds where ds: "digits n = d # ds" by (cases "digits n") auto
  then have "d \<noteq> 0" "d < 10" using digits_hd [of n] digits_lt_10 [of d n] False by auto
  then have "digit_char d \<noteq> CHR ''0''" using digit_char_0 by blast
  then have "\<not> HasPrefix (nat_text n @ rest) ''0''" by (simp add: nat_text_def ds)
  then show ?thesis using takeWhile_digits [OF nat_text_digits assms] by (simp add: int_digits_def)
qed

lemma number_Itoa:
  assumes "stops rest"
  shows "number (Itoa i @ rest) = Some (Itoa i, rest)"
proof -
  have tail: "frac_part rest = Some []" "exp_part rest = Some []"
    using assms by (cases rest; auto simp: stops_def is_ws_def frac_part_def exp_part_def)+
  have no_sign: "\<not> HasPrefix (nat_text n @ rest) ''-''" for n
  proof -
    have "is_digit (hd (nat_text n))" using nat_text_digits [of n] by (simp add: list.set_sel(1))
    then show ?thesis using no_digit(3) by (cases "nat_text n") auto
  qed
  show ?thesis
  proof (cases "i < 0")
    case True
    then have "Itoa i = CHR ''-'' # nat_text (nat (- i))" by (simp add: Itoa_def)
    then show ?thesis using int_part [OF assms, of "nat (- i)"] tail by (simp add: number_def Let_def)
  next
    case False
    then have "Itoa i = nat_text (nat i)" by (simp add: Itoa_def)
    then show ?thesis using int_part [OF assms, of "nat i"] tail no_sign by (simp add: number_def Let_def)
  qed
qed

text \<open>The first byte of a written value decides how it is read.\<close>

lemma head_digit: "is_digit c \<Longrightarrow> c \<noteq> CHR 0x22 \<and> c \<noteq> CHR ''['' \<and> c \<noteq> CHR ''{'' \<and> c \<noteq> CHR ''t'' \<and> c \<noteq> CHR ''f'' \<and> c \<noteq> CHR ''n'' \<and>
    c \<noteq> CHR '']'' \<and> c \<noteq> CHR ''}'' \<and> \<not> is_ws c"
  by (auto simp: is_digit_def is_ws_def less_eq_char_def)

lemma Itoa_head: "\<exists>c t. Itoa i = c # t \<and> (is_digit c \<or> c = CHR ''-'')"
proof (cases "i < 0")
  case True
  then show ?thesis by (simp add: Itoa_def)
next
  case False
  obtain c t where "nat_text (nat i) = c # t" by (cases "nat_text (nat i)") auto
  moreover then have "is_digit c" using nat_text_digits [of "nat i"] by simp
  ultimately show ?thesis using False by (simp add: Itoa_def)
qed

lemma p_value_number:
  assumes "stops rest" and "0 < n"
  shows "p_value n d (Itoa i @ rest) = Some (VNum (Itoa i), rest)"
proof -
  obtain c t where c: "Itoa i = c # t" "is_digit c \<or> c = CHR ''-''" using Itoa_head by blast
  have "c \<noteq> CHR 0x22 \<and> c \<noteq> CHR ''['' \<and> c \<noteq> CHR ''{'' \<and> c \<noteq> CHR ''t'' \<and> c \<noteq> CHR ''f'' \<and> c \<noteq> CHR ''n''"
    using c(2) head_digit [of c] by auto
  moreover obtain m where "n = Suc m" using assms(2) by (cases n) auto
  ultimately show ?thesis using number_Itoa [OF assms(1), of i] by (auto simp: c(1))
qed

lemma indent_head: "\<exists>c t. indent k j = c # t \<and> \<not> is_ws c \<and> c \<noteq> CHR '']'' \<and> c \<noteq> CHR ''}''"
proof (cases j)
  case (JInt i)
  then show ?thesis using Itoa_head [of i] head_digit by (auto; metis char.inject no_ws(9))
qed (auto simp: json_string_def block_text_def)

lemma stops_cases [simp]: "stops (CHR '','' # t)" "stops (newline_at k @ t)"
  by (simp_all add: stops_def newline_at_def is_ws_def)

lemma skip_ws_indent [simp]: "skip_ws (indent k j @ t) = indent k j @ t"
  using indent_head [of k j] by auto

lemma p_elements_Join:
  assumes "xs \<noteq> []" and "Suc (length (Join (map (indent k) xs) (CHR '','' # newline_at l))) \<le> n"
    and "\<And>x m rest. x \<in> set xs \<Longrightarrow> length (indent k x) \<le> m \<Longrightarrow> stops rest \<Longrightarrow>
      p_value m d (indent k x @ rest) = Some (val_of x, rest)"
  shows "p_elements n d (Join (map (indent k) xs) (CHR '','' # newline_at l) @ newline_at k' @ CHR '']'' # rest) =
    Some (map val_of xs, rest)"
  using assms
proof (induction xs arbitrary: n)
  case (Cons x xs)
  obtain m where n: "n = Suc m" using Cons.prems(2) by (cases n) auto
  show ?case
  proof (cases xs)
    case Nil
    have "p_value m d (indent k x @ newline_at k' @ CHR '']'' # rest) = Some (val_of x, newline_at k' @ CHR '']'' # rest)"
      using Cons.prems(2) by (intro Cons.prems(3)) (simp_all add: n Nil)
    then show ?thesis by (simp add: n Nil)
  next
    case (Cons y ys)
    let ?J = "Join (map (indent k) xs) (CHR '','' # newline_at l)"
    have J: "Join (indent k x # map (indent k) xs) (CHR '','' # newline_at l) = indent k x @ CHR '','' # newline_at l @ ?J"
      by (simp add: Cons)
    have first: "p_value m d (indent k x @ CHR '','' # t) = Some (val_of x, CHR '','' # t)" for t
      using Cons.prems(2) by (intro Cons.prems(3)) (simp_all add: n J)
    have "p_elements m d (?J @ newline_at k' @ CHR '']'' # rest) = Some (map val_of xs, rest)"
      by (rule Cons.IH) (use Cons.prems(2,3) n J Cons in \<open>auto\<close>)
    moreover have "skip_ws (?J @ t) = ?J @ t" for t using Cons by (cases ys) simp_all
    ultimately show ?thesis using first by (simp add: n J)
  qed
qed simp

definition member_of :: "nat \<Rightarrow> string \<times> json \<Rightarrow> string" where
  "member_of k kv = member_text (fst kv, indent k (snd kv))"

definition member_val :: "string \<times> json \<Rightarrow> string \<times> jval" where
  "member_val kv = (to_utf8 (fst kv), val_of (snd kv))"

lemma member_text_eq: "member_of k kv @ t = CHR 0x22 # escape (fst kv) @ CHR 0x22 # CHR '':'' # CHR '' '' # indent k (snd kv) @ t"
  by (simp add: member_of_def member_text_def json_string_def)

lemma skip_ws_member [simp]: "skip_ws (member_of k kv @ t) = member_of k kv @ t"
  by (simp add: member_text_eq)

lemma p_members_Join:
  assumes "fs \<noteq> []" and "Suc (length (Join (map (member_of k) fs) (CHR '','' # newline_at l))) \<le> n"
    and "\<And>kv m rest. kv \<in> set fs \<Longrightarrow> length (indent k (snd kv)) \<le> m \<Longrightarrow> stops rest \<Longrightarrow>
      p_value m d (indent k (snd kv) @ rest) = Some (val_of (snd kv), rest)"
  shows "p_members n d (Join (map (member_of k) fs) (CHR '','' # newline_at l) @ newline_at k' @ CHR ''}'' # rest) =
    Some (map member_val fs, rest)"
  using assms
proof (induction fs arbitrary: n)
  case (Cons kv fs)
  obtain m where n: "n = Suc m" using Cons.prems(2) by (cases n) auto
  have len: "length (indent k (snd kv)) \<le> length (member_of k kv)"
    using arg_cong [OF member_text_eq [of k kv "[]"], of length] by simp
  show ?case
  proof (cases fs)
    case Nil
    have "p_value m d (indent k (snd kv) @ newline_at k' @ CHR ''}'' # rest) = Some (val_of (snd kv), newline_at k' @ CHR ''}'' # rest)"
      using Cons.prems(2) len by (intro Cons.prems(3)) (simp_all add: n Nil)
    then show ?thesis by (simp add: n Nil member_text_eq str_body_escape member_val_def)
  next
    case (Cons y ys)
    let ?J = "Join (map (member_of k) fs) (CHR '','' # newline_at l)"
    have J: "Join (member_of k kv # map (member_of k) fs) (CHR '','' # newline_at l) = member_of k kv @ CHR '','' # newline_at l @ ?J"
      by (simp add: Cons)
    have first: "p_value m d (indent k (snd kv) @ CHR '','' # t) = Some (val_of (snd kv), CHR '','' # t)" for t
      using Cons.prems(2) len by (intro Cons.prems(3)) (simp_all add: n J)
    have "p_members m d (?J @ newline_at k' @ CHR ''}'' # rest) = Some (map member_val fs, rest)"
      by (rule Cons.IH) (use Cons.prems(2,3) n J Cons in \<open>auto\<close>)
    moreover have "skip_ws (?J @ t) = ?J @ t" for t using Cons by (cases ys) simp_all
    ultimately show ?thesis using first by (simp add: n J member_text_eq str_body_escape member_val_def)
  qed
qed simp

lemma length_block_text: "xs \<noteq> [] \<Longrightarrow> length (block_text a b k xs) = 4 + length (Join xs (CHR '','' # newline_at (Suc k))) + 2 * k + 2 * Suc k"
  by (simp add: block_text_def newline_at_def)

lemma p_value_indent:
  assumes "length (indent k j) \<le> n" and "stops rest" and "d + nesting j \<le> maxNestingDepth"
  shows "p_value n d (indent k j @ rest) = Some (val_of j, rest)"
  using assms
proof (induction j arbitrary: k n d rest rule: val_of.induct)
  case (1 i)
  then show ?case using Itoa_head [of i] p_value_number [of rest n d i] by auto
next
  case (2 s)
  then obtain m where "n = Suc m" by (cases n) (auto simp: json_string_def)
  then show ?case by (simp add: json_string_def str_body_escape)
next
  case (3 xs)
  then obtain m where m: "n = Suc m" by (cases n) (auto simp: block_text_def split: if_splits)
  have depth: "d < maxNestingDepth" using 3(4) by simp
  show ?case
  proof (cases "xs = []")
    case True
    then show ?thesis using depth by (simp add: m block_text_def)
  next
    case False
    let ?sep = "CHR '','' # newline_at (Suc k)"
    have "p_elements m (Suc d) (Join (map (indent (Suc k)) xs) ?sep @ newline_at k @ CHR '']'' # rest) = Some (map val_of xs, rest)"
    proof (rule p_elements_Join [OF False])
      show "Suc (length (Join (map (indent (Suc k)) xs) ?sep)) \<le> m"
        using 3(2) False by (simp add: m length_block_text)
      show "p_value l (Suc d) (indent (Suc k) x @ r) = Some (val_of x, r)"
        if "x \<in> set xs" "length (indent (Suc k) x) \<le> l" "stops r" for x l r
        using 3(1) [OF that(1) that(2,3) nesting_arr [OF that(1) 3(4)]] .
    qed
    moreover obtain x ys where "xs = x # ys" using False by (cases xs) auto
    moreover have "skip_ws (Join (map (indent (Suc k)) xs) ?sep @ t) = Join (map (indent (Suc k)) xs) ?sep @ t"
        "\<not> HasPrefix (Join (map (indent (Suc k)) xs) ?sep @ t) '']''" for t
      using \<open>xs = x # ys\<close> indent_head [of "Suc k" x] by (cases ys; auto)+
    ultimately show ?thesis using depth by (simp add: m block_text_def del: list.map)
  qed
next
  case (4 fs)
  then obtain m where m: "n = Suc m" by (cases n) (auto simp: block_text_def split: if_splits)
  have depth: "d < maxNestingDepth" using 4(4) by simp
  have shape: "indent k (JObj fs) = block_text (CHR ''{'') (CHR ''}'') k (map (member_of (Suc k)) fs)"
    by (simp add: member_of_def [abs_def])
  have val: "val_of (JObj fs) = VDict (map member_val fs)" by (simp add: member_val_def [abs_def])
  show ?case
  proof (cases "fs = []")
    case True
    then show ?thesis using depth by (simp add: m block_text_def)
  next
    case False
    let ?sep = "CHR '','' # newline_at (Suc k)"
    have "p_members m (Suc d) (Join (map (member_of (Suc k)) fs) ?sep @ newline_at k @ CHR ''}'' # rest) = Some (map member_val fs, rest)"
    proof (rule p_members_Join [OF False])
      show "Suc (length (Join (map (member_of (Suc k)) fs) ?sep)) \<le> m"
        using 4(2) False unfolding shape by (simp add: m length_block_text)
      show "p_value l (Suc d) (indent (Suc k) (snd kv) @ r) = Some (val_of (snd kv), r)"
        if "kv \<in> set fs" "length (indent (Suc k) (snd kv)) \<le> l" "stops r" for kv l r
        using 4(1) [OF that(1) that(2,3) nesting_obj [OF that(1) 4(4)]] .
    qed
    moreover obtain x ys where "fs = x # ys" using False by (cases fs) auto
    moreover have "skip_ws (Join (map (member_of (Suc k)) fs) ?sep @ t) = Join (map (member_of (Suc k)) fs) ?sep @ t"
        "\<not> HasPrefix (Join (map (member_of (Suc k)) fs) ?sep @ t) ''}''" for t
      using \<open>fs = x # ys\<close> by (cases ys; simp add: member_text_eq)+
    ultimately show ?thesis using depth unfolding shape val by (simp add: m block_text_def del: list.map)
  qed
qed

text \<open>Reading a written text gives the value written.\<close>

theorem parse_json_indent:
  assumes "nesting j \<le> maxNestingDepth"
  shows "parse_json (indent 0 j @ [CHR 0x0A]) = Some (val_of j)"
proof -
  have "stops [CHR 0x0A]" by (simp add: stops_def is_ws_def)
  moreover have "skip_ws [CHR 0x0A] = []" by (simp add: skip_ws_def is_ws_def)
  ultimately show ?thesis
    using p_value_indent [of 0 j "2 * length (indent 0 j @ [CHR 0x0A]) + 1" "[CHR 0x0A]" 0] assms
    by (simp add: parse_json_def)
qed

section \<open>The bound on the calls is enough\<close>

lemma str_body_consumes: "str_body s = Some (t, r) \<Longrightarrow> length r < length s"
proof (induction s arbitrary: t rule: str_body.induct)
  case (1 s)
  have pre: "\<exists>t'. str_body u = Some (t', r)" if "prepend p (str_body u) = Some (t, r)" for p u
    using that by (auto simp: prepend_def)
  obtain c u where s: "s = c # u" using 1(5) by (cases s) (auto simp: str_body.simps [of "[]"])
  consider (quote) "c = CHR 0x22" | (escape) "c = CHR 0x5C" | (control) "c \<noteq> CHR 0x22" "c \<noteq> CHR 0x5C" "byte c < 32"
    | (other) "c \<noteq> CHR 0x22" "c \<noteq> CHR 0x5C" "\<not> byte c < 32" by blast
  then show ?case
  proof cases
    case quote
    then show ?thesis using 1(5) by (simp add: s str_body.simps [of "CHR 0x22 # u"])
  next
    case escape
    then have ne: "c \<noteq> CHR 0x22" by simp
    from escape obtain e v where u: "u = e # v" using 1(5) by (cases u) (auto simp: s str_body.simps [of "[CHR 0x5C]"])
    show ?thesis
    proof (cases "e = CHR ''u''")
      case True
      then obtain x y w where x: "hex4 v = Some x" "unicode_escape x (drop 4 v) = (y, w)" "prepend y (str_body w) = Some (t, r)"
        using 1(5) escape by (auto simp: s u str_body.simps [of "CHR 0x5C # _"] split: option.splits prod.splits)
      then obtain t' where "str_body w = Some (t', r)" using pre by blast
      then have "length r < length w" by (rule 1(1) [OF s ne escape u True x(1) x(2) [symmetric]])
      then show ?thesis using unicode_escape_rest [OF x(2)] by (simp add: s u)
    next
      case False
      then obtain x where x: "simple_escape e = Some x" "prepend [x] (str_body v) = Some (t, r)"
        using 1(5) escape by (auto simp: s u str_body.simps [of "CHR 0x5C # _"] split: option.splits)
      then obtain t' where "str_body v = Some (t', r)" using pre by blast
      then show ?thesis using 1(2) [OF s ne escape u False x(1)] by (simp add: s u)
    qed
  next
    case control
    then show ?thesis using 1(5) by (simp add: s str_body.simps [of "c # u"])
  next
    case other
    show ?thesis
    proof (cases "rune_size s = 0")
      case True
      then obtain t' where "str_body u = Some (t', r)"
        using 1(5) other pre by (auto simp: s str_body.simps [of "c # u"])
      then show ?thesis using 1(3) [OF s other True] by (simp add: s)
    next
      case False
      then obtain t' where "str_body (drop (rune_size s) s) = Some (t', r)"
        using 1(5) other pre by (auto simp: s str_body.simps [of "c # u"])
      then show ?thesis using 1(4) [OF s other False] by auto
    qed
  qed
qed

lemma number_consumes: "number s = Some (t, r) \<Longrightarrow> length r < length s"
  by (cases s) (auto simp: number_def Let_def int_digits_def leading_digits_def split: option.splits if_splits)

lemma skip_ws_less: "length s < n \<Longrightarrow> length (skip_ws s) < n"
  using length_skip_ws [of s] by simp

lemma skip_ws_tl: "length s < n \<Longrightarrow> length (tl (skip_ws s)) < n"
  using length_skip_ws [of s] by simp

lemma p_consumes:
  "p_value n d s = Some (v, r) \<Longrightarrow> length r < length s"
  "p_elements n d s = Some (vs, r) \<Longrightarrow> length r < length s"
  "p_members n d s = Some (ms, r) \<Longrightarrow> length r < length s"
proof (induction n d s and n d s and n d s arbitrary: v r and vs r and ms r rule: p_value_p_elements_p_members.induct)
  case (2 n d s)
  show ?case
  proof (cases s)
    case Nil
    then show ?thesis using 2 by simp
  next
    case (Cons c t)
    have ws: "length q < length (skip_ws t) \<Longrightarrow> length q < length s" for q using length_skip_ws [of t] Cons by simp
    show ?thesis using "2.prems" "2.IH"(1) [OF Cons] "2.IH"(2) [OF Cons] ws length_skip_ws [of t]
        str_body_consumes [of t] number_consumes [of s]
      by (fastforce simp: Cons split: if_splits)
  qed
next
  case (4 n d s)
  then obtain x q where x: "p_value n d s = Some (x, q)" by (auto split: option.splits)
  have q: "length q < length s" by (rule "4.IH"(1) [OF x])
  have len: "length (skip_ws (tl (skip_ws q))) < length s"
    using skip_ws_less [OF skip_ws_tl [OF q]] .
  show ?case using "4.prems" "4.IH"(2) [OF x refl] skip_ws_tl [OF q] len
    by (fastforce simp: x split: if_splits)
next
  case (6 n d s)
  then obtain k q where k: "HasPrefix s [CHR 0x22]" "str_body (tl s) = Some (k, q)" "HasPrefix (skip_ws q) '':''"
    by (auto split: if_splits option.splits)
  have q: "length q < length s" using str_body_consumes [OF k(2)] by simp
  have u: "length (skip_ws (tl (skip_ws q))) < length s" using skip_ws_less [OF skip_ws_tl [OF q]] .
  obtain x p where x: "p_value n d (skip_ws (tl (skip_ws q))) = Some (x, p)"
    using 6(3) k by (auto split: option.splits)
  have "length p < length (skip_ws (tl (skip_ws q)))" using 6(1) k x by auto
  then have p: "length p < length s" using u by simp
  have w: "length (skip_ws (tl (skip_ws p))) < length s" using skip_ws_less [OF skip_ws_tl [OF p]] .
  show ?case using "6.prems" 6(2) k x w skip_ws_tl [OF p] by (fastforce split: if_splits)
qed simp_all

text \<open>More fuel than twice the length of the text changes nothing: running out of it is no result.\<close>

lemma p_fuel_enough:
  "2 * length s < n \<Longrightarrow> 2 * length s < m \<Longrightarrow> p_value n d s = p_value m d s"
  "2 * length s + 1 < n \<Longrightarrow> 2 * length s + 1 < m \<Longrightarrow> p_elements n d s = p_elements m d s"
  "2 * length s < n \<Longrightarrow> 2 * length s < m \<Longrightarrow> p_members n d s = p_members m d s"
proof (induction "length s" arbitrary: s n m d rule: less_induct)
  case less
  have shorter: "length (skip_ws (tl (skip_ws q))) < length s" if "length q < length s" for q
    using skip_ws_less [OF skip_ws_tl [OF that]] .
  have v: "p_value n d s = p_value m d s" if bound: "2 * length s < n" "2 * length s < m" for n m d
  proof (cases s)
    case Nil
    then show ?thesis using that by (cases n; cases m) simp_all
  next
    case (Cons c t)
    obtain n' m' where nm: "n = Suc n'" "m = Suc m'" using bound by (cases n; cases m) auto
    have t: "length (skip_ws t) < length s" using length_skip_ws [of t] Cons by simp
    have "p_elements n' (Suc d) (skip_ws t) = p_elements m' (Suc d) (skip_ws t)"
        "p_members n' (Suc d) (skip_ws t) = p_members m' (Suc d) (skip_ws t)"
      using that nm Cons length_skip_ws [of t] by (auto intro!: less(2,3) t)
    then show ?thesis by (simp add: nm Cons)
  qed
  { case 1
  then show ?case by (rule v)
  next
  case 2
  then obtain n' m' where nm: "n = Suc n'" "m = Suc m'" by (cases n; cases m) auto
  have "p_value n' d s = p_value m' d s" using 2 nm by (intro v) simp_all
  moreover have "p_elements n' d (skip_ws (tl (skip_ws q))) = p_elements m' d (skip_ws (tl (skip_ws q)))" if "p_value m' d s = Some (x, q)" for x q
    using 2 nm shorter [OF p_consumes(1) [OF that]] by (intro less(2)) simp_all
  ultimately show ?case by (auto simp: nm split: option.splits)
  next
  case 3
  then obtain n' m' where nm: "n = Suc n'" "m = Suc m'" by (cases n; cases m) auto
  show ?case
  proof (cases "\<not> HasPrefix s [CHR 0x22] \<or> str_body (tl s) = None")
    case True
    then show ?thesis by (auto simp: nm)
  next
    case False
    then obtain k q where q: "str_body (tl s) = Some (k, q)" "s \<noteq> []" by (cases s) (auto simp del: split_paired_Ex)
    have u: "length (skip_ws (tl (skip_ws q))) < length s" using str_body_consumes [OF q(1)] q(2) by (intro shorter) (cases s; simp)
    let ?u = "skip_ws (tl (skip_ws q))"
    have "p_value n' d ?u = p_value m' d ?u" using 3 nm u by (intro less(1)) simp_all
    moreover have "p_members n' d (skip_ws (tl (skip_ws p))) = p_members m' d (skip_ws (tl (skip_ws p)))" if "p_value m' d ?u = Some (x, p)" for x p
    proof -
      have "length p < length s" using p_consumes(1) [OF that] u by simp
      from shorter [OF this] show ?thesis using 3 nm by (intro less(3)) simp_all
    qed
    ultimately show ?thesis using q by (auto simp: nm split: option.splits)
  qed }
qed

lemma parse_json_fuel:
  "2 * length s < n \<Longrightarrow> p_value n 0 (skip_ws s) = p_value (2 * length s + 1) 0 (skip_ws s)"
  using length_skip_ws [of s] by (intro p_fuel_enough(1)) simp_all

end
