(* ===== verification/JsonDecode.thy ===== *)
theory JsonDecode
  imports JsonParse
begin

text \<open>
  json.Unmarshal into Go types: how encoding/json decodes a value into a variable that may
  already hold something. Members are matched by the tag's name, exactly or up to the case
  folding the library uses; unknown ones are skipped; null leaves a scalar or a struct alone
  and clears a slice, a map or a pointer. A value of the wrong type is an error of the whole
  call. The members of a struct are decoded from their values, or from their raw text where
  a field is a json.RawMessage. One corner is left out: elements of a slice beyond its length
  that an earlier member of the same name left behind in its backing array read as zero.
\<close>

section \<open>Names\<close>

definition upper :: "char \<Rightarrow> char" where
  "upper c = (if CHR ''a'' \<le> c \<and> c \<le> CHR ''z'' then char_of (byte c - 32) else c)"

text \<open>
  foldName: every rune becomes the least of those equal to it up to case. Only K (also the
  Kelvin sign) and S (also the long s) have a member outside ASCII in their class.
\<close>

function fold_name :: "string \<Rightarrow> string" where
  "fold_name s =
     (case s of
        [] \<Rightarrow> []
      | c # t \<Rightarrow>
          (if take 3 s = [CHR 0xE2, CHR 0x84, CHR 0xAA] then CHR ''K'' # fold_name (drop 3 s)
           else if take 2 s = [CHR 0xC5, CHR 0xBF] then CHR ''S'' # fold_name (drop 2 s)
           else upper c # fold_name t))"
  by pat_completeness auto
termination
  by (relation "measure length") auto

declare fold_name.simps [simp del]

type_synonym ('r, 'v) decoders = "(string \<times> ('r \<Rightarrow> 'v \<Rightarrow> 'r option)) list"

type_synonym 'r fields = "('r, jval) decoders"

definition field_of :: "('r, 'v) decoders \<Rightarrow> string \<Rightarrow> ('r \<Rightarrow> 'v \<Rightarrow> 'r option) option" where
  "field_of fs k =
     (case map_of fs k of
        Some f \<Rightarrow> Some f
      | None \<Rightarrow> map_option snd (find (\<lambda>nf. fold_name (fst nf) = fold_name k) fs))"

lemma field_of_mem: "field_of fs k = Some f \<Longrightarrow> f \<in> snd ` set fs"
  by (auto simp: field_of_def find_Some_iff dest!: map_of_SomeD split: option.splits)
    (metis imageI nth_mem snd_conv)+

section \<open>Decoding into a value\<close>

definition dec_int :: "int \<Rightarrow> jval \<Rightarrow> int option" where
  "dec_int cur v = (case v of VNull \<Rightarrow> Some cur | VNum t \<Rightarrow> ParseInt t | _ \<Rightarrow> None)"

definition dec_bool :: "bool \<Rightarrow> jval \<Rightarrow> bool option" where
  "dec_bool cur v = (case v of VNull \<Rightarrow> Some cur | VBool b \<Rightarrow> Some b | _ \<Rightarrow> None)"

definition dec_string :: "string \<Rightarrow> jval \<Rightarrow> string option" where
  "dec_string cur v = (case v of VNull \<Rightarrow> Some cur | VText t \<Rightarrow> Some t | _ \<Rightarrow> None)"

fun dec_members :: "('r, 'v) decoders \<Rightarrow> 'r \<Rightarrow> (string \<times> 'v) list \<Rightarrow> 'r option" where
  "dec_members fs r [] = Some r"
| "dec_members fs r ((k, v) # ms) =
     (case field_of fs k of
        None \<Rightarrow> dec_members fs r ms
      | Some f \<Rightarrow> (case f r v of None \<Rightarrow> None | Some r1 \<Rightarrow> dec_members fs r1 ms))"

definition dec_struct :: "'r fields \<Rightarrow> 'r \<Rightarrow> jval \<Rightarrow> 'r option" where
  "dec_struct fs cur v =
     (case v of VNull \<Rightarrow> Some cur | VDict ms \<Rightarrow> dec_members fs cur ms | _ \<Rightarrow> None)"

text \<open>A slice: each element is decoded into the one already there.\<close>

fun dec_elements :: "('a \<Rightarrow> jval \<Rightarrow> 'a option) \<Rightarrow> 'a \<Rightarrow> 'a list \<Rightarrow> jval list \<Rightarrow> 'a list option" where
  "dec_elements f z cur [] = Some []"
| "dec_elements f z cur (v # vs) =
     (case f (case cur of [] \<Rightarrow> z | x # xs \<Rightarrow> x) v of
        None \<Rightarrow> None
      | Some y \<Rightarrow> map_option ((#) y) (dec_elements f z (tl cur) vs))"

definition dec_slice :: "('a \<Rightarrow> jval \<Rightarrow> 'a option) \<Rightarrow> 'a \<Rightarrow> 'a list \<Rightarrow> jval \<Rightarrow> 'a list option" where
  "dec_slice f z cur v =
     (case v of VNull \<Rightarrow> Some [] | VList vs \<Rightarrow> dec_elements f z cur vs | _ \<Rightarrow> None)"

definition dec_pointer :: "('a \<Rightarrow> jval \<Rightarrow> 'a option) \<Rightarrow> 'a \<Rightarrow> 'a option \<Rightarrow> jval \<Rightarrow> 'a option option" where
  "dec_pointer f z cur v =
     (case v of VNull \<Rightarrow> Some None | _ \<Rightarrow> map_option Some (f (case cur of None \<Rightarrow> z | Some x \<Rightarrow> x) v))"

text \<open>A map: every value is decoded into a zero one, a later key replaces an earlier.\<close>

fun dec_entries :: "('a \<Rightarrow> jval \<Rightarrow> 'a option) \<Rightarrow> 'a \<Rightarrow> (string \<times> 'a) list \<Rightarrow> (string \<times> jval) list \<Rightarrow> (string \<times> 'a) list option" where
  "dec_entries f z m [] = Some m"
| "dec_entries f z m ((k, v) # ms) =
     (case f z v of None \<Rightarrow> None | Some x \<Rightarrow> dec_entries f z (map_put k x m) ms)"

definition dec_map :: "('a \<Rightarrow> jval \<Rightarrow> 'a option) \<Rightarrow> 'a \<Rightarrow> (string \<times> 'a) list \<Rightarrow> jval \<Rightarrow> (string \<times> 'a) list option" where
  "dec_map f z cur v =
     (case v of VNull \<Rightarrow> Some [] | VDict ms \<Rightarrow> dec_entries f z cur ms | _ \<Rightarrow> None)"

text \<open>A field of a struct, read and written through the record's selector and update.\<close>

definition into :: "('r \<Rightarrow> 'a) \<Rightarrow> (('a \<Rightarrow> 'a) \<Rightarrow> 'r \<Rightarrow> 'r) \<Rightarrow> ('a \<Rightarrow> 'v \<Rightarrow> 'a option) \<Rightarrow> 'r \<Rightarrow> 'v \<Rightarrow> 'r option" where
  "into get upd f r v = map_option (\<lambda>x. upd (\<lambda>_. x) r) (f (get r) v)"

definition int64_ok :: "int \<Rightarrow> bool" where
  "int64_ok i \<longleftrightarrow> MinInt \<le> i \<and> i \<le> MaxInt"

section \<open>Decoding what was encoded\<close>

lemma digits_value_append: "digits_value a (s @ t) = digits_value (digits_value a s) t"
  by (induction a s rule: digits_value.induct) simp_all

lemma digit_char_value: "d < 10 \<Longrightarrow> (of_char (digit_char d) :: int) - 48 = int d"
proof -
  have "\<forall>d\<in>set [0..<10]. (of_char (digit_char d) :: int) - 48 = int d" by code_simp
  then show "d < 10 \<Longrightarrow> (of_char (digit_char d) :: int) - 48 = int d" by simp
qed

lemma nat_text_value: "digits_value 0 (nat_text n) = int n"
proof (induction n rule: digits.induct)
  case (1 n)
  show ?case
  proof (cases "n < 10")
    case True
    then show ?thesis by (simp add: nat_text_def digits.simps [of n] digit_char_value)
  next
    case False
    then show ?thesis using 1 False
      by (simp add: nat_text_def digits.simps [of n] digits_value_append digit_char_value)
        (metis mult_div_mod_eq of_nat_add of_nat_mult of_nat_numeral)
  qed
qed

lemma ParseInt_Itoa: "int64_ok i \<Longrightarrow> ParseInt (Itoa i) = Some i"
proof -
  have no_sign: "\<not> HasPrefix (nat_text n) ''-''" "\<not> HasPrefix (nat_text n) ''+''" for n
    using nat_text_digits [of n] by (cases "nat_text n"; auto simp: is_digit_def less_eq_char_def)+
  assume "int64_ok i"
  then show ?thesis
    using nat_text_digits no_sign
    by (auto simp: ParseInt_def Itoa_def int64_ok_def Let_def nat_text_value list_all_iff)
qed

lemma dec_int_Itoa [simp]: "int64_ok i \<Longrightarrow> dec_int c (VNum (Itoa i)) = Some i"
  by (simp add: dec_int_def ParseInt_Itoa)

lemma dec_string_text [simp]: "dec_string c (VText t) = Some t"
  by (simp add: dec_string_def)

lemma dec_struct_VDict [simp]: "dec_struct fs c (VDict ms) = dec_members fs c ms"
  by (simp add: dec_struct_def)

lemma dec_members_append:
  "dec_members fs r (xs @ ys) = (case dec_members fs r xs of None \<Rightarrow> None | Some r1 \<Rightarrow> dec_members fs r1 ys)"
  by (induction fs r xs rule: dec_members.induct) (simp_all split: option.splits)

lemma dec_elements_map:
  assumes "\<And>x c. x \<in> set xs \<Longrightarrow> f c (h x) = Some x"
  shows "dec_elements f z c (map h xs) = Some xs"
  using assms by (induction xs arbitrary: c) simp_all

lemma map_put_new: "k \<notin> fst ` set m \<Longrightarrow> map_put k v m = m @ [(k, v)]"
  by (induction m) auto

lemma dec_entries_map:
  assumes "\<And>kw. kw \<in> set ms \<Longrightarrow> f z (h (snd kw)) = Some (snd kw)" and "distinct (map fst ms)"
    and "fst ` set ms \<inter> fst ` set m = {}"
  shows "dec_entries f z m (map (\<lambda>kw. (fst kw, h (snd kw))) ms) = Some (m @ ms)"
  using assms
proof (induction ms arbitrary: m)
  case (Cons kw ms)
  then have "dec_entries f z (m @ [kw]) (map (\<lambda>kw. (fst kw, h (snd kw))) ms) = Some ((m @ [kw]) @ ms)"
    by (intro Cons.IH) auto
  then show ?case using Cons.prems by (simp add: map_put_new)
qed simp

end
