(* ===== verification/StateDecode.thy ===== *)
theory StateDecode
  imports Store JsonDecode
begin

text \<open>
  The input side of the state file: json.Unmarshal into the types of internal/state, member
  by member with the tags of the source, and that it reads back what encode_state writes.
\<close>

section \<open>The types of the state file\<close>

definition zero_Breakdown :: UsageBreakdown where
  "zero_Breakdown = \<lparr>ub_Input = 0, ub_Cached = 0, ub_CacheWrite = 0, ub_Output = 0, ub_Reasoning = 0, ub_Total = 0\<rparr>"

definition zero_Usage :: Usage where
  "zero_Usage = \<lparr>us_Last = zero_Breakdown, us_Total = zero_Breakdown\<rparr>"

definition zero_Record :: HistoryRecord where
  "zero_Record = \<lparr>hr_Round = 0, hr_Commit = [], hr_Base = [], hr_Review = [], hr_Omitted = [], hr_Usage = None\<rparr>"

definition breakdown_fields :: "UsageBreakdown fields" where
  "breakdown_fields =
     [(''input'', into ub_Input ub_Input_update dec_int),
      (''cached'', into ub_Cached ub_Cached_update dec_int),
      (''cache_write'', into ub_CacheWrite ub_CacheWrite_update dec_int),
      (''output'', into ub_Output ub_Output_update dec_int),
      (''reasoning'', into ub_Reasoning ub_Reasoning_update dec_int),
      (''total'', into ub_Total ub_Total_update dec_int)]"

definition usage_fields :: "Usage fields" where
  "usage_fields =
     [(''last'', into us_Last us_Last_update (dec_struct breakdown_fields)),
      (''total'', into us_Total us_Total_update (dec_struct breakdown_fields))]"

definition dec_usage :: "Usage option \<Rightarrow> jval \<Rightarrow> Usage option option" where
  "dec_usage = dec_pointer (dec_struct usage_fields) zero_Usage"

definition record_fields :: "HistoryRecord fields" where
  "record_fields =
     [(''round'', into hr_Round hr_Round_update dec_int),
      (''commit'', into hr_Commit hr_Commit_update dec_string),
      (''base'', into hr_Base hr_Base_update dec_string),
      (''review'', into hr_Review hr_Review_update dec_string),
      (''omitted'', into hr_Omitted hr_Omitted_update dec_string),
      (''usage'', into hr_Usage hr_Usage_update dec_usage)]"

definition workflow_fields :: "Workflow fields" where
  "workflow_fields =
     [(''thread_id'', into wf_ThreadID wf_ThreadID_update dec_string),
      (''last_commit'', into wf_LastCommit wf_LastCommit_update dec_string),
      (''last_base'', into wf_LastBase wf_LastBase_update dec_string),
      (''last_request_hash'', into wf_LastRequestHash wf_LastRequestHash_update dec_string),
      (''round'', into wf_Round wf_Round_update dec_int),
      (''last_review'', into wf_LastReview wf_LastReview_update dec_string),
      (''last_warnings'', into wf_LastWarnings wf_LastWarnings_update (dec_slice dec_string [])),
      (''last_usage'', into wf_LastUsage wf_LastUsage_update dec_usage),
      (''history'', into wf_History wf_History_update (dec_slice (dec_struct record_fields) zero_Record))]"

definition envelope_fields :: "envelope fields" where
  "envelope_fields =
     [(''version'', into env_Version env_Version_update dec_int),
      (''workflows'', into env_Workflows env_Workflows_update (dec_map (dec_struct workflow_fields) zero_Workflow))]"

definition Unmarshal_envelope :: "string \<Rightarrow> envelope res" where
  "Unmarshal_envelope data =
     (case parse_json data of
        None \<Rightarrow> Err (System ''json: syntax error'')
      | Some v \<Rightarrow>
          (case dec_struct envelope_fields \<lparr>env_Version = 0, env_Workflows = []\<rparr> v of
             None \<Rightarrow> Err (System ''json: cannot unmarshal value'')
           | Some env \<Rightarrow> Ok env))"

text \<open>Reading the state file with the library's decoder.\<close>

definition LoadState :: "ReadIO \<Rightarrow> Store \<Rightarrow> disk \<Rightarrow> State res \<times> Store" where
  "LoadState = Load Unmarshal_envelope"

section \<open>What the file can hold\<close>

definition usage_ok :: "Usage \<Rightarrow> bool" where
  "usage_ok u \<longleftrightarrow> list_all int64_ok (counters (us_Last u) @ counters (us_Total u))"

definition record_ok64 :: "HistoryRecord \<Rightarrow> bool" where
  "record_ok64 r \<longleftrightarrow> int64_ok (hr_Round r) \<and> pred_option usage_ok (hr_Usage r) \<and>
     list_all ValidString [hr_Commit r, hr_Base r, hr_Review r, hr_Omitted r]"

definition workflow_ok :: "Workflow \<Rightarrow> bool" where
  "workflow_ok w \<longleftrightarrow>
     int64_ok (wf_Round w) \<and> pred_option usage_ok (wf_LastUsage w) \<and> list_all record_ok64 (wf_History w) \<and>
     list_all ValidString ([wf_ThreadID w, wf_LastCommit w, wf_LastBase w, wf_LastRequestHash w, wf_LastReview w] @
       wf_LastWarnings w)"

text \<open>A Go map of Go values whose strings are UTF-8.\<close>

definition state_ok :: "State \<Rightarrow> bool" where
  "state_ok m \<longleftrightarrow> distinct (map fst m) \<and> list_all (\<lambda>kw. ValidString (fst kw) \<and> workflow_ok (snd kw)) m"

section \<open>Reading back what was written\<close>

lemma to_utf8_names [simp]:
  "to_utf8 ''input'' = ''input''" "to_utf8 ''cached'' = ''cached''" "to_utf8 ''cache_write'' = ''cache_write''"
  "to_utf8 ''output'' = ''output''" "to_utf8 ''reasoning'' = ''reasoning''" "to_utf8 ''total'' = ''total''"
  "to_utf8 ''last'' = ''last''" "to_utf8 ''round'' = ''round''" "to_utf8 ''commit'' = ''commit''"
  "to_utf8 ''base'' = ''base''" "to_utf8 ''review'' = ''review''" "to_utf8 ''omitted'' = ''omitted''"
  "to_utf8 ''usage'' = ''usage''" "to_utf8 ''thread_id'' = ''thread_id''" "to_utf8 ''last_commit'' = ''last_commit''"
  "to_utf8 ''last_base'' = ''last_base''" "to_utf8 ''last_request_hash'' = ''last_request_hash''"
  "to_utf8 ''last_review'' = ''last_review''" "to_utf8 ''last_warnings'' = ''last_warnings''"
  "to_utf8 ''last_usage'' = ''last_usage''" "to_utf8 ''history'' = ''history''" "to_utf8 ''version'' = ''version''"
  "to_utf8 ''workflows'' = ''workflows''"
  by code_simp+

lemma dec_breakdown:
  assumes "list_all int64_ok (counters b)"
  shows "dec_struct breakdown_fields c (val_of (breakdown_json b)) = Some b"
  using assms
  by (cases b; cases c)
    (simp add: dec_struct_def breakdown_json_def counters_def field_of_def breakdown_fields_def into_def)

lemma dec_usage_json:
  assumes "usage_ok u"
  shows "dec_usage c (val_of (usage_json u)) = Some (Some u)"
  using assms dec_breakdown [of "us_Last u"] dec_breakdown [of "us_Total u"]
  by (cases u)
    (simp add: dec_usage_def dec_pointer_def usage_ok_def usage_json_def field_of_def usage_fields_def into_def
      dec_struct_def [of "[_, _]"] split: option.splits)

lemma dec_record:
  assumes "record_ok64 r"
  shows "dec_struct record_fields zero_Record (val_of (record_json r)) = Some r"
  using assms
  by (cases r)
    (auto simp: record_ok64_def record_json_def omitempty_def usage_member_def dec_struct_def field_of_def
      record_fields_def into_def zero_Record_def to_utf8_valid dec_usage_json split: option.splits)

lemma dec_workflow:
  assumes "workflow_ok w"
  shows "dec_struct workflow_fields zero_Workflow (val_of (workflow_json w)) = Some w"
proof -
  have warnings: "dec_slice dec_string [] c (VList (map (val_of \<circ> JStr) xs)) = Some xs" if "list_all ValidString xs" for c xs
    using that by (simp add: dec_slice_def list_all_iff to_utf8_valid dec_elements_map)
  have history: "dec_slice (dec_struct record_fields) zero_Record [] (VList (map (val_of \<circ> record_json) rs)) = Some rs"
    if "list_all record_ok64 rs" for rs
    using that
    by (induction rs) (simp_all add: dec_slice_def dec_record)
  show ?thesis
    using assms warnings history
    by (cases w)
      (auto simp: workflow_ok_def workflow_json_def workflow_members_def omitempty_def usage_member_def
        field_of_def workflow_fields_def into_def zero_Workflow_def to_utf8_valid dec_usage_json split: option.splits)
qed

text \<open>The encoding of a state nests six levels deep.\<close>

lemma nesting_bound: "nesting (envelope_json s) \<le> maxNestingDepth"
proof -
  note le = nesting_le_Suc omitempty_def usage_member_def numeral_eq_Suc
  have b: "nesting (breakdown_json b) \<le> 1" for b by (simp add: breakdown_json_def le del: nesting.simps(3,4))
  have u: "nesting (usage_json u) \<le> 2" for u using b by (simp add: usage_json_def le del: nesting.simps(3,4))
  have r: "nesting (record_json r) \<le> 3" for r
    using u by (cases "hr_Usage r") (simp_all add: record_json_def le del: nesting.simps(3,4))
  have "nesting (usage_json u) \<le> 4" for u using u [of u] by simp
  then have w: "nesting (workflow_json w) \<le> 5" for w
    using r by (cases "wf_LastUsage w") (simp_all add: workflow_json_def workflow_members_def le del: nesting.simps(3,4))
  have "nesting (envelope_json s) \<le> 7"
    using w by (simp add: envelope_json_def le del: nesting.simps(3,4))
  then show ?thesis by (simp add: maxNestingDepth_def)
qed

lemma sort_key_ok:
  assumes "state_ok m"
  shows "state_ok (sort_key fst m)"
  using assms by (simp add: state_ok_def list_all_iff distinct_map inj_on_def)

text \<open>What json.Unmarshal makes of the encoding of a state.\<close>

lemma Unmarshal_encode:
  assumes "state_ok m"
  shows "Unmarshal_envelope (encode_state m) = Ok \<lparr>env_Version = Version, env_Workflows = sort_key fst m\<rparr>"
proof -
  let ?ms = "sort_key fst m"
  have ok: "state_ok ?ms" using assms by (rule sort_key_ok)
  have shape: "val_of (envelope_json m) = VDict [(''version'', VNum (Itoa Version)),
      (''workflows'', VDict (map (\<lambda>kw. (fst kw, val_of (workflow_json (snd kw)))) ?ms))]"
    using ok by (simp add: envelope_json_def state_ok_def list_all_iff to_utf8_valid)
  moreover have "dec_entries (dec_struct workflow_fields) zero_Workflow [] (map (\<lambda>kw. (fst kw, val_of (workflow_json (snd kw)))) ?ms) =
      Some ([] @ ?ms)"
    using ok by (intro dec_entries_map) (simp_all add: state_ok_def list_all_iff dec_workflow)
  moreover have "int64_ok Version" by (simp add: int64_ok_def Version_def MinInt_def MaxInt_def)
  moreover have "parse_json (encode_state m) = Some (val_of (envelope_json m))"
    unfolding encode_state_def by (rule parse_json_indent [OF nesting_bound])
  ultimately show ?thesis
    by (simp add: Unmarshal_envelope_def shape field_of_def envelope_fields_def into_def dec_map_def)
qed

lemma Save_Load:
  assumes "state_ok m" and "fresh_temp io (sto_path st) d" and "Save io st (Some m) d = (None, ds)"
    and "rd_open rio = None" and "rd_read rio = None"
  shows "LoadState rio st (last ds) = (Ok (sort_key fst m), st\<lparr>sto_loaded := True\<rparr>) \<and>
    map_of (sort_key fst m) = map_of m"
proof -
  note saved = Save_None [OF assms(2,3)]
  have "readBounded rio (sto_path st) MaxStateFileSize (last ds) = Ok (encode_state m)"
    using assms(4,5) saved by (simp add: readBounded_def Let_def)
  then have "LoadState rio st (last ds) = (Ok (sort_key fst m), st\<lparr>sto_loaded := True\<rparr>)"
    using Unmarshal_encode [OF assms(1)]
    by (simp add: LoadState_def Load_def Version_def oldestReadableVersion_def)
  moreover have "map_of (sort_key fst m) = map_of m"
    using assms(1) by (intro map_of_inject_set [THEN iffD2]) (simp_all add: state_ok_def distinct_map inj_on_def)
  ultimately show ?thesis by simp
qed

end
