(* ===== verification/DecodeSpec.thy ===== *)
theory DecodeSpec
  imports StateDecode Samples
begin

text \<open>
  Reading the state file: what Load's decoder yields is always a state of 64-bit numbers and
  UTF-8 strings with distinct keys, and a state saved is the state loaded.
\<close>

section \<open>Decoded strings are UTF-8\<close>

lemma ValidString_step: "rune_size s \<noteq> 0 \<Longrightarrow> ValidString s \<longleftrightarrow> ValidString (drop (rune_size s) s)"
  by (subst ValidString.simps) (auto simp: rune_size_def)

lemma ValidString_Nil [simp]: "ValidString []"
  by (simp add: ValidString.simps [of "[]"])

lemma rune_size_append: "rune_size s \<noteq> 0 \<Longrightarrow> rune_size (s @ t) = rune_size s"
  using rune_size_prefix [of s "drop (rune_size s) s @ t"] by (metis append.assoc append_take_drop_id)

lemma ValidString_append: "ValidString s \<Longrightarrow> ValidString t \<Longrightarrow> ValidString (s @ t)"
proof (induction s rule: ValidString.induct)
  case (1 s)
  show ?case
  proof (cases "s = []")
    case True
    then show ?thesis using 1 by simp
  next
    case False
    then have size: "rune_size s \<noteq> 0" using 1(2) by (auto simp: ValidString.simps [of s] split: if_splits)
    then have "ValidString (drop (rune_size s) s)" using 1(2) ValidString_step by blast
    then have "ValidString (drop (rune_size s) s @ t)" using 1(1,3) False size by blast
    then show ?thesis using size rune_size_append [OF size, of t] rune_size_le [of s] ValidString_step [of "s @ t"] by simp
  qed
qed

lemma ValidString_rune: "rune_size s = length s \<Longrightarrow> ValidString s"
  by (cases "s = []") (simp_all add: ValidString.simps [of s])

lemma ValidString_take_rune: "ValidString (take (rune_size s) s)"
proof (cases "rune_size s = 0")
  case False
  then have "rune_size (take (rune_size s) s) = rune_size s" using rune_size_prefix [of s "[]"] by simp
  then show ?thesis using rune_size_le [of s] by (intro ValidString_rune) simp
qed simp

lemma byte_char_of [simp]: "n < 256 \<Longrightarrow> byte (char_of n) = n"
  by (simp add: byte_def)

lemma utf8_encode_valid:
  assumes "r < 1114112" and "\<not> is_surrogate r"
  shows "ValidString (utf8_encode r)"
proof (rule ValidString_rune)
  consider "r < 128" | "128 \<le> r" "r < 2048" | "2048 \<le> r" "r < 65536" | "65536 \<le> r" by linarith
  then show "rune_size (utf8_encode r) = length (utf8_encode r)"
  proof cases
    case 1
    then show ?thesis by (simp add: utf8_encode_def rune_size_def)
  next
    case 2
    then have "2 \<le> r div 64" "r div 64 < 32" by (simp_all add: less_mult_imp_div_less less_eq_div_iff_mult_less_eq)
    then show ?thesis using 2 by (simp add: utf8_encode_def rune_size_def is_cont_def)
  next
    case 3
    define a b where "a = r div 4096" and "b = r div 64 mod 64"
    have "a = r div 64 div 64" by (simp add: a_def flip: div_mult2_eq)
    then have "a < 16" "b < 64" "r div 64 = 64 * a + b" using 3 by (simp_all add: a_def b_def)
    moreover have "r div 64 < 864 \<or> 896 \<le> r div 64" "32 \<le> r div 64" using assms(2) 3 by (auto simp: is_surrogate_def)
    ultimately show ?thesis using 3
      by (auto simp: utf8_encode_def rune_size_def is_cont_def second_ok_def Let_def simp flip: a_def b_def)
  next
    case 4
    define a b where "a = r div 262144" and "b = r div 4096 mod 64"
    have "a = r div 4096 div 64" by (simp add: a_def flip: div_mult2_eq)
    then have "a < 5" "b < 64" "r div 4096 = 64 * a + b" using assms(1) by (simp_all add: a_def b_def)
    moreover have "16 \<le> r div 4096" "r div 4096 < 272" using 4 assms(1) by simp_all
    ultimately show ?thesis using 4
      by (auto simp: utf8_encode_def rune_size_def is_cont_def second_ok_def Let_def simp flip: a_def b_def)
  qed
qed

lemma hex4_range: "hex4 s = Some r \<Longrightarrow> r < 65536"
proof -
  have digit: "d < 16" if "hex_value c = Some d" for c d
    using that by (auto simp: hex_value_def is_digit_def byte_def less_eq_char_def split: if_splits)
  show "hex4 s = Some r \<Longrightarrow> r < 65536"
    by (auto simp: hex4_def split: list.splits option.splits dest!: digit)
qed

lemma ValidString_replacement [simp]: "ValidString replacement"
  by code_simp

lemma unicode_escape_valid: "unicode_escape r s = (t, s') \<Longrightarrow> r < 65536 \<Longrightarrow> ValidString t"
  by (auto simp: unicode_escape_def is_surrogate_def intro!: utf8_encode_valid split: if_splits option.splits bool.splits)

lemma prepend_iff: "prepend p x = Some (t, r) \<longleftrightarrow> (\<exists>u. x = Some (u, r) \<and> t = p @ u)"
  by (auto simp: prepend_def)

lemma simple_escape_valid: "simple_escape c = Some x \<Longrightarrow> ValidString [x]"
proof -
  have "list_all (\<lambda>y. ValidString [y]) [CHR 0x22, CHR 0x5C, CHR ''/'', CHR 0x08, CHR 0x0C, CHR 0x0A, CHR 0x0D, CHR 0x09]"
    by code_simp
  then show "simple_escape c = Some x \<Longrightarrow> ValidString [x]"
    by (auto simp: simple_escape_def split: if_splits)
qed

lemma str_body_valid: "str_body s = Some (t, r) \<Longrightarrow> ValidString t"
proof (induction s arbitrary: t rule: str_body.induct)
  case (1 s)
  obtain c u where s: "s = c # u" using 1(5) by (cases s) (auto simp: str_body.simps [of "[]"])
  consider (quote) "c = CHR 0x22" | (escape) "c = CHR 0x5C" | (control) "c \<noteq> CHR 0x22" "c \<noteq> CHR 0x5C" "byte c < 32"
    | (other) "c \<noteq> CHR 0x22" "c \<noteq> CHR 0x5C" "\<not> byte c < 32" by blast
  then show ?case
  proof cases
    case quote
    then show ?thesis using 1(5) by (simp add: s str_body.simps [of "CHR 0x22 # u"])
  next
    case escape
    then have ne: "c \<noteq> CHR 0x22" by simp
    from escape obtain e v where u: "u = e # v" using 1(5) by (cases u) (auto simp: s str_body.simps [of "[CHR 0x5C]"])
    show ?thesis
    proof (cases "e = CHR ''u''")
      case True
      then obtain x y w t' where x: "hex4 v = Some x" "unicode_escape x (drop 4 v) = (y, w)" "str_body w = Some (t', r)" "t = y @ t'"
        using 1(5) escape by (auto simp: s u str_body.simps [of "CHR 0x5C # _"] prepend_iff split: option.splits prod.splits)
      have "ValidString t'" by (rule 1(1) [OF s ne escape u True x(1) x(2) [symmetric] x(3)])
      then show ?thesis using x unicode_escape_valid hex4_range by (auto intro!: ValidString_append)
    next
      case False
      then obtain x t' where x: "simple_escape e = Some x" "str_body v = Some (t', r)" "t = [x] @ t'"
        using 1(5) escape by (auto simp: s u str_body.simps [of "CHR 0x5C # _"] prepend_iff split: option.splits)
      then show ?thesis using 1(2) [OF s ne escape u False x(1) x(2)] simple_escape_valid ValidString_append by blast
    qed
  next
    case control
    then show ?thesis using 1(5) by (simp add: s str_body.simps [of "c # u"])
  next
    case other
    show ?thesis
    proof (cases "rune_size s = 0")
      case True
      then obtain t' where "str_body u = Some (t', r)" "t = replacement @ t'"
        using 1(5) other by (auto simp: s str_body.simps [of "c # u"] prepend_iff)
      then show ?thesis using 1(3) [OF s other True] by (simp add: ValidString_append)
    next
      case False
      then obtain t' where "str_body (drop (rune_size s) s) = Some (t', r)" "t = take (rune_size s) s @ t'"
        using 1(5) other by (auto simp: s str_body.simps [of "c # u"] prepend_iff)
      then show ?thesis using 1(4) [OF s other False] ValidString_take_rune by (simp add: ValidString_append)
    qed
  qed
qed

section \<open>Decoded values\<close>

text \<open>Every text and key in a value is UTF-8.\<close>

inductive jval_ok :: "jval \<Rightarrow> bool" where
  "jval_ok VNull"
| "jval_ok (VBool b)"
| "jval_ok (VNum t)"
| "ValidString t \<Longrightarrow> jval_ok (VText t)"
| "(\<forall>v\<in>set vs. jval_ok v) \<Longrightarrow> jval_ok (VList vs)"
| "(\<forall>kv\<in>set ms. ValidString (fst kv) \<and> jval_ok (snd kv)) \<Longrightarrow> jval_ok (VDict ms)"

inductive_simps jval_ok_simps [simp]:
  "jval_ok (VText t)" "jval_ok (VList vs)" "jval_ok (VDict ms)"

declare jval_ok.intros(1-3) [simp]

lemma p_ok:
  "p_value n d s = Some (v, r) \<Longrightarrow> jval_ok v"
  "p_elements n d s = Some (vs, r) \<Longrightarrow> \<forall>v\<in>set vs. jval_ok v"
  "p_members n d s = Some (ms, r) \<Longrightarrow> \<forall>kv\<in>set ms. ValidString (fst kv) \<and> jval_ok (snd kv)"
proof (induction n d s and n d s and n d s arbitrary: v r and vs r and ms r rule: p_value_p_elements_p_members.induct)
  case (2 n d s)
  show ?case
  proof (cases s)
    case Nil
    then show ?thesis using 2 by simp
  next
    case (Cons c t)
    show ?thesis using "2.prems" "2.IH"(1) [OF Cons] "2.IH"(2) [OF Cons] str_body_valid [of t]
      by (auto simp: Cons split: if_splits)
  qed
next
  case (4 n d s)
  then obtain x q where x: "p_value n d s = Some (x, q)" by (auto split: option.splits)
  have "jval_ok x" by (rule "4.IH"(1) [OF x])
  then show ?case using "4.prems" "4.IH"(2) [OF x refl] by (auto simp: x split: if_splits)
next
  case (6 n d s)
  then obtain k q where k: "HasPrefix s [CHR 0x22]" "str_body (tl s) = Some (k, q)" "HasPrefix (skip_ws q) '':''"
    by (auto split: if_splits option.splits)
  then obtain x p where x: "p_value n d (skip_ws (tl (skip_ws q))) = Some (x, p)"
    using 6(3) by (auto split: option.splits)
  have "jval_ok x" using 6(1) k x by auto
  then show ?case using "6.prems" 6(2) k x str_body_valid [OF k(2)] by (fastforce split: if_splits)
qed simp_all

lemma parse_json_ok: "parse_json s = Some v \<Longrightarrow> jval_ok v"
  by (auto simp: parse_json_def simp del: p_value.simps dest: p_ok(1) split: option.splits if_splits)

section \<open>Decoded states\<close>

text \<open>A decoder keeps a predicate on what it decodes into, from well-formed values.\<close>

definition dec_keeps :: "('r \<Rightarrow> bool) \<Rightarrow> ('r \<Rightarrow> jval \<Rightarrow> 'r option) \<Rightarrow> bool" where
  "dec_keeps P f \<longleftrightarrow> (\<forall>r v r'. P r \<longrightarrow> jval_ok v \<longrightarrow> f r v = Some r' \<longrightarrow> P r')"

lemma dec_keepsI: "(\<And>r v r'. P r \<Longrightarrow> jval_ok v \<Longrightarrow> f r v = Some r' \<Longrightarrow> P r') \<Longrightarrow> dec_keeps P f"
  by (auto simp: dec_keeps_def)

lemma dec_keepsD: "dec_keeps P f \<Longrightarrow> P r \<Longrightarrow> jval_ok v \<Longrightarrow> f r v = Some r' \<Longrightarrow> P r'"
  by (auto simp: dec_keeps_def)

lemma dec_struct_keeps:
  assumes "\<forall>f\<in>snd ` set fs. dec_keeps P f"
  shows "dec_keeps P (dec_struct fs)"
proof (rule dec_keepsI)
  fix r v r'
  have "P r'" if "P r" "\<forall>kv\<in>set ms. jval_ok (snd kv)" "dec_members fs r ms = Some r'" for ms
    using that
  proof (induction ms arbitrary: r)
    case (Cons kv ms)
    obtain k x where kv: "kv = (k, x)" by fastforce
    show ?case
    proof (cases "field_of fs k")
      case None
      then show ?thesis using Cons by (simp add: kv)
    next
      case (Some f)
      then have "dec_keeps P f" using assms field_of_mem by blast
      then show ?thesis using Cons Some by (auto simp: kv split: option.splits dest: dec_keepsD)
    qed
  qed simp
  then show "P r \<Longrightarrow> jval_ok v \<Longrightarrow> dec_struct fs r v = Some r' \<Longrightarrow> P r'"
    by (cases v) (auto simp: dec_struct_def)
qed

lemma dec_int_keeps: "dec_keeps int64_ok dec_int"
  by (rule dec_keepsI)
    (auto simp: dec_int_def ParseInt_def int64_ok_def Let_def split: jval.splits if_splits)

lemma dec_string_keeps: "dec_keeps ValidString dec_string"
  by (rule dec_keepsI) (auto simp: dec_string_def split: jval.splits)

lemma dec_slice_keeps:
  assumes "dec_keeps P f" and "P z"
  shows "dec_keeps (list_all P) (dec_slice f z)"
proof (rule dec_keepsI)
  fix xs v ys
  have "list_all P ys" if "list_all P xs" "\<forall>v\<in>set vs. jval_ok v" "dec_elements f z xs vs = Some ys" for vs
    using that
  proof (induction vs arbitrary: xs ys)
    case (Cons v vs)
    define x where "x = (case xs of [] \<Rightarrow> z | x # _ \<Rightarrow> x)"
    have x: "P x" using Cons.prems(1) assms(2) by (cases xs) (simp_all add: x_def)
    obtain y ys' where y: "f x v = Some y" "dec_elements f z (tl xs) vs = Some ys'" "ys = y # ys'"
      using Cons.prems(3) by (auto simp: x_def split: option.splits)
    have "P y" by (rule dec_keepsD [OF assms(1) x _ y(1)]) (use Cons.prems in simp)
    moreover have "list_all P (tl xs)" using Cons.prems(1) by (cases xs) simp_all
    then have "list_all P ys'" by (rule Cons.IH [OF _ _ y(2)]) (use Cons.prems in simp)
    ultimately show ?case by (simp add: y)
  qed simp
  then show "list_all P xs \<Longrightarrow> jval_ok v \<Longrightarrow> dec_slice f z xs v = Some ys \<Longrightarrow> list_all P ys"
    by (cases v) (auto simp: dec_slice_def)
qed

lemma dec_pointer_keeps:
  assumes "dec_keeps P f" and "P z"
  shows "dec_keeps (pred_option P) (dec_pointer f z)"
proof (rule dec_keepsI)
  fix c v r
  assume c: "pred_option P c" and v: "jval_ok v" and r: "dec_pointer f z c v = Some r"
  define x where "x = (case c of None \<Rightarrow> z | Some x \<Rightarrow> x)"
  have x: "P x" using c assms(2) by (cases c) (simp_all add: x_def)
  have "r = None \<or> (\<exists>y. f x v = Some y \<and> r = Some y)"
    using r by (cases v) (auto simp: dec_pointer_def simp flip: x_def)
  then show "pred_option P r" using dec_keepsD [OF assms(1) x v] by auto
qed

lemma dec_map_keeps:
  assumes "dec_keeps P f" and "P z"
  shows "dec_keeps (\<lambda>m. distinct (map fst m) \<and> list_all (\<lambda>kx. ValidString (fst kx) \<and> P (snd kx)) m) (dec_map f z)"
    (is "dec_keeps ?M _")
proof (rule dec_keepsI)
  have put: "?M (map_put k x m)" if "?M m" "ValidString k" "P x" for m k x
  proof -
    have "set (map_put k x m) \<subseteq> insert (k, x) (set m)" by (induction m) auto
    then show ?thesis using that by (auto simp: list_all_iff distinct_update)
  qed
  fix m v m'
  have "?M m'" if "?M m" "\<forall>kv\<in>set ms. ValidString (fst kv) \<and> jval_ok (snd kv)" "dec_entries f z m ms = Some m'" for ms
    using that
  proof (induction ms arbitrary: m)
    case (Cons kv ms)
    obtain k x where kv: "kv = (k, x)" by fastforce
    obtain y where y: "f z x = Some y" using Cons.prems by (auto simp: kv split: option.splits)
    have "P y" by (rule dec_keepsD [OF assms _ y]) (use Cons.prems in \<open>simp add: kv\<close>)
    then show ?case using Cons.prems y put [of m k y] by (intro Cons.IH [of "map_put k y m"]) (simp_all add: kv)
  qed simp
  then show "?M m \<Longrightarrow> jval_ok v \<Longrightarrow> dec_map f z m v = Some m' \<Longrightarrow> ?M m'"
    by (cases v) (auto simp: dec_map_def)
qed

lemma into_keeps:
  assumes "dec_keeps Q f" and "\<And>r x. P r \<Longrightarrow> Q x \<Longrightarrow> P (upd (\<lambda>_. x) r)" and "\<And>r. P r \<Longrightarrow> Q (get r)"
  shows "dec_keeps P (into get upd f)"
  by (rule dec_keepsI) (use assms in \<open>auto simp: into_def dest: dec_keepsD\<close>)

lemma zeros_ok:
  "int64_ok 0" "list_all int64_ok (counters zero_Breakdown)" "usage_ok zero_Usage" "record_ok64 zero_Record" "workflow_ok zero_Workflow"
  by (simp_all add: int64_ok_def MinInt_def MaxInt_def counters_def zero_Breakdown_def usage_ok_def zero_Usage_def
      record_ok64_def zero_Record_def workflow_ok_def zero_Workflow_def)

lemma dec_breakdown_keeps: "dec_keeps (\<lambda>b. list_all int64_ok (counters b)) (dec_struct breakdown_fields)"
  by (rule dec_struct_keeps)
    (auto simp: breakdown_fields_def counters_def intro!: into_keeps [OF dec_int_keeps])

lemma dec_usage_struct_keeps: "dec_keeps usage_ok (dec_struct usage_fields)"
  by (rule dec_struct_keeps)
    (auto simp: usage_fields_def usage_ok_def intro!: into_keeps [OF dec_breakdown_keeps])

lemma dec_usage_keeps: "dec_keeps (pred_option usage_ok) dec_usage"
  unfolding dec_usage_def by (rule dec_pointer_keeps [OF dec_usage_struct_keeps zeros_ok(3)])

lemma dec_record_keeps: "dec_keeps record_ok64 (dec_struct record_fields)"
  by (rule dec_struct_keeps)
    (auto simp: record_fields_def record_ok64_def
      intro!: into_keeps [OF dec_int_keeps] into_keeps [OF dec_string_keeps] into_keeps [OF dec_usage_keeps])

lemma dec_workflow_keeps: "dec_keeps workflow_ok (dec_struct workflow_fields)"
  by (rule dec_struct_keeps)
    (auto simp: workflow_fields_def workflow_ok_def
      intro!: into_keeps [OF dec_int_keeps] into_keeps [OF dec_string_keeps] into_keeps [OF dec_usage_keeps]
        into_keeps [OF dec_slice_keeps [OF dec_string_keeps]] into_keeps [OF dec_slice_keeps [OF dec_record_keeps zeros_ok(4)]])

lemma Unmarshal_ok:
  assumes "Unmarshal_envelope data = Ok env"
  shows "state_ok (env_Workflows env) \<and> int64_ok (env_Version env)"
proof -
  let ?P = "\<lambda>e. state_ok (env_Workflows e) \<and> int64_ok (env_Version e)"
  have "dec_keeps state_ok (dec_map (dec_struct workflow_fields) zero_Workflow)"
    using dec_map_keeps [OF dec_workflow_keeps zeros_ok(5)] by (simp add: state_ok_def [abs_def])
  then have "dec_keeps ?P (dec_struct envelope_fields)"
    by (intro dec_struct_keeps) (auto simp: envelope_fields_def intro!: into_keeps [OF dec_int_keeps] into_keeps)
  moreover have "?P \<lparr>env_Version = 0, env_Workflows = []\<rparr>" by (simp add: state_ok_def zeros_ok)
  moreover obtain v where "parse_json data = Some v" "dec_struct envelope_fields \<lparr>env_Version = 0, env_Workflows = []\<rparr> v = Some env"
    using assms by (auto simp: Unmarshal_envelope_def split: option.splits)
  ultimately show ?thesis using dec_keepsD [of ?P] parse_json_ok by blast
qed

section \<open>The state file\<close>

lemma Load_state_ok: "fst (LoadState rio st d) = Ok m \<Longrightarrow> state_ok m"
  by (auto simp: LoadState_def Load_def state_ok_def [of "[]"] Let_def dest: Unmarshal_ok split: sum.splits if_splits)

text \<open>
  C20. What is saved is what is loaded. Every state a Load yields, whatever the file held,
  has UTF-8 strings, 64-bit numbers and one entry for each key; and after a successful Save
  of any such state, the next Load that can read the file succeeds with exactly the
  workflows saved, each under its key with every field, its history and its usage.
\<close>

theorem saved_state_loads:
  assumes "fresh_temp io (sto_path st) d" and "Save io st (Some m) d = (None, ds)"
    and "rd_open rio = None" and "rd_read rio = None"
  shows "(fst (LoadState rio0 st0 d0) = Ok m \<longrightarrow> state_ok m) \<and>
    (state_ok m \<longrightarrow> LoadState rio st (last ds) = (Ok (sort_key fst m), st\<lparr>sto_loaded := True\<rparr>) \<and>
      map_of (sort_key fst m) = map_of m)"
  using Load_state_ok Save_Load [OF _ assms] by blast

lemma sample_state_ok: "state_ok sample_state"
proof -
  have "ValidString sample_key" "ValidString sample_id" "ValidString ''h''" "ValidString ''t''" "ValidString ''APPROVED''" "ValidString ''REJECTED''"
    by code_simp+
  then show ?thesis
    by (simp add: state_ok_def sample_state_def workflow_ok_def sample_workflow_def record_ok64_def sample_record_def
        NewHistoryRecord_def size_defs int64_ok_def MinInt_def MaxInt_def)
qed

lemma sample_state_fits: "length (encode_state sample_state) \<le> MaxStateFileSize"
proof -
  have lits: "length (json_string sample_key) = 23" "length (json_string ''thread_id'') = 11"
    "length (json_string ''last_commit'') = 13" "length (json_string ''last_base'') = 11"
    "length (json_string ''last_request_hash'') = 19" "length (json_string ''last_review'') = 13"
    "length (json_string ''t'') = 3" "length (json_string ''h'') = 3" "length (json_string ''APPROVED'') = 10"
    "length (json_string ''REJECTED'') = 10" "length (Itoa 2) = 1" "length (json_string sample_id) = 42" "file_overhead False < 100"
    by code_simp+
  have "hr_Review sample_record = ''REJECTED''" by (simp add: sample_record_def NewHistoryRecord_def size_defs)
  then have "length (indent 4 (record_json sample_record)) \<le> 937"
    using length_record [of sample_record] sample_record_ok lits by simp
  then have "workflow_size (sample_key, sample_workflow) \<le> 2000"
    by (simp add: workflow_size_def length_workflow workflow_members_def member_size_def lits sample_workflow_def
        omitempty_def usage_member_def history_size_eq length_keys)
  then show ?thesis using lits(13) by (simp add: sample_state_def length_encode_state size_defs)
qed

lemma saved_state_loads_witness:
  "LoadState sample_read sample_store (last (snd (Save sample_write sample_store (Some sample_state) Map.empty))) =
    (Ok (sort_key fst sample_state), sample_store)"
proof -
  have "fresh_temp sample_write (sto_path sample_store) Map.empty"
    by (simp add: fresh_temp_def sample_write_def sample_store_def sample_path_def)
  moreover have "length (encode_state sample_state) \<le> MaxStateFileSize" by (rule sample_state_fits)
  then have "Save sample_write sample_store (Some sample_state) Map.empty =
      (None, snd (Save sample_write sample_store (Some sample_state) Map.empty))"
    by (simp add: Save_def sample_store_def sample_write_def writeAtomic_def syncDir_def Let_def size_defs)
  ultimately show ?thesis
    using saved_state_loads [of sample_write sample_store Map.empty sample_state _ sample_read] sample_state_ok
    by (simp add: sample_read_def sample_store_def)
qed

end
