(* ===== verification/Utf8State.thy ===== *)
theory Utf8State
  imports ServiceOrder DecodeSpec
begin

text \<open>
  What a round writes can be read back: with answers that came out of a JSON decoder (UTF-8
  strings, 64-bit integers), the state handed to the save, and what eviction leaves of it, is
  one Load returns as it is.
\<close>

section \<open>ASCII\<close>

lemma ValidString_ascii: "\<forall>c\<in>set s. byte c < 128 \<Longrightarrow> ValidString s"
proof (induction s)
  case (Cons c s)
  then have "rune_size (c # s) = 1" by (simp add: rune_size_def)
  then show ?case using Cons ValidString_step [of "c # s"] by simp
qed simp

lemma is_digit_ascii: "is_digit c \<Longrightarrow> byte c < 128"
  by (simp add: is_digit_def byte_def less_eq_char_def)

lemma ValidString_Itoa: "ValidString (Itoa i)"
proof (rule ValidString_ascii)
  have "byte (CHR ''-'') < 128" by code_simp
  then show "\<forall>c\<in>set (Itoa i). byte c < 128"
    using nat_text_digits is_digit_ascii by (auto simp: Itoa_def)
qed

lemma IsObjectID_ascii: "IsObjectID s \<Longrightarrow> ValidString s"
  by (rule ValidString_ascii)
    (auto simp: IsObjectID_def list_all_iff is_lower_hex_def byte_def less_eq_char_def)

lemma changed_warning_valid: "ValidString (changed_warning n)"
proof -
  have "changed_warning n = ''the reviewer changed '' @ Itoa n @
      '' tracked file(s) in the disposable checkout; its build and test results may not describe the reviewed commit''"
    by (simp add: changed_warning_def)
  moreover have "ValidString ''the reviewer changed ''" by code_simp
  moreover have "ValidString '' tracked file(s) in the disposable checkout; its build and test results may not describe the reviewed commit''"
    by code_simp
  ultimately show ?thesis by (simp only: ValidString_append ValidString_Itoa)
qed

lemma unchecked_warning_valid: "ValidString unchecked_warning"
  by code_simp

section \<open>Answers that were decoded\<close>

definition app_usage_ok :: "AppUsage \<Rightarrow> bool" where
  "app_usage_ok u \<longleftrightarrow> usage_ok \<lparr>us_Last = usageBreakdown (au_Last u), us_Total = usageBreakdown (au_Total u)\<rparr>"

definition review_decoded :: "Review \<Rightarrow> bool" where
  "review_decoded rw \<longleftrightarrow> list_all ValidString (rv_Text rw # rv_Warnings rw) \<and> pred_option app_usage_ok (rv_Usage rw)"

definition decoded_answers :: "env \<Rightarrow> bool" where
  "decoded_answers en \<longleftrightarrow> en_unmarshal en = Unmarshal_envelope \<and>
     (\<forall>tr cwd sb t. en_start en tr cwd sb = Ok t \<longrightarrow> ValidString (th_ID t)) \<and>
     (\<forall>tr i cwd sb t. en_resume en tr i cwd sb = Ok t \<longrightarrow> ValidString (th_ID t)) \<and>
     (\<forall>tr i p rw. en_review en tr i p = Ok rw \<longrightarrow> review_decoded rw)"

lemma Load_decoded:
  "decoded_answers en \<Longrightarrow> Load (en_unmarshal en) io st d = (Ok m, st') \<Longrightarrow> state_ok m"
  using Load_state_ok [of io st d m] by (simp add: decoded_answers_def LoadState_def)

definition decoded_round :: "round \<Rightarrow> bool" where
  "decoded_round rd \<longleftrightarrow> ValidString (rd_key rd) \<and> ValidString (rd_hash rd) \<and> workflow_ok (rd_before rd)"

lemma round_thread_decoded:
  assumes "decoded_answers en" and "round_thread en rd co tr = (Ok t, tr')"
  shows "ValidString (th_ID t)"
proof -
  have start: "en_start en tr1 cwd sb = Ok t' \<Longrightarrow> ValidString (th_ID t')" for tr1 cwd sb t'
    using assms(1) unfolding decoded_answers_def by blast
  have resume: "en_resume en tr1 i cwd sb = Ok t' \<Longrightarrow> ValidString (th_ID t')" for tr1 i cwd sb t'
    using assms(1) unfolding decoded_answers_def by blast
  show ?thesis
  proof (cases "rd_known rd")
    case True
    then have "resume_stored en (wf_ThreadID (rd_before rd)) (round_cwd rd co) (round_sandbox co) tr = (Ok t, tr')"
      using assms(2) by (simp add: round_thread_def)
    then show ?thesis by (cases rule: resume_stored_cases) (auto simp: is_ok_def dest!: sym [of "Ok t"] dest: resume)
  next
    case False
    then show ?thesis using assms(2) start
      by (auto simp: round_thread_def start_new_def Let_def split: sum.splits option.splits)
  qed
qed

lemma round_turn_decoded:
  assumes "decoded_answers en" and "round_turn en rd co t tr = (Ok rw, tr')"
  shows "review_decoded rw"
proof -
  have "en_review en tr (th_ID t) (Build (round_prompt rd co)) = Ok rw"
    using assms(2) by (auto simp: round_turn_def Let_def split: sum.splits option.splits)
  then show ?thesis using assms(1) unfolding decoded_answers_def by blast
qed

lemma round_integrity_decoded:
  assumes "review_decoded rw" and "round_integrity en co rw tr = (rw', tr')"
  shows "review_decoded rw'"
  using assms changed_warning_valid unchecked_warning_valid
  by (auto simp: round_integrity_def AppendWarning_def review_decoded_def Let_def split: option.splits prod.splits if_splits)

lemma round_done_ok:
  assumes "review_decoded rw" and "ValidString (th_ID t)" and "ValidString (rd_hash rd)"
    and "IsObjectID (tg_Commit (rd_target rd))" and "IsObjectID (tg_Base (rd_target rd))"
  shows "workflow_ok (round_done rd t rw)"
proof -
  have "pred_option usage_ok (usageFrom (rv_Usage rw))"
    using assms(1) by (cases "rv_Usage rw") (simp_all add: review_decoded_def usageFrom_def app_usage_ok_def Let_def)
  then show ?thesis
    using assms go_int_range IsObjectID_ascii
    by (simp add: workflow_ok_def round_done_def review_decoded_def int64_ok_def round_number_def)
qed

section \<open>The state that is saved\<close>

lemma NewHistoryRecord_ok:
  assumes "workflow_ok w"
  shows "record_ok64 (NewHistoryRecord (wf_Round w) (wf_LastCommit w) (wf_LastBase w) (wf_LastReview w) (wf_LastUsage w))"
proof -
  have "ValidString OmittedTooLarge" by code_simp
  then show ?thesis using assms by (simp add: NewHistoryRecord_def record_ok64_def workflow_ok_def)
qed

lemma state_ok_Put: "state_ok m \<Longrightarrow> ValidString k \<Longrightarrow> workflow_ok w \<Longrightarrow> state_ok (Put m k w)"
proof -
  have "set (map_put k w m) \<subseteq> insert (k, w) (set m)" by (induction m) auto
  then show "state_ok m \<Longrightarrow> ValidString k \<Longrightarrow> workflow_ok w \<Longrightarrow> state_ok (Put m k w)"
    by (auto simp: state_ok_def Put_def list_all_iff distinct_update)
qed

lemma state_ok_Get: "state_ok m \<Longrightarrow> Get m k = (w, True) \<Longrightarrow> workflow_ok w"
  by (auto simp: Get_True_iff state_ok_def list_all_iff dest: map_of_SomeD)

lemma workflow_ok_trimmed: "trimmed w v \<Longrightarrow> workflow_ok w \<Longrightarrow> workflow_ok v"
  by (auto simp: trimmed_iff workflow_ok_def list_all_drop)

lemma state_ok_trimmed:
  assumes "history_trimmed m m'" and "state_ok m"
  shows "state_ok m'"
proof -
  have "workflow_ok v \<and> ValidString k" if "(k, v) \<in> set m'" for k v
  proof -
    obtain w where "(k, w) \<in> set m" "trimmed w v" using history_trimmed_set [OF assms(1) \<open>(k, v) \<in> set m'\<close>] by blast
    then show ?thesis using assms(2) workflow_ok_trimmed by (auto simp: state_ok_def list_all_iff)
  qed
  then show ?thesis using assms(2) history_trimmed_keys [OF assms(1)] by (auto simp: state_ok_def list_all_iff)
qed

lemma reconcile_state_ok:
  assumes "reconcile st key before known previous dn = Some (Ok m)" and "state_ok st" and "workflow_ok dn"
    and "ValidString key" and "known \<Longrightarrow> record_ok64 previous"
  shows "state_ok m"
proof (cases known)
  case False
  then show ?thesis using assms state_ok_Put by (auto simp: reconcile_def Let_def split: prod.splits if_splits)
next
  case True
  obtain fresh h where h: "m = Put st key (dn\<lparr>wf_History := h\<rparr>)" "Get st key = (fresh, True)"
      "RetainHistory (wf_History fresh) previous (wf_LastReview dn) = Some h"
    using assms(1) True by (auto simp: reconcile_def Let_def split: prod.splits if_splits option.splits)
  have "list_all record_ok64 (wf_History fresh @ [previous])"
    using state_ok_Get [OF assms(2) h(2)] assms(5) True by (simp add: workflow_ok_def)
  moreover obtain k where "h = drop k (wf_History fresh @ [previous])"
    using retain_loop_Some [of "wf_History fresh @ [previous]" "wf_LastReview dn"] h(3) unfolding RetainHistory_def by auto
  ultimately have "list_all record_ok64 h" by (simp only: list_all_drop)
  then show ?thesis using assms(2-4) h(1) by (simp add: state_ok_Put workflow_ok_def)
qed

end
