(* ===== verification/ServiceSpec.thy ===== *)
theory ServiceSpec
  imports Utf8State
begin

text \<open>
  What a review returns: a completed one has been saved, as a record the next request accepts;
  the same request again is answered from that record; and no path panics.
\<close>

section \<open>A record the next request accepts\<close>

definition record_complete :: "Workflow \<Rightarrow> bool" where
  "record_complete w \<longleftrightarrow> wf_ThreadID w \<noteq> [] \<and> IsObjectID (wf_LastCommit w) \<and> IsObjectID (wf_LastBase w) \<and>
     wf_LastRequestHash w \<noteq> [] \<and> wf_LastReview w \<noteq> [] \<and> 1 \<le> wf_Round w"

lemma incompleteWorkflowField_iff: "incompleteWorkflowField w = [] \<longleftrightarrow> record_complete w"
  by (auto simp: incompleteWorkflowField_def record_complete_def)

lemma check_stored_iff: "check_stored w = None \<longleftrightarrow> record_complete w \<and> ledger_ok w \<and> wf_Round w < MaxInt"
proof (cases "record_complete w \<and> wf_Round w < MaxInt")
  case True
  then have "InvalidHistory w = [] \<longleftrightarrow> ledger_ok w"
    by (intro InvalidHistory_empty_iff) (auto simp: record_complete_def)
  with True show ?thesis by (auto simp: check_stored_def incompleteWorkflowField_iff)
next
  case False
  then show ?thesis by (auto simp: check_stored_def incompleteWorkflowField_iff)
qed

lemma record_complete_history [simp]: "record_complete (w\<lparr>wf_History := h\<rparr>) \<longleftrightarrow> record_complete w"
  by (simp add: record_complete_def)

lemma usageFrom_valid: "Invalid (usageFrom u) = []"
  by (auto simp: usageFrom_def Let_def Invalid_def [of None] split: option.splits)

section \<open>Saving\<close>

text \<open>What reconcile hands on for saving.\<close>

lemma reconcile_Ok:
  assumes "reconcile st key before known previous dn = Some (Ok m)"
  obtains h where "m = Put st key (dn\<lparr>wf_History := h\<rparr>)" "\<not> known" "h = wf_History dn" "snd (Get st key) = False"
  | fresh h where "m = Put st key (dn\<lparr>wf_History := h\<rparr>)" "known" "Get st key = (fresh, True)"
      "SameReplayFields fresh before" "InvalidHistory fresh = []"
      "RetainHistory (wf_History fresh) previous (wf_LastReview dn) = Some h"
  using assms
  by (auto simp: reconcile_def Let_def split: prod.splits if_splits option.splits)

lemma saveCompleted_saved:
  assumes "saveCompleted en s key before known previous dn tr = (Some None, tr')"
  obtains tr1 m0 m st ev where
    "Load (en_unmarshal en) (en_read en (butlast tr1)) (se_store s) (en_disk en (butlast tr1)) = (Ok m0, st)"
    "reconcile m0 key before known previous dn = Some (Ok m)"
    "saveEvictingHistory (en_write en tr1) (en_ctx en tr1) (se_recordBytes s) st m (en_disk en tr1) = Some ev"
    "ev_err ev = None" "tr' = tr1 @ [CSave (ev_disk ev), CRelease (LockPath (se_store s))]"
proof -
  let ?tr1 = "tr @ [CAcquire (LockPath (se_store s)) FinalSaveLockWait True, CLoad]"
  have "butlast ?tr1 = tr @ [CAcquire (LockPath (se_store s)) FinalSaveLockWait True]" by (simp add: butlast_append)
  then show ?thesis using assms that [of ?tr1]
    by (auto simp: saveCompleted_def acquireStateLock_def load_state_def Let_def
        split: option.splits prod.splits sum.splits)
qed

text \<open>The system calls of a save behave, and the decoder yields a map.\<close>

definition save_honest :: "env \<Rightarrow> service \<Rightarrow> bool" where
  "save_honest en s \<longleftrightarrow> (\<forall>r. 0 < se_recordBytes s r) \<and>
     (\<forall>c e. en_unmarshal en c = Ok e \<longrightarrow> distinct (map fst (env_Workflows e))) \<and>
     (\<forall>tr. write_honest (en_write en tr) (sto_path (se_store s)) \<and>
        fresh_temp (en_write en tr) (sto_path (se_store s)) (en_disk en tr))"

lemma Load_distinct:
  assumes "save_honest en s" and "Load (en_unmarshal en) io st d = (Ok m, st')"
  shows "distinct (map fst m)" and "sto_path st' = sto_path st"
proof -
  show "distinct (map fst m)" using assms
    by (auto simp: save_honest_def Load_def Let_def split: sum.splits if_splits)
  show "sto_path st' = sto_path st" using Load_path [of "en_unmarshal en" io st d] assms(2) by simp
qed

lemma trimmed_ledger: "trimmed w v \<Longrightarrow> ledger_ok w \<Longrightarrow> ledger_ok v"
  using ledger_ok_drop by (auto simp: trimmed_iff)

lemma trimmed_fields:
  "trimmed w v \<Longrightarrow> wf_ThreadID v = wf_ThreadID w \<and> wf_LastCommit v = wf_LastCommit w \<and> wf_LastBase v = wf_LastBase w \<and>
     wf_LastRequestHash v = wf_LastRequestHash w \<and> wf_Round v = wf_Round w \<and> wf_LastReview v = wf_LastReview w \<and>
     wf_LastWarnings v = wf_LastWarnings w"
  by (auto simp: trimmed_iff)

text \<open>A save that succeeds leaves the new record in the file, up to evicted history.\<close>

lemma saveEvictingHistory_saved:
  assumes "saveEvictingHistory io ctx rb st m d = Some ev" and "ev_err ev = None" and "distinct (map fst m)"
    and "\<And>r. 0 < rb r" and "write_honest io (sto_path st)" and "fresh_temp io (sto_path st) d"
    and "map_of m key = Some w"
  shows "ev_disk ev (sto_path st) = Some (encode_state (ev_state ev)) \<and>
    length (encode_state (ev_state ev)) \<le> MaxStateFileSize \<and> history_trimmed m (ev_state ev) \<and>
    (\<exists>v. map_of (ev_state ev) key = Some v \<and> trimmed w v)"
proof -
  obtain plan where track: "loop_on_track rb m plan (ev_state ev) (ev_log ev)" and fin: "loop_end io ctx st plan d ev"
    using saveEvictingHistory_ends_disk [OF assms(1,3,4,5)] by blast
  have trim: "history_trimmed m (ev_state ev)" using loop_on_track_greedy [OF track] by blast
  then have "\<exists>v. map_of (ev_state ev) key = Some v \<and> trimmed w v" using history_trimmed_lookup assms(7) by blast
  moreover obtain ds where "Save io st (Some (ev_state ev)) d = (None, ds)" "ev_disk ev = last ds"
    using fin assms(2) by (auto elim!: loop_endE)
  ultimately show ?thesis using Save_None [OF assms(6)] trim by auto
qed

lemma same_round_ledger:
  assumes "SameReplayFields fresh before" and "ledger_ok before" and "ledger_ok fresh"
  shows "ledger_ok (before\<lparr>wf_History := wf_History fresh\<rparr>)"
  using assms by (simp add: SameReplayFields_def ledger_ok_def)

text \<open>The record a round writes is valid when the one it found was.\<close>

lemma reconciled_ledger:
  assumes "reconcile st key before known previous dn = Some (Ok m)" and "known \<Longrightarrow> check_stored before = None"
    and "known \<Longrightarrow> previous = NewHistoryRecord (wf_Round before) (wf_LastCommit before) (wf_LastBase before)
      (wf_LastReview before) (wf_LastUsage before)"
    and "known \<Longrightarrow> wf_Round dn = wf_Round before + 1" and "Invalid (wf_LastUsage dn) = []" and "wf_History dn = []"
  shows "\<exists>h. m = Put st key (dn\<lparr>wf_History := h\<rparr>) \<and> ledger_ok (dn\<lparr>wf_History := h\<rparr>)"
  using assms(1)
proof (cases rule: reconcile_Ok)
  case (1 h)
  then have "ledger_ok (dn\<lparr>wf_History := h\<rparr>)"
    using assms(5,6) newest_bytes_le [of "wf_LastReview dn"]
    by (simp add: ledger_ok_def contiguous_def)
  with 1 show ?thesis by blast
next
  case (2 fresh h)
  have before: "record_complete before" "ledger_ok before" "wf_Round before < MaxInt"
    using assms(2) 2(2) by (simp_all add: check_stored_iff)
  have "1 \<le> wf_Round fresh" "wf_Round fresh \<le> MaxInt"
    using before 2(4) by (simp_all add: record_complete_def SameReplayFields_def)
  then have "ledger_ok fresh" using 2(5) InvalidHistory_empty_iff by blast
  then have ok: "ledger_ok (before\<lparr>wf_History := wf_History fresh\<rparr>)" using same_round_ledger 2(4) before(2) by blast
  have "\<exists>h'. RetainHistory (wf_History fresh) previous (wf_LastReview dn) = Some h' \<and> ledger_ok (dn\<lparr>wf_History := h'\<rparr>)"
    using ledger_ok_next [OF ok, of "wf_LastUsage dn" dn] before(1) assms(3,4,5) 2(2)
    by (simp add: record_complete_def)
  then show ?thesis using 2(1,6) by auto
qed

section \<open>The app-server client as the reviewer\<close>

text \<open>
  DefaultReviewer: the reviewer the service starts is the client of ClientSpec, on whatever
  the app-server answers at each call.
\<close>

definition with_client :: "(trace \<Rightarrow> AppServer) \<Rightarrow> env \<Rightarrow> env" where
  "with_client sv en = en\<lparr>
     en_start := (\<lambda>tr. client_StartThread (sv tr)),
     en_resume := (\<lambda>tr. client_ResumeThread (sv tr)),
     en_unarchive := (\<lambda>tr. client_UnarchiveThread (sv tr)),
     en_name := (\<lambda>tr. client_SetThreadName (sv tr)),
     en_review := (\<lambda>tr threadID prompt. fst (client_Review (sv_review (sv tr) threadID prompt) threadID))\<rparr>"

definition reviewer_honest :: "env \<Rightarrow> bool" where
  "reviewer_honest en \<longleftrightarrow> (\<forall>tr. reviewer_session (en_start en tr) (en_resume en tr) (en_review en tr))"

lemma client_honest: "reviewer_honest (with_client sv en)"
  by (simp add: reviewer_honest_def with_client_def client.reviewer_session_axioms)

lemma with_client_save_honest: "save_honest (with_client sv en) s \<longleftrightarrow> save_honest en s"
  by (simp add: save_honest_def with_client_def)

lemma round_thread_id:
  assumes "reviewer_honest en" and "round_thread en rd co tr = (Ok t, tr')"
  shows "th_ID t \<noteq> []"
proof -
  have start: "en_start en tr1 cwd sb = Ok t' \<Longrightarrow> th_ID t' \<noteq> []" for tr1 cwd sb t'
    using assms(1) reviewer_session.start_has_id unfolding reviewer_honest_def by blast
  have resume: "en_resume en tr1 i cwd sb = Ok t' \<Longrightarrow> th_ID t' \<noteq> []" for tr1 i cwd sb t'
    using assms(1) reviewer_session.resume_same_id unfolding reviewer_honest_def by blast
  show ?thesis
  proof (cases "rd_known rd")
    case True
    then have "resume_stored en (wf_ThreadID (rd_before rd)) (round_cwd rd co) (round_sandbox co) tr = (Ok t, tr')"
      using assms(2) by (simp add: round_thread_def)
    then show ?thesis by (cases rule: resume_stored_cases) (auto simp: is_ok_def dest!: sym [of "Ok t"] dest: resume)
  next
    case False
    then show ?thesis using assms(2) start
      by (auto simp: round_thread_def start_new_def Let_def split: sum.splits option.splits)
  qed
qed

lemma round_turn_text:
  assumes "reviewer_honest en" and "round_turn en rd co t tr = (Ok rw, tr')"
  shows "rv_Text rw \<noteq> []"
proof -
  have "en_review en tr (th_ID t) (Build (round_prompt rd co)) = Ok rw"
    using assms(2) by (auto simp: round_turn_def Let_def split: sum.splits option.splits)
  then show ?thesis
    using assms(1) reviewer_session.review_has_text unfolding reviewer_honest_def by blast
qed

lemma round_integrity_text: "round_integrity en co rw tr = (rw', tr') \<Longrightarrow> rv_Text rw' = rv_Text rw"
  by (auto simp: round_integrity_def Let_def split: option.splits prod.splits if_splits)

section \<open>A completed round\<close>

text \<open>What a round saved: where in the trace, the state in the file, this workflow's record.\<close>

definition recorded :: "service \<Rightarrow> round \<Rightarrow> Result \<Rightarrow> trace \<Rightarrow> disk \<Rightarrow> State \<Rightarrow> Workflow \<Rightarrow> bool" where
  "recorded s rd res tr d m w \<longleftrightarrow>
     CSave d \<in> set tr \<and> d (sto_path (se_store s)) = Some (encode_state m) \<and>
     length (encode_state m) \<le> MaxStateFileSize \<and> map_of m (rd_key rd) = Some w \<and>
     wf_LastReview w = res_Review res \<and> wf_LastWarnings w = res_Warnings res \<and> wf_Round w = res_Round res \<and>
     wf_LastCommit w = res_Commit res \<and> wf_LastBase w = res_Base res \<and> wf_LastRequestHash w = rd_hash rd \<and>
     record_complete w \<and> ledger_ok w"

lemma round_session_completed:
  assumes "round_session en s rd co tr = (Some (Ok res), tr')" and "reviewer_honest en" and "save_honest en s"
    and "rd_known rd \<Longrightarrow> check_stored (rd_before rd) = None" and "\<not> rd_known rd \<Longrightarrow> rd_before rd = zero_Workflow"
    and "IsObjectID (tg_Commit (rd_target rd))" and "IsObjectID (tg_Base (rd_target rd))" and "rd_hash rd \<noteq> []"
  shows "\<exists>d m w. recorded s rd res tr' d m w \<and> (decoded_answers en \<and> decoded_round rd \<longrightarrow> state_ok m)"
  using assms(1)
proof (cases rule: round_session_cases)
  case (save t tr1 rw0 tr2 rw tr3 q)
  let ?dn = "round_done rd t rw"
  have q: "q = Some None" and res: "res = round_result rd ?dn" using save(5-7) by (cases q; cases "the q"; auto)+
  have round: "1 \<le> round_number rd" "rd_known rd \<Longrightarrow> round_number rd = wf_Round (rd_before rd) + 1"
  proof -
    have "1 \<le> wf_Round (rd_before rd) \<and> wf_Round (rd_before rd) < MaxInt" if "rd_known rd"
      using assms(4) that by (simp add: check_stored_iff record_complete_def)
    then show "rd_known rd \<Longrightarrow> round_number rd = wf_Round (rd_before rd) + 1"
      by (simp add: round_number_def MinInt_def MaxInt_def)
    moreover have "\<not> rd_known rd \<Longrightarrow> round_number rd = 1"
      using assms(5) by (simp add: round_number_def zero_Workflow_def MinInt_def MaxInt_def)
    ultimately show "1 \<le> round_number rd"
      using \<open>rd_known rd \<Longrightarrow> 1 \<le> wf_Round (rd_before rd) \<and> wf_Round (rd_before rd) < MaxInt\<close> by (cases "rd_known rd") auto
  qed
  have complete: "record_complete ?dn"
    using round_thread_id [OF assms(2) save(1)] round_turn_text [OF assms(2) save(2)] round_integrity_text [OF save(3)]
      assms(6-8) round(1)
    by (simp add: record_complete_def round_done_def)
  obtain tr4 m0 m st ev where sv:
    "Load (en_unmarshal en) (en_read en (butlast tr4)) (se_store s) (en_disk en (butlast tr4)) = (Ok m0, st)"
    "reconcile m0 (rd_key rd) (rd_before rd) (rd_known rd) (round_previous rd) ?dn = Some (Ok m)"
    "saveEvictingHistory (en_write en tr4) (en_ctx en tr4) (se_recordBytes s) st m (en_disk en tr4) = Some ev"
    "ev_err ev = None" "tr' = tr4 @ [CSave (ev_disk ev), CRelease (LockPath (se_store s))]"
    by (rule saveCompleted_saved [OF save(4) [unfolded q]]) (rule that)
  obtain h where h: "m = Put m0 (rd_key rd) (?dn\<lparr>wf_History := h\<rparr>)" "ledger_ok (?dn\<lparr>wf_History := h\<rparr>)"
    using reconciled_ledger [OF sv(2)] assms(4) round(2) usageFrom_valid
    by (auto simp: round_previous_def Let_def round_done_def)
  have ld: "distinct (map fst m0)" "sto_path st = sto_path (se_store s)" using Load_distinct [OF assms(3) sv(1)] by simp_all
  have "map_of m (rd_key rd) = Some (?dn\<lparr>wf_History := h\<rparr>)" using h(1) Get_True_iff Get_Put by metis
  then obtain v where v: "ev_disk ev (sto_path (se_store s)) = Some (encode_state (ev_state ev))"
    "length (encode_state (ev_state ev)) \<le> MaxStateFileSize"
    "map_of (ev_state ev) (rd_key rd) = Some v" "trimmed (?dn\<lparr>wf_History := h\<rparr>) v" "history_trimmed m (ev_state ev)"
    using saveEvictingHistory_saved [OF sv(3,4), of "rd_key rd"] map_put_distinct [OF ld(1)] h(1) ld(2) assms(3)
    by (auto simp: save_honest_def Put_def)
  have fields: "wf_LastReview v = res_Review res" "wf_LastWarnings v = res_Warnings res" "wf_Round v = res_Round res"
    "wf_LastCommit v = res_Commit res" "wf_LastBase v = res_Base res" "wf_LastRequestHash v = rd_hash rd"
    "record_complete v"
    using trimmed_fields [OF v(4)] res complete by (simp_all add: round_result_def record_complete_def round_done_def)
  then have "recorded s rd res tr' (ev_disk ev) (ev_state ev) v"
    using v sv(5) trimmed_ledger [OF v(4) h(2)] by (simp add: recorded_def)
  moreover have "state_ok (ev_state ev)" if "decoded_answers en" "decoded_round rd"
  proof -
    have "state_ok m0" by (rule Load_decoded [OF that(1) sv(1)])
    moreover have "workflow_ok ?dn"
      using round_thread_decoded [OF that(1) save(1)] round_integrity_decoded [OF round_turn_decoded [OF that(1) save(2)] save(3)]
        that(2) assms(6,7)
      by (intro round_done_ok) (simp_all add: decoded_round_def)
    moreover have "rd_known rd \<Longrightarrow> record_ok64 (round_previous rd)"
      using that(2) NewHistoryRecord_ok by (simp add: round_previous_def decoded_round_def Let_def)
    ultimately have "state_ok m" using reconcile_state_ok [OF sv(2)] that(2) by (simp add: decoded_round_def)
    then show ?thesis using state_ok_trimmed [OF v(5)] by blast
  qed
  ultimately show ?thesis by blast
qed simp_all

lemma recorded_append: "recorded s rd res tr d m w \<Longrightarrow> recorded s rd res (tr @ cs) d m w"
  by (simp add: recorded_def)

lemma round_reviewer_completed:
  assumes "round_reviewer en s rd co tr = (Some (Ok res), tr')" and "reviewer_honest en" and "save_honest en s"
    and "rd_known rd \<Longrightarrow> check_stored (rd_before rd) = None" and "\<not> rd_known rd \<Longrightarrow> rd_before rd = zero_Workflow"
    and "IsObjectID (tg_Commit (rd_target rd))" and "IsObjectID (tg_Base (rd_target rd))" and "rd_hash rd \<noteq> []"
  shows "\<exists>d m w. recorded s rd res tr' d m w \<and> (decoded_answers en \<and> decoded_round rd \<longrightarrow> state_ok m)"
  using assms(1)
proof (cases rule: round_reviewer_cases)
  case (started tr1)
  then show ?thesis using round_session_completed [OF _ assms(2-8)] recorded_append by blast
qed simp

lemma round_run_completed:
  assumes "round_run en s rd tr = (Some (Ok res), tr')" and "reviewer_honest en" and "save_honest en s"
    and "rd_known rd \<Longrightarrow> check_stored (rd_before rd) = None" and "\<not> rd_known rd \<Longrightarrow> rd_before rd = zero_Workflow"
    and "IsObjectID (tg_Commit (rd_target rd))" and "IsObjectID (tg_Base (rd_target rd))" and "rd_hash rd \<noteq> []"
  shows "\<exists>d m w. recorded s rd res tr' d m w \<and> (decoded_answers en \<and> decoded_round rd \<longrightarrow> state_ok m)"
  using assms(1)
proof (cases rule: round_run_cases)
  case plain
  then show ?thesis using round_reviewer_completed [OF _ assms(2-8)] by blast
next
  case (prepared c tr1)
  then show ?thesis using round_reviewer_completed [OF _ assms(2-8)] recorded_append by blast
qed simp

text \<open>The result of a round describes the round.\<close>

lemma round_run_result:
  assumes "round_run en s rd tr = (Some (Ok res), tr')"
  shows "res_Commit res = tg_Commit (rd_target rd) \<and> res_Base res = tg_Base (rd_target rd) \<and>
    res_Round res = round_number rd \<and> \<not> res_Replayed res \<and>
    res_Repo res = rp_Worktree (rd_repo rd) \<and> res_Branch res = br_Ref (rd_branch rd)"
proof -
  have session: "res_Commit res = tg_Commit (rd_target rd) \<and> res_Base res = tg_Base (rd_target rd) \<and>
      res_Round res = round_number rd \<and> \<not> res_Replayed res \<and>
      res_Repo res = rp_Worktree (rd_repo rd) \<and> res_Branch res = br_Ref (rd_branch rd)"
    if "round_session en s rd co tr1 = (Some (Ok res), tr2)" for co tr1 tr2
    using that
  proof (cases rule: round_session_cases)
    case (save t tr1 rw0 tr2 rw tr3 q)
    then have "res = round_result rd (round_done rd t rw)" by (cases q; cases "the q"; auto)
    then show ?thesis by (simp add: round_result_def)
  qed simp_all
  have "\<exists>co tr1 tr2. round_session en s rd co tr1 = (Some (Ok res), tr2)"
    if "round_reviewer en s rd co tr1 = (Some (Ok res), tr2)" for co tr1 tr2
    using that by (cases rule: round_reviewer_cases) auto
  note reviewer = this
  from assms show ?thesis by (cases rule: round_run_cases) (use reviewer session in blast)+
qed

lemma loadWorkflow_unknown:
  assumes "loadWorkflow en s key tr = (Ok (w, False), tr')"
  shows "w = zero_Workflow"
  using assms
  by (auto simp: loadWorkflow_def Get_def split: prod.splits option.splits sum.splits)

lemma loadWorkflow_ok:
  assumes "decoded_answers en" and "loadWorkflow en s key tr = (Ok (w, known), tr')"
  shows "workflow_ok w"
proof -
  obtain io st d m st' where ld: "Load (en_unmarshal en) io st d = (Ok m, st')" "Get m key = (w, known)"
    using assms(2) by (auto simp: loadWorkflow_def load_state_def split: prod.splits option.splits sum.splits)
  show ?thesis
  proof (cases known)
    case True
    then show ?thesis using state_ok_Get [OF Load_decoded [OF assms(1) ld(1)]] ld(2) by simp
  next
    case False
    have "w = zero_Workflow" by (rule loadWorkflow_unknown [of en s key tr w tr']) (use assms(2) False in simp)
    then show ?thesis using zeros_ok(5) by simp
  qed
qed

lemma decoded_key: "ValidString i \<Longrightarrow> ValidString r \<Longrightarrow> ValidString (WorkflowKey i r)"
proof -
  have "ValidString ''::''" by code_simp
  then show "ValidString i \<Longrightarrow> ValidString r \<Longrightarrow> ValidString (WorkflowKey i r)"
    using ValidString_append [of i "''::'' @ r"] ValidString_append [of "''::''" r] by (simp add: WorkflowKey_def)
qed

lemma Hash_valid: "ValidString (Hash r)"
  by (rule ValidString_ascii)
    (auto simp: Hash_def is_lower_hex_def byte_def less_eq_char_def dest!: hex_digest_lower [THEN subsetD])

lemma service_review_valid: "service_review en s req = (Some (Ok res), tr) \<Longrightarrow> validate_request req = None"
  by (auto simp: service_review_def split: option.splits)

text \<open>What a completed review leaves, for the two properties that say so.\<close>

definition completed :: "env \<Rightarrow> service \<Rightarrow> ReviewRequest \<Rightarrow> Result \<Rightarrow> trace \<Rightarrow> Repository \<Rightarrow> Branch \<Rightarrow> disk \<Rightarrow> State \<Rightarrow> Workflow \<Rightarrow> bool" where
  "completed en s req res tr repo branch d m w \<longleftrightarrow>
    Open (en_git en []) (req_Repo req) = Ok repo \<and> ResolveBranch (en_git en [CGit ''open'']) repo (req_Branch req) = Ok branch \<and>
    CSave d \<in> set tr \<and> d (sto_path (se_store s)) = Some (encode_state m) \<and> length (encode_state m) \<le> MaxStateFileSize \<and>
    map_of m (WorkflowKey (repo_Identity repo) (br_Ref branch)) = Some w \<and>
    wf_LastReview w = res_Review res \<and> wf_LastWarnings w = res_Warnings res \<and> wf_Round w = res_Round res \<and>
    wf_LastRequestHash w = Hash \<lparr>rq_Identity = repo_Identity repo, rq_BranchRef = br_Ref branch,
      rq_Commit = res_Commit res, rq_Base = res_Base res, rq_BranchNotes = req_BranchNotes req, rq_Build = req_Build req\<rparr> \<and>
    wf_LastCommit w = res_Commit res \<and> (check_stored w = None \<or> wf_Round w = MaxInt) \<and> res_Repo res = rp_Worktree repo \<and> res_Branch res = br_Ref branch \<and>
    validate_request req = None \<and>
    (decoded_answers en \<and> ValidString (repo_Identity repo) \<and> ValidString (br_Ref branch) \<longrightarrow> state_ok m)"

lemma completed_exists:
  assumes "save_honest en s" and "service_review (with_client sv en) s req = (Some (Ok res), tr)" and "\<not> res_Replayed res"
  shows "\<exists>repo branch d m w. completed (with_client sv en) s req res tr repo branch d m w"
  using assms(2)
proof (cases rule: service_review_cases)
  case (locked repo branch key tr1)
  let ?en = "with_client sv en"
  have git: "en_git ?en = en_git en" by (simp add: with_client_def)
  from locked(5) show ?thesis
  proof (cases rule: review_locked_cases)
    case (target w known tr2)
    from target(3) show ?thesis
    proof (cases rule: review_target_cases)
      case (run tg txt')
      let ?rd = "\<lparr>rd_req = req, rd_repo = repo, rd_branch = branch, rd_key = key, rd_before = w, rd_known = known,
        rd_target = tg, rd_hash = Hash (request_ident repo branch tg req), rd_instructions = txt'\<rparr>"
      have ids: "IsObjectID (tg_Commit tg)" "IsObjectID (tg_Base tg)" using ValidateTarget_Ok [OF run(1)] by blast+
      have unknown: "w = zero_Workflow" if "\<not> known" using loadWorkflow_unknown target(1) that by auto
      obtain d m v where rec: "recorded s ?rd res tr1 d m v" and
          ok: "decoded_answers ?en \<and> decoded_round ?rd \<longrightarrow> state_ok m"
        using round_run_completed [OF run(3) client_honest] assms(1) with_client_save_honest target(2) unknown ids
        by auto
      have res: "res_Commit res = tg_Commit tg" "res_Base res = tg_Base tg" using round_run_result [OF run(3)] by simp_all
      have "wf_Round v \<le> MaxInt"
        using rec round_run_result [OF run(3)] go_int_range by (simp add: recorded_def round_number_def)
      then have "check_stored v = None \<or> wf_Round v = MaxInt"
        using rec by (auto simp: check_stored_iff recorded_def)
      moreover have "decoded_round ?rd" if "decoded_answers ?en" "ValidString (repo_Identity repo)" "ValidString (br_Ref branch)"
        using that loadWorkflow_ok [OF that(1) target(1)] decoded_key Hash_valid locked(3) by (simp add: decoded_round_def)
      ultimately have "completed ?en s req res tr repo branch d m v"
        using rec res ok locked round_run_result [OF run(3)] service_review_valid [OF assms(2)]
        by (auto simp: completed_def recorded_def request_ident_def)
      then show ?thesis by blast
    qed (use assms(3) in \<open>simp_all add: replay_result_def\<close>)
  qed simp_all
qed simp_all

text \<open>
  C2. A completed review has been saved, with the app-server client as the reviewer. Before
  the result is returned the state file held, within its size limit, a record of exactly this
  result under this workflow's key and this request's hash, and the next request accepts that
  record (unless the round number has reached the largest integer). So a review that was paid
  for is never lost, and never makes its workflow unusable.
\<close>

theorem completed_review_recorded:
  assumes "save_honest en s" and "service_review (with_client sv en) s req = (Some (Ok res), tr)" and "\<not> res_Replayed res"
  shows "\<exists>repo branch d m w. Open (en_git en []) (req_Repo req) = Ok repo \<and>
    ResolveBranch (en_git en [CGit ''open'']) repo (req_Branch req) = Ok branch \<and>
    CSave d \<in> set tr \<and> d (sto_path (se_store s)) = Some (encode_state m) \<and>
    length (encode_state m) \<le> MaxStateFileSize \<and>
    Get m (WorkflowKey (repo_Identity repo) (br_Ref branch)) = (w, True) \<and>
    wf_LastReview w = res_Review res \<and> wf_LastWarnings w = res_Warnings res \<and> wf_Round w = res_Round res \<and>
    wf_LastRequestHash w = Hash \<lparr>rq_Identity = repo_Identity repo, rq_BranchRef = br_Ref branch,
      rq_Commit = res_Commit res, rq_Base = res_Base res, rq_BranchNotes = req_BranchNotes req, rq_Build = req_Build req\<rparr> \<and>
    (check_stored w = None \<or> wf_Round w = MaxInt)"
proof -
  obtain repo branch d m w where "completed (with_client sv en) s req res tr repo branch d m w"
    using completed_exists [OF assms] by blast
  then show ?thesis
    by (intro exI [of _ repo] exI [of _ branch] exI [of _ d] exI [of _ m] exI [of _ w])
      (auto simp: completed_def with_client_def Get_True_iff)
qed

section \<open>No panic\<close>

lemma saveCompleted_returns:
  assumes "save_honest en s"
  shows "fst (saveCompleted en s key before known previous dn tr) \<noteq> None"
proof -
  have retain: "RetainHistory h p t \<noteq> None" for h p t
    using retain_loop_Some [of "h @ [p]" t] by (auto simp: RetainHistory_def)
  have rec: "reconcile m key before known previous dn \<noteq> None" for m
    by (auto simp: reconcile_def Let_def retain split: prod.splits option.splits)
  have save: "saveEvictingHistory io ctx (se_recordBytes s) st m d \<noteq> None" if "distinct (map fst m)" for io ctx st m d
    using save_loop_total [of "se_recordBytes s" m None m "[]"] assms that
    by (auto simp: saveEvictingHistory_def loop_on_track_def save_honest_def)
  have keys: "distinct (map fst m)"
    if "Load (en_unmarshal en) io st d = (Ok m0, st')" "reconcile m0 key before known previous dn = Some (Ok m)" for io st d m0 st' m
    using that(2) Load_distinct(1) [OF assms that(1)]
    by (cases rule: reconcile_Ok) (auto simp: Put_def map_put_distinct)
  let ?tr1 = "tr @ [CAcquire (LockPath (se_store s)) FinalSaveLockWait True]"
  obtain x st where ld: "Load (en_unmarshal en) (en_read en ?tr1) (se_store s) (en_disk en ?tr1) = (x, st)" by fastforce
  show ?thesis
  proof (cases "en_lock en tr (LockPath (se_store s)) FinalSaveLockWait")
    case None
    note unfold = saveCompleted_def acquireStateLock_def load_state_def Let_def None ld
    show ?thesis
    proof (cases x)
      case (Inr m0)
      obtain y where y: "reconcile m0 key before known previous dn = Some y" using rec by blast
      show ?thesis
      proof (cases y)
        case (Inr m)
        have "distinct (map fst m)" using keys ld \<open>x = Inr m0\<close> y Inr by simp
        from save [OF this] show ?thesis using y Inr \<open>x = Inr m0\<close> by (auto simp: unfold split: option.split)
      qed (use y Inr in \<open>simp add: unfold\<close>)
    qed (simp add: unfold)
  qed (simp add: saveCompleted_def acquireStateLock_def Let_def)
qed

lemma round_session_returns:
  assumes "save_honest en s" and "round_session en s rd co tr = (r, tr')"
  shows "r \<noteq> None"
  using assms(2)
proof (cases rule: round_session_cases)
  case (save t tr1 rw0 tr2 rw tr3 q)
  then show ?thesis using saveCompleted_returns [OF assms(1)] by (metis fst_conv)
qed simp_all

lemma round_run_returns:
  assumes "save_honest en s" and "round_run en s rd tr = (r, tr')"
  shows "r \<noteq> None"
proof -
  have "r \<noteq> None" if "round_reviewer en s rd co tr1 = (r, tr2)" for co tr1 tr2
    using that round_session_returns [OF assms(1)] by (cases rule: round_reviewer_cases) auto
  note reviewer = this
  from assms(2) show ?thesis by (cases rule: round_run_cases) (use reviewer in blast)+
qed

text \<open>
  C4. A review always returns a result or an error: with system calls that do not themselves
  report a file that is too large and a decoder that yields a map, no path indexes an empty
  history, an empty plan or an empty ledger, however the environment answers; and a replayed
  result comes from the stored record alone, of a request with the same hash, with no turn,
  no reviewer, no checkout and no save.
\<close>

theorem review_returns:
  assumes "save_honest en s" and "service_review en s req = (r, tr)"
  shows "case r of None \<Rightarrow> False | Some (Inl e) \<Rightarrow> True
    | Some (Inr res) \<Rightarrow> res_Replayed res \<longrightarrow>
        (\<exists>repo branch w pre. Open (en_git en []) (req_Repo req) = Ok repo \<and>
          ResolveBranch (en_git en [CGit ''open'']) repo (req_Branch req) = Ok branch \<and>
          stored_record en s (WorkflowKey (repo_Identity repo) (br_Ref branch)) pre = Some (w, True) \<and>
          wf_LastRequestHash w = Hash \<lparr>rq_Identity = repo_Identity repo, rq_BranchRef = br_Ref branch,
            rq_Commit = res_Commit res, rq_Base = res_Base res, rq_BranchNotes = req_BranchNotes req,
            rq_Build = req_Build req\<rparr> \<and>
          res_Review res = wf_LastReview w \<and> res_Round res = wf_Round w \<and> res_Warnings res = wf_LastWarnings w) \<and>
        list_all (\<lambda>c. c = CLoad \<or> (\<exists>m. c = CGit m) \<or> (\<exists>p w g. c = CAcquire p w g) \<or> (\<exists>p. c = CRelease p)) tr"
  using assms(2)
proof (cases rule: service_review_cases)
  case (locked repo branch key tr1)
  from locked(5) show ?thesis
  proof (cases rule: review_locked_cases)
    case (target w known tr2)
    from target(3) show ?thesis
    proof (cases rule: review_target_cases)
      case (replayed tg)
      have known: "loadWorkflow en s key [CGit ''open'', CGit ''branch'', CAcquire (WorkflowLockPath (se_store s) key) LockWait True] =
          (Ok (w, True), tr2)"
        using target(1) replayed(3) by simp
      have "happened (loaded en s key w True) tr2" using loadWorkflow_justified [OF known] by blast
      then obtain pre where "stored_record en s key pre = Some (w, True)" by (auto simp: happened_def loaded_def)
      moreover have "list_all (\<lambda>c. c = CLoad \<or> (\<exists>m. c = CGit m) \<or> (\<exists>p w g. c = CAcquire p w g) \<or> (\<exists>p. c = CRelease p)) tr2"
        using known by (auto simp: loadWorkflow_def acquireStateLock_def load_state_def Let_def
            split: option.splits prod.splits sum.splits)
      ultimately show ?thesis using locked(1-3,6) replayed
        by (auto simp: replay_result_def request_ident_def)
    next
      case (run tg txt')
      then show ?thesis using round_run_returns [OF assms(1) run(3)] round_run_result [of en s]
        by (fastforce split: option.split sum.split)
    qed simp_all
  qed simp_all
qed simp_all

section \<open>A completed run\<close>

text \<open>The sample environment with the client as its reviewer, on an app-server that answers.\<close>

definition plain_response :: threadResponse where
  "plain_response = \<lparr>tr_ThreadID = ''t'', tr_Model = ''m'', tr_ReasoningEffort = None, tr_ApprovalPolicy = Some ''never'',
     tr_Sandbox = \<lparr>sp_Type = ''readOnly'', sp_NetworkAccess = False, sp_WritableRoots = [], sp_ExcludeSlashTmp = False,
       sp_ExcludeTmpdirEnvVar = False\<rparr>, tr_Cwd = ''/r''\<rparr>"

definition plain_server :: AppServer where
  "plain_server = sample_server\<lparr>sv_thread_start := (\<lambda>c m. Ok plain_response),
     sv_review := (\<lambda>t p. sample_review_io\<lparr>ri_grace := []\<rparr>)\<rparr>"

definition plain_thread :: Thread where
  "plain_thread = \<lparr>th_ID = ''t'', th_Model = ''m'', th_ReasoningEffort = []\<rparr>"

definition plain_review :: Review where
  "plain_review = \<lparr>rv_TurnID = ''u'', rv_Text = ''LGTM'', rv_Warnings = [], rv_Usage = None\<rparr>"

lemma plain_answers:
  "client_StartThread plain_server ''/r'' (round_sandbox None) = Ok plain_thread"
  "client_SetThreadName plain_server ''t'' n = None"
  "client_Review (sv_review plain_server t p) ''t'' = (Ok plain_review, None)"
proof -
  show "client_StartThread plain_server ''/r'' (round_sandbox None) = Ok plain_thread" by code_simp
  show "client_SetThreadName plain_server ''t'' n = None"
    by (simp add: client_SetThreadName_def plain_server_def sample_server_def)
  show "client_Review (sv_review plain_server t p) ''t'' = (Ok plain_review, None)"
    by (simp add: plain_server_def client_Review_def sample_review_io_def newTurnWatcher_def handle_defs tw_matches_def
        setTurn_def protocol_defs awaitTurn_def review_result_def result_text_def takeWarnings_def no_warnings_def
        plain_review_def size_defs Let_def)
qed

text \<open>No state file yet, read with the library's decoder.\<close>

definition plain_env :: env where
  "plain_env = (sample_env [])\<lparr>en_unmarshal := Unmarshal_envelope, en_disk := (\<lambda>tr. Map.empty)\<rparr>"

definition client_env :: env where
  "client_env = with_client (\<lambda>tr. plain_server) plain_env"

lemma client_env_like: "sample_like client_env []"
proof -
  have "Load Unmarshal_envelope sample_read sample_store Map.empty = (Ok [], sample_store)"
    by (simp add: Load_def readBounded_def sample_read_def sample_store_def Let_def)
  then show ?thesis by (simp add: sample_like_def client_env_def with_client_def plain_env_def sample_env_def)
qed

lemma sample_fresh_file: "fresh_temp sample_write sample_path (Map.empty(sample_path \<mapsto> c))"
  by (simp add: fresh_temp_def sample_write_def sample_path_def)

lemma sample_save_honest: "save_honest (sample_env []) sample_service"
  using sample_write_honest sample_fresh_file
  by (simp add: save_honest_def sample_service_def sample_env_def sample_store_def historyRecordBytes_pos)

lemma plain_save_honest: "save_honest plain_env sample_service"
proof -
  have "Unmarshal_envelope c = Ok e \<Longrightarrow> distinct (map fst (env_Workflows e))" for c e
    using Unmarshal_ok by (simp add: state_ok_def)
  then show ?thesis using sample_write_honest
    by (simp add: save_honest_def sample_service_def plain_env_def sample_env_def sample_store_def historyRecordBytes_pos
        fresh_temp_def sample_write_def sample_path_def)
qed

lemma plain_decoded: "decoded_answers client_env"
proof -
  have "ValidString ''t''" "ValidString ''LGTM''" by code_simp+
  moreover have "client_StartThread plain_server cwd sb = Ok t \<Longrightarrow> th_ID t = ''t''" for cwd sb t
    by (auto simp: client_StartThread_def plain_server_def sample_server_def plain_response_def dest!: threadFromResponse_Ok)
  moreover have "client_ResumeThread plain_server i cwd sb = Ok t \<Longrightarrow> th_ID t = ''t''" for i cwd sb t
    by (auto simp: client_ResumeThread_def plain_server_def sample_server_def sample_response_def dest!: threadFromResponse_Ok split: if_splits)
  moreover have review: "fst (client_Review (sv_review plain_server i p) i) = Ok rw \<Longrightarrow> rw = plain_review" for i p rw
  proof (cases "i = ''t''")
    case True
    then show "fst (client_Review (sv_review plain_server i p) i) = Ok rw \<Longrightarrow> rw = plain_review" using plain_answers(3) by simp
  next
    case False
    then show "fst (client_Review (sv_review plain_server i p) i) = Ok rw \<Longrightarrow> rw = plain_review"
      by (simp add: plain_server_def client_Review_def sample_review_io_def Let_def)
  qed
  moreover have valid: "review_decoded plain_review" using calculation(2) by (simp add: review_decoded_def plain_review_def)
  ultimately have "ValidString (th_ID t)" if "client_StartThread plain_server cwd sb = Ok t \<or> client_ResumeThread plain_server i cwd sb = Ok t" for i cwd sb t
    using that by auto
  moreover have "review_decoded rw" if "fst (client_Review (sv_review plain_server i p) i) = Ok rw" for i p rw
    using review [OF that] valid by simp
  ultimately show ?thesis by (auto simp: decoded_answers_def client_env_def with_client_def plain_env_def)
qed

abbreviation first_round :: round where
  "first_round \<equiv> sample_round [] False (sample_target\<lparr>tg_HistoryRewritten := False\<rparr>)"

definition first_record :: Workflow where
  "first_record = round_done first_round plain_thread plain_review"

lemma first_record_fields:
  "wf_ThreadID first_record = ''t''" "wf_LastReview first_record = ''LGTM''" "wf_LastWarnings first_record = []"
  "wf_LastUsage first_record = None" "wf_History first_record = []" "wf_Round first_record = 1"
  "IsObjectID (wf_LastCommit first_record)" "IsObjectID (wf_LastBase first_record)"
proof -
  have "round_number first_round = 1"
    by (simp add: round_number_def sample_round_def zero_Workflow_def MinInt_def MaxInt_def)
  then show "wf_ThreadID first_record = ''t''" "wf_LastReview first_record = ''LGTM''" "wf_LastWarnings first_record = []"
    "wf_LastUsage first_record = None" "wf_History first_record = []" "wf_Round first_record = 1"
    by (simp_all add: first_record_def round_done_def plain_thread_def plain_review_def usageFrom_def)
  have "IsObjectID (tg_Commit sample_target)" "IsObjectID (tg_Base sample_target)"
    using ValidateTarget_Ok [OF sample_targets(2)] by blast+
  then show "IsObjectID (wf_LastCommit first_record)" "IsObjectID (wf_LastBase first_record)"
    by (simp_all add: first_record_def round_done_def sample_round_def)
qed

lemma first_record_hash: "length (json_string (wf_LastRequestHash first_record)) = 66"
proof -
  have "list_all plain (Hash x)" and "length (Hash x) = 64" for x
    using hex_digest_lower [of "hash_stream (hash_fields x)"] plain_lower_hex by (auto simp: Hash_def list_all_iff)
  then have "length (json_string (Hash x)) = 66" for x by (simp add: length_json_plain)
  then show ?thesis by (simp add: first_record_def round_done_def sample_round_def)
qed

lemma first_record_size: "length (encode_state [(topic_key, first_record)]) \<le> MaxStateFileSize"
proof -
  have lits: "length (json_string topic_key) = 27" "length (json_string ''thread_id'') = 11"
    "length (json_string ''last_commit'') = 13" "length (json_string ''last_base'') = 11"
    "length (json_string ''last_request_hash'') = 19" "length (json_string ''last_review'') = 13"
    "length (json_string ''t'') = 3" "length (json_string ''LGTM'') = 6" "length (Itoa 1) = 1"
    "file_overhead False < 100"
    by code_simp+
  have "workflow_size (topic_key, first_record) \<le> 2000"
    using length_json_object_id [OF first_record_fields(7)] length_json_object_id [OF first_record_fields(8)]
    by (simp add: workflow_size_def length_workflow workflow_members_def member_size_def first_record_fields lits
        first_record_hash omitempty_def usage_member_def history_size_eq length_keys)
  then show ?thesis using lits(10) by (simp add: length_encode_state size_defs)
qed

lemma first_save:
  "\<exists>ev. saveEvictingHistory (en_write client_env tr) (en_ctx client_env tr) historyRecordBytes sample_store
     [(topic_key, first_record)] d = Some ev \<and> ev_err ev = None"
  using first_record_size
  by (simp add: saveEvictingHistory_def save_loop.simps [of _ _ _ _ None] Save_def writeAtomic_def syncDir_def sample_store_def
      client_env_def with_client_def plain_env_def sample_env_def sample_write_def Let_def)

lemma first_completed:
  "\<exists>tr. service_review client_env sample_service (sample_req False) =
     (Some (Ok (round_result first_round first_record)), tr)"
proof -
  let ?start = "sample_begin @ [CStartReviewer [] True]"
  let ?named = "?start @ [CStartThread ''/r'' (round_sandbox None), CSetThreadName ''t'' ''Counterpoint review: r topic'']"
  have name: "threadName ''/r'' ''refs/heads/topic'' = ''Counterpoint review: r topic''"
    by (simp add: threadName_def Base_def TrimRight_def TrimPrefix_def HasPrefix_def)
  note env = client_env_def with_client_def plain_env_def
  have th: "round_thread client_env first_round None ?start = (Ok plain_thread, ?named)"
    using name plain_answers
    by (simp add: round_thread_def start_new_def sample_round_def sample_repo_def sample_target_def round_cwd_def
        env plain_thread_def Let_def)
  obtain tr2 where tu: "round_turn client_env first_round None plain_thread ?named = (Ok plain_review, tr2)"
    using plain_answers by (simp add: round_turn_def env plain_thread_def Let_def)
  have rec: "reconcile [] topic_key zero_Workflow False (round_previous first_round) first_record =
      Some (Ok [(topic_key, first_record)])"
    by (simp add: reconcile_def Put_def)
  obtain tr3 where sv: "saveCompleted client_env sample_service topic_key zero_Workflow False
      (round_previous first_round) first_record tr2 = (Some None, tr3)"
    using first_save [of "tr2 @ [CAcquire (LockPath sample_store) FinalSaveLockWait True, CLoad]"
        "en_disk client_env (tr2 @ [CAcquire (LockPath sample_store) FinalSaveLockWait True, CLoad])"]
      client_env_like rec
    by (auto simp: saveCompleted_def acquireStateLock_def load_state_def sample_like_def sample_service_def Let_def)
  have ses: "round_session client_env sample_service first_round None ?start =
      (Some (Ok (round_result first_round first_record)), tr3)"
    using th tu sv
    by (simp add: round_session_def round_integrity_def first_record_def sample_round_def [of "[]"] Let_def)
  have run: "round_run client_env sample_service first_round sample_begin =
      (Some (Ok (round_result first_round first_record)), tr3 @ [CCloseReviewer])"
    using ses
    by (simp add: round_run_def round_reviewer_def round_args_def sample_round_def [of "[]"] sample_req_def
        env sample_env_def Let_def)
  show ?thesis
    using sample_service_review [OF client_env_like _ _ _ _ run]
    by (simp add: zero_Workflow_def sample_targets sample_target_def)
qed

lemma completed_review_recorded_witness:
  "\<exists>d m w. d sample_path = Some (encode_state m) \<and> Get m topic_key = (w, True) \<and> wf_LastReview w = ''LGTM''"
proof -
  obtain tr where run: "service_review (with_client (\<lambda>tr. plain_server) plain_env) sample_service (sample_req False) =
     (Some (Ok (round_result first_round first_record)), tr)"
    using first_completed by (auto simp: client_env_def)
  have "\<not> res_Replayed (round_result first_round first_record)" by (simp add: round_result_def)
  moreover have "res_Review (round_result first_round first_record) = ''LGTM''"
    by (simp add: round_result_def first_record_fields)
  moreover have "Open (en_git plain_env []) (req_Repo (sample_req False)) = Ok sample_repo"
    "ResolveBranch (en_git plain_env [CGit ''open'']) sample_repo (req_Branch (sample_req False)) =
       Ok (tg_Branch sample_target)"
    by (simp_all add: plain_env_def sample_env_def sample_req_def sample_open sample_resolve)
  moreover have "WorkflowKey (repo_Identity sample_repo) (br_Ref (tg_Branch sample_target)) = topic_key"
    by (simp add: WorkflowKey_def repo_Identity_def sample_repo_def sample_target_def topic_key_def)
  moreover have "sto_path (se_store sample_service) = sample_path"
    by (simp add: sample_service_def sample_store_def)
  ultimately show ?thesis
    using completed_review_recorded [OF plain_save_honest run] by auto
qed

lemma review_returns_witness: "\<exists>r. fst (service_review (sample_env []) sample_service (sample_req False)) = Some r"
proof -
  obtain r tr where run: "service_review (sample_env []) sample_service (sample_req False) = (r, tr)" by fastforce
  show ?thesis using review_returns [OF sample_save_honest run] run by (cases r) simp_all
qed

end
