(* ===== verification/ReplaySpec.thy ===== *)
theory ReplaySpec
  imports ServiceSpec
begin

text \<open>
  Two reviews in sequence: the response of a completed one was lost, and the same request is
  sent again, to this or another Counterpoint process.
\<close>

section \<open>The second request\<close>

text \<open>
  Its environment: the state file as the first review left it (d), system calls and locks
  that succeed, git that answers with the same repository, branch and commits.
\<close>

definition retry_env :: "env \<Rightarrow> service \<Rightarrow> ReviewRequest \<Rightarrow> Repository \<Rightarrow> Branch \<Rightarrow> Result \<Rightarrow> disk \<Rightarrow> bool" where
  "retry_env en s req repo branch res d \<longleftrightarrow>
     en_unmarshal en = Unmarshal_envelope \<and>
     Open (en_git en []) (req_Repo req) = Ok repo \<and> ResolveBranch (en_git en [CGit ''open'']) repo (req_Branch req) = Ok branch \<and>
     (\<forall>tr. rd_open (en_read en tr) = None \<and> rd_read (en_read en tr) = None \<and>
        en_disk en tr (sto_path (se_store s)) = d (sto_path (se_store s)) \<and> (\<forall>p w. en_lock en tr p w = None) \<and>
        (\<exists>tg. ValidateTarget (en_git en tr) repo (req_Branch req) (req_Commit req) (res_Commit res) = Ok tg \<and>
           tg_Commit tg = res_Commit res \<and> tg_Base tg = res_Base res))"

lemma Load_encoded:
  assumes "state_ok m" and "d (sto_path st) = Some (encode_state m)" and "length (encode_state m) \<le> MaxStateFileSize"
    and "rd_open rio = None" and "rd_read rio = None"
  shows "Load Unmarshal_envelope rio st d = (Ok (sort_key fst m), st\<lparr>sto_loaded := True\<rparr>)"
proof -
  have "readBounded rio (sto_path st) MaxStateFileSize d = Ok (encode_state m)"
    using assms by (simp add: readBounded_def Let_def)
  then show ?thesis using Unmarshal_encode [OF assms(1)]
    by (simp add: Load_def Version_def oldestReadableVersion_def)
qed

lemma retry_replays:
  assumes "retry_env en s req repo branch res d" and "validate_request req = None"
    and "state_ok m" and "d (sto_path (se_store s)) = Some (encode_state m)" and "length (encode_state m) \<le> MaxStateFileSize"
    and "map_of m (WorkflowKey (repo_Identity repo) (br_Ref branch)) = Some w" and "check_stored w = None"
    and "wf_LastCommit w = res_Commit res"
    and "wf_LastRequestHash w = Hash \<lparr>rq_Identity = repo_Identity repo, rq_BranchRef = br_Ref branch,
      rq_Commit = res_Commit res, rq_Base = res_Base res, rq_BranchNotes = req_BranchNotes req, rq_Build = req_Build req\<rparr>"
  shows "\<exists>tg tr. service_review en s req = (Some (Ok (replay_result repo branch tg w)), tr) \<and>
    tg_Commit tg = res_Commit res \<and> tg_Base tg = res_Base res \<and>
    list_all (\<lambda>c. c = CLoad \<or> (\<exists>g. c = CGit g) \<or> (\<exists>p t. c = CAcquire p t True) \<or> (\<exists>p. c = CRelease p)) tr"
proof -
  let ?key = "WorkflowKey (repo_Identity repo) (br_Ref branch)"
  let ?tr = "[CGit ''open'', CGit ''branch'', CAcquire (WorkflowLockPath (se_store s) ?key) LockWait True]"
  note env = assms(1) [unfolded retry_env_def]
  have "Load (en_unmarshal en) (en_read en tr) (se_store s) (en_disk en tr) = (Ok (sort_key fst m), (se_store s)\<lparr>sto_loaded := True\<rparr>)" for tr
    using env assms(3-5) Load_encoded by simp
  moreover have "map_of (sort_key fst m) = map_of m"
    using assms(3) by (intro map_of_inject_set [THEN iffD2]) (simp_all add: state_ok_def distinct_map inj_on_def)
  then have "Get (sort_key fst m) ?key = (w, True)" using assms(6) by (simp add: Get_def)
  ultimately have "loadWorkflow en s ?key ?tr = (Ok (w, True), ?tr @ [CAcquire (LockPath (se_store s)) LockWait True, CLoad, CRelease (LockPath (se_store s))])"
    using env by (simp add: loadWorkflow_def acquireStateLock_def load_state_def Let_def)
  moreover obtain tg where tg: "ValidateTarget (en_git en (?tr @ [CAcquire (LockPath (se_store s)) LockWait True, CLoad, CRelease (LockPath (se_store s))]))
      repo (req_Branch req) (req_Commit req) (wf_LastCommit w) = Ok tg" "tg_Commit tg = res_Commit res" "tg_Base tg = res_Base res"
    using env assms(8) by metis
  ultimately have "review_locked en s req repo branch ?key ?tr = (Some (Ok (replay_result repo branch tg w)),
      ?tr @ [CAcquire (LockPath (se_store s)) LockWait True, CLoad, CRelease (LockPath (se_store s)), CGit ''target''])"
    using assms(7,9) by (simp add: review_locked_def review_target_def replay_def request_ident_def Let_def)
  then show ?thesis using env assms(2) tg(2,3)
    by (intro exI [of _ tg]) (simp add: service_review_def Let_def)
qed


text \<open>The next process: the same environment with the file the first review left.\<close>

definition next_env :: "disk \<Rightarrow> env" where
  "next_env d = plain_env\<lparr>en_disk := (\<lambda>tr. d)\<rparr>"


end
