(* ===== verification/Conn.thy ===== *)
theory Conn
  imports Wire Text JsonDecode "HOL-Library.Multiset"
begin

text \<open>
  internal/appserver/conn.go: the connection to the app-server child. Three kinds of
  goroutines share one conn: the reader of the child's stdout, the writer of its stdin, and
  the callers (call, notify, and the owner's close). The state is the fields of conn with its
  channels as values; what a goroutine still has to do without choosing is a list of actions,
  each one section under the mutex or one operation on a channel, a flag or the process, so
  any interleaving of them is a run. What the goroutines wait for from outside (the next line
  of the scanner, the result of a write, a context, the child's exit) is an event. Decoding and encoding messages is a parameter, the record world;
  Protocol instantiates it with encoding/json on the protocol's types.
\<close>

section \<open>Messages\<close>

definition MaxMessageSize :: nat where
  [size_defs]: "MaxMessageSize = 16777216"

definition outboxSize :: nat where
  [size_defs]: "outboxSize = 64"

text \<open>
  The raw members of a message are the text of their values, empty when they are absent. The
  id is any value; the id of a response is what json.Unmarshal reads from it into an int64.
\<close>

definition id_value :: "string \<Rightarrow> int option" where
  "id_value raw = (case parse_json raw of None \<Rightarrow> None | Some v \<Rightarrow> dec_int 0 v)"

record envl =
  ev_ID :: string
  ev_Method :: string
  ev_Params :: string
  ev_Result :: string
  ev_Error :: "(int \<times> string) option"

text \<open>What is sent, with the parameters as the JSON their Go value marshals to.\<close>

datatype outmsg = OutRequest int string json | OutNotification string "json option" | OutReply string reply

text \<open>
  encoding/json, as the connection uses it: decoding a line into an envelope, the item and
  turn id of a server request's parameters, encoding a message, and decoding a result into
  what the caller of the method expects (None is success, and a caller that discards it).
\<close>

record world =
  wo_line :: "string \<Rightarrow> envl option"
  wo_ids :: "string \<Rightarrow> string \<times> string"
  wo_marshal :: "outmsg \<Rightarrow> string res"
  wo_result :: "string \<Rightarrow> string \<Rightarrow> goerror option"

definition encodeLine :: "world \<Rightarrow> outmsg \<Rightarrow> string res" where
  "encodeLine E msg =
     (case wo_marshal E msg of
        Inl e \<Rightarrow> Err (Errorf ''encode message'' [e])
      | Inr data \<Rightarrow>
          (if length data + 1 > MaxMessageSize then Err (Sentinel (S_conn ErrMessageTooLarge))
           else Ok (data @ [CHR 0x0A])))"

section \<open>The connection\<close>

text \<open>
  The calls are numbered in the order of nextID.Add, and a call's channel (capacity one) is
  named by that number: its buffer and whether it is closed. A handler is its number, with
  the notifications it has been called with.
\<close>

record conn =
  co_nextID :: nat
  co_pending :: "(int \<times> nat) list"
  co_chan :: "nat \<Rightarrow> envl list \<times> bool"
  co_nextHnd :: int
  co_handlers :: "int list"
  co_heard :: "int \<Rightarrow> (string \<times> string) list"
  co_warnings :: warning_log
  co_exitErr :: "goerror option"
  co_outbox :: "string list"
  co_stopWriter :: bool
  co_writerDone :: bool
  co_closed :: bool
  co_waitDone :: bool
  co_killed :: bool
  co_stdinClosed :: bool
  co_exited :: bool
  co_reaped :: bool

definition new_conn :: conn where
  "new_conn =
     \<lparr>co_nextID = 0, co_pending = [], co_chan = (\<lambda>k. ([], False)), co_nextHnd = 0, co_handlers = [],
      co_heard = (\<lambda>h. []), co_warnings = no_warnings, co_exitErr = None, co_outbox = [],
      co_stopWriter = False, co_writerDone = False, co_closed = False, co_waitDone = False,
      co_killed = False, co_stdinClosed = False, co_exited = False, co_reaped = False\<rparr>"

text \<open>The int64 that the k-th Add of nextID returns.\<close>

definition wire_id :: "nat \<Rightarrow> int" where
  "wire_id k = go_int (int k + 1)"

definition closedErr :: "conn \<Rightarrow> goerror" where
  "closedErr c = (case co_exitErr c of Some e \<Rightarrow> e | None \<Rightarrow> Sentinel (S_conn ErrClosed))"

definition record_exit :: "goerror \<Rightarrow> conn \<Rightarrow> conn" where
  "record_exit err c = c\<lparr>co_exitErr := (case co_exitErr c of None \<Rightarrow> Some err | Some e \<Rightarrow> Some e)\<rparr>"

section \<open>Actions\<close>

datatype action =
    RecordExit goerror
  | TakePending goerror
  | CloseChan nat
  | SendChan nat envl
  | Lookup int envl
  | Snapshot string string
  | CallHandler int string string
  | AnswerRequest envl
  | SendFromReader outmsg
  | CloseClosed
  | CloseStop
  | Kill
  | CloseWriterDone
  | ProcessWait
  | CloseWaitDone
  | CloseStdin
  | GraceWait
  | AwaitWaitDone
  | AwaitWriterDone

definition terminate :: "goerror \<Rightarrow> action list" where
  "terminate err = [RecordExit err, CloseStop, Kill]"

definition shutdown :: "goerror \<Rightarrow> action list" where
  "shutdown err = [TakePending err, CloseClosed, CloseStop]"

definition dispatch :: "envl \<Rightarrow> action list" where
  "dispatch env =
     (if ev_Method env \<noteq> [] \<and> ev_ID env \<noteq> [] then [AnswerRequest env]
      else if ev_Method env \<noteq> [] then [Snapshot (ev_Method env) (ev_Params env)]
      else if ev_ID env \<noteq> [] then
        (case id_value (ev_ID env) of None \<Rightarrow> [] | Some i \<Rightarrow> [Lookup i env])
      else [])"

definition sendFromReader :: "world \<Rightarrow> outmsg \<Rightarrow> conn \<Rightarrow> conn \<times> action list" where
  "sendFromReader E msg c =
     (case encodeLine E msg of
        Inl e \<Rightarrow> (c, terminate (Errorf ''encode response to server request'' [e]))
      | Inr data \<Rightarrow>
          (if length (co_outbox c) < outboxSize then (c\<lparr>co_outbox := co_outbox c @ [data]\<rparr>, [])
           else (c, terminate (Sentinel (S_conn ErrWriteBacklog)))))"

text \<open>
  An action panics, waits, or is done: then it leaves the connection and what its goroutine
  has to do next because of it. A send on a closed channel and a second close panic; a send
  on a full channel waits.
\<close>

datatype 'a outcome = Panic | Waits | Goes 'a

definition answer :: "world \<Rightarrow> envl \<Rightarrow> conn \<Rightarrow> conn \<times> action list" where
  "answer E env c =
     (let (itemID, turnID) = wo_ids E (ev_Params env);
          (r, wl) = handleServerRequest (ev_Method env) itemID turnID (co_warnings c)
      in (c\<lparr>co_warnings := wl\<rparr>, [SendFromReader (OutReply (ev_ID env) r)]))"

definition lookup_pending :: "int \<Rightarrow> envl \<Rightarrow> conn \<Rightarrow> conn \<times> action list" where
  "lookup_pending i env c =
     (c\<lparr>co_pending := AList.delete i (co_pending c)\<rparr>,
      case map_of (co_pending c) i of None \<Rightarrow> [] | Some k \<Rightarrow> [SendChan k env])"

definition close_once :: "bool \<Rightarrow> conn \<Rightarrow> (conn \<times> action list) outcome" where
  "close_once already c = (if already then Panic else Goes (c, []))"

definition await :: "bool \<Rightarrow> conn \<Rightarrow> (conn \<times> action list) outcome" where
  "await ready c = (if ready then Goes (c, []) else Waits)"

fun act :: "world \<Rightarrow> action \<Rightarrow> conn \<Rightarrow> (conn \<times> action list) outcome" where
  "act E (RecordExit err) c = Goes (record_exit err c, [])"
| "act E (TakePending err) c =
     Goes ((record_exit err c)\<lparr>co_pending := []\<rparr>, map (\<lambda>p. CloseChan (snd p)) (co_pending c))"
| "act E (CloseChan k) c =
     close_once (snd (co_chan c k)) (c\<lparr>co_chan := (co_chan c)(k := (fst (co_chan c k), True))\<rparr>)"
| "act E (SendChan k env) c =
     (if snd (co_chan c k) then Panic
      else if fst (co_chan c k) \<noteq> [] then Waits
      else Goes (c\<lparr>co_chan := (co_chan c)(k := ([env], False))\<rparr>, []))"
| "act E (Lookup i env) c = Goes (lookup_pending i env c)"
| "act E (Snapshot m p) c = Goes (c, map (\<lambda>h. CallHandler h m p) (co_handlers c))"
| "act E (CallHandler h m p) c = Goes (c\<lparr>co_heard := (co_heard c)(h := co_heard c h @ [(m, p)])\<rparr>, [])"
| "act E (AnswerRequest env) c = Goes (answer E env c)"
| "act E (SendFromReader msg) c = Goes (sendFromReader E msg c)"
| "act E CloseClosed c = close_once (co_closed c) (c\<lparr>co_closed := True\<rparr>)"
| "act E CloseStop c = Goes (c\<lparr>co_stopWriter := True\<rparr>, [])"
| "act E Kill c = Goes (c\<lparr>co_killed := True\<rparr>, [])"
| "act E CloseWriterDone c = close_once (co_writerDone c) (c\<lparr>co_writerDone := True\<rparr>)"
| "act E ProcessWait c = await (co_exited c) (c\<lparr>co_reaped := True\<rparr>)"
| "act E CloseWaitDone c = close_once (co_waitDone c) (c\<lparr>co_waitDone := True\<rparr>)"
| "act E CloseStdin c = Goes (c\<lparr>co_stdinClosed := True\<rparr>, [])"
| "act E GraceWait c = await (co_waitDone c) c"
| "act E AwaitWaitDone c = await (co_waitDone c) c"
| "act E AwaitWriterDone c = await (co_writerDone c) c"

section \<open>The goroutines\<close>

datatype reader = Scanning "action list" | Ending "action list"

datatype writer = Looping | Writing string | Stopping "action list"

text \<open>send: its message, the first select, the second, the read of closedErr, its result.\<close>

datatype sendpc = SendEncode outmsg | SendCheck string | SendSelect string | SendClosed | SendResult "goerror option"

datatype callpc =
    CallIdle
  | CallRegister string json
  | CallSending string sendpc
  | CallWaiting string
  | CallClosed string
  | CallDrop string goerror
  | CallDone "string res"

datatype notepc = NoteIdle | NoteSending string sendpc | NoteDone "goerror option"

datatype closer = NotClosing | ClosingActs "action list"

record sys =
  sy_conn :: conn
  sy_reader :: reader
  sy_writer :: writer
  sy_calls :: "nat \<Rightarrow> callpc"
  sy_ctx :: "nat \<Rightarrow> goerror option"
  sy_notes :: "nat \<Rightarrow> notepc"
  sy_notectx :: "nat \<Rightarrow> goerror option"
  sy_closer :: closer
  sy_read :: "envl list"
  sy_written :: "string list"

definition spawned :: sys where
  "spawned =
     \<lparr>sy_conn = new_conn, sy_reader = Scanning [], sy_writer = Looping, sy_calls = (\<lambda>k. CallIdle),
      sy_ctx = (\<lambda>k. None), sy_notes = (\<lambda>n. NoteIdle), sy_notectx = (\<lambda>n. None), sy_closer = NotClosing,
      sy_read = [], sy_written = []\<rparr>"

subsection \<open>The reader\<close>

text \<open>What bufio.Scanner gives: a line within the buffer, or why there are no more.\<close>

datatype scan = ScanLine string | ScanEOF | ScanTooLong | ScanError goerror

definition scan_err :: "scan \<Rightarrow> goerror" where
  "scan_err s =
     (case s of
        ScanError e \<Rightarrow> Errorf ''read app-server stdout'' [e]
      | ScanTooLong \<Rightarrow> Sentinel (S_conn ErrMessageTooLarge)
      | _ \<Rightarrow> Sentinel (S_conn ErrProcessExited))"

definition end_of_read :: "goerror \<Rightarrow> action list" where
  "end_of_read err =
     shutdown err @ (if errors_Is err (S_conn ErrProcessExited) then [] else [Kill]) @
     [ProcessWait, CloseWaitDone]"

definition read_line :: "world \<Rightarrow> string \<Rightarrow> sys \<Rightarrow> sys" where
  "read_line E line s =
     (if TrimSpace line = [] then s
      else
        (case wo_line E line of
           None \<Rightarrow> s
         | Some env \<Rightarrow> s\<lparr>sy_reader := Scanning (dispatch env), sy_read := sy_read s @ [env]\<rparr>))"

definition reader_scan :: "world \<Rightarrow> scan \<Rightarrow> sys \<Rightarrow> sys option" where
  "reader_scan E sc s =
     (if sy_reader s \<noteq> Scanning [] then None
      else
        (case sc of
           ScanLine line \<Rightarrow> if length line < MaxMessageSize then Some (read_line E line s) else None
         | _ \<Rightarrow> Some (s\<lparr>sy_reader := Ending (end_of_read (scan_err sc))\<rparr>)))"

text \<open>One action of a goroutine: None when there is none or when it waits; it must not panic.\<close>

definition run_action :: "world \<Rightarrow> action list \<Rightarrow> conn \<Rightarrow> (conn \<times> action list) option" where
  "run_action E as c =
     (case as of
        [] \<Rightarrow> None
      | a # rest \<Rightarrow> (case act E a c of Goes (c', new) \<Rightarrow> Some (c', new @ rest) | _ \<Rightarrow> None))"

definition reader_go :: "world \<Rightarrow> sys \<Rightarrow> sys option" where
  "reader_go E s =
     (case sy_reader s of
        Scanning as \<Rightarrow>
          map_option (\<lambda>(c, as'). s\<lparr>sy_conn := c, sy_reader := Scanning as'\<rparr>) (run_action E as (sy_conn s))
      | Ending as \<Rightarrow>
          map_option (\<lambda>(c, as'). s\<lparr>sy_conn := c, sy_reader := Ending as'\<rparr>) (run_action E as (sy_conn s)))"

subsection \<open>The writer\<close>

definition writer_take :: "sys \<Rightarrow> sys option" where
  "writer_take s =
     (case (sy_writer s, co_outbox (sy_conn s)) of
        (Looping, data # rest) \<Rightarrow>
          Some (s\<lparr>sy_writer := Writing data, sy_conn := (sy_conn s)\<lparr>co_outbox := rest\<rparr>\<rparr>)
      | _ \<Rightarrow> None)"

definition writer_stop :: "sys \<Rightarrow> sys option" where
  "writer_stop s =
     (if sy_writer s = Looping \<and> co_stopWriter (sy_conn s)
      then Some (s\<lparr>sy_writer := Stopping [CloseWriterDone]\<rparr>) else None)"

definition writer_wrote :: "goerror option \<Rightarrow> sys \<Rightarrow> sys option" where
  "writer_wrote r s =
     (case sy_writer s of
        Writing data \<Rightarrow>
          (case r of
             None \<Rightarrow> Some (s\<lparr>sy_writer := Looping, sy_written := sy_written s @ [data]\<rparr>)
           | Some e \<Rightarrow>
               Some (s\<lparr>sy_writer := Stopping (terminate (Errorf ''write to app-server'' [e]) @ [CloseWriterDone])\<rparr>))
      | _ \<Rightarrow> None)"

definition writer_go :: "world \<Rightarrow> sys \<Rightarrow> sys option" where
  "writer_go E s =
     (case sy_writer s of
        Stopping as \<Rightarrow>
          map_option (\<lambda>(c, as'). s\<lparr>sy_conn := c, sy_writer := Stopping as'\<rparr>) (run_action E as (sy_conn s))
      | _ \<Rightarrow> None)"

subsection \<open>send, call and notify\<close>

text \<open>The ready branch a select takes, when there are several.\<close>

datatype branch = OnChannel | OnContext | OnClosed

definition is_down :: "conn \<Rightarrow> bool" where
  "is_down c \<longleftrightarrow> co_closed c \<or> co_writerDone c"

definition send :: "world \<Rightarrow> goerror option \<Rightarrow> branch \<Rightarrow> sendpc \<Rightarrow> conn \<Rightarrow> (conn \<times> sendpc) option" where
  "send E ctx br pc c =
     (case pc of
        SendEncode msg \<Rightarrow>
          (case encodeLine E msg of
             Inl e \<Rightarrow> Some (c, SendResult (Some e))
           | Inr data \<Rightarrow> Some (c, SendCheck data))
      | SendCheck data \<Rightarrow> if is_down c then Some (c, SendClosed) else Some (c, SendSelect data)
      | SendSelect data \<Rightarrow>
          (case br of
             OnChannel \<Rightarrow>
               if length (co_outbox c) < outboxSize
               then Some (c\<lparr>co_outbox := co_outbox c @ [data]\<rparr>, SendResult None) else None
           | OnContext \<Rightarrow> (case ctx of None \<Rightarrow> None | Some e \<Rightarrow> Some (c, SendResult (Some e)))
           | OnClosed \<Rightarrow> if is_down c then Some (c, SendClosed) else None)
      | SendClosed \<Rightarrow> Some (c, SendResult (Some (closedErr c)))
      | SendResult r \<Rightarrow> None)"

definition call_result :: "world \<Rightarrow> string \<Rightarrow> envl \<Rightarrow> string res" where
  "call_result E meth env =
     (case ev_Error env of
        Some (code, msg) \<Rightarrow> Err (Errorf meth [ServerError code msg])
      | None \<Rightarrow>
          (if ev_Result env = [] then Ok []
           else
             (case wo_result E meth (ev_Result env) of
                Some e \<Rightarrow> Err (Errorf meth [Errorf ''decode result'' [e]])
              | None \<Rightarrow> Ok (ev_Result env))))"

definition call_start :: "string \<Rightarrow> json \<Rightarrow> sys \<Rightarrow> sys" where
  "call_start meth params s =
     s\<lparr>sy_calls := (sy_calls s)(co_nextID (sy_conn s) := CallRegister meth params),
       sy_conn := (sy_conn s)\<lparr>co_nextID := Suc (co_nextID (sy_conn s))\<rparr>\<rparr>"

definition call_wait :: "world \<Rightarrow> goerror option \<Rightarrow> branch \<Rightarrow> nat \<Rightarrow> string \<Rightarrow> conn \<Rightarrow> (conn \<times> callpc) option" where
  "call_wait E ctx br k meth c =
     (case br of
        OnChannel \<Rightarrow>
          (case co_chan c k of
             (env # es, cl) \<Rightarrow> Some (c\<lparr>co_chan := (co_chan c)(k := (es, cl))\<rparr>, CallDone (call_result E meth env))
           | ([], True) \<Rightarrow> Some (c, CallClosed meth)
           | ([], False) \<Rightarrow> None)
      | OnContext \<Rightarrow> (case ctx of None \<Rightarrow> None | Some e \<Rightarrow> Some (c, CallDrop meth e))
      | OnClosed \<Rightarrow> if co_closed c then Some (c, CallClosed meth) else None)"

definition call :: "world \<Rightarrow> goerror option \<Rightarrow> branch \<Rightarrow> nat \<Rightarrow> callpc \<Rightarrow> conn \<Rightarrow> (conn \<times> callpc) option" where
  "call E ctx br k pc c =
     (case pc of
        CallIdle \<Rightarrow> None
      | CallRegister meth params \<Rightarrow>
          Some (c\<lparr>co_pending := map_put (wire_id k) k (co_pending c)\<rparr>,
                CallSending meth (SendEncode (OutRequest (wire_id k) meth params)))
      | CallSending meth (SendResult None) \<Rightarrow> Some (c, CallWaiting meth)
      | CallSending meth (SendResult (Some e)) \<Rightarrow> Some (c, CallDrop meth e)
      | CallSending meth sp \<Rightarrow> map_option (\<lambda>(c', sp'). (c', CallSending meth sp')) (send E ctx br sp c)
      | CallWaiting meth \<Rightarrow> call_wait E ctx br k meth c
      | CallClosed meth \<Rightarrow> Some (c, CallDone (Err (Errorf meth [closedErr c])))
      | CallDrop meth e \<Rightarrow>
          Some (c\<lparr>co_pending := AList.delete (wire_id k) (co_pending c)\<rparr>, CallDone (Err (Errorf meth [e])))
      | CallDone r \<Rightarrow> None)"

definition call_go :: "world \<Rightarrow> nat \<Rightarrow> branch \<Rightarrow> sys \<Rightarrow> sys option" where
  "call_go E k br s =
     map_option (\<lambda>(c, pc). s\<lparr>sy_conn := c, sy_calls := (sy_calls s)(k := pc)\<rparr>)
       (call E (sy_ctx s k) br k (sy_calls s k) (sy_conn s))"

definition notify :: "world \<Rightarrow> goerror option \<Rightarrow> branch \<Rightarrow> notepc \<Rightarrow> conn \<Rightarrow> (conn \<times> notepc) option" where
  "notify E ctx br pc c =
     (case pc of
        NoteSending meth (SendResult r) \<Rightarrow> Some (c, NoteDone (map_option (\<lambda>e. Errorf meth [e]) r))
      | NoteSending meth sp \<Rightarrow> map_option (\<lambda>(c', sp'). (c', NoteSending meth sp')) (send E ctx br sp c)
      | _ \<Rightarrow> None)"

definition note_start :: "nat \<Rightarrow> string \<Rightarrow> json option \<Rightarrow> sys \<Rightarrow> sys option" where
  "note_start n meth params s =
     (if sy_notes s n = NoteIdle
      then Some (s\<lparr>sy_notes := (sy_notes s)(n := NoteSending meth (SendEncode (OutNotification meth params)))\<rparr>)
      else None)"

definition note_go :: "world \<Rightarrow> nat \<Rightarrow> branch \<Rightarrow> sys \<Rightarrow> sys option" where
  "note_go E n br s =
     map_option (\<lambda>(c, pc). s\<lparr>sy_conn := c, sy_notes := (sy_notes s)(n := pc)\<rparr>)
       (notify E (sy_notectx s n) br (sy_notes s n) (sy_conn s))"

subsection \<open>The owner: subscribe, the warnings and close\<close>

definition subscribe :: "conn \<Rightarrow> conn \<times> int" where
  "subscribe c =
     (let i = go_int (co_nextHnd c + 1)
      in (c\<lparr>co_nextHnd := i, co_handlers := List.insert i (co_handlers c)\<rparr>, i))"

definition unsubscribe :: "int \<Rightarrow> conn \<Rightarrow> conn" where
  "unsubscribe i c = c\<lparr>co_handlers := removeAll i (co_handlers c)\<rparr>"

definition conn_close :: "action list" where
  "conn_close = [CloseStop, CloseStdin, GraceWait, AwaitWriterDone]"

definition close_start :: "sys \<Rightarrow> sys option" where
  "close_start s =
     (case sy_closer s of
        NotClosing \<Rightarrow> Some (s\<lparr>sy_closer := ClosingActs conn_close\<rparr>)
      | ClosingActs as \<Rightarrow> None)"

definition closer_go :: "world \<Rightarrow> sys \<Rightarrow> sys option" where
  "closer_go E s =
     (case sy_closer s of
        NotClosing \<Rightarrow> None
      | ClosingActs as \<Rightarrow>
          map_option (\<lambda>(c, as'). s\<lparr>sy_conn := c, sy_closer := ClosingActs as'\<rparr>) (run_action E as (sy_conn s)))"

text \<open>The timer of closeGrace fires: the child is killed, and then waited for.\<close>

definition closer_timeout :: "sys \<Rightarrow> sys option" where
  "closer_timeout s =
     (case sy_closer s of
        ClosingActs (GraceWait # rest) \<Rightarrow> Some (s\<lparr>sy_closer := ClosingActs (Kill # AwaitWaitDone # rest)\<rparr>)
      | _ \<Rightarrow> None)"

section \<open>The system\<close>

datatype event =
    Scanned scan | ReaderGo
  | WriterTake | WriterStop | Wrote "goerror option" | WriterGo
  | CallStart string json | CallGo nat branch | CtxEnd nat goerror
  | NoteStart nat string "json option" | NoteGo nat branch | NoteCtxEnd nat goerror
  | Subscribe | Unsubscribe int | BridgeWarning string | TakeWarnings
  | CloseStart | CloserGo | GraceOver | ChildExit
  | MapOrder "(int \<times> nat) list" "int list"

text \<open>
  ctx.Done fires once, with the context's error. MapOrder lets the two maps be ranged over
  in any order.
\<close>

definition ctx_error :: "goerror \<Rightarrow> bool" where
  "ctx_error e \<longleftrightarrow> e = Sentinel (S_std Canceled) \<or> e = Sentinel (S_std DeadlineExceeded)"

definition on_conn :: "(conn \<Rightarrow> conn) \<Rightarrow> sys \<Rightarrow> sys" where
  "on_conn f s = s\<lparr>sy_conn := f (sy_conn s)\<rparr>"

fun step :: "world \<Rightarrow> event \<Rightarrow> sys \<Rightarrow> sys option" where
  "step E (Scanned sc) s = reader_scan E sc s"
| "step E ReaderGo s = reader_go E s"
| "step E WriterTake s = writer_take s"
| "step E WriterStop s = writer_stop s"
| "step E (Wrote r) s = writer_wrote r s"
| "step E WriterGo s = writer_go E s"
| "step E (CallStart meth params) s = Some (call_start meth params s)"
| "step E (CallGo k br) s = call_go E k br s"
| "step E (CtxEnd k e) s =
     (if sy_ctx s k = None \<and> ctx_error e then Some (s\<lparr>sy_ctx := (sy_ctx s)(k := Some e)\<rparr>) else None)"
| "step E (NoteStart n meth params) s = note_start n meth params s"
| "step E (NoteGo n br) s = note_go E n br s"
| "step E (NoteCtxEnd n e) s =
     (if sy_notectx s n = None \<and> ctx_error e then Some (s\<lparr>sy_notectx := (sy_notectx s)(n := Some e)\<rparr>) else None)"
| "step E Subscribe s = Some (on_conn (fst \<circ> subscribe) s)"
| "step E (Unsubscribe i) s = Some (on_conn (unsubscribe i) s)"
| "step E (BridgeWarning w) s = Some (on_conn (\<lambda>c. c\<lparr>co_warnings := recordWarning w (co_warnings c)\<rparr>) s)"
| "step E TakeWarnings s = Some (on_conn (\<lambda>c. c\<lparr>co_warnings := snd (takeWarnings (co_warnings c))\<rparr>) s)"
| "step E CloseStart s = close_start s"
| "step E CloserGo s = closer_go E s"
| "step E GraceOver s = closer_timeout s"
| "step E ChildExit s = Some (on_conn (\<lambda>c. c\<lparr>co_exited := True\<rparr>) s)"
| "step E (MapOrder ps hs) s =
     (if mset ps = mset (co_pending (sy_conn s)) \<and> mset hs = mset (co_handlers (sy_conn s))
      then Some (on_conn (\<lambda>c. c\<lparr>co_pending := ps, co_handlers := hs\<rparr>) s) else None)"

fun run :: "world \<Rightarrow> event list \<Rightarrow> sys \<Rightarrow> sys option" where
  "run E [] s = Some s"
| "run E (ev # evs) s = (case step E ev s of None \<Rightarrow> None | Some t \<Rightarrow> run E evs t)"

inductive reachable :: "world \<Rightarrow> sys \<Rightarrow> bool" for E :: world where
  start: "reachable E spawned"
| moved: "reachable E s \<Longrightarrow> step E ev s = Some t \<Longrightarrow> reachable E t"

lemma reachable_run: "reachable E s \<Longrightarrow> run E evs s = Some t \<Longrightarrow> reachable E t"
  by (induction evs arbitrary: s) (auto split: option.splits intro: reachable.moved)

end
