(* ===== verification/ConnInv.thy ===== *)
theory ConnInv
  imports Conn
begin

text \<open>
  Invariants of the connection, each kept by every step of every goroutine: the channels the
  reader is going to use are open, empty and pairwise distinct; the flags of the goroutines
  that end are set in their order; and no flag is set before there is a reason for it.
\<close>

section \<open>One action of a goroutine\<close>

definition todo_of :: "reader \<Rightarrow> action list" where
  "todo_of r = (case r of Scanning as \<Rightarrow> as | Ending as \<Rightarrow> as)"

lemma todo_of_simps [simp]: "todo_of (Scanning as) = as" "todo_of (Ending as) = as"
  by (simp_all add: todo_of_def)

lemma run_action_Some:
  "run_action E as c = Some (c', as') \<longleftrightarrow>
     (\<exists>a rest new. as = a # rest \<and> act E a c = Goes (c', new) \<and> as' = new @ rest)"
  by (auto simp: run_action_def split: list.splits outcome.splits)

lemma close_once_Goes [simp]: "close_once b c = Goes x \<longleftrightarrow> \<not> b \<and> x = (c, [])"
  by (auto simp: close_once_def)

lemma close_once_Panic [simp]: "close_once b c = Panic \<longleftrightarrow> b"
  by (simp add: close_once_def)

lemma close_once_Waits [simp]: "close_once b c \<noteq> Waits"
  by (simp add: close_once_def)

lemma await_simps [simp]: "await b c = Goes x \<longleftrightarrow> b \<and> x = (c, [])" "await b c = Waits \<longleftrightarrow> \<not> b" "await b c \<noteq> Panic"
  by (auto simp: await_def)

text \<open>What the goroutines other than the reader run.\<close>

fun writer_act :: "action \<Rightarrow> bool" where
  "writer_act (RecordExit e) = True"
| "writer_act CloseStop = True"
| "writer_act Kill = True"
| "writer_act CloseWriterDone = True"
| "writer_act a = False"

fun closer_act :: "action \<Rightarrow> bool" where
  "closer_act CloseStop = True"
| "closer_act CloseStdin = True"
| "closer_act Kill = True"
| "closer_act GraceWait = True"
| "closer_act AwaitWaitDone = True"
| "closer_act AwaitWriterDone = True"
| "closer_act a = False"

text \<open>They touch none of the tables, and leave nothing more to do.\<close>

lemma writer_act_Goes:
  "act E a c = Goes (c', new) \<Longrightarrow> writer_act a \<Longrightarrow>
     new = [] \<and> co_nextID c' = co_nextID c \<and> co_pending c' = co_pending c \<and> co_chan c' = co_chan c \<and>
     co_outbox c' = co_outbox c \<and> co_closed c' = co_closed c \<and> co_waitDone c' = co_waitDone c \<and>
     co_reaped c' = co_reaped c"
  by (cases a) (auto simp: record_exit_def)

lemma closer_act_Goes:
  "act E a c = Goes (c', new) \<Longrightarrow> closer_act a \<Longrightarrow>
     new = [] \<and> co_nextID c' = co_nextID c \<and> co_pending c' = co_pending c \<and> co_chan c' = co_chan c \<and>
     co_outbox c' = co_outbox c \<and> co_closed c' = co_closed c \<and> co_waitDone c' = co_waitDone c \<and>
     co_reaped c' = co_reaped c \<and> co_writerDone c' = co_writerDone c \<and> co_exitErr c' = co_exitErr c"
  by (cases a) auto

definition writer_todo :: "writer \<Rightarrow> action list" where
  "writer_todo w = (case w of Stopping as \<Rightarrow> as | _ \<Rightarrow> [])"

definition closer_todo :: "closer \<Rightarrow> action list" where
  "closer_todo cl = (case cl of ClosingActs as \<Rightarrow> as | NotClosing \<Rightarrow> [])"

lemma todo_simps [simp]:
  "writer_todo (Stopping as) = as" "writer_todo Looping = []" "writer_todo (Writing l) = []"
  "closer_todo (ClosingActs bs) = bs" "closer_todo NotClosing = []"
  by (simp_all add: writer_todo_def closer_todo_def)

lemmas move_defs = reader_scan_def read_line_def reader_go_def writer_take_def writer_stop_def writer_wrote_def
  writer_go_def call_start_def call_go_def note_start_def note_go_def close_start_def closer_go_def
  closer_timeout_def on_conn_def Let_def subscribe_def unsubscribe_def run_action_Some

definition kinds_ok :: "sys \<Rightarrow> bool" where
  "kinds_ok s \<longleftrightarrow> list_all writer_act (writer_todo (sy_writer s)) \<and> list_all closer_act (closer_todo (sy_closer s))"

lemma writer_go_todo:
  assumes "writer_go E s = Some t" and "kinds_ok s"
  shows "\<exists>a rest c'. sy_writer s = Stopping (a # rest) \<and> writer_act a \<and> act E a (sy_conn s) = Goes (c', []) \<and>
    t = s\<lparr>sy_conn := c', sy_writer := Stopping rest\<rparr>"
  using assms writer_act_Goes by (fastforce simp: writer_go_def run_action_Some kinds_ok_def split: writer.splits)

lemma closer_go_todo:
  assumes "closer_go E s = Some t" and "kinds_ok s"
  shows "\<exists>a rest c'. sy_closer s = ClosingActs (a # rest) \<and> closer_act a \<and> act E a (sy_conn s) = Goes (c', []) \<and>
    t = s\<lparr>sy_conn := c', sy_closer := ClosingActs rest\<rparr>"
  using assms closer_act_Goes by (fastforce simp: closer_go_def run_action_Some kinds_ok_def split: closer.splits)

lemma kinds_ok_step: "step E ev s = Some t \<Longrightarrow> kinds_ok s \<Longrightarrow> kinds_ok t"
proof (cases ev)
  case WriterGo
  moreover assume "step E ev s = Some t" "kinds_ok s"
  ultimately show ?thesis using writer_go_todo [of E s t] by (auto simp: kinds_ok_def)
next
  case CloserGo
  moreover assume "step E ev s = Some t" "kinds_ok s"
  ultimately show ?thesis using closer_go_todo [of E s t] by (auto simp: kinds_ok_def)
qed (auto simp: kinds_ok_def move_defs terminate_def conn_close_def split: if_splits scan.splits option.splits
      reader.splits writer.splits closer.splits list.splits action.splits)

lemma kinds_ok_reachable: "reachable E s \<Longrightarrow> kinds_ok s"
proof (induction rule: reachable.induct)
  case start
  show ?case by (simp add: kinds_ok_def spawned_def)
next
  case (moved s ev t)
  then show ?case by (blast intro: kinds_ok_step)
qed

section \<open>The table of pending calls\<close>

fun target :: "action \<Rightarrow> nat list" where
  "target (CloseChan k) = [k]"
| "target (SendChan k env) = [k]"
| "target a = []"

definition targets :: "action list \<Rightarrow> nat list" where
  "targets as = concat (map target as)"

lemma targets_simps [simp]:
  "targets [] = []" "targets (a # as) = target a @ targets as" "targets (as @ bs) = targets as @ targets bs"
  "targets (map (\<lambda>p. CloseChan (f p)) ps) = map f ps" "targets (map (\<lambda>h. CallHandler h m q) hs) = []"
proof -
  show "targets (map (\<lambda>p. CloseChan (f p)) ps) = map f ps" by (induction ps) (simp_all add: targets_def)
  show "targets (map (\<lambda>h. CallHandler h m q) hs) = []" by (induction hs) (simp_all add: targets_def)
qed (simp_all add: targets_def)

text \<open>The channels the reader is going to use: those of the table and those it has taken out of it.\<close>

definition live :: "sys \<Rightarrow> nat list" where
  "live s = map snd (co_pending (sy_conn s)) @ targets (todo_of (sy_reader s))"

fun unregistered :: "callpc \<Rightarrow> bool" where
  "unregistered CallIdle = True"
| "unregistered (CallRegister m p) = True"
| "unregistered pc = False"

definition chans_ok :: "sys \<Rightarrow> bool" where
  "chans_ok s \<longleftrightarrow> distinct (live s) \<and>
     (\<forall>k\<in>set (live s). co_chan (sy_conn s) k = ([], False) \<and> \<not> unregistered (sy_calls s k)) \<and>
     (\<forall>k. unregistered (sy_calls s k) \<longrightarrow> co_chan (sy_conn s) k = ([], False)) \<and>
     (\<forall>k. co_nextID (sy_conn s) \<le> k \<longrightarrow> sy_calls s k = CallIdle)"

lemma distinct_snd_delete: "distinct (map snd m @ xs) \<Longrightarrow> distinct (map snd (AList.delete i m) @ xs)"
  by (induction m) (auto simp: AList.delete_eq)

lemma set_snd_delete: "k \<in> set (map snd (AList.delete i m)) \<Longrightarrow> k \<in> set (map snd m)"
  by (auto simp: AList.delete_eq)

lemma set_put: "p \<in> set (map_put i v m) \<Longrightarrow> p = (i, v) \<or> p \<in> set m"
  by (induction m) (auto split: if_splits)

lemma set_snd_put: "k \<in> set (map snd (map_put i v m)) \<Longrightarrow> k = v \<or> k \<in> set (map snd m)"
  by (fastforce dest: set_put)

lemma distinct_snd_put:
  assumes "distinct (map snd m @ xs)" and "v \<notin> set (map snd m @ xs)"
  shows "distinct (map snd (map_put i v m) @ xs)"
  using assms
proof (induction m)
  case (Cons p m)
  then show ?case using set_snd_put [of _ i v m]
    by (cases p) (auto simp del: set_map)
qed simp

lemma taken_not_left:
  "map_of m i = Some k \<Longrightarrow> distinct (map snd m) \<Longrightarrow> k \<notin> set (map snd (AList.delete i m)) \<and> k \<in> set (map snd m)"
  by (induction m) (auto simp: AList.delete_eq rev_image_eqI image_iff dest: map_of_SomeD split: if_splits)

lemma live_cong:
  assumes "map snd (co_pending (sy_conn t)) = map snd (co_pending (sy_conn s))"
    and "targets (todo_of (sy_reader t)) = targets (todo_of (sy_reader s))"
  shows "live t = live s"
  using assms by (simp add: live_def)

text \<open>Steps that leave the tables and the phases of the calls as they were.\<close>

lemma chans_ok_same:
  assumes "chans_ok s" and "live t = live s" and "co_chan (sy_conn t) = co_chan (sy_conn s)"
    and "co_nextID (sy_conn t) = co_nextID (sy_conn s)" and "sy_calls t = sy_calls s"
  shows "chans_ok t"
  using assms by (simp add: chans_ok_def)

lemma targets_dispatch [simp]: "targets (dispatch env) = []"
  by (simp add: dispatch_def split: option.splits)

lemma targets_terminate [simp]: "targets (terminate e) = []" "targets (end_of_read e) = []"
  by (simp_all add: terminate_def end_of_read_def shutdown_def)

lemma sendFromReader_frame:
  assumes "sendFromReader E msg c = (c', new)"
  shows "co_pending c' = co_pending c \<and> co_chan c' = co_chan c \<and> co_nextID c' = co_nextID c \<and> targets new = []"
  using assms by (auto simp: sendFromReader_def split: sum.splits if_splits)

lemma answer_frame:
  assumes "answer E env c = (c', new)"
  shows "co_pending c' = co_pending c \<and> co_chan c' = co_chan c \<and> co_nextID c' = co_nextID c \<and> targets new = []"
  using assms by (auto simp: answer_def split: prod.splits)

text \<open>An action of the reader, on the channels it may use.\<close>

lemma reader_act_live:
  assumes act: "act E a c = Goes (c', new)"
    and dist: "distinct (map snd (co_pending c) @ targets (a # rest))"
    and open_chans: "\<forall>k\<in>set (map snd (co_pending c) @ targets (a # rest)). co_chan c k = ([], False)"
  shows "distinct (map snd (co_pending c') @ targets (new @ rest)) \<and>
    set (map snd (co_pending c') @ targets (new @ rest)) \<subseteq> set (map snd (co_pending c) @ targets (a # rest)) \<and>
    (\<forall>k\<in>set (map snd (co_pending c') @ targets (new @ rest)). co_chan c' k = ([], False)) \<and>
    (\<forall>k. k \<notin> set (map snd (co_pending c) @ targets (a # rest)) \<longrightarrow> co_chan c' k = co_chan c k) \<and>
    co_nextID c' = co_nextID c"
proof (cases a)
  case (TakePending e)
  with assms show ?thesis by (auto simp: record_exit_def)
next
  case (CloseChan k)
  with assms show ?thesis by (auto simp del: set_map)
next
  case (SendChan k env)
  with assms show ?thesis by (auto simp del: set_map split: if_splits)
next
  case (Lookup i env)
  show ?thesis
  proof (cases "map_of (co_pending c) i")
    case None
    then have "AList.delete i (co_pending c) = co_pending c" by (simp add: map_of_eq_None_iff)
    with assms Lookup None show ?thesis by (auto simp: lookup_pending_def)
  next
    case (Some k)
    with assms Lookup show ?thesis
      using distinct_snd_delete [of "co_pending c" "targets rest" i] set_snd_delete [of _ i "co_pending c"]
        taken_not_left [OF Some]
      by (auto simp: lookup_pending_def simp del: set_map)
  qed
next
  case (SendFromReader msg)
  with assms show ?thesis using sendFromReader_frame [of E msg c c' new] by auto
next
  case (AnswerRequest env)
  with assms show ?thesis using answer_frame [of E env c c' new] by auto
qed (use assms in \<open>auto simp: record_exit_def simp del: set_map\<close>)

lemma reader_go_todo:
  assumes "reader_go E s = Some t"
  shows "\<exists>a rest c' new. todo_of (sy_reader s) = a # rest \<and> act E a (sy_conn s) = Goes (c', new) \<and>
    sy_conn t = c' \<and> todo_of (sy_reader t) = new @ rest \<and> sy_calls t = sy_calls s \<and>
    t = s\<lparr>sy_conn := c', sy_reader := (case sy_reader s of Scanning _ \<Rightarrow> Scanning (new @ rest) | Ending _ \<Rightarrow> Ending (new @ rest))\<rparr>"
  using assms by (fastforce simp: reader_go_def run_action_Some split: reader.splits)

lemma reader_go_frame:
  assumes "reader_go E s = Some t"
  shows "sy_read t = sy_read s \<and> sy_writer t = sy_writer s \<and> sy_closer t = sy_closer s \<and> sy_calls t = sy_calls s \<and>
    sy_ctx t = sy_ctx s \<and> sy_notes t = sy_notes s \<and> sy_written t = sy_written s"
  using assms by (auto simp: reader_go_def split: reader.splits)

lemma chans_ok_reader:
  assumes "reader_go E s = Some t" and "chans_ok s"
  shows "chans_ok t"
proof -
  obtain a rest c' new where *: "todo_of (sy_reader s) = a # rest" "act E a (sy_conn s) = Goes (c', new)"
      "sy_conn t = c'" "todo_of (sy_reader t) = new @ rest"
    and t: "sy_calls t = sy_calls s"
    using reader_go_todo [OF assms(1)] by blast
  have live: "live s = map snd (co_pending (sy_conn s)) @ targets (a # rest)"
      "live t = map snd (co_pending c') @ targets (new @ rest)"
    by (simp_all only: live_def *)
  have "distinct (live t) \<and> set (live t) \<subseteq> set (live s) \<and> (\<forall>k\<in>set (live t). co_chan c' k = ([], False)) \<and>
      (\<forall>k. k \<notin> set (live s) \<longrightarrow> co_chan c' k = co_chan (sy_conn s) k) \<and> co_nextID c' = co_nextID (sy_conn s)"
    using assms(2) unfolding live chans_ok_def by (intro reader_act_live [OF *(2)]) blast+
  then show ?thesis using assms(2) t *(3) unfolding chans_ok_def by (metis subsetD)
qed

lemma send_frame:
  assumes "send E ctx br pc c = Some (c', pc')"
  shows "co_pending c' = co_pending c \<and> co_chan c' = co_chan c \<and> co_nextID c' = co_nextID c"
  using assms by (auto simp: send_def split: sendpc.splits sum.splits branch.splits option.splits if_splits)

lemma chans_ok_unpend:
  assumes "chans_ok s" and "set (live t) \<subseteq> set (live s)" and "distinct (live t)"
    and "co_chan (sy_conn t) = (co_chan (sy_conn s))(k := ch)" and "k \<in> set (live t) \<Longrightarrow> ch = ([], False)"
    and "co_nextID (sy_conn t) = co_nextID (sy_conn s)" and "sy_calls t = (sy_calls s)(k := pc)"
    and "\<not> unregistered pc" and "\<not> unregistered (sy_calls s k)"
  shows "chans_ok t"
  using assms unfolding chans_ok_def by (auto simp: subset_iff)

lemma chans_ok_call:
  assumes go: "call_go E k br s = Some t" and ok: "chans_ok s"
  shows "chans_ok t"
proof -
  obtain c pc where call: "call E (sy_ctx s k) br k (sy_calls s k) (sy_conn s) = Some (c, pc)"
    and t: "t = s\<lparr>sy_conn := c, sy_calls := (sy_calls s)(k := pc)\<rparr>"
    using go by (auto simp: call_go_def)
  show ?thesis
  proof (cases "sy_calls s k")
    case (CallRegister meth params)
    then have c: "c = (sy_conn s)\<lparr>co_pending := map_put (wire_id k) k (co_pending (sy_conn s))\<rparr>"
      and pc: "pc = CallSending meth (SendEncode (OutRequest (wire_id k) meth params))"
      using call by (simp_all add: call_def)
    have fresh: "k \<notin> set (live s)" using ok CallRegister unfolding chans_ok_def by force
    then have "distinct (live t)" using ok unfolding live_def t c chans_ok_def
      by (simp del: distinct_append set_append set_map add: distinct_snd_put)
    moreover have "j \<in> set (live t) \<Longrightarrow> j = k \<or> j \<in> set (live s)" for j
      using set_snd_put [of j "wire_id k" k "co_pending (sy_conn s)"] unfolding live_def t c
      by (auto simp del: set_map)
    moreover have "co_chan (sy_conn s) k = ([], False)" using ok CallRegister by (simp add: chans_ok_def)
    moreover have "k < co_nextID (sy_conn s)" using ok CallRegister unfolding chans_ok_def
      by (metis callpc.distinct(1) not_less)
    ultimately show ?thesis using ok unfolding chans_ok_def t c pc by auto
  next
    case (CallWaiting meth)
    then have k: "\<not> unregistered (sy_calls s k)" by simp
    have pc: "\<not> unregistered pc" "co_nextID c = co_nextID (sy_conn s)" "co_pending c = co_pending (sy_conn s)"
      and ch: "co_chan c = (co_chan (sy_conn s))(k := co_chan c k)"
        "co_chan (sy_conn s) k = ([], False) \<longrightarrow> co_chan c k = ([], False)"
      using call CallWaiting
      by (auto simp: call_def call_wait_def split: branch.splits prod.splits list.splits bool.splits option.splits if_splits)
    have "live t = live s" using pc(3) by (simp add: live_def t)
    moreover have "k \<in> set (live s) \<Longrightarrow> co_chan c k = ([], False)" using ok ch(2) unfolding chans_ok_def by blast
    ultimately show ?thesis using ok ch(1) pc k
      by (intro chans_ok_unpend [OF ok, where k = k and ch = "co_chan c k" and pc = pc]) (auto simp: t chans_ok_def)
  next
    case (CallDrop meth e)
    then show ?thesis using call ok set_snd_delete [of _ "wire_id k" "co_pending (sy_conn s)"]
        distinct_snd_delete [of "co_pending (sy_conn s)" "targets (todo_of (sy_reader s))" "wire_id k"]
      by (intro chans_ok_unpend [OF ok, where k = k and ch = "co_chan (sy_conn s) k" and pc = pc])
        (auto simp: t call_def live_def chans_ok_def simp del: set_map)
  next
    case (CallSending meth sp)
    then have c: "co_pending c = co_pending (sy_conn s)" "co_chan c = co_chan (sy_conn s)"
        "co_nextID c = co_nextID (sy_conn s)" and pc: "\<not> unregistered pc"
      using call send_frame [of E "sy_ctx s k" br sp "sy_conn s"]
      by (auto simp: call_def split: sendpc.splits option.splits)
    then have "live t = live s" by (simp add: live_def t)
    then show ?thesis using c pc CallSending ok
      by (intro chans_ok_unpend [OF ok, where k = k and ch = "co_chan (sy_conn s) k" and pc = pc])
        (auto simp: t chans_ok_def)
  next
    case (CallClosed meth)
    then have c: "c = sy_conn s" and pc: "\<not> unregistered pc" using call by (auto simp: call_def)
    then have "live t = live s" by (simp add: live_def t)
    then show ?thesis using c pc CallClosed ok
      by (intro chans_ok_unpend [OF ok, where k = k and ch = "co_chan (sy_conn s) k" and pc = pc])
        (auto simp: t chans_ok_def)
  qed (use call in \<open>auto simp: call_def\<close>)
qed

lemma chans_ok_start:
  assumes ok: "chans_ok s"
  shows "chans_ok (call_start meth params s)"
proof -
  let ?k = "co_nextID (sy_conn s)"
  have idle: "sy_calls s ?k = CallIdle" using ok by (simp add: chans_ok_def)
  then have "?k \<notin> set (live s)" "co_chan (sy_conn s) ?k = ([], False)"
    using ok unfolding chans_ok_def by (force, simp)
  moreover have "live (call_start meth params s) = live s" by (simp add: live_def call_start_def)
  ultimately show ?thesis using ok idle by (auto simp: chans_ok_def call_start_def)
qed

lemma chans_ok_order:
  assumes "chans_ok s" and "mset ps = mset (co_pending (sy_conn s))"
  shows "chans_ok (on_conn (\<lambda>c. c\<lparr>co_pending := ps, co_handlers := hs\<rparr>) s)" (is "chans_ok ?t")
proof -
  have "mset (live ?t) = mset (live s)" using assms(2) by (simp add: live_def on_conn_def)
  then have "set (live ?t) = set (live s)" "distinct (live ?t) = distinct (live s)"
    by (metis set_mset_mset, metis mset_eq_imp_distinct_iff)
  then show ?thesis using assms(1) by (simp add: chans_ok_def on_conn_def)
qed

lemma chans_ok_step:
  assumes "step E ev s = Some t" and "chans_ok s" and "kinds_ok s"
  shows "chans_ok t"
proof (cases ev)
  case ReaderGo
  then show ?thesis using assms chans_ok_reader by simp
next
  case (CallStart meth params)
  then show ?thesis using assms chans_ok_start by auto
next
  case (CallGo k br)
  then show ?thesis using assms chans_ok_call by simp
next
  case (MapOrder ps hs)
  then show ?thesis using assms chans_ok_order by (auto split: if_splits)
next
  case WriterGo
  then show ?thesis using assms writer_go_todo [of E s t] writer_act_Goes
    by (intro chans_ok_same [OF assms(2)]) (fastforce simp: live_def)+
next
  case CloserGo
  then show ?thesis using assms closer_go_todo [of E s t] closer_act_Goes
    by (intro chans_ok_same [OF assms(2)]) (fastforce simp: live_def)+
next
  case (NoteGo n br)
  then obtain c pc where "notify E (sy_notectx s n) br (sy_notes s n) (sy_conn s) = Some (c, pc)"
    and t: "t = s\<lparr>sy_conn := c, sy_notes := (sy_notes s)(n := pc)\<rparr>"
    using assms(1) by (auto simp: note_go_def)
  then have "co_pending c = co_pending (sy_conn s) \<and> co_chan c = co_chan (sy_conn s) \<and> co_nextID c = co_nextID (sy_conn s)"
    using send_frame by (fastforce simp: notify_def split: notepc.splits sendpc.splits)
  then show ?thesis by (intro chans_ok_same [OF assms(2)]) (simp_all add: live_def t)
qed (rule chans_ok_same [OF assms(2)],
  use assms in \<open>auto simp: live_def move_defs split: if_splits scan.splits option.splits writer.splits list.splits
    closer.splits action.splits\<close>)+

section \<open>The order of the last actions\<close>

text \<open>
  What a goroutine that is ending still has to do, checked against the flags it has set: the
  reader closes closed, then reaps the process, then closes waitDone, each once; the writer
  closes writerDone once and last; the owner's close has waited for both.
\<close>

fun ending :: "bool \<Rightarrow> bool \<Rightarrow> bool \<Rightarrow> action list \<Rightarrow> bool" where
  "ending cl re wd [] = (cl \<and> re \<and> wd)"
| "ending cl re wd (TakePending e # as) = (\<not> cl \<and> \<not> wd \<and> ending cl re wd as)"
| "ending cl re wd (CloseChan k # as) = (\<not> cl \<and> \<not> wd \<and> ending cl re wd as)"
| "ending cl re wd (CloseClosed # as) = (\<not> cl \<and> \<not> wd \<and> ending True re wd as)"
| "ending cl re wd (CloseStop # as) = (\<not> wd \<and> ending cl re wd as)"
| "ending cl re wd (Kill # as) = (\<not> wd \<and> ending cl re wd as)"
| "ending cl re wd (ProcessWait # as) = (cl \<and> \<not> re \<and> \<not> wd \<and> ending cl True wd as)"
| "ending cl re wd (CloseWaitDone # as) = (re \<and> \<not> wd \<and> ending cl re True as)"
| "ending cl re wd (a # as) = False"

fun stopping :: "bool \<Rightarrow> action list \<Rightarrow> bool" where
  "stopping wd [] = wd"
| "stopping wd (CloseWriterDone # as) = (\<not> wd \<and> stopping True as)"
| "stopping wd (RecordExit e # as) = (\<not> wd \<and> stopping wd as)"
| "stopping wd (CloseStop # as) = (\<not> wd \<and> stopping wd as)"
| "stopping wd (Kill # as) = (\<not> wd \<and> stopping wd as)"
| "stopping wd (a # as) = False"

fun closing :: "bool \<Rightarrow> bool \<Rightarrow> action list \<Rightarrow> bool" where
  "closing w d [] = (w \<and> d)"
| "closing w d (GraceWait # as) = closing True d as"
| "closing w d (AwaitWaitDone # as) = closing True d as"
| "closing w d (AwaitWriterDone # as) = closing w True as"
| "closing w d (a # as) = closing w d as"

fun dispatching :: "action \<Rightarrow> bool" where
  "dispatching (SendChan k e) = True"
| "dispatching (Lookup i e) = True"
| "dispatching (Snapshot m p) = True"
| "dispatching (CallHandler h m p) = True"
| "dispatching (AnswerRequest e) = True"
| "dispatching (SendFromReader m) = True"
| "dispatching (RecordExit e) = True"
| "dispatching CloseStop = True"
| "dispatching Kill = True"
| "dispatching a = False"

definition writer_flag :: "bool \<Rightarrow> writer \<Rightarrow> bool" where
  "writer_flag d w = (case w of Stopping as \<Rightarrow> stopping d as | _ \<Rightarrow> \<not> d)"

lemma writer_flag_simps [simp]:
  "writer_flag d (Stopping as) = stopping d as" "writer_flag d Looping \<longleftrightarrow> \<not> d" "writer_flag d (Writing l) \<longleftrightarrow> \<not> d"
  by (simp_all add: writer_flag_def)

definition reader_flags :: "bool \<Rightarrow> bool \<Rightarrow> bool \<Rightarrow> reader \<Rightarrow> bool" where
  "reader_flags cl re wd r =
     (case r of
        Scanning as \<Rightarrow> list_all dispatching as \<and> \<not> cl \<and> \<not> re \<and> \<not> wd
      | Ending as \<Rightarrow> ending cl re wd as)"

lemma reader_flags_simps [simp]:
  "reader_flags cl re wd (Scanning as) \<longleftrightarrow> list_all dispatching as \<and> \<not> cl \<and> \<not> re \<and> \<not> wd"
  "reader_flags cl re wd (Ending as) \<longleftrightarrow> ending cl re wd as"
  by (simp_all add: reader_flags_def)

definition closer_flags :: "bool \<Rightarrow> bool \<Rightarrow> closer \<Rightarrow> bool" where
  "closer_flags wd d cl = (case cl of ClosingActs as \<Rightarrow> closing wd d as | NotClosing \<Rightarrow> True)"

lemma closer_flags_simps [simp]: "closer_flags wd d (ClosingActs as) = closing wd d as" "closer_flags wd d NotClosing"
  by (simp_all add: closer_flags_def)

definition flags_ok :: "sys \<Rightarrow> bool" where
  "flags_ok s \<longleftrightarrow>
     (let c = sy_conn s in
      reader_flags (co_closed c) (co_reaped c) (co_waitDone c) (sy_reader s) \<and>
      writer_flag (co_writerDone c) (sy_writer s) \<and>
      closer_flags (co_waitDone c) (co_writerDone c) (sy_closer s))"

lemma closing_mono: "closing w d as \<Longrightarrow> (w \<Longrightarrow> w') \<Longrightarrow> (d \<Longrightarrow> d') \<Longrightarrow> closing w' d' as"
  by (induction w d as arbitrary: w' d' rule: closing.induct) auto

lemma closer_flags_mono: "closer_flags w d cl \<Longrightarrow> (w \<Longrightarrow> w') \<Longrightarrow> (d \<Longrightarrow> d') \<Longrightarrow> closer_flags w' d' cl"
  by (cases cl) (auto intro: closing_mono)

lemma ending_closes: "ending cl re wd (map (\<lambda>p. CloseChan (f p)) ps @ as) \<longleftrightarrow> (ps = [] \<or> \<not> cl \<and> \<not> wd) \<and> ending cl re wd as"
  by (induction ps) auto

lemma dispatching_more:
  assumes "act E a c = Goes (c', new)" and "dispatching a"
  shows "list_all dispatching new \<and> co_closed c' = co_closed c \<and> co_reaped c' = co_reaped c \<and>
    co_waitDone c' = co_waitDone c \<and> co_writerDone c' = co_writerDone c"
  using assms
  by (cases a) (auto simp: record_exit_def lookup_pending_def answer_def sendFromReader_def terminate_def list_all_iff
      split: option.splits prod.splits sum.splits if_splits)

lemma ending_more:
  assumes "act E a c = Goes (c', new)" and "ending (co_closed c) (co_reaped c) (co_waitDone c) (a # rest)"
  shows "ending (co_closed c') (co_reaped c') (co_waitDone c') (new @ rest) \<and> co_writerDone c' = co_writerDone c \<and>
    (co_waitDone c \<longrightarrow> co_waitDone c')"
  using assms by (cases a) (auto simp: record_exit_def ending_closes)

lemma stopping_more:
  assumes "act E a c = Goes (c', [])" and "stopping (co_writerDone c) (a # rest)"
  shows "stopping (co_writerDone c') rest \<and> (co_writerDone c \<longrightarrow> co_writerDone c')"
  using assms by (cases a) (auto simp: record_exit_def)

lemma closing_more:
  assumes "act E a c = Goes (c', [])" and "closer_act a" and "closing (co_waitDone c) (co_writerDone c) (a # rest)"
  shows "closing (co_waitDone c') (co_writerDone c') rest"
  using assms by (cases a) auto

lemma send_flags:
  assumes "send E ctx br pc c = Some (c', pc')"
  shows "co_closed c' = co_closed c \<and> co_reaped c' = co_reaped c \<and> co_waitDone c' = co_waitDone c \<and>
    co_writerDone c' = co_writerDone c \<and> co_exitErr c' = co_exitErr c \<and> co_stopWriter c' = co_stopWriter c"
  using assms by (auto simp: send_def split: sendpc.splits sum.splits branch.splits option.splits if_splits)

lemma call_flags:
  assumes "call E ctx br k pc c = Some (c', pc')"
  shows "co_closed c' = co_closed c \<and> co_reaped c' = co_reaped c \<and> co_waitDone c' = co_waitDone c \<and>
    co_writerDone c' = co_writerDone c \<and> co_exitErr c' = co_exitErr c \<and> co_stopWriter c' = co_stopWriter c"
  using assms send_flags [of E ctx br _ c c']
  by (auto simp: call_def call_wait_def split: callpc.splits sendpc.splits branch.splits prod.splits list.splits
      bool.splits option.splits if_splits)

lemma notify_flags:
  assumes "notify E ctx br pc c = Some (c', pc')"
  shows "co_closed c' = co_closed c \<and> co_reaped c' = co_reaped c \<and> co_waitDone c' = co_waitDone c \<and>
    co_writerDone c' = co_writerDone c \<and> co_exitErr c' = co_exitErr c \<and> co_stopWriter c' = co_stopWriter c \<and>
    co_chan c' = co_chan c"
  using assms send_flags [of E ctx br _ c c'] send_frame [of E ctx br _ c c']
  by (auto simp: notify_def split: notepc.splits sendpc.splits option.splits)

lemma flags_ok_step:
  assumes "step E ev s = Some t" and "flags_ok s" and "kinds_ok s"
  shows "flags_ok t"
proof (cases ev)
  case ReaderGo
  then have "reader_go E s = Some t" using assms(1) by simp
  from reader_go_todo [OF this] obtain a rest c' new where *: "todo_of (sy_reader s) = a # rest"
      "act E a (sy_conn s) = Goes (c', new)"
    and t: "t = s\<lparr>sy_conn := c', sy_reader := (case sy_reader s of Scanning _ \<Rightarrow> Scanning (new @ rest) | Ending _ \<Rightarrow> Ending (new @ rest))\<rparr>"
    by blast
  show ?thesis
  proof (cases "sy_reader s")
    case (Scanning as)
    with * assms(2) dispatching_more [OF *(2)] show ?thesis
      by (auto simp: flags_ok_def Let_def t)
  next
    case (Ending as)
    with * assms(2) ending_more [OF *(2), of rest] show ?thesis
      by (auto simp: flags_ok_def Let_def t intro: closer_flags_mono)
  qed
next
  case WriterGo
  then obtain a rest c' where *: "sy_writer s = Stopping (a # rest)" "act E a (sy_conn s) = Goes (c', [])"
      "writer_act a" and t: "t = s\<lparr>sy_conn := c', sy_writer := Stopping rest\<rparr>"
    using assms writer_go_todo [of E s t] by auto
  have "co_closed c' = co_closed (sy_conn s) \<and> co_waitDone c' = co_waitDone (sy_conn s) \<and> co_reaped c' = co_reaped (sy_conn s)"
    using writer_act_Goes [OF *(2,3)] by simp
  moreover have "stopping (co_writerDone c') rest \<and> (co_writerDone (sy_conn s) \<longrightarrow> co_writerDone c')"
    using stopping_more [OF *(2), of rest] assms(2) *(1) by (simp add: flags_ok_def Let_def)
  ultimately show ?thesis using assms(2) *(1) by (auto simp: flags_ok_def Let_def t intro: closer_flags_mono)
next
  case CloserGo
  then obtain a rest c' where *: "sy_closer s = ClosingActs (a # rest)" "act E a (sy_conn s) = Goes (c', [])"
      "closer_act a" and t: "t = s\<lparr>sy_conn := c', sy_closer := ClosingActs rest\<rparr>"
    using assms closer_go_todo [of E s t] by auto
  then show ?thesis using assms(2) closer_act_Goes [OF *(2,3)] closing_more [OF *(2,3)]
    by (simp add: flags_ok_def Let_def)
next
  case (CallGo k br)
  then show ?thesis using assms(1,2) call_flags by (fastforce simp: flags_ok_def Let_def call_go_def)
next
  case (NoteGo k br)
  then show ?thesis using assms(1,2) notify_flags by (fastforce simp: flags_ok_def Let_def note_go_def)
next
  case (Scanned sc)
  then show ?thesis using assms(1,2)
    by (auto simp: flags_ok_def Let_def reader_scan_def read_line_def end_of_read_def shutdown_def dispatch_def
        split: if_splits scan.splits option.splits)
qed (use assms in \<open>auto simp: flags_ok_def move_defs conn_close_def terminate_def split: if_splits option.splits writer.splits
    list.splits closer.splits action.splits\<close>)

section \<open>Why the connection is down\<close>

text \<open>
  Every flag that tells a caller the connection is going down is preceded by its reason: the
  recorded error, or, for the writer alone, the owner's close.
\<close>

fun covered :: "bool \<Rightarrow> bool \<Rightarrow> action list \<Rightarrow> bool" where
  "covered ex ow [] = True"
| "covered ex ow (RecordExit e # as) = covered True ow as"
| "covered ex ow (TakePending e # as) = covered True ow as"
| "covered ex ow (CloseChan k # as) = (ex \<and> covered ex ow as)"
| "covered ex ow (CloseClosed # as) = (ex \<and> covered ex ow as)"
| "covered ex ow (CloseStop # as) = ((ex \<or> ow) \<and> covered ex ow as)"
| "covered ex ow (CloseWriterDone # as) = ((ex \<or> ow) \<and> covered ex ow as)"
| "covered ex ow (a # as) = covered ex ow as"

lemma covered_mono: "covered ex ow as \<Longrightarrow> (ex \<Longrightarrow> ex') \<Longrightarrow> (ow \<Longrightarrow> ow') \<Longrightarrow> covered ex' ow' as"
  by (induction ex ow as arbitrary: ex' ow' rule: covered.induct) auto

lemma covered_append: "covered ex ow as \<Longrightarrow> covered ex ow bs \<Longrightarrow> covered ex ow (as @ bs)"
  by (induction ex ow as rule: covered.induct) (auto intro: covered_mono)

lemma covered_terminate [simp]: "covered ex ow (terminate e)"
  by (simp add: terminate_def)

lemma covered_writes [simp]: "covered ex ow (terminate e @ [CloseWriterDone])"
  by (simp add: terminate_def)

lemma covered_ending [simp]: "covered ex ow (end_of_read e)"
  by (simp add: end_of_read_def shutdown_def)

lemma covered_dispatch [simp]: "covered ex ow (dispatch env)"
  by (simp add: dispatch_def split: option.splits)

lemma covered_closes: "ex \<Longrightarrow> covered ex ow (map (\<lambda>p. CloseChan (f p)) ps)"
  by (induction ps) auto

lemma covered_handlers: "covered ex ow (map (\<lambda>h. CallHandler h m q) hs)"
  by (induction hs) auto

definition owner_closed :: "sys \<Rightarrow> bool" where
  "owner_closed s \<longleftrightarrow> sy_closer s \<noteq> NotClosing"

fun knows_down :: "sendpc \<Rightarrow> bool" where
  "knows_down SendClosed = True"
| "knows_down pc = False"

text \<open>The flags and closed channels of the connection, given whether there is a reason.\<close>

definition downs :: "bool \<Rightarrow> conn \<Rightarrow> bool" where
  "downs ow c \<longleftrightarrow>
     (co_closed c \<longrightarrow> co_exitErr c \<noteq> None) \<and> (co_stopWriter c \<longrightarrow> co_exitErr c \<noteq> None \<or> ow) \<and>
     (co_writerDone c \<longrightarrow> co_exitErr c \<noteq> None \<or> ow) \<and> (\<forall>k. snd (co_chan c k) \<longrightarrow> co_exitErr c \<noteq> None)"

definition reasons_ok :: "sys \<Rightarrow> bool" where
  "reasons_ok s \<longleftrightarrow>
     (let c = sy_conn s; ex = (co_exitErr c \<noteq> None); ow = owner_closed s in
      covered ex ow (todo_of (sy_reader s)) \<and> covered ex ow (writer_todo (sy_writer s)) \<and> downs ow c \<and>
      (\<forall>k m. sy_calls s k = CallClosed m \<longrightarrow> ex) \<and>
      (\<forall>k m pc. sy_calls s k = CallSending m pc \<longrightarrow> knows_down pc \<longrightarrow> ex \<or> ow) \<and>
      (\<forall>n m pc. sy_notes s n = NoteSending m pc \<longrightarrow> knows_down pc \<longrightarrow> ex \<or> ow))"

lemma exitErr_stays:
  assumes "act E a c = Goes (c', new)" and "co_exitErr c = Some e"
  shows "co_exitErr c' = Some e"
  using assms by (cases a) (auto simp: record_exit_def lookup_pending_def answer_def sendFromReader_def
      split: option.splits prod.splits sum.splits if_splits)

lemma covered_act:
  assumes "act E a c = Goes (c', new)" and "covered (co_exitErr c \<noteq> None) ow (a # rest)"
  shows "covered (co_exitErr c' \<noteq> None) ow (new @ rest)"
proof (cases a)
  case (TakePending e)
  with assms show ?thesis
    by (auto simp: record_exit_def split: option.splits intro!: covered_append covered_closes)
next
  case (SendFromReader msg)
  with assms show ?thesis
    by (auto simp: sendFromReader_def split: sum.splits if_splits intro!: covered_append)
next
  case (AnswerRequest env)
  with assms show ?thesis by (auto simp: answer_def split: prod.splits)
next
  case (Lookup i env)
  with assms show ?thesis by (auto simp: lookup_pending_def split: option.splits)
next
  case (Snapshot m p)
  with assms show ?thesis by (auto intro: covered_append covered_handlers)
qed (use assms in \<open>auto simp: record_exit_def split: option.splits if_splits\<close>)

lemma downs_exit: "co_exitErr c \<noteq> None \<Longrightarrow> downs ow c"
  by (simp add: downs_def)

lemma downs_cong:
  assumes "downs ow c" and "co_exitErr c' = co_exitErr c" and "co_closed c' = co_closed c"
    and "co_stopWriter c' = co_stopWriter c" and "co_writerDone c' = co_writerDone c"
    and "\<And>k. snd (co_chan c' k) \<Longrightarrow> snd (co_chan c k)"
  shows "downs ow c'"
  using assms unfolding downs_def by metis

lemma downs_ow: "ow \<Longrightarrow> downs ow c \<longleftrightarrow> (co_closed c \<or> (\<exists>k. snd (co_chan c k)) \<longrightarrow> co_exitErr c \<noteq> None)"
  by (auto simp: downs_def)

lemma downs_act:
  assumes "act E a c = Goes (c', new)" and "covered (co_exitErr c \<noteq> None) ow (a # rest)" and "downs ow c"
  shows "downs ow c'"
proof (cases a)
  case (RecordExit e)
  with assms(1) show ?thesis by (intro downs_exit) (auto simp: record_exit_def split: option.splits)
next
  case (TakePending e)
  with assms(1) show ?thesis by (intro downs_exit) (auto simp: record_exit_def split: option.splits)
next
  case (CloseChan k)
  with assms show ?thesis by (intro downs_exit) auto
next
  case CloseClosed
  with assms show ?thesis by (intro downs_exit) auto
next
  case CloseStop
  then have c': "c' = c\<lparr>co_stopWriter := True\<rparr>" and "co_exitErr c \<noteq> None \<or> ow" using assms(1,2) by simp_all
  then show ?thesis using assms(3) downs_exit [of c' ow] by (auto simp: downs_ow simp del: not_None_eq)
next
  case CloseWriterDone
  then have c': "c' = c\<lparr>co_writerDone := True\<rparr>" and "co_exitErr c \<noteq> None \<or> ow" using assms(1,2) by simp_all
  then show ?thesis using assms(3) downs_exit [of c' ow] by (auto simp: downs_ow simp del: not_None_eq)
next
  case (SendFromReader msg)
  with assms(1) show ?thesis
    by (intro downs_cong [OF assms(3)]) (auto simp: sendFromReader_def split: sum.splits if_splits)
next
  case (AnswerRequest env)
  with assms(1) show ?thesis by (intro downs_cong [OF assms(3)]) (auto simp: answer_def split: prod.splits)
next
  case (Lookup i env)
  with assms(1) show ?thesis by (intro downs_cong [OF assms(3)]) (auto simp: lookup_pending_def)
qed (rule downs_cong [OF assms(3)], use assms(1) in \<open>auto split: if_splits\<close>)+

lemma downs_mono: "downs ow c \<Longrightarrow> (ow \<Longrightarrow> ow') \<Longrightarrow> downs ow' c"
  by (auto simp: downs_def)

lemma reasons_okI:
  assumes "reasons_ok s" and "covered (co_exitErr (sy_conn t) \<noteq> None) (owner_closed t) (todo_of (sy_reader t))"
    and "covered (co_exitErr (sy_conn t) \<noteq> None) (owner_closed t) (writer_todo (sy_writer t))"
    and "downs (owner_closed t) (sy_conn t)" and "co_exitErr (sy_conn s) \<noteq> None \<Longrightarrow> co_exitErr (sy_conn t) \<noteq> None"
    and "owner_closed s \<Longrightarrow> owner_closed t" and "sy_calls t = sy_calls s" and "sy_notes t = sy_notes s"
  shows "reasons_ok t"
  using assms unfolding reasons_ok_def Let_def by metis

lemma reasons_ok_frame:
  assumes "reasons_ok s" and "sy_reader t = sy_reader s" and "sy_writer t = sy_writer s" and "sy_closer t = sy_closer s"
    and "downs (owner_closed s) (sy_conn t)" and "co_exitErr (sy_conn t) = co_exitErr (sy_conn s)"
    and "\<And>k m. sy_calls t k = CallClosed m \<Longrightarrow> sy_calls s k = CallClosed m"
    and "\<And>k m pc. sy_calls t k = CallSending m pc \<Longrightarrow> knows_down pc \<Longrightarrow> sy_calls s k = CallSending m pc"
    and "\<And>n m pc. sy_notes t n = NoteSending m pc \<Longrightarrow> knows_down pc \<Longrightarrow> sy_notes s n = NoteSending m pc"
  shows "reasons_ok t"
proof -
  have "owner_closed t = owner_closed s" using assms(4) by (simp add: owner_closed_def)
  then show ?thesis using assms unfolding reasons_ok_def Let_def by fastforce
qed

lemma reasons_okD:
  assumes "reasons_ok s"
  shows "covered (co_exitErr (sy_conn s) \<noteq> None) (owner_closed s) (todo_of (sy_reader s))"
    and "covered (co_exitErr (sy_conn s) \<noteq> None) (owner_closed s) (writer_todo (sy_writer s))"
    and "downs (owner_closed s) (sy_conn s)"
  using assms by (simp_all add: reasons_ok_def Let_def)

lemma send_down:
  assumes "send E ctx br pc c = Some (c', pc')" and "knows_down pc'"
  shows "is_down c"
  using assms by (auto simp: send_def split: sendpc.splits sum.splits branch.splits option.splits if_splits)

lemma call_down:
  assumes "call E ctx br k pc c = Some (c', pc')"
  shows "(pc' = CallClosed m \<longrightarrow> co_closed c \<or> snd (co_chan c k)) \<and>
    (pc' = CallSending m sp \<longrightarrow> knows_down sp \<longrightarrow> is_down c) \<and>
    (snd (co_chan c' j) \<longrightarrow> snd (co_chan c j))"
proof (cases pc)
  case (CallSending meth sp)
  with assms send_down send_frame show ?thesis
    by (fastforce simp: call_def split: sendpc.splits option.splits)
next
  case (CallWaiting meth)
  with assms show ?thesis
    by (auto simp: call_def call_wait_def split: branch.splits prod.splits list.splits bool.splits option.splits if_splits)
qed (use assms in \<open>auto simp: call_def\<close>)

lemma notify_down:
  assumes "notify E ctx br pc c = Some (c', pc')" and "pc' = NoteSending m sp" and "knows_down sp"
  shows "is_down c"
  using assms send_down by (fastforce simp: notify_def split: notepc.splits sendpc.splits option.splits)

lemma reasons_ok_call:
  assumes go: "call_go E k br s = Some t" and ok: "reasons_ok s"
  shows "reasons_ok t"
proof -
  obtain c pc where call: "call E (sy_ctx s k) br k (sy_calls s k) (sy_conn s) = Some (c, pc)"
    and t: "t = s\<lparr>sy_conn := c, sy_calls := (sy_calls s)(k := pc)\<rparr>"
    using go by (auto simp: call_go_def)
  have eq: "co_exitErr c = co_exitErr (sy_conn s)" and ow: "owner_closed t = owner_closed s"
    and d: "downs (owner_closed s) c"
    using call_flags [OF call] call_down [OF call] reasons_okD(3) [OF ok]
    by (simp, simp add: owner_closed_def t, intro downs_cong [OF reasons_okD(3) [OF ok]]) auto
  have "pc = CallClosed m \<longrightarrow> co_exitErr c \<noteq> None" for m
    using call_down [OF call] reasons_okD(3) [OF ok] unfolding downs_def eq by blast
  moreover have "pc = CallSending m sp \<longrightarrow> knows_down sp \<longrightarrow> co_exitErr c \<noteq> None \<or> owner_closed s" for m sp
    using call_down [OF call] reasons_okD(3) [OF ok] unfolding downs_def eq is_down_def by blast
  ultimately show ?thesis using ok d unfolding reasons_ok_def Let_def ow
    by (auto simp: t eq)
qed

lemma reasons_ok_note:
  assumes go: "note_go E n br s = Some t" and ok: "reasons_ok s"
  shows "reasons_ok t"
proof -
  obtain c pc where ntf: "notify E (sy_notectx s n) br (sy_notes s n) (sy_conn s) = Some (c, pc)"
    and t: "t = s\<lparr>sy_conn := c, sy_notes := (sy_notes s)(n := pc)\<rparr>"
    using go by (auto simp: note_go_def)
  have eq: "co_exitErr c = co_exitErr (sy_conn s)" and ow: "owner_closed t = owner_closed s"
    and d: "downs (owner_closed s) c"
    using notify_flags [OF ntf] reasons_okD(3) [OF ok]
    by (simp, simp add: owner_closed_def t, intro downs_cong [OF reasons_okD(3) [OF ok]]) auto
  have "pc = NoteSending m sp \<longrightarrow> knows_down sp \<longrightarrow> co_exitErr c \<noteq> None \<or> owner_closed s" for m sp
    using notify_down [OF ntf] reasons_okD(3) [OF ok] unfolding downs_def eq is_down_def by blast
  then show ?thesis using ok d unfolding reasons_ok_def Let_def ow
    by (auto simp: t eq)
qed

lemma reasons_ok_step:
  assumes "step E ev s = Some t" and ok: "reasons_ok s" and "kinds_ok s"
  shows "reasons_ok t"
proof (cases ev)
  case ReaderGo
  then have "reader_go E s = Some t" using assms(1) by simp
  from reader_go_todo [OF this] obtain a rest c' new where *: "todo_of (sy_reader s) = a # rest"
      "act E a (sy_conn s) = Goes (c', new)" "todo_of (sy_reader t) = new @ rest" "sy_conn t = c'"
    and t: "t = s\<lparr>sy_conn := c', sy_reader := (case sy_reader s of Scanning _ \<Rightarrow> Scanning (new @ rest) | Ending _ \<Rightarrow> Ending (new @ rest))\<rparr>"
    by blast
  have ow: "owner_closed t = owner_closed s" and wr: "writer_todo (sy_writer t) = writer_todo (sy_writer s)"
    by (simp_all add: owner_closed_def t)
  have stay: "co_exitErr (sy_conn s) \<noteq> None \<Longrightarrow> co_exitErr c' \<noteq> None" using exitErr_stays [OF *(2)] by auto
  note cov = reasons_okD [OF ok, unfolded *(1)]
  show ?thesis
    using covered_act [OF *(2) cov(1)] downs_act [OF *(2) cov(1) cov(3)] covered_mono [OF cov(2)] stay
    by (intro reasons_okI [OF ok]) (simp_all add: * ow wr, simp_all add: t)
next
  case WriterGo
  then obtain a rest c' where *: "sy_writer s = Stopping (a # rest)" "act E a (sy_conn s) = Goes (c', [])"
    and t: "t = s\<lparr>sy_conn := c', sy_writer := Stopping rest\<rparr>"
    using assms writer_go_todo [of E s t] by auto
  have ow: "owner_closed t = owner_closed s" by (simp add: owner_closed_def t)
  have stay: "co_exitErr (sy_conn s) \<noteq> None \<Longrightarrow> co_exitErr c' \<noteq> None" using exitErr_stays [OF *(2)] by auto
  note cov = reasons_okD [OF ok, unfolded *(1), simplified]
  show ?thesis
    using covered_act [OF *(2), of "owner_closed s" rest] downs_act [OF *(2), of "owner_closed s" rest] cov
      covered_mono [OF cov(1)] stay
    by (intro reasons_okI [OF ok]) (simp_all add: t ow [unfolded t])
next
  case CloserGo
  then obtain a rest c' where *: "sy_closer s = ClosingActs (a # rest)" "act E a (sy_conn s) = Goes (c', [])" "closer_act a"
    and t: "t = s\<lparr>sy_conn := c', sy_closer := ClosingActs rest\<rparr>"
    using assms closer_go_todo [of E s t] by auto
  have ow: "owner_closed t" "owner_closed s" by (simp_all add: owner_closed_def t *)
  have "covered ex True (a # [])" for ex using *(3) by (cases a) auto
  then have "downs True c'" using downs_act [OF *(2), of True "[]"] reasons_okD(3) [OF ok] ow(2) by simp
  then show ?thesis using closer_act_Goes [OF *(2,3)] reasons_okD [OF ok] ow
    by (intro reasons_okI [OF ok]) (simp_all add: t)
next
  case (CallGo k br)
  then show ?thesis using assms(1) reasons_ok_call ok by simp
next
  case (NoteGo k br)
  then show ?thesis using assms(1) reasons_ok_note ok by simp
next
  case (Scanned sc)
  then have "covered (co_exitErr (sy_conn s) \<noteq> None) (owner_closed s) (todo_of (sy_reader t)) \<and> sy_conn t = sy_conn s \<and>
      sy_writer t = sy_writer s \<and> sy_closer t = sy_closer s \<and> sy_calls t = sy_calls s \<and> sy_notes t = sy_notes s"
    using assms(1) by (auto simp: reader_scan_def read_line_def split: if_splits scan.splits option.splits)
  then show ?thesis using reasons_okD [OF ok] by (intro reasons_okI [OF ok]) (simp_all add: owner_closed_def)
next
  case (Wrote r)
  then have "covered (co_exitErr (sy_conn s) \<noteq> None) (owner_closed s) (writer_todo (sy_writer t)) \<and> sy_conn t = sy_conn s \<and>
      sy_reader t = sy_reader s \<and> sy_closer t = sy_closer s \<and> sy_calls t = sy_calls s \<and> sy_notes t = sy_notes s"
    using assms(1) by (auto simp: writer_wrote_def split: writer.splits option.splits)
  then show ?thesis using reasons_okD [OF ok] by (intro reasons_okI [OF ok]) (simp_all add: owner_closed_def)
next
  case WriterStop
  then have t: "t = s\<lparr>sy_writer := Stopping [CloseWriterDone]\<rparr>" and stop: "co_stopWriter (sy_conn s)"
    using assms(1) by (auto simp: writer_stop_def split: if_splits)
  then show ?thesis using reasons_okD [OF ok]
    by (intro reasons_okI [OF ok]) (auto simp: owner_closed_def downs_def)
next
  case (CallStart meth params)
  then have t: "t = call_start meth params s" using assms(1) by simp
  show ?thesis unfolding t
    by (rule reasons_ok_frame [OF ok])
      (use reasons_okD(3) [OF ok] in \<open>auto simp: call_start_def intro: downs_cong split: if_splits\<close>)
next
  case (NoteStart n meth params)
  then have t: "t = s\<lparr>sy_notes := (sy_notes s)(n := NoteSending meth (SendEncode (OutNotification meth params)))\<rparr>"
    using assms(1) by (auto simp: note_start_def split: if_splits)
  show ?thesis unfolding t
    by (rule reasons_ok_frame [OF ok])
      (use reasons_okD(3) [OF ok] in \<open>auto split: if_splits\<close>)
next
  case CloseStart
  then have t: "t = s\<lparr>sy_closer := ClosingActs conn_close\<rparr>"
    using assms(1) by (auto simp: close_start_def split: closer.splits)
  then show ?thesis using reasons_okD [OF ok]
    by (intro reasons_okI [OF ok]) (auto simp: owner_closed_def intro: covered_mono downs_mono)
next
  case GraceOver
  then have "owner_closed t = owner_closed s \<and> sy_conn t = sy_conn s \<and> sy_reader t = sy_reader s \<and>
      sy_writer t = sy_writer s \<and> sy_calls t = sy_calls s \<and> sy_notes t = sy_notes s"
    using assms(1) by (auto simp: closer_timeout_def owner_closed_def split: closer.splits list.splits action.splits)
  then show ?thesis using reasons_okD [OF ok] by (intro reasons_okI [OF ok]) simp_all
next
  case WriterTake
  then show ?thesis using assms(1) reasons_okD [OF ok]
    by (intro reasons_okI [OF ok]) (auto simp: writer_take_def owner_closed_def downs_def split: writer.splits list.splits)
qed (rule reasons_ok_frame [OF ok], use assms(1) reasons_okD(3) [OF ok] in \<open>auto simp: on_conn_def Let_def subscribe_def
    unsubscribe_def intro: downs_cong split: if_splits\<close>)+

end
