(* ===== verification/ConnSpec.thy ===== *)
theory ConnSpec
  imports ConnInv
begin

text \<open>
  What the invariants of the connection mean for its callers: which answer a call gets, why
  it fails, that no goroutine panics or blocks the reader, what is left after close, and that
  everything can end once the child has.
\<close>

section \<open>Which answer a call gets\<close>

text \<open>A response the reader has read, under the id of the call.\<close>

definition own_answer :: "sys \<Rightarrow> nat \<Rightarrow> envl \<Rightarrow> bool" where
  "own_answer s k env \<longleftrightarrow> env \<in> set (sy_read s) \<and> id_value (ev_ID env) = Some (wire_id k) \<and> ev_Method env = []"

text \<open>Why a message was not sent, or waited for in vain.\<close>

definition down_reason :: "sys \<Rightarrow> goerror \<Rightarrow> bool" where
  "down_reason s e \<longleftrightarrow> co_exitErr (sy_conn s) = Some e \<or> e = Sentinel (S_conn ErrClosed) \<and> owner_closed s"

definition send_reason :: "world \<Rightarrow> sys \<Rightarrow> goerror \<Rightarrow> bool" where
  "send_reason E s e \<longleftrightarrow> ctx_error e \<or> (\<exists>msg. encodeLine E msg = Err e) \<or> down_reason s e"

definition result_ok :: "world \<Rightarrow> sys \<Rightarrow> nat \<Rightarrow> string res \<Rightarrow> bool" where
  "result_ok E s k r \<longleftrightarrow>
     (\<exists>meth env. own_answer s k env \<and> r = call_result E meth env) \<or>
     (\<exists>meth e. r = Err (Errorf meth [e]) \<and> send_reason E s e)"

fun carries :: "sys \<Rightarrow> action \<Rightarrow> bool" where
  "carries s (SendChan k env) = own_answer s k env"
| "carries s (Lookup i env) = (env \<in> set (sy_read s) \<and> id_value (ev_ID env) = Some i \<and> ev_Method env = [])"
| "carries s a = True"

fun phase_ok :: "world \<Rightarrow> sys \<Rightarrow> nat \<Rightarrow> callpc \<Rightarrow> bool" where
  "phase_ok E s k (CallSending m (SendResult (Some e))) = send_reason E s e"
| "phase_ok E s k (CallDrop m e) = send_reason E s e"
| "phase_ok E s k (CallDone r) = result_ok E s k r"
| "phase_ok E s k pc = True"

definition answers_ok :: "world \<Rightarrow> sys \<Rightarrow> bool" where
  "answers_ok E s \<longleftrightarrow>
     (\<forall>p\<in>set (co_pending (sy_conn s)). fst p = wire_id (snd p)) \<and>
     (\<forall>a\<in>set (todo_of (sy_reader s)). carries s a) \<and>
     (\<forall>k. \<forall>env\<in>set (fst (co_chan (sy_conn s) k)). own_answer s k env) \<and>
     (\<forall>k. phase_ok E s k (sy_calls s k)) \<and>
     (\<forall>k e. sy_ctx s k = Some e \<longrightarrow> ctx_error e)"

text \<open>Nothing that was recorded is lost: what was read, the reason, the owner's close.\<close>

definition grows :: "sys \<Rightarrow> sys \<Rightarrow> bool" where
  "grows s t \<longleftrightarrow> set (sy_read s) \<subseteq> set (sy_read t) \<and> (owner_closed s \<longrightarrow> owner_closed t) \<and>
     (\<forall>e. co_exitErr (sy_conn s) = Some e \<longrightarrow> co_exitErr (sy_conn t) = Some e)"

lemma own_answer_mono: "grows s t \<Longrightarrow> own_answer s k env \<Longrightarrow> own_answer t k env"
  by (auto simp: grows_def own_answer_def)

lemma send_reason_mono: "grows s t \<Longrightarrow> send_reason E s e \<Longrightarrow> send_reason E t e"
  by (auto simp: grows_def send_reason_def down_reason_def)

lemma result_ok_mono: "grows s t \<Longrightarrow> result_ok E s k r \<Longrightarrow> result_ok E t k r"
  unfolding result_ok_def using own_answer_mono send_reason_mono by blast

lemma carries_mono: "grows s t \<Longrightarrow> carries s a \<Longrightarrow> carries t a"
  by (cases a) (auto intro: own_answer_mono, auto simp: grows_def)

lemma phase_ok_mono: "grows s t \<Longrightarrow> phase_ok E s k pc \<Longrightarrow> phase_ok E t k pc"
  by (induction E s k pc rule: phase_ok.induct) (auto intro: send_reason_mono result_ok_mono)

lemma act_grows:
  assumes "act E a (sy_conn s) = Goes (c', new)" and "sy_conn t = c'" and "sy_read t = sy_read s"
    and "owner_closed t = owner_closed s"
  shows "grows s t"
  using exitErr_stays [OF assms(1)] assms(2-4) by (simp add: grows_def)

lemma grows_same:
  assumes "co_exitErr (sy_conn t) = co_exitErr (sy_conn s)" and "sy_read t = sy_read s" and "sy_closer t = sy_closer s"
  shows "grows s t"
  using assms by (simp add: grows_def owner_closed_def)

lemma step_grows:
  assumes "step E ev s = Some t" and "kinds_ok s"
  shows "grows s t"
proof (cases ev)
  case ReaderGo
  then have "reader_go E s = Some t" using assms(1) by simp
  from reader_go_todo [OF this] reader_go_frame [OF this] show ?thesis
    using act_grows by (metis owner_closed_def)
next
  case WriterGo
  then show ?thesis using assms writer_go_todo [of E s t] by (auto intro!: act_grows simp: owner_closed_def)
next
  case CloserGo
  then show ?thesis using assms closer_go_todo [of E s t] by (auto intro!: act_grows simp: owner_closed_def)
next
  case (CallGo k br)
  then show ?thesis using assms(1) call_flags by (fastforce simp: call_go_def intro: grows_same)
next
  case (NoteGo n br)
  then show ?thesis using assms(1) notify_flags by (fastforce simp: note_go_def intro: grows_same)
qed (use assms in \<open>auto simp: grows_def owner_closed_def move_defs split: if_splits scan.splits option.splits writer.splits
    list.splits closer.splits action.splits\<close>)

text \<open>Steps that neither read nor answer: the tables and phases of the later state are those of the earlier.\<close>

lemma answers_ok_frame:
  assumes "answers_ok E s" and "grows s t"
    and "set (co_pending (sy_conn t)) \<subseteq> set (co_pending (sy_conn s))"
    and "\<And>a. a \<in> set (todo_of (sy_reader t)) \<Longrightarrow> carries t a \<or> a \<in> set (todo_of (sy_reader s))"
    and "\<And>k. set (fst (co_chan (sy_conn t) k)) \<subseteq> set (fst (co_chan (sy_conn s) k))"
    and "\<And>k. sy_calls t k = sy_calls s k \<or> phase_ok E t k (sy_calls t k)"
    and "\<And>k e. sy_ctx t k = Some e \<Longrightarrow> sy_ctx s k = Some e \<or> ctx_error e"
  shows "answers_ok E t"
proof -
  have "\<forall>a\<in>set (todo_of (sy_reader t)). carries t a"
    using assms(1,2,4) carries_mono unfolding answers_ok_def by blast
  moreover have "\<forall>k. \<forall>env\<in>set (fst (co_chan (sy_conn t) k)). own_answer t k env"
    using assms(1,2,5) own_answer_mono unfolding answers_ok_def by blast
  moreover have "\<forall>k. phase_ok E t k (sy_calls t k)"
    using assms(1,2,6) phase_ok_mono unfolding answers_ok_def by metis
  ultimately show ?thesis using assms(1,3,7) unfolding answers_ok_def by blast
qed

lemma carries_other: "target a = [] \<Longrightarrow> (\<And>i env. a \<noteq> Lookup i env) \<Longrightarrow> carries s a"
  by (cases a) auto

lemma call_own_step:
  assumes call: "call E (sy_ctx s k) br k (sy_calls s k) (sy_conn s) = Some (c, pc)"
    and ok: "answers_ok E s" and reasons: "reasons_ok s"
  shows "phase_ok E s k pc"
proof (cases "sy_calls s k")
  case (CallSending meth sp)
  have ctx: "\<And>e. sy_ctx s k = Some e \<Longrightarrow> ctx_error e" using ok by (simp add: answers_ok_def)
  show ?thesis
  proof (cases sp)
    case (SendResult r)
    then show ?thesis using call CallSending ok
      by (cases r) (auto simp: call_def answers_ok_def dest: spec [of _ k])
  next
    case SendClosed
    then have "co_exitErr (sy_conn s) \<noteq> None \<or> owner_closed s"
      using reasons CallSending unfolding reasons_ok_def Let_def by fastforce
    then have "send_reason E s (closedErr (sy_conn s))"
      by (auto simp: send_reason_def down_reason_def closedErr_def split: option.splits)
    then show ?thesis using call CallSending SendClosed by (auto simp: call_def send_def)
  next
    case (SendEncode msg)
    then show ?thesis using call CallSending
      by (auto simp: call_def send_def send_reason_def split: sum.splits)
  next
    case (SendCheck data)
    then show ?thesis using call CallSending by (auto simp: call_def send_def split: if_splits)
  next
    case (SendSelect data)
    then show ?thesis using call CallSending ctx
      by (auto simp: call_def send_def send_reason_def split: branch.splits option.splits if_splits)
  qed
next
  case (CallWaiting meth)
  then show ?thesis
    using call ok by (fastforce simp: call_def call_wait_def answers_ok_def result_ok_def send_reason_def
        split: branch.splits prod.splits list.splits bool.splits option.splits if_splits)
next
  case (CallClosed meth)
  then have "co_exitErr (sy_conn s) \<noteq> None" using reasons unfolding reasons_ok_def Let_def by blast
  then have "send_reason E s (closedErr (sy_conn s))"
    by (auto simp: send_reason_def down_reason_def closedErr_def)
  then show ?thesis using call CallClosed by (auto simp: call_def result_ok_def)
next
  case (CallDrop meth e)
  then have "send_reason E s e" using ok by (auto simp: answers_ok_def dest: spec [of _ k])
  then show ?thesis using call CallDrop by (auto simp: call_def result_ok_def)
qed (use call in \<open>auto simp: call_def\<close>)

lemma call_tables:
  assumes "call E ctx br k pc c = Some (c', pc')"
  shows "set (co_pending c') \<subseteq> insert (wire_id k, k) (set (co_pending c)) \<and>
    set (fst (co_chan c' j)) \<subseteq> set (fst (co_chan c j))"
proof (cases pc)
  case (CallSending meth sp)
  then show ?thesis using assms send_frame [of E ctx br sp c c']
    by (auto simp: call_def split: sendpc.splits option.splits)
next
  case (CallWaiting meth)
  with assms show ?thesis
    by (auto simp: call_def call_wait_def split: branch.splits prod.splits list.splits bool.splits option.splits if_splits)
next
  case (CallDrop meth e)
  with assms show ?thesis by (auto simp: call_def AList.delete_eq)
qed (use assms in \<open>auto simp: call_def dest: set_put\<close>)

lemma answers_ok_reader:
  assumes go: "reader_go E s = Some t" and ok: "answers_ok E s"
  shows "answers_ok E t"
proof -
  obtain a rest c' new where *: "todo_of (sy_reader s) = a # rest" "act E a (sy_conn s) = Goes (c', new)"
      "sy_conn t = c'" "todo_of (sy_reader t) = new @ rest"
    using reader_go_todo [OF go] by blast
  note frame = reader_go_frame [OF go]
  have grows: "grows s t" using act_grows [OF *(2,3)] frame by (simp add: owner_closed_def)
  have a: "carries s a" and pend: "\<forall>p\<in>set (co_pending (sy_conn s)). fst p = wire_id (snd p)"
    using ok * by (simp_all add: answers_ok_def)
  have pend': "set (co_pending c') \<subseteq> set (co_pending (sy_conn s))"
    using *(2) by (cases a) (auto simp: record_exit_def lookup_pending_def answer_def sendFromReader_def AList.delete_eq
        split: prod.splits sum.splits if_splits)
  have new: "carries s b" if "b \<in> set new" for b
  proof (cases a)
    case (Lookup i env)
    then show ?thesis using that *(2) a pend
      by (fastforce simp: lookup_pending_def own_answer_def dest: map_of_SomeD split: option.splits)
  qed (use that *(2) in \<open>auto simp: answer_def sendFromReader_def terminate_def split: prod.splits sum.splits if_splits\<close>)
  have chans: "own_answer s k env" if "env \<in> set (fst (co_chan c' k))" for k env
  proof -
    have old: "\<forall>env\<in>set (fst (co_chan (sy_conn s) k)). own_answer s k env" using ok by (simp add: answers_ok_def)
    show ?thesis
      using that *(2) a old
      by (cases a) (auto simp: record_exit_def lookup_pending_def answer_def sendFromReader_def
          split: prod.splits sum.splits if_splits)
  qed
  show ?thesis
    unfolding answers_ok_def *(3,4)
  proof (intro conjI)
    show "\<forall>p\<in>set (co_pending c'). fst p = wire_id (snd p)" using pend pend' by blast
    show "\<forall>a\<in>set (new @ rest). carries t a"
      using new ok *(1) carries_mono [OF grows] by (auto simp: answers_ok_def)
    show "\<forall>k. \<forall>env\<in>set (fst (co_chan c' k)). own_answer t k env" using chans own_answer_mono [OF grows] by blast
    show "\<forall>k. phase_ok E t k (sy_calls t k)" using ok frame phase_ok_mono [OF grows] by (simp add: answers_ok_def)
    show "\<forall>k e. sy_ctx t k = Some e \<longrightarrow> ctx_error e" using ok frame by (simp add: answers_ok_def)
  qed
qed

lemma answers_ok_call:
  assumes go: "call_go E k br s = Some t" and ok: "answers_ok E s" and reasons: "reasons_ok s"
  shows "answers_ok E t"
proof -
  obtain c pc where call: "call E (sy_ctx s k) br k (sy_calls s k) (sy_conn s) = Some (c, pc)"
    and t: "t = s\<lparr>sy_conn := c, sy_calls := (sy_calls s)(k := pc)\<rparr>"
    using go by (auto simp: call_go_def)
  have grows: "grows s t" using call_flags [OF call] by (auto simp: t intro: grows_same)
  note tables = call_tables [OF call]
  have "\<forall>a\<in>set (todo_of (sy_reader t)). carries t a"
    using ok carries_mono [OF grows] by (simp add: answers_ok_def t)
  moreover have "\<forall>j. \<forall>env\<in>set (fst (co_chan c j)). own_answer t j env"
    using ok tables own_answer_mono [OF grows] unfolding answers_ok_def by blast
  moreover have "phase_ok E t j (sy_calls t j)" for j
    using call_own_step [OF call ok reasons] phase_ok_mono [OF grows] ok by (simp add: t answers_ok_def)
  moreover have "\<forall>p\<in>set (co_pending c). fst p = wire_id (snd p)"
    using ok tables unfolding answers_ok_def by fastforce
  ultimately show ?thesis using ok unfolding answers_ok_def by (simp add: t)
qed

lemma answers_ok_step:
  assumes "step E ev s = Some t" and "answers_ok E s" and "kinds_ok s" and "reasons_ok s"
  shows "answers_ok E t"
proof (cases ev)
  case ReaderGo
  then show ?thesis using assms answers_ok_reader by simp
next
  case (CallGo k br)
  then show ?thesis using assms answers_ok_call by simp
next
  case (MapOrder ps hs)
  then show ?thesis using assms step_grows [OF assms(1,3)]
    by (intro answers_ok_frame [OF assms(2)]) (auto simp: on_conn_def split: if_splits dest: mset_eq_setD)
next
  case WriterGo
  then show ?thesis using assms writer_go_todo [of E s t] writer_act_Goes step_grows [OF assms(1,3)]
    by (intro answers_ok_frame [OF assms(2)]) fastforce+
next
  case CloserGo
  then show ?thesis using assms closer_go_todo [of E s t] closer_act_Goes step_grows [OF assms(1,3)]
    by (intro answers_ok_frame [OF assms(2)]) fastforce+
next
  case (NoteGo n br)
  then obtain c pc where ntf: "notify E (sy_notectx s n) br (sy_notes s n) (sy_conn s) = Some (c, pc)"
    and t: "t = s\<lparr>sy_conn := c, sy_notes := (sy_notes s)(n := pc)\<rparr>"
    using assms(1) by (auto simp: note_go_def)
  have "co_pending c = co_pending (sy_conn s) \<and> co_chan c = co_chan (sy_conn s)"
    using ntf send_frame by (fastforce simp: notify_def split: notepc.splits sendpc.splits)
  then show ?thesis using step_grows [OF assms(1,3)] by (intro answers_ok_frame [OF assms(2)]) (simp_all add: t)
next
  case (Scanned sc)
  then show ?thesis using assms(1) step_grows [OF assms(1,3)]
    by (intro answers_ok_frame [OF assms(2)])
      (auto simp: reader_scan_def read_line_def dispatch_def end_of_read_def shutdown_def split: if_splits scan.splits
        option.splits)
qed (rule answers_ok_frame [OF assms(2) step_grows [OF assms(1,3)]];
  use assms(1) in \<open>auto simp: move_defs split: if_splits option.splits writer.splits list.splits
    closer.splits action.splits\<close>)+

section \<open>What is sent\<close>

text \<open>A reply carries the id of a message that was decoded from a line.\<close>

definition from_world :: "world \<Rightarrow> outmsg \<Rightarrow> bool" where
  "from_world E msg \<longleftrightarrow>
     (case msg of OutReply raw r \<Rightarrow> (\<exists>line env. wo_line E line = Some env \<and> ev_ID env = raw \<and> raw \<noteq> []) | _ \<Rightarrow> True)"

definition encoded :: "world \<Rightarrow> string \<Rightarrow> bool" where
  "encoded E line \<longleftrightarrow> (\<exists>msg. from_world E msg \<and> encodeLine E msg = Ok line)"

fun vouched :: "world \<Rightarrow> action \<Rightarrow> bool" where
  "vouched E (AnswerRequest env) = (ev_ID env \<noteq> [] \<and> (\<exists>line. wo_line E line = Some env))"
| "vouched E (SendFromReader msg) = from_world E msg"
| "vouched E a = True"

fun sending_ok :: "world \<Rightarrow> sendpc \<Rightarrow> bool" where
  "sending_ok E (SendCheck data) = encoded E data"
| "sending_ok E (SendSelect data) = encoded E data"
| "sending_ok E (SendEncode msg) = from_world E msg"
| "sending_ok E pc = True"

definition lines_ok :: "world \<Rightarrow> sys \<Rightarrow> bool" where
  "lines_ok E s \<longleftrightarrow>
     list_all (encoded E) (co_outbox (sy_conn s)) \<and> length (co_outbox (sy_conn s)) \<le> outboxSize \<and>
     (\<forall>a\<in>set (todo_of (sy_reader s)). vouched E a) \<and>
     list_all (encoded E) (sy_written s) \<and> (\<forall>data. sy_writer s = Writing data \<longrightarrow> encoded E data) \<and>
     (\<forall>k m pc. sy_calls s k = CallSending m pc \<longrightarrow> sending_ok E pc) \<and>
     (\<forall>n m pc. sy_notes s n = NoteSending m pc \<longrightarrow> sending_ok E pc)"

lemma encoded_bounds:
  assumes "encoded E line"
  shows "length line \<le> MaxMessageSize \<and> line \<noteq> [] \<and> last line = CHR 0x0A"
proof -
  obtain msg where "encodeLine E msg = Ok line" using assms by (auto simp: encoded_def)
  then obtain data where "length data + 1 \<le> MaxMessageSize" "line = data @ [CHR 0x0A]"
    by (fastforce simp: encodeLine_def not_less split: sum.splits if_splits)
  then show ?thesis by simp
qed

lemma send_lines:
  assumes "send E ctx br pc c = Some (c', pc')" and "sending_ok E pc" and "list_all (encoded E) (co_outbox c)"
    and "length (co_outbox c) \<le> outboxSize"
  shows "sending_ok E pc' \<and> list_all (encoded E) (co_outbox c') \<and> length (co_outbox c') \<le> outboxSize"
  using assms by (auto simp: send_def encoded_def split: sendpc.splits sum.splits branch.splits option.splits if_splits)

lemma act_lines:
  assumes "act E a c = Goes (c', new)" and "list_all (encoded E) (co_outbox c)" and "length (co_outbox c) \<le> outboxSize"
    and "vouched E a"
  shows "list_all (encoded E) (co_outbox c') \<and> length (co_outbox c') \<le> outboxSize \<and> (\<forall>b\<in>set new. vouched E b)"
  using assms by (cases a; auto simp: record_exit_def lookup_pending_def answer_def sendFromReader_def encoded_def terminate_def
      from_world_def split: prod.splits sum.splits if_splits option.splits; blast)

lemma lines_ok_conn:
  assumes "lines_ok E s" and "list_all (encoded E) (co_outbox (sy_conn t))" and "length (co_outbox (sy_conn t)) \<le> outboxSize"
    and "sy_written t = sy_written s" and "\<And>data. sy_writer t = Writing data \<Longrightarrow> sy_writer s = Writing data"
    and "sy_calls t = sy_calls s" and "sy_notes t = sy_notes s" and "\<forall>a\<in>set (todo_of (sy_reader t)). vouched E a"
  shows "lines_ok E t"
  using assms by (simp add: lines_ok_def)

lemma lines_okD:
  assumes "lines_ok E s"
  shows "list_all (encoded E) (co_outbox (sy_conn s))" and "length (co_outbox (sy_conn s)) \<le> outboxSize"
    and "\<forall>a\<in>set (todo_of (sy_reader s)). vouched E a"
  using assms by (simp_all add: lines_ok_def)

lemma call_lines:
  assumes "call E ctx br k pc c = Some (c', pc')" and "\<And>m sp. pc = CallSending m sp \<Longrightarrow> sending_ok E sp"
    and "list_all (encoded E) (co_outbox c)" and "length (co_outbox c) \<le> outboxSize"
  shows "(\<forall>m sp. pc' = CallSending m sp \<longrightarrow> sending_ok E sp) \<and>
    list_all (encoded E) (co_outbox c') \<and> length (co_outbox c') \<le> outboxSize"
proof (cases pc)
  case (CallSending meth sp)
  with assms send_lines [of E ctx br sp c c'] show ?thesis
    by (auto simp: call_def split: sendpc.splits option.splits)
next
  case (CallWaiting meth)
  with assms show ?thesis
    by (auto simp: call_def call_wait_def split: branch.splits prod.splits list.splits bool.splits option.splits if_splits)
qed (use assms in \<open>auto simp: call_def from_world_def\<close>)

lemma notify_lines:
  assumes "notify E ctx br pc c = Some (c', pc')" and "\<And>m sp. pc = NoteSending m sp \<Longrightarrow> sending_ok E sp"
    and "list_all (encoded E) (co_outbox c)" and "length (co_outbox c) \<le> outboxSize"
  shows "(\<forall>m sp. pc' = NoteSending m sp \<longrightarrow> sending_ok E sp) \<and>
    list_all (encoded E) (co_outbox c') \<and> length (co_outbox c') \<le> outboxSize"
  using assms send_lines [of E ctx br _ c c'] by (auto simp: notify_def split: notepc.splits sendpc.splits option.splits)

lemma lines_ok_step:
  assumes "step E ev s = Some t" and ok: "lines_ok E s" and "kinds_ok s"
  shows "lines_ok E t"
proof (cases ev)
  case ReaderGo
  then have go: "reader_go E s = Some t" using assms(1) by simp
  obtain a rest c' new where *: "todo_of (sy_reader s) = a # rest" "act E a (sy_conn s) = Goes (c', new)"
      "sy_conn t = c'" "todo_of (sy_reader t) = new @ rest"
    using reader_go_todo [OF go] by blast
  have "vouched E a" "\<forall>b\<in>set rest. vouched E b" using lines_okD(3) [OF ok] *(1) by simp_all
  then show ?thesis using act_lines [OF *(2)] lines_okD [OF ok] reader_go_frame [OF go] *(3,4)
    by (intro lines_ok_conn [OF ok]) auto
next
  case WriterGo
  then show ?thesis using assms writer_go_todo [of E s t] writer_act_Goes lines_okD [OF ok]
    by (intro lines_ok_conn [OF ok]) fastforce+
next
  case CloserGo
  then show ?thesis using assms closer_go_todo [of E s t] closer_act_Goes lines_okD [OF ok]
    by (intro lines_ok_conn [OF ok]) fastforce+
next
  case (CallGo k br)
  then obtain c pc where call: "call E (sy_ctx s k) br k (sy_calls s k) (sy_conn s) = Some (c, pc)"
    and t: "t = s\<lparr>sy_conn := c, sy_calls := (sy_calls s)(k := pc)\<rparr>"
    using assms(1) by (auto simp: call_go_def)
  have "(\<forall>m sp. pc = CallSending m sp \<longrightarrow> sending_ok E sp) \<and>
    list_all (encoded E) (co_outbox c) \<and> length (co_outbox c) \<le> outboxSize"
    using ok by (intro call_lines [OF call]) (auto simp: lines_ok_def)
  then show ?thesis using ok by (auto simp: lines_ok_def t)
next
  case (NoteGo n br)
  then obtain c pc where ntf: "notify E (sy_notectx s n) br (sy_notes s n) (sy_conn s) = Some (c, pc)"
    and t: "t = s\<lparr>sy_conn := c, sy_notes := (sy_notes s)(n := pc)\<rparr>"
    using assms(1) by (auto simp: note_go_def)
  have "(\<forall>m sp. pc = NoteSending m sp \<longrightarrow> sending_ok E sp) \<and>
    list_all (encoded E) (co_outbox c) \<and> length (co_outbox c) \<le> outboxSize"
    using ok by (intro notify_lines [OF ntf]) (auto simp: lines_ok_def)
  then show ?thesis using ok by (auto simp: lines_ok_def t)
next
  case (Scanned sc)
  then show ?thesis using assms(1) ok
    by (auto simp: lines_ok_def reader_scan_def read_line_def dispatch_def end_of_read_def shutdown_def
        split: if_splits scan.splits option.splits)
qed (use assms(1) ok in \<open>auto simp: lines_ok_def move_defs from_world_def split: if_splits scan.splits option.splits writer.splits
    list.splits closer.splits action.splits\<close>)

text \<open>The reader does not end without stopping the writer.\<close>

definition stops_ok :: "sys \<Rightarrow> bool" where
  "stops_ok s \<longleftrightarrow> (\<forall>as. sy_reader s = Ending as \<longrightarrow> CloseStop \<in> set as \<or> co_stopWriter (sy_conn s))"

lemma act_stop: "act E a c = Goes (c', new) \<Longrightarrow> (co_stopWriter c \<or> a = CloseStop) \<Longrightarrow> co_stopWriter c'"
  by (cases a) (auto simp: record_exit_def lookup_pending_def answer_def sendFromReader_def
      split: prod.splits sum.splits if_splits)

lemma stops_ok_step:
  assumes "step E ev s = Some t" and ok: "stops_ok s" and "kinds_ok s"
  shows "stops_ok t"
proof (cases ev)
  case ReaderGo
  then show ?thesis using assms(1) ok
    by (auto simp: stops_ok_def reader_go_def run_action_Some dest: act_stop split: reader.splits)
next
  case WriterGo
  then show ?thesis using assms writer_go_todo [of E s t] by (auto simp: stops_ok_def dest: act_stop)
next
  case CloserGo
  then show ?thesis using assms closer_go_todo [of E s t] by (auto simp: stops_ok_def dest: act_stop)
next
  case (CallGo k br)
  then show ?thesis using assms(1) ok call_flags by (fastforce simp: stops_ok_def call_go_def)
next
  case (NoteGo n br)
  then show ?thesis using assms(1) ok notify_flags by (fastforce simp: stops_ok_def note_go_def)
next
  case (Scanned sc)
  then show ?thesis using assms(1) ok
    by (auto simp: stops_ok_def reader_scan_def read_line_def end_of_read_def shutdown_def
        split: if_splits scan.splits option.splits)
qed (use assms(1) ok in \<open>auto simp: stops_ok_def move_defs split: if_splits option.splits writer.splits
    list.splits closer.splits action.splits\<close>)

section \<open>Reachable states\<close>

definition conn_ok :: "world \<Rightarrow> sys \<Rightarrow> bool" where
  "conn_ok E s \<longleftrightarrow> kinds_ok s \<and> chans_ok s \<and> flags_ok s \<and> reasons_ok s \<and> answers_ok E s \<and> lines_ok E s \<and>
     stops_ok s"

lemma conn_ok_spawned: "conn_ok E spawned"
  by (simp add: conn_ok_def kinds_ok_def chans_ok_def flags_ok_def reasons_ok_def answers_ok_def lines_ok_def
      stops_ok_def live_def downs_def spawned_def new_conn_def owner_closed_def Let_def)

lemma conn_ok_step: "step E ev s = Some t \<Longrightarrow> conn_ok E s \<Longrightarrow> conn_ok E t"
  unfolding conn_ok_def
  by (intro conjI) (auto elim: kinds_ok_step chans_ok_step flags_ok_step reasons_ok_step answers_ok_step lines_ok_step
      stops_ok_step)

lemma conn_ok_reachable: "reachable E s \<Longrightarrow> conn_ok E s"
  by (induction rule: reachable.induct) (blast intro: conn_ok_spawned conn_ok_step)+

lemma conn_ok_run: "conn_ok E s \<Longrightarrow> run E evs s = Some t \<Longrightarrow> conn_ok E t"
  by (induction evs arbitrary: s) (auto split: option.splits dest: conn_ok_step)

lemma wire_id_inj: "wire_id j = wire_id k \<Longrightarrow> j < 2 ^ 63 - 1 \<Longrightarrow> k < 2 ^ 63 - 1 \<Longrightarrow> j = k"
  by (simp add: wire_id_def MinInt_def MaxInt_def)

section \<open>No goroutine is stuck\<close>

lemma reader_head:
  assumes "conn_ok E s" and "todo_of (sy_reader s) = a # rest"
  shows "act E a (sy_conn s) \<noteq> Panic \<and> (act E a (sy_conn s) = Waits \<longrightarrow> a = ProcessWait \<and> \<not> co_exited (sy_conn s) \<and> co_closed (sy_conn s))"
proof -
  have chans: "\<And>k. k \<in> set (target a) \<Longrightarrow> co_chan (sy_conn s) k = ([], False)"
    using assms by (simp add: conn_ok_def chans_ok_def live_def)
  have flags: "reader_flags (co_closed (sy_conn s)) (co_reaped (sy_conn s)) (co_waitDone (sy_conn s)) (sy_reader s)"
    using assms by (simp add: conn_ok_def flags_ok_def Let_def)
  show ?thesis
  proof (cases "sy_reader s")
    case (Scanning as)
    with assms(2) flags chans show ?thesis by (cases a) simp_all
  next
    case (Ending as)
    with assms(2) flags chans show ?thesis by (cases a) auto
  qed
qed

lemma writer_head:
  assumes "conn_ok E s" and "sy_writer s = Stopping (a # rest)"
  shows "\<exists>c'. act E a (sy_conn s) = Goes (c', [])"
proof -
  have "stopping (co_writerDone (sy_conn s)) (a # rest)" using assms by (simp add: conn_ok_def flags_ok_def Let_def)
  then show ?thesis by (cases a) auto
qed

lemma closer_head:
  assumes "conn_ok E s" and "sy_closer s = ClosingActs (a # rest)"
  shows "act E a (sy_conn s) \<noteq> Panic"
  using assms by (cases a) (auto simp: conn_ok_def kinds_ok_def)

text \<open>
  C25. Whatever the child sends and however the goroutines interleave, no goroutine of the
  connection panics: the reader never sends on a closed channel or closes one twice. And the
  reader never waits for a caller, only for the child's exit once every call has been told
  the connection is closed; nor does the writer, once it is stopping.
\<close>

theorem connection_never_stuck:
  assumes "reachable E s"
  shows "(\<forall>a rest. todo_of (sy_reader s) = a # rest \<longrightarrow>
      act E a (sy_conn s) \<noteq> Panic \<and>
      (act E a (sy_conn s) = Waits \<longrightarrow> a = ProcessWait \<and> \<not> co_exited (sy_conn s) \<and> co_closed (sy_conn s))) \<and>
    (\<forall>a rest. sy_writer s = Stopping (a # rest) \<longrightarrow> (\<exists>c'. act E a (sy_conn s) = Goes (c', []))) \<and>
    (\<forall>a rest. sy_closer s = ClosingActs (a # rest) \<longrightarrow> act E a (sy_conn s) \<noteq> Panic)"
proof -
  note ok = conn_ok_reachable [OF assms]
  show ?thesis using reader_head [OF ok] writer_head [OF ok] closer_head [OF ok] by blast
qed

section \<open>The result of a call\<close>

text \<open>
  C28. A call that returns without an error returns the result of a response that the reader
  read, that carries no method, no error and the call's own id; and two calls have different
  ids as long as the 64-bit counter has not wrapped around.
\<close>

theorem call_gets_own_response:
  assumes "reachable E s" and "sy_calls s k = CallDone (Ok txt)"
  shows "(\<exists>env\<in>set (sy_read s). id_value (ev_ID env) = Some (wire_id k) \<and> ev_Method env = [] \<and> ev_Error env = None \<and>
      ev_Result env = txt) \<and>
    (\<forall>j. j \<noteq> k \<and> j < 2 ^ 63 - 1 \<and> k < 2 ^ 63 - 1 \<longrightarrow> wire_id j \<noteq> wire_id k)"
proof -
  have "phase_ok E s k (CallDone (Ok txt))"
    using conn_ok_reachable [OF assms(1)] assms(2) unfolding conn_ok_def answers_ok_def by metis
  then obtain meth env where "own_answer s k env" "Ok txt = call_result E meth env" by (auto simp: result_ok_def)
  then have "\<exists>env\<in>set (sy_read s). id_value (ev_ID env) = Some (wire_id k) \<and> ev_Method env = [] \<and> ev_Error env = None \<and>
    ev_Result env = txt"
    by (auto simp: own_answer_def call_result_def split: option.splits if_splits)
  then show ?thesis using wire_id_inj by blast
qed


section \<open>The end of the connection\<close>

lemma ended_flags: "ending cl re True as \<Longrightarrow> as = [] \<and> cl \<and> re"
  by (cases as rule: list.exhaust) (auto elim: ending.elims)

lemma stopped_flags: "stopping True as \<Longrightarrow> as = []"
  by (auto elim: stopping.elims)

lemma reader_ended: "reader_flags cl re True r \<Longrightarrow> r = Ending [] \<and> cl \<and> re"
  by (cases r) (auto dest: ended_flags)

lemma writer_ended: "writer_flag True w \<Longrightarrow> w = Stopping []"
  by (cases w) (auto dest: stopped_flags)

text \<open>
  C27. When the owner's close has returned nothing is left of the connection: the child is
  reaped, the reader and the writer have ended, and closed, which wakes every call that is
  still waiting, is closed.
\<close>

theorem close_leaves_nothing:
  assumes "reachable E s" and "sy_closer s = ClosingActs []"
  shows "sy_reader s = Ending [] \<and> sy_writer s = Stopping [] \<and> co_reaped (sy_conn s) \<and> co_exitErr (sy_conn s) \<noteq> None \<and>
    (\<forall>k meth. sy_calls s k = CallWaiting meth \<longrightarrow> step E (CallGo k OnClosed) s \<noteq> None)"
proof -
  let ?c = "sy_conn s"
  have ok: "flags_ok s" "downs (owner_closed s) ?c"
    using conn_ok_reachable [OF assms(1)] reasons_okD(3) by (simp_all add: conn_ok_def)
  then have fin: "co_waitDone ?c" "co_writerDone ?c" using assms(2) by (simp_all add: flags_ok_def Let_def)
  then have "reader_flags (co_closed ?c) (co_reaped ?c) True (sy_reader s)" "writer_flag True (sy_writer s)"
    using ok by (simp_all add: flags_ok_def Let_def)
  then have "sy_reader s = Ending []" "co_closed ?c" "co_reaped ?c" "sy_writer s = Stopping []"
    using reader_ended writer_ended by blast+
  then show ?thesis using ok(2) by (simp add: downs_def call_go_def call_def call_wait_def)
qed

section \<open>Everything can end\<close>

text \<open>How many actions of the reader an action can lead to.\<close>

fun cost :: "conn \<Rightarrow> action \<Rightarrow> nat" where
  "cost c (TakePending e) = 1 + length (co_pending c)"
| "cost c (Snapshot m p) = 1 + length (co_handlers c)"
| "cost c (Lookup i env) = 2"
| "cost c (AnswerRequest env) = 5"
| "cost c (SendFromReader msg) = 4"
| "cost c a = 1"

definition total :: "conn \<Rightarrow> action list \<Rightarrow> nat" where
  "total c as = sum_list (map (cost c) as)"

lemma total_simps [simp]: "total c [] = 0" "total c (a # as) = cost c a + total c as" "total c (as @ bs) = total c as + total c bs"
  by (simp_all add: total_def)

lemma total_singles: "total c (map (\<lambda>x. CloseChan (f x)) xs) = length xs" "total c (map (\<lambda>x. CallHandler x m p) hs) = length hs"
  by ((induction xs; simp), (induction hs; simp))

lemma cost_pos: "0 < cost c a"
  by (cases a) auto

lemma cost_mono: "length (co_pending c') \<le> length (co_pending c) \<Longrightarrow> co_handlers c' = co_handlers c \<Longrightarrow> cost c' a \<le> cost c a"
  by (cases a) auto

lemma total_mono: "length (co_pending c') \<le> length (co_pending c) \<Longrightarrow> co_handlers c' = co_handlers c \<Longrightarrow> total c' as \<le> total c as"
  by (induction as) (auto intro: add_mono cost_mono)

lemma act_shrinks:
  assumes "act E a c = Goes (c', new)"
  shows "total c' (new @ rest) < total c (a # rest) \<and> (co_exited c \<longrightarrow> co_exited c')"
proof -
  have "length (co_pending c') \<le> length (co_pending c) \<and> co_handlers c' = co_handlers c \<and> (co_exited c \<longrightarrow> co_exited c')"
    using assms by (cases a) (auto simp: record_exit_def lookup_pending_def answer_def sendFromReader_def AList.delete_eq
        split: prod.splits sum.splits if_splits)
  moreover have "total c' new < cost c a"
    using assms by (cases a) (auto simp: lookup_pending_def answer_def sendFromReader_def terminate_def total_singles
        split: prod.splits sum.splits if_splits option.splits)
  ultimately show ?thesis using total_mono [of c' c rest] by auto
qed

lemma run_append: "run E evs s = Some t \<Longrightarrow> run E (evs @ evs') s = run E evs' t"
  by (induction evs arbitrary: s) (auto split: option.splits)

lemma run_one: "step E ev s = Some t \<Longrightarrow> run E [ev] s = Some t"
  by simp

fun scanning :: "reader \<Rightarrow> bool" where
  "scanning (Scanning as) = True"
| "scanning (Ending as) = False"

lemma reader_drains:
  assumes "conn_ok E s" and "co_exited (sy_conn s)"
  shows "\<exists>n t. run E (replicate n ReaderGo) s = Some t \<and> todo_of (sy_reader t) = [] \<and> co_exited (sy_conn t) \<and>
    (scanning (sy_reader t) \<longleftrightarrow> scanning (sy_reader s)) \<and> sy_writer t = sy_writer s \<and> sy_calls t = sy_calls s \<and>
    sy_closer t = sy_closer s"
  using assms
proof (induction "total (sy_conn s) (todo_of (sy_reader s))" arbitrary: s rule: less_induct)
  case less
  show ?case
  proof (cases "todo_of (sy_reader s)")
    case Nil
    then have "run E (replicate 0 ReaderGo) s = Some s" by simp
    with Nil less.prems show ?thesis by blast
  next
    case (Cons a rest)
    obtain c' new where act: "act E a (sy_conn s) = Goes (c', new)"
      using reader_head [OF less.prems(1) Cons] less.prems(2) by (cases "act E a (sy_conn s)") auto
    define s' where "s' = s\<lparr>sy_conn := c', sy_reader :=
      (case sy_reader s of Scanning _ \<Rightarrow> Scanning (new @ rest) | Ending _ \<Rightarrow> Ending (new @ rest))\<rparr>"
    have go: "step E ReaderGo s = Some s'"
      using Cons act by (cases "sy_reader s") (auto simp: reader_go_def run_action_def s'_def)
    have s': "sy_conn s' = c'" "todo_of (sy_reader s') = new @ rest" "scanning (sy_reader s') \<longleftrightarrow> scanning (sy_reader s)"
        "sy_writer s' = sy_writer s" "sy_calls s' = sy_calls s" "sy_closer s' = sy_closer s"
      by (cases "sy_reader s"; simp add: s'_def)+
    have "total (sy_conn s') (todo_of (sy_reader s')) < total (sy_conn s) (todo_of (sy_reader s))" "co_exited (sy_conn s')"
      using act_shrinks [OF act, of rest] less.prems(2) Cons s' by simp_all
    from less.hyps [OF this(1) conn_ok_step [OF go less.prems(1)] this(2)] obtain n t where
      "run E (replicate n ReaderGo) s' = Some t \<and> todo_of (sy_reader t) = [] \<and> co_exited (sy_conn t) \<and>
      (scanning (sy_reader t) \<longleftrightarrow> scanning (sy_reader s')) \<and> sy_writer t = sy_writer s' \<and> sy_calls t = sy_calls s' \<and>
      sy_closer t = sy_closer s'" by blast
    moreover have "run E (replicate (Suc n) ReaderGo) s = run E (replicate n ReaderGo) s'" using go by simp
    ultimately show ?thesis using s' by metis
  qed
qed

lemma writer_drains:
  assumes "conn_ok E s" and "sy_writer s = Stopping as"
  shows "\<exists>n t. run E (replicate n WriterGo) s = Some t \<and> sy_writer t = Stopping [] \<and> sy_reader t = sy_reader s \<and>
    sy_calls t = sy_calls s \<and> sy_closer t = sy_closer s"
  using assms
proof (induction as arbitrary: s)
  case Nil
  then have "run E (replicate 0 WriterGo) s = Some s" by simp
  with Nil show ?case by blast
next
  case (Cons a rest)
  obtain c' where act: "act E a (sy_conn s) = Goes (c', [])" using writer_head [OF Cons.prems] by blast
  define s' where "s' = s\<lparr>sy_conn := c', sy_writer := Stopping rest\<rparr>"
  have go: "step E WriterGo s = Some s'" using Cons.prems(2) act by (simp add: writer_go_def run_action_def s'_def)
  obtain n t where "run E (replicate n WriterGo) s' = Some t \<and> sy_writer t = Stopping [] \<and> sy_reader t = sy_reader s' \<and>
      sy_calls t = sy_calls s' \<and> sy_closer t = sy_closer s'"
    using Cons.IH [OF conn_ok_step [OF go Cons.prems(1)]] by (auto simp: s'_def)
  moreover have "run E (replicate (Suc n) WriterGo) s = run E (replicate n WriterGo) s'" using go by simp
  ultimately show ?case unfolding s'_def by (metis sys.select_convs(2,4,8) sys.surjective sys.update_convs(1,3))
qed

text \<open>A call that has been told, or can see, that the connection is closed: one more of its own steps, and another.\<close>

fun left :: "callpc \<Rightarrow> nat" where
  "left (CallRegister m p) = 7"
| "left (CallSending m (SendEncode msg)) = 6"
| "left (CallSending m (SendCheck data)) = 5"
| "left (CallSending m (SendSelect data)) = 5"
| "left (CallSending m SendClosed) = 4"
| "left (CallSending m (SendResult r)) = 3"
| "left (CallWaiting m) = 2"
| "left (CallDrop m e) = 1"
| "left (CallClosed m) = 1"
| "left CallIdle = 0"
| "left (CallDone r) = 0"

lemma closed_call_steps:
  assumes "co_closed c" and "0 < left pc"
  shows "\<exists>c' pc'. call E ctx OnClosed k pc c = Some (c', pc') \<and> left pc' < left pc \<and> co_closed c' \<and> pc' \<noteq> CallIdle"
proof (cases pc)
  case (CallSending meth sp)
  then show ?thesis using assms
    by (cases sp) (auto simp: call_def send_def is_down_def split: option.splits sum.splits)
qed (use assms in \<open>auto simp: call_def call_wait_def\<close>)

lemma call_finishes:
  assumes "co_closed (sy_conn s)" and "sy_calls s k \<noteq> CallIdle"
  shows "\<exists>n t r. run E (replicate n (CallGo k OnClosed)) s = Some t \<and> n \<le> left (sy_calls s k) \<and> sy_calls t k = CallDone r \<and>
    sy_reader t = sy_reader s \<and> sy_writer t = sy_writer s \<and> sy_closer t = sy_closer s"
  using assms
proof (induction "left (sy_calls s k)" arbitrary: s rule: less_induct)
  case less
  show ?case
  proof (cases "left (sy_calls s k) = 0")
    case True
    then obtain r where "sy_calls s k = CallDone r" using less.prems(2) by (cases "sy_calls s k" rule: left.cases) auto
    moreover have "run E (replicate 0 (CallGo k OnClosed)) s = Some s" by simp
    ultimately show ?thesis by blast
  next
    case False
    then obtain c' pc' where call: "call E (sy_ctx s k) OnClosed k (sy_calls s k) (sy_conn s) = Some (c', pc')"
      and lt: "left pc' < left (sy_calls s k)" "co_closed c'" "pc' \<noteq> CallIdle"
      using closed_call_steps [OF less.prems(1)] by blast
    define s' where "s' = s\<lparr>sy_conn := c', sy_calls := (sy_calls s)(k := pc')\<rparr>"
    have go: "step E (CallGo k OnClosed) s = Some s'" using call by (simp add: call_go_def s'_def)
    obtain n t r where "run E (replicate n (CallGo k OnClosed)) s' = Some t" "n \<le> left (sy_calls s' k)"
        "sy_calls t k = CallDone r" "sy_reader t = sy_reader s'" "sy_writer t = sy_writer s'" "sy_closer t = sy_closer s'"
      using less.hyps [of s'] lt by (auto simp: s'_def)
    moreover have "run E (replicate (Suc n) (CallGo k OnClosed)) s = run E (replicate n (CallGo k OnClosed)) s'"
      using go by simp
    moreover have "sy_calls s' k = pc'" "sy_reader s' = sy_reader s" "sy_writer s' = sy_writer s" "sy_closer s' = sy_closer s"
      by (simp_all add: s'_def)
    ultimately show ?thesis using lt(1) by (metis Suc_leI le_trans Suc_le_mono)
  qed
qed

lemma closer_drains:
  assumes "conn_ok E s" and "sy_closer s = ClosingActs as" and "co_waitDone (sy_conn s)" and "co_writerDone (sy_conn s)"
  shows "\<exists>n t. run E (replicate n CloserGo) s = Some t \<and> sy_closer t = ClosingActs [] \<and> sy_reader t = sy_reader s \<and>
    sy_writer t = sy_writer s \<and> sy_calls t = sy_calls s"
  using assms
proof (induction as arbitrary: s)
  case Nil
  then have "run E (replicate 0 CloserGo) s = Some s" by simp
  with Nil show ?case by blast
next
  case (Cons a rest)
  have "closer_act a" using Cons.prems(1,2) by (simp add: conn_ok_def kinds_ok_def)
  then obtain c' where act: "act E a (sy_conn s) = Goes (c', [])" and c': "co_waitDone c'" "co_writerDone c'"
    using Cons.prems(3,4) by (cases a) auto
  define s' where "s' = s\<lparr>sy_conn := c', sy_closer := ClosingActs rest\<rparr>"
  have go: "step E CloserGo s = Some s'" using Cons.prems(2) act by (simp add: closer_go_def run_action_def s'_def)
  obtain n t where "run E (replicate n CloserGo) s' = Some t \<and> sy_closer t = ClosingActs [] \<and> sy_reader t = sy_reader s' \<and>
      sy_writer t = sy_writer s' \<and> sy_calls t = sy_calls s'"
    using Cons.IH [OF conn_ok_step [OF go Cons.prems(1)]] c' by (auto simp: s'_def)
  moreover have "run E (replicate (Suc n) CloserGo) s = run E (replicate n CloserGo) s'" using go by simp
  moreover have "sy_reader s' = sy_reader s" "sy_writer s' = sy_writer s" "sy_calls s' = sy_calls s"
    by (simp_all add: s'_def)
  ultimately show ?case by metis
qed

lemma reader_ends:
  assumes "conn_ok E s" and "co_exited (sy_conn s)"
  shows "\<exists>evs t. run E evs s = Some t \<and> set evs \<subseteq> {ReaderGo, Scanned ScanEOF} \<and>
    sy_reader t = Ending [] \<and> sy_writer t = sy_writer s \<and> sy_calls t = sy_calls s \<and> sy_closer t = sy_closer s"
proof -
  obtain n s1 where 1: "run E (replicate n ReaderGo) s = Some s1" "todo_of (sy_reader s1) = []" "co_exited (sy_conn s1)"
      "sy_writer s1 = sy_writer s" "sy_calls s1 = sy_calls s" "sy_closer s1 = sy_closer s"
    using reader_drains [OF assms] by blast
  show ?thesis
  proof (cases "sy_reader s1")
    case (Ending as)
    with 1 show ?thesis by (intro exI [of _ "replicate n ReaderGo"] exI [of _ s1]) auto
  next
    case (Scanning as)
    define s2 where "s2 = s1\<lparr>sy_reader := Ending (end_of_read (scan_err ScanEOF))\<rparr>"
    have scan: "step E (Scanned ScanEOF) s1 = Some s2" using 1(2) Scanning by (simp add: reader_scan_def s2_def)
    have "conn_ok E s2" using conn_ok_step [OF scan conn_ok_run [OF assms(1) 1(1)]] .
    moreover have "co_exited (sy_conn s2)" using 1(3) by (simp add: s2_def)
    ultimately obtain m t where 2: "run E (replicate m ReaderGo) s2 = Some t" "todo_of (sy_reader t) = []"
        "\<not> scanning (sy_reader t)" "sy_writer t = sy_writer s2" "sy_calls t = sy_calls s2" "sy_closer t = sy_closer s2"
      using reader_drains [of E s2] by (auto simp: s2_def)
    have "sy_reader t = Ending []" using 2(2,3) by (cases "sy_reader t") auto
    moreover have "run E (replicate n ReaderGo @ Scanned ScanEOF # replicate m ReaderGo) s = Some t"
      using run_append [OF 1(1)] scan 2(1) by simp
    ultimately show ?thesis using 1 2
      by (intro exI [of _ "replicate n ReaderGo @ Scanned ScanEOF # replicate m ReaderGo"] exI [of _ t]) (auto simp: s2_def)
  qed
qed

lemma writer_ends:
  assumes "conn_ok E s" and "co_stopWriter (sy_conn s)"
  shows "\<exists>evs t. run E evs s = Some t \<and> set evs \<subseteq> {WriterStop, Wrote (Some e), WriterGo} \<and> sy_writer t = Stopping [] \<and>
    sy_reader t = sy_reader s \<and> sy_calls t = sy_calls s \<and> sy_closer t = sy_closer s"
proof -
  have "\<exists>ev as s1. (sy_writer s = Stopping as \<and> s1 = s \<or> step E ev s = Some s1 \<and> ev \<in> {WriterStop, Wrote (Some e)}) \<and>
      sy_writer s1 = Stopping as \<and> sy_reader s1 = sy_reader s \<and> sy_calls s1 = sy_calls s \<and> sy_closer s1 = sy_closer s"
  proof (cases "sy_writer s")
    case Looping
    then have "step E WriterStop s = Some (s\<lparr>sy_writer := Stopping [CloseWriterDone]\<rparr>)"
      using assms(2) by (simp add: writer_stop_def)
    then show ?thesis
      by (intro exI [of _ WriterStop] exI [of _ "[CloseWriterDone]"] exI [of _ "s\<lparr>sy_writer := Stopping [CloseWriterDone]\<rparr>"]) simp
  next
    case (Writing data)
    then have "step E (Wrote (Some e)) s =
        Some (s\<lparr>sy_writer := Stopping (terminate (Errorf ''write to app-server'' [e]) @ [CloseWriterDone])\<rparr>)"
      by (simp add: writer_wrote_def)
    then show ?thesis
      by (intro exI [of _ "Wrote (Some e)"] exI [of _ "terminate (Errorf ''write to app-server'' [e]) @ [CloseWriterDone]"]
          exI [of _ "s\<lparr>sy_writer := Stopping (terminate (Errorf ''write to app-server'' [e]) @ [CloseWriterDone])\<rparr>"]) simp
  qed auto
  then obtain ev as s1 where s1: "sy_writer s = Stopping as \<and> s1 = s \<or> step E ev s = Some s1 \<and> ev \<in> {WriterStop, Wrote (Some e)}"
      "sy_writer s1 = Stopping as" "sy_reader s1 = sy_reader s" "sy_calls s1 = sy_calls s" "sy_closer s1 = sy_closer s"
    by blast
  then have "conn_ok E s1" using assms(1) conn_ok_step by blast
  then obtain n t where t: "run E (replicate n WriterGo) s1 = Some t" "sy_writer t = Stopping []"
      "sy_reader t = sy_reader s1" "sy_calls t = sy_calls s1" "sy_closer t = sy_closer s1"
    using writer_drains s1(2) by blast
  show ?thesis
  proof (cases "s1 = s")
    case True
    then show ?thesis using t by (intro exI [of _ "replicate n WriterGo"] exI [of _ t]) auto
  next
    case False
    then have "run E (ev # replicate n WriterGo) s = Some t" "ev \<in> {WriterStop, Wrote (Some e)}" using s1(1) t(1) by auto
    then show ?thesis using t s1 by (intro exI [of _ "ev # replicate n WriterGo"] exI [of _ t]) auto
  qed
qed

text \<open>The events that need nobody but the four goroutines, the end of the child's output and its closed pipe.\<close>

fun winds_down :: "nat \<Rightarrow> event \<Rightarrow> bool" where
  "winds_down k ReaderGo = True"
| "winds_down k (Scanned sc) = (sc = ScanEOF)"
| "winds_down k WriterStop = True"
| "winds_down k (Wrote r) = (r \<noteq> None)"
| "winds_down k WriterGo = True"
| "winds_down k (CallGo j br) = (j = k)"
| "winds_down k CloserGo = True"
| "winds_down k ev = False"

text \<open>
  C26. Wherever the connection is, once the child has exited everything can end by the
  goroutines' own steps alone, with nothing more from any caller, context or timer: the
  reader and the writer end, every call that was made returns, and the owner's close, if it
  was called, returns.
\<close>

theorem everything_can_end:
  assumes "reachable E s" and "co_exited (sy_conn s)" and "sy_calls s k \<noteq> CallIdle"
  shows "\<exists>evs t r. run E evs s = Some t \<and> list_all (winds_down k) evs \<and> sy_reader t = Ending [] \<and>
    sy_writer t = Stopping [] \<and> sy_calls t k = CallDone r \<and>
    (sy_closer s \<noteq> NotClosing \<longrightarrow> sy_closer t = ClosingActs [])"
proof -
  note ok = conn_ok_reachable [OF assms(1)]
  obtain evs1 s1 where evs1: "run E evs1 s = Some s1" "set evs1 \<subseteq> {ReaderGo, Scanned ScanEOF}"
    and 1: "sy_reader s1 = Ending []" "sy_writer s1 = sy_writer s" "sy_calls s1 = sy_calls s" "sy_closer s1 = sy_closer s"
    using reader_ends [OF ok assms(2)] by blast
  have wd1: "list_all (winds_down k) evs1" using evs1(2) by (auto simp: list_all_iff)
  have ok1: "conn_ok E s1" using conn_ok_run [OF ok evs1(1)] .
  then have "co_stopWriter (sy_conn s1)" using 1(1) by (simp add: conn_ok_def stops_ok_def)
  then obtain evs2 s2 where 2: "run E evs2 s1 = Some s2" "set evs2 \<subseteq> {WriterStop, Wrote (Some (System ''EPIPE'')), WriterGo}"
      "sy_writer s2 = Stopping []" "sy_reader s2 = sy_reader s1" "sy_calls s2 = sy_calls s1" "sy_closer s2 = sy_closer s1"
    using writer_ends [OF ok1] by blast
  have evs2: "list_all (winds_down k) evs2" using 2(2) by (auto simp: list_all_iff)
  have ok2: "conn_ok E s2" using conn_ok_run [OF ok1 2(1)] .
  then have down: "co_closed (sy_conn s2)"
    using 1(1) 2(4) by (simp add: conn_ok_def flags_ok_def Let_def)
  obtain j s3 r where 3: "run E (replicate j (CallGo k OnClosed)) s2 = Some s3" "sy_calls s3 k = CallDone r"
      "sy_reader s3 = sy_reader s2" "sy_writer s3 = sy_writer s2" "sy_closer s3 = sy_closer s2"
    using call_finishes [OF down, of k E] assms(3) 1(3) 2(5) by auto
  have ok3: "conn_ok E s3" using conn_ok_run [OF ok2 3(1)] .
  then have fin: "co_waitDone (sy_conn s3)" "co_writerDone (sy_conn s3)"
    using 1(1) 2(3,4) 3(3,4) by (simp_all add: conn_ok_def flags_ok_def Let_def)
  have "\<exists>i t. run E (replicate i CloserGo) s3 = Some t \<and> sy_reader t = sy_reader s3 \<and> sy_writer t = sy_writer s3 \<and>
      sy_calls t = sy_calls s3 \<and> (sy_closer s \<noteq> NotClosing \<longrightarrow> sy_closer t = ClosingActs [])"
  proof (cases "sy_closer s3")
    case NotClosing
    then have "run E (replicate 0 CloserGo) s3 = Some s3" "sy_closer s = NotClosing" using 1(4) 2(6) 3(5) by simp_all
    then show ?thesis by blast
  next
    case (ClosingActs as)
    then show ?thesis using closer_drains [OF ok3 ClosingActs fin] by blast
  qed
  then obtain i t where 4: "run E (replicate i CloserGo) s3 = Some t" "sy_reader t = sy_reader s3" "sy_writer t = sy_writer s3"
      "sy_calls t = sy_calls s3" "sy_closer s \<noteq> NotClosing \<longrightarrow> sy_closer t = ClosingActs []" by blast
  let ?evs = "evs1 @ evs2 @ replicate j (CallGo k OnClosed) @ replicate i CloserGo"
  have "run E ?evs s = Some t" using run_append evs1(1) 2(1) 3(1) 4(1) by metis
  moreover have "list_all (winds_down k) ?evs" using wd1 evs2 by (auto simp: list_all_iff)
  ultimately show ?thesis using 1 2 3 4 by (intro exI [of _ ?evs] exI [of _ t] exI [of _ r]) simp
qed

lemma written_line:
  assumes "reachable E s" and "line \<in> set (sy_written s)"
  obtains msg where "from_world E msg" and "encodeLine E msg = Ok line"
proof -
  have "lines_ok E s" using conn_ok_reachable [OF assms(1)] by (simp add: conn_ok_def)
  then show ?thesis using assms(2) that by (auto simp: lines_ok_def list_all_iff encoded_def)
qed

text \<open>
  The queue to the child never holds more than outboxSize messages, every line written is
  one encoded message ended by a newline and at most MaxMessageSize bytes long.
\<close>

theorem output_bounded:
  assumes "reachable E s"
  shows "length (co_outbox (sy_conn s)) \<le> 64 \<and>
    list_all (\<lambda>line. length line \<le> 16777216 \<and> last line = CHR 0x0A \<and> (\<exists>msg. encodeLine E msg = Ok line)) (sy_written s)"
proof -
  have ok: "lines_ok E s" using conn_ok_reachable [OF assms] by (simp add: conn_ok_def)
  then have "length line \<le> 16777216 \<and> last line = CHR 0x0A \<and> (\<exists>msg. encodeLine E msg = Ok line)"
    if "line \<in> set (sy_written s)" for line
    using that encoded_bounds [of E line] by (auto simp: lines_ok_def list_all_iff encoded_def size_defs)
  then show ?thesis using ok by (simp add: lines_ok_def list_all_iff outboxSize_def)
qed

section \<open>A run\<close>

text \<open>
  Two calls: the first is answered, the second is still waiting when the child exits; the
  owner then closes the client.
\<close>

definition sample_response :: envl where
  "sample_response = \<lparr>ev_ID = ''1'', ev_Method = [], ev_Params = [], ev_Result = ''ready'', ev_Error = None\<rparr>"

definition sample_world :: world where
  "sample_world =
     \<lparr>wo_line = (\<lambda>line. Some sample_response), wo_ids = (\<lambda>p. ([], [])), wo_marshal = (\<lambda>msg. Ok ''m''),
      wo_result = (\<lambda>meth raw. None)\<rparr>"

definition sample_calls :: "event list" where
  "sample_calls =
     [CallStart ''initialize'' (JObj []), CallGo 0 OnChannel, CallGo 0 OnChannel, CallGo 0 OnChannel, CallGo 0 OnChannel,
      CallGo 0 OnChannel, WriterTake, Wrote None, Scanned (ScanLine ''r''), ReaderGo, ReaderGo, CallGo 0 OnChannel,
      CallStart ''thread/start'' (JObj []), CallGo 1 OnChannel, CallGo 1 OnChannel, CallGo 1 OnChannel, CallGo 1 OnChannel,
      CallGo 1 OnChannel, ChildExit]"

definition sample_end :: "event list" where
  "sample_end =
     [Scanned ScanEOF, ReaderGo, ReaderGo, ReaderGo, ReaderGo, CallGo 1 OnChannel, CallGo 1 OnChannel, WriterStop, WriterGo,
      ReaderGo, ReaderGo, CloseStart, CloserGo, CloserGo, CloserGo, CloserGo]"

definition sample_waiting :: sys where
  "sample_waiting = the (run sample_world sample_calls spawned)"

definition sample_final :: sys where
  "sample_final = the (run sample_world sample_end sample_waiting)"

lemmas sample_defs = sample_world_def sample_response_def sample_calls_def sample_end_def spawned_def new_conn_def
  reader_scan_def read_line_def reader_go_def writer_take_def writer_stop_def writer_wrote_def
  writer_go_def call_start_def call_go_def close_start_def closer_go_def on_conn_def run_action_def call_def send_def
  call_wait_def call_result_def encodeLine_def size_defs dispatch_def lookup_pending_def end_of_read_def shutdown_def
  record_exit_def close_once_def await_def is_down_def closedErr_def conn_close_def wire_id_def scan_err_def
  go_int_def

lemma TrimSpace_sample: "TrimSpace ''r'' \<noteq> []" "id_value ''1'' = Some 1"
  by code_simp+

lemma sample_waiting: "run sample_world sample_calls spawned = Some sample_waiting \<and>
    sy_calls sample_waiting 0 = CallDone (Ok ''ready'') \<and> sy_calls sample_waiting 1 = CallWaiting ''thread/start'' \<and>
    co_exited (sy_conn sample_waiting)"
  unfolding sample_waiting_def by (simp add: sample_defs TrimSpace_sample AList.delete_eq)

lemma sample_final: "run sample_world sample_end sample_waiting = Some sample_final \<and>
    sy_calls sample_final 0 = CallDone (Ok ''ready'') \<and>
    sy_calls sample_final 1 = CallDone (Err (Errorf ''thread/start'' [Sentinel (S_conn ErrProcessExited)])) \<and>
    sy_closer sample_final = ClosingActs []"
  unfolding sample_final_def sample_waiting_def by (simp add: sample_defs TrimSpace_sample AList.delete_eq)

lemma sample_reachable: "reachable sample_world sample_waiting" "reachable sample_world sample_final"
proof -
  show *: "reachable sample_world sample_waiting" using reachable_run [OF reachable.start] sample_waiting by blast
  show "reachable sample_world sample_final" using reachable_run [OF *] sample_final by blast
qed

definition sample_reading :: sys where
  "sample_reading = the (run sample_world (take 9 sample_calls) spawned)"

lemma sample_reading: "run sample_world (take 9 sample_calls) spawned = Some sample_reading \<and>
    todo_of (sy_reader sample_reading) = [Lookup 1 sample_response]"
  unfolding sample_reading_def by (simp add: sample_defs TrimSpace_sample)

lemma connection_never_stuck_witness:
  "act sample_world (Lookup 1 sample_response) (sy_conn sample_reading) \<noteq> Panic"
proof -
  have "reachable sample_world sample_reading" using reachable_run [OF reachable.start] sample_reading by blast
  from connection_never_stuck [OF this] show ?thesis using sample_reading by blast
qed

lemma call_gets_own_response_witness: "\<exists>env\<in>set (sy_read sample_final). id_value (ev_ID env) = Some (wire_id 0) \<and> ev_Result env = ''ready''"
  using call_gets_own_response [OF sample_reachable(2), of 0] sample_final by blast


lemma close_leaves_nothing_witness: "sy_reader sample_final = Ending [] \<and> sy_writer sample_final = Stopping []"
  using close_leaves_nothing [OF sample_reachable(2)] sample_final by blast

lemma everything_can_end_witness:
  "\<exists>evs t r. run sample_world evs sample_waiting = Some t \<and> sy_reader t = Ending [] \<and> sy_calls t 1 = CallDone r"
proof -
  have "sy_calls sample_waiting 1 \<noteq> CallIdle" using sample_waiting by simp
  moreover have "co_exited (sy_conn sample_waiting)" using sample_waiting by blast
  ultimately show ?thesis using everything_can_end [OF sample_reachable(1)] by blast
qed

lemma output_bounded_witness: "length (co_outbox (sy_conn sample_waiting)) \<le> 64"
  using output_bounded [OF sample_reachable(1)] by blast

end
