(* ===== verification/Framing.thy ===== *)
theory Framing
  imports Errors Text
begin

text \<open>
  The bounded line reader of internal/mcpserver/server.go, which stands between the client's
  bytes and the MCP SDK: every physical line must be one complete JSON value of at most limit
  bytes. The source is the bytes it will deliver and the error after them; bufio.Reader is
  modelled by the slices it returns, json.Valid is the parameter valid.
\<close>

section \<open>bufio.Reader\<close>

definition newline :: char where
  "newline = CHR 0x0A"

text \<open>The default size of a bufio.Reader.\<close>

definition bufferSize :: nat where
  "bufferSize = 4096"

datatype slice_end = LineEnd | BufferFull | SourceEnd

text \<open>ReadSlice of a newline: the slice, why it ends, and the bytes after it.\<close>

definition ReadSlice :: "string \<Rightarrow> string \<times> slice_end \<times> string" where
  "ReadSlice s =
     (if newline \<in> set (take bufferSize s) then
        (let n = Suc (length (takeWhile (\<lambda>c. c \<noteq> newline) s)) in (take n s, LineEnd, drop n s))
      else if bufferSize \<le> length s then (take bufferSize s, BufferFull, drop bufferSize s)
      else (s, SourceEnd, []))"

section \<open>nextLine\<close>

definition too_large :: goerror where
  "too_large = Errorf ''line longer than the limit'' [Sentinel (S_mcp ErrRequestTooLarge)]"

definition not_json :: goerror where
  "not_json = Errorf ''line is not a complete JSON value'' [Sentinel (S_mcp ErrRequestFraming)]"

definition end_error :: "goerror \<Rightarrow> string \<Rightarrow> goerror" where
  "end_error e line =
     (if errors_Is e (S_std EOF) \<and> TrimSpace line = [] then Sentinel (S_std EOF)
      else if errors_Is e (S_std EOF) then Errorf ''unterminated final line'' [Sentinel (S_mcp ErrRequestFraming)]
      else Errorf ''read mcp input'' [e])"

lemma ReadSlice_rest: "ReadSlice s = (chunk, st, rest) \<Longrightarrow> st \<noteq> SourceEnd \<Longrightarrow> length rest < length s"
  by (cases s) (auto simp: ReadSlice_def Let_def bufferSize_def split: if_splits)

text \<open>The inner loop: slices are appended until the line ends, the limit is passed, or the source ends.\<close>

function read_line :: "nat \<Rightarrow> goerror \<Rightarrow> string \<Rightarrow> string \<Rightarrow> string res \<times> string" where
  "read_line limit e line s =
     (case ReadSlice s of
        (chunk, st, rest) \<Rightarrow>
          (if length (line @ chunk) > limit + 1 then (Err too_large, rest)
           else
             (case st of
                LineEnd \<Rightarrow> (Ok (line @ chunk), rest)
              | BufferFull \<Rightarrow> read_line limit e (line @ chunk) rest
              | SourceEnd \<Rightarrow> (Err (end_error e (line @ chunk)), rest))))"
  by pat_completeness auto
termination
  by (relation "measure (\<lambda>(limit, e, line, s). length s)") (auto dest!: sym [of _ "ReadSlice _"] ReadSlice_rest)

declare read_line.simps [simp del]

lemma read_line_rest: "read_line limit e line s = (Ok l, rest) \<Longrightarrow> length rest < length s"
proof (induction limit e line s rule: read_line.induct)
  case (1 limit e line s)
  obtain chunk st r where slice: "ReadSlice s = (chunk, st, r)" by (metis prod.exhaust)
  show ?case
    using 1 slice ReadSlice_rest [OF slice]
    by (cases st) (fastforce simp: read_line.simps [of limit e line s] split: if_splits)+
qed

function nextLine :: "(string \<Rightarrow> bool) \<Rightarrow> nat \<Rightarrow> goerror \<Rightarrow> string \<Rightarrow> string res \<times> string" where
  "nextLine valid limit e s =
     (case read_line limit e [] s of
        (Inl x, rest) \<Rightarrow> (Err x, rest)
      | (Inr line, rest) \<Rightarrow>
          (if TrimSpace line = [] then nextLine valid limit e rest
           else if \<not> valid (TrimSpace line) then (Err not_json, rest)
           else (Ok line, rest)))"
  by pat_completeness auto
termination
  by (relation "measure (\<lambda>(valid, limit, e, s). length s)") (auto dest!: sym [of _ "read_line _ _ _ _"] read_line_rest)

declare nextLine.simps [simp del]

section \<open>Read\<close>

record boundedLineReader =
  bl_rest :: string
  bl_err :: goerror
  bl_limit :: nat
  bl_buf :: string
  bl_failed :: "goerror option"

definition newBoundedLineReader :: "string \<Rightarrow> goerror \<Rightarrow> nat \<Rightarrow> boundedLineReader" where
  "newBoundedLineReader s e limit = \<lparr>bl_rest = s, bl_err = e, bl_limit = limit, bl_buf = [], bl_failed = None\<rparr>"

text \<open>Read into a slice of n bytes: the bytes copied, the error, and the reader afterwards.\<close>

definition bl_copy :: "nat \<Rightarrow> boundedLineReader \<Rightarrow> (string \<times> goerror option) \<times> boundedLineReader" where
  "bl_copy n b = ((take n (bl_buf b), None), b\<lparr>bl_buf := drop n (bl_buf b)\<rparr>)"

definition Read :: "(string \<Rightarrow> bool) \<Rightarrow> nat \<Rightarrow> boundedLineReader \<Rightarrow> (string \<times> goerror option) \<times> boundedLineReader" where
  "Read valid n b =
     (case bl_failed b of
        Some e \<Rightarrow> (([], Some e), b)
      | None \<Rightarrow>
          (if bl_buf b = [] then
             (case nextLine valid (bl_limit b) (bl_err b) (bl_rest b) of
                (Inl e, rest) \<Rightarrow> (([], Some e), b\<lparr>bl_failed := Some e, bl_rest := rest\<rparr>)
              | (Inr line, rest) \<Rightarrow> bl_copy n (b\<lparr>bl_buf := line, bl_rest := rest\<rparr>))
           else bl_copy n b))"

fun Reads :: "(string \<Rightarrow> bool) \<Rightarrow> nat list \<Rightarrow> boundedLineReader \<Rightarrow> (string \<times> goerror option) list \<times> boundedLineReader" where
  "Reads valid [] b = ([], b)"
| "Reads valid (n # ns) b =
     (case Read valid n b of (r, b1) \<Rightarrow> (case Reads valid ns b1 of (rs, b2) \<Rightarrow> (r # rs, b2)))"

section \<open>The framing it enforces\<close>

text \<open>
  The lines a reader of the whole input at once accepts, and the error after them: no buffer,
  no slices, no state.
\<close>

definition first_line :: "string \<Rightarrow> string" where
  "first_line s = takeWhile (\<lambda>c. c \<noteq> newline) s @ [newline]"

definition after_line :: "string \<Rightarrow> string" where
  "after_line s = tl (dropWhile (\<lambda>c. c \<noteq> newline) s)"

lemma after_line_shorter: "newline \<in> set s \<Longrightarrow> length (after_line s) < length s"
  by (induction s) (auto simp: after_line_def)

function framing :: "(string \<Rightarrow> bool) \<Rightarrow> nat \<Rightarrow> goerror \<Rightarrow> string \<Rightarrow> string list \<times> goerror" where
  "framing valid limit e s =
     (if newline \<notin> set s then ([], if length s > limit + 1 then too_large else end_error e s)
      else if length (first_line s) > limit + 1 then ([], too_large)
      else if TrimSpace (first_line s) = [] then framing valid limit e (after_line s)
      else if \<not> valid (TrimSpace (first_line s)) then ([], not_json)
      else (case framing valid limit e (after_line s) of (ls, x) \<Rightarrow> (first_line s # ls, x)))"
  by pat_completeness auto
termination
  by (relation "measure (\<lambda>(valid, limit, e, s). length s)") (auto simp: after_line_shorter)

declare framing.simps [simp del]

lemma line_split: "newline \<in> set s \<Longrightarrow> s = first_line s @ after_line s"
  by (induction s) (auto simp: first_line_def after_line_def)

lemma ReadSlice_cases:
  obtains (line) chunk rest where "ReadSlice s = (chunk, LineEnd, rest)" "newline \<in> set s" "chunk = first_line s"
      "rest = after_line s"
  | (full) chunk rest where "ReadSlice s = (chunk, BufferFull, rest)" "s = chunk @ rest" "newline \<notin> set chunk"
  | (stop) "ReadSlice s = (s, SourceEnd, [])" "newline \<notin> set s"
proof (cases "newline \<in> set (take bufferSize s)")
  case True
  then have mem: "newline \<in> set s" by (meson in_set_takeD)
  let ?n = "Suc (length (takeWhile (\<lambda>c. c \<noteq> newline) s))"
  have "s = first_line s @ after_line s" by (rule line_split [OF mem])
  moreover have "length (first_line s) = ?n" by (simp add: first_line_def)
  ultimately have "take ?n s = first_line s" "drop ?n s = after_line s"
    by (metis append_eq_conv_conj)+
  then show ?thesis using line True mem by (simp add: ReadSlice_def Let_def)
next
  case False
  show ?thesis
  proof (cases "bufferSize \<le> length s")
    case True
    then show ?thesis using full [of "take bufferSize s" "drop bufferSize s"] False by (simp add: ReadSlice_def)
  next
    case short: False
    then show ?thesis using stop False by (simp add: ReadSlice_def)
  qed
qed

text \<open>Reading in slices is reading to the newline.\<close>

definition whole_line :: "nat \<Rightarrow> goerror \<Rightarrow> string \<Rightarrow> string \<Rightarrow> string res" where
  "whole_line limit e line s =
     (if newline \<in> set s then
        (if length (line @ first_line s) > limit + 1 then Err too_large else Ok (line @ first_line s))
      else Err (if length (line @ s) > limit + 1 then too_large else end_error e (line @ s)))"

lemma read_line_whole:
  "fst (read_line limit e line s) = whole_line limit e line s \<and>
    (is_ok (whole_line limit e line s) \<longrightarrow> snd (read_line limit e line s) = after_line s)"
proof (induction limit e line s rule: read_line.induct)
  case (1 limit e line s)
  show ?case
  proof (cases s rule: ReadSlice_cases)
    case (line chunk rest)
    then show ?thesis by (simp add: read_line.simps [of limit e line s] whole_line_def)
  next
    case stop
    then show ?thesis by (simp add: read_line.simps [of limit e line s] whole_line_def)
  next
    case (full chunk rest)
    have first: "newline \<in> set rest \<Longrightarrow> first_line s = chunk @ first_line rest" "newline \<in> set rest \<Longrightarrow> after_line s = after_line rest"
      using full(2,3) by (auto simp: first_line_def after_line_def takeWhile_append dropWhile_append)
    show ?thesis
    proof (cases "length (line @ chunk) > limit + 1")
      case True
      then have "read_line limit e line s = (Err too_large, rest)"
        using full(1) by (simp add: read_line.simps [of limit e line s])
      moreover have "whole_line limit e line s = Err too_large"
        using True full(2,3) first by (auto simp: whole_line_def)
      ultimately show ?thesis by simp
    next
      case False
      then have "read_line limit e line s = read_line limit e (line @ chunk) rest"
        using full(1) by (simp add: read_line.simps [of limit e line s])
      moreover have "whole_line limit e line s = whole_line limit e (line @ chunk) rest"
        using full(2,3) first by (auto simp: whole_line_def)
      moreover have "is_ok (whole_line limit e (line @ chunk) rest) \<Longrightarrow> newline \<in> set rest"
        by (auto simp: whole_line_def split: if_splits)
      ultimately show ?thesis using "1.IH" [OF full(1) [symmetric] refl False refl] first(2) by simp
    qed
  qed
qed

text \<open>A line is read, or an error, which is also that of the framing.\<close>

lemma read_line_cases:
  obtains (line) "read_line limit e [] s = (Ok (first_line s), after_line s)" "newline \<in> set s"
      "length (first_line s) \<le> limit + 1"
  | (stop) x rest where "read_line limit e [] s = (Err x, rest)" "framing valid limit e s = ([], x)"
proof (cases "newline \<in> set s \<and> length (first_line s) \<le> limit + 1")
  case True
  then show ?thesis using line read_line_whole [of limit e "[]" s] by (simp add: whole_line_def prod_eq_iff)
next
  case False
  then show ?thesis using stop read_line_whole [of limit e "[]" s]
    by (cases "read_line limit e [] s") (auto simp: whole_line_def framing.simps [of valid limit e s] split: if_splits)
qed

text \<open>nextLine finds the first accepted line, or the error that comes before any.\<close>

lemma nextLine_framing:
  "(case nextLine valid limit e s of
      (Inl x, rest) \<Rightarrow> framing valid limit e s = ([], x)
    | (Inr line, rest) \<Rightarrow>
        framing valid limit e s = (line # fst (framing valid limit e rest), snd (framing valid limit e rest)) \<and>
        length line \<le> limit + 1 \<and> line \<noteq> [])"
proof (induction valid limit e s rule: nextLine.induct)
  case (1 valid limit e s)
  show ?case
  proof (cases rule: read_line_cases [where limit = limit and e = e and s = s and valid = valid])
    case (stop x rest)
    then show ?thesis by (simp add: nextLine.simps [of valid limit e s])
  next
    case line
    show ?thesis
    proof (cases "TrimSpace (first_line s) = []")
      case blank: True
      have "nextLine valid limit e s = nextLine valid limit e (after_line s)"
        using line blank by (simp add: nextLine.simps [of valid limit e s])
      moreover have "framing valid limit e s = framing valid limit e (after_line s)"
        using line blank by (simp add: framing.simps [of valid limit e s])
      ultimately show ?thesis using "1.IH" [OF line(1) [symmetric] refl blank] by (auto split: prod.splits sum.splits)
    next
      case False
      then show ?thesis using line
        by (auto simp: nextLine.simps [of valid limit e s] framing.simps [of valid limit e s] first_line_def
            split: prod.splits)
    qed
  qed
qed

section \<open>What the SDK reads\<close>

definition bytes_of :: "(string \<times> goerror option) list \<Rightarrow> string" where
  "bytes_of rs = concat (map fst rs)"

definition errors_of :: "(string \<times> goerror option) list \<Rightarrow> goerror list" where
  "errors_of rs = List.map_filter snd rs"

text \<open>What is left to deliver, and the error then.\<close>

definition pending :: "(string \<Rightarrow> bool) \<Rightarrow> boundedLineReader \<Rightarrow> string" where
  "pending valid b =
     (if bl_failed b = None then bl_buf b @ concat (fst (framing valid (bl_limit b) (bl_err b) (bl_rest b))) else [])"

definition final :: "(string \<Rightarrow> bool) \<Rightarrow> boundedLineReader \<Rightarrow> goerror" where
  "final valid b =
     (case bl_failed b of Some e \<Rightarrow> e | None \<Rightarrow> snd (framing valid (bl_limit b) (bl_err b) (bl_rest b)))"

lemma Read_delivers:
  assumes "Read valid n b = ((p, err), b')" and "length (bl_buf b) \<le> bl_limit b + 1"
  shows "pending valid b = p @ pending valid b' \<and> final valid b' = final valid b \<and>
    (case err of None \<Rightarrow> length p \<le> n \<and> (0 < n \<longrightarrow> p \<noteq> []) | Some e \<Rightarrow> p = [] \<and> e = final valid b \<and> pending valid b = []) \<and>
    length (bl_buf b') \<le> bl_limit b' + 1"
proof (cases "bl_failed b = None \<and> bl_buf b = []")
  case True
  obtain r rest where nl: "nextLine valid (bl_limit b) (bl_err b) (bl_rest b) = (r, rest)" by fastforce
  show ?thesis
  proof (cases r)
    case (Inl x)
    then show ?thesis using assms True nl nextLine_framing [of valid "bl_limit b" "bl_err b" "bl_rest b"]
      by (auto simp: Read_def pending_def final_def)
  next
    case (Inr line)
    then show ?thesis using assms True nl nextLine_framing [of valid "bl_limit b" "bl_err b" "bl_rest b"]
      by (auto simp: Read_def pending_def final_def bl_copy_def)
  qed
next
  case False
  then show ?thesis using assms
    by (auto simp: Read_def pending_def final_def bl_copy_def split: option.splits)
qed

lemma Reads_deliver:
  assumes "Reads valid ns b = (rs, b')" and "length (bl_buf b) \<le> bl_limit b + 1"
  shows "pending valid b = bytes_of rs @ pending valid b' \<and> final valid b' = final valid b \<and>
    (errors_of rs \<noteq> [] \<longrightarrow> pending valid b' = [] \<and> set (errors_of rs) = {final valid b}) \<and>
    (0 \<notin> set ns \<longrightarrow> errors_of rs = [] \<longrightarrow> length ns \<le> length (bytes_of rs)) \<and> length (bl_buf b') \<le> bl_limit b' + 1"
  using assms
proof (induction valid ns b arbitrary: rs rule: Reads.induct)
  case (1 valid b)
  then show ?case by (simp add: bytes_of_def errors_of_def map_filter_simps)
next
  case (2 valid n ns b)
  obtain p err b1 where read: "Read valid n b = ((p, err), b1)" by (metis prod.exhaust)
  obtain rs' where rest: "Reads valid ns b1 = (rs', b')" and rs: "rs = (p, err) # rs'"
    using 2(2) read by (auto split: prod.splits)
  note one = Read_delivers [OF read 2(3)]
  have "pending valid b1 = bytes_of rs' @ pending valid b' \<and> final valid b' = final valid b1 \<and>
    (errors_of rs' \<noteq> [] \<longrightarrow> pending valid b' = [] \<and> set (errors_of rs') = {final valid b1}) \<and>
    (0 \<notin> set ns \<longrightarrow> errors_of rs' = [] \<longrightarrow> length ns \<le> length (bytes_of rs')) \<and> length (bl_buf b') \<le> bl_limit b' + 1"
    using "2.IH" [OF read [symmetric] rest] one by auto
  moreover have "bytes_of rs = p @ bytes_of rs'" by (simp add: bytes_of_def rs)
  moreover have "errors_of rs = (case err of None \<Rightarrow> errors_of rs' | Some e \<Rightarrow> e # errors_of rs')"
    by (cases err) (simp_all add: errors_of_def rs map_filter_simps)
  ultimately show ?case using one
    by (cases err) (auto simp: Suc_le_eq intro: le_less_trans split: if_splits)
qed

lemma Read_limit: "Read valid n b = (r, b') \<Longrightarrow> bl_limit b' = bl_limit b"
  by (auto simp: Read_def bl_copy_def split: option.splits if_splits prod.splits sum.splits)

lemma Reads_limit: "Reads valid ns b = (rs, b') \<Longrightarrow> bl_limit b' = bl_limit b"
  by (induction valid ns b arbitrary: rs rule: Reads.induct) (auto split: prod.splits dest: Read_limit)

lemma framing_lines: "line \<in> set (fst (framing valid limit e s)) \<Longrightarrow>
    length line \<le> limit + 1 \<and> last line = newline \<and> newline \<notin> set (butlast line) \<and> valid (TrimSpace line)"
proof (induction valid limit e s rule: framing.induct)
  case (1 valid limit e s)
  then show ?case
    by (auto simp: framing.simps [of valid limit e s] first_line_def dest: set_takeWhileD split: if_splits prod.splits)
qed

text \<open>
  C36. Whatever sizes it is read with, the reader delivers the bytes of exactly the lines that
  reading the whole input at once would accept, in order: never past the first line that is
  too long or no JSON value, each delivered line complete, bounded and valid. An error is
  reported only when all of them are delivered, is the one the framing says, and stays; and
  every read makes progress, so the error is reached. What is buffered is within the limit.
\<close>

theorem bounded_reader_exact:
  assumes "Reads valid ns (newBoundedLineReader s e limit) = (rs, b)"
  shows "\<exists>rest. concat (fst (framing valid limit e s)) = bytes_of rs @ rest \<and>
    (errors_of rs \<noteq> [] \<longrightarrow> rest = [] \<and> set (errors_of rs) = {snd (framing valid limit e s)}) \<and>
    (0 \<notin> set ns \<and> errors_of rs = [] \<longrightarrow> length ns \<le> length (bytes_of rs)) \<and>
    (\<forall>line\<in>set (fst (framing valid limit e s)).
       length line \<le> limit + 1 \<and> last line = newline \<and> newline \<notin> set (butlast line) \<and> valid (TrimSpace line)) \<and>
    length (bl_buf b) \<le> limit + 1"
proof -
  let ?b = "newBoundedLineReader s e limit"
  have new: "pending valid ?b = concat (fst (framing valid limit e s))" "final valid ?b = snd (framing valid limit e s)"
    by (simp_all add: pending_def final_def newBoundedLineReader_def)
  have limit: "bl_limit b = limit" using Reads_limit [OF assms] by (simp add: newBoundedLineReader_def)
  have lines: "\<forall>line\<in>set (fst (framing valid limit e s)).
       length line \<le> limit + 1 \<and> last line = newline \<and> newline \<notin> set (butlast line) \<and> valid (TrimSpace line)"
    using framing_lines by blast
  have "length (bl_buf ?b) \<le> bl_limit ?b + 1" by (simp add: newBoundedLineReader_def)
  from Reads_deliver [OF assms this] show ?thesis unfolding new limit
    by (intro exI [of _ "pending valid b"]) (use lines in blast)
qed

definition sample_input :: string where
  "sample_input = ''1'' @ [newline] @ '' 2 '' @ [newline, newline] @ ''3''"

lemma sample_reads:
  "fst (Reads (\<lambda>l. length l = 1) [3, 3, 3, 3, 3, 3] (newBoundedLineReader sample_input (Sentinel (S_std EOF)) 3)) =
    [(''1'' @ [newline], None), ('' 2 '', None), ([newline], None),
     ([], Some (Errorf ''unterminated final line'' [Sentinel (S_mcp ErrRequestFraming)])),
     ([], Some (Errorf ''unterminated final line'' [Sentinel (S_mcp ErrRequestFraming)])),
     ([], Some (Errorf ''unterminated final line'' [Sentinel (S_mcp ErrRequestFraming)]))]"
  by code_simp

lemma bounded_reader_exact_witness:
  "concat (fst (framing (\<lambda>l. length l = 1) 3 (Sentinel (S_std EOF)) sample_input)) = ''1'' @ [newline] @ '' 2 '' @ [newline]"
proof -
  obtain rs b where run: "Reads (\<lambda>l. length l = 1) [3, 3, 3, 3, 3, 3] (newBoundedLineReader sample_input (Sentinel (S_std EOF)) 3) = (rs, b)"
    by fastforce
  then have "bytes_of rs = ''1'' @ [newline] @ '' 2 '' @ [newline]" "errors_of rs \<noteq> []"
    using sample_reads by (simp_all add: bytes_of_def errors_of_def map_filter_simps)
  then show ?thesis using bounded_reader_exact [OF run] by auto
qed

end
