(* ===== verification/Mcp.thy ===== *)
theory Mcp
  imports Framing Service
begin

text \<open>
  internal/mcpserver/server.go: the review tool over MCP. The SDK's session is a parameter:
  what sending a progress notification answers. Wall-clock readings are arguments, so a
  machine sleep is a gap between two of them.
\<close>

section \<open>Bounds\<close>

definition HeartbeatInterval :: int where
  "HeartbeatInterval = 30 * 1000000000"

definition ClientIdleTimeout :: int where
  "ClientIdleTimeout = 30 * 60 * 1000000000"

definition MaxSilence :: int where
  "MaxSilence = ClientIdleTimeout - HeartbeatInterval"

definition MaxRequestBytes :: nat where
  "MaxRequestBytes = 6 * MaxBranchNotesBytes + 65536"

lemmas silence_defs = HeartbeatInterval_def ClientIdleTimeout_def MaxSilence_def

section \<open>The tool\<close>

record Input =
  in_Repo :: string
  in_Branch :: string
  in_Commit :: string
  in_BranchNotes :: string
  in_Build :: bool

record Output =
  out_Repo :: string
  out_Branch :: string
  out_Commit :: string
  out_Base :: string
  out_Round :: int
  out_Review :: string
  out_Warnings :: "string list"
  out_Replayed :: bool

definition tool_request :: "Input \<Rightarrow> ReviewRequest" where
  "tool_request i =
     \<lparr>req_Repo = in_Repo i, req_Branch = in_Branch i, req_Commit = in_Commit i, req_BranchNotes = in_BranchNotes i,
      req_Build = in_Build i\<rparr>"

text \<open>The result of the tool: an error names the request, and first the silence that ended it.\<close>

definition tool_result :: "string \<Rightarrow> goerror option \<Rightarrow> Result res \<Rightarrow> Output res" where
  "tool_result i cause r =
     (case r of
        Inl e \<Rightarrow>
          (let e1 = (case cause of
                       Some c \<Rightarrow> if errors_Is c (S_mcp ErrSilence) then Errorf ''silence'' [c, e] else e
                     | None \<Rightarrow> e)
           in Err (Errorf (''request '' @ i) [e1]))
      | Inr res \<Rightarrow>
          Ok \<lparr>out_Repo = res_Repo res, out_Branch = res_Branch res, out_Commit = res_Commit res, out_Base = res_Base res,
              out_Round = res_Round res, out_Review = res_Review res, out_Warnings = res_Warnings res,
              out_Replayed = res_Replayed res\<rparr>)"

definition newRequestID :: "string option \<Rightarrow> string" where
  "newRequestID buf =
     (case buf of
        None \<Rightarrow> ''rand-unavailable''
      | Some b \<Rightarrow> concat (map (\<lambda>c. [digit_char (byte c div 16), digit_char (byte c mod 16)]) b))"

section \<open>The heartbeat\<close>

text \<open>One tick: the reading before the heartbeat, what sending it answers, the reading after.\<close>

record tick =
  tk_now :: time
  tk_send :: "goerror option"
  tk_sent :: time

text \<open>End is the call of end, with the silence measured; Progress the notification and the age it reports.\<close>

datatype watch_call = EndCall int | Progress nat int

record watch =
  wa_lastSent :: time
  wa_ended :: bool
  wa_calls :: "watch_call list"

definition checkSilence :: "time \<Rightarrow> watch \<Rightarrow> watch" where
  "checkSilence t w =
     (let silence = Sub t (wa_lastSent w) in
      if wa_ended w \<or> silence < MaxSilence then w
      else w\<lparr>wa_ended := True, wa_calls := wa_calls w @ [EndCall silence]\<rparr>)"

text \<open>The ticks until the stop function is called; a failed send ends the goroutine.\<close>

fun watch_ticks :: "bool \<Rightarrow> time \<Rightarrow> nat \<Rightarrow> tick list \<Rightarrow> watch \<Rightarrow> watch" where
  "watch_ticks token start n [] w = w"
| "watch_ticks token start n (k # ks) w =
     (let w1 = checkSilence (tk_now k) w in
      if \<not> token then watch_ticks token start (Suc n) ks w1
      else
        (let w2 = w1\<lparr>wa_calls := wa_calls w1 @ [Progress n (Sub (tk_now k) start)]\<rparr> in
         case tk_send k of
           Some e \<Rightarrow> w2
         | None \<Rightarrow> watch_ticks token start (Suc n) ks ((checkSilence (tk_sent k) w2)\<lparr>wa_lastSent := tk_sent k\<rparr>)))"

definition watchCall :: "bool \<Rightarrow> time \<Rightarrow> tick list \<Rightarrow> watch" where
  "watchCall token start ticks = watch_ticks token start 1 ticks \<lparr>wa_lastSent = start, wa_ended = False, wa_calls = []\<rparr>"

section \<open>What it detects\<close>

text \<open>The ticks the goroutine sees, and the last heartbeat sent before each.\<close>

definition seen :: "bool \<Rightarrow> tick list \<Rightarrow> tick list" where
  "seen token ks =
     (if token then take (Suc (length (takeWhile (\<lambda>k. tk_send k = None) ks))) ks else ks)"

definition heartbeat_before :: "bool \<Rightarrow> time \<Rightarrow> tick list \<Rightarrow> nat \<Rightarrow> time" where
  "heartbeat_before token start ks i = (if token then (start # map tk_sent ks) ! i else start)"

text \<open>The i-th tick measures a gap of MaxSilence or more, before its heartbeat or once it is sent.\<close>

definition silent_at :: "bool \<Rightarrow> time \<Rightarrow> tick list \<Rightarrow> nat \<Rightarrow> bool" where
  "silent_at token start ks i \<longleftrightarrow>
     MaxSilence \<le> Sub (tk_now (ks ! i)) (heartbeat_before token start ks i) \<or>
     token \<and> tk_send (ks ! i) = None \<and> MaxSilence \<le> Sub (tk_sent (ks ! i)) (heartbeat_before token start ks i)"

fun is_end :: "watch_call \<Rightarrow> bool" where
  "is_end (EndCall s) = True"
| "is_end (Progress n a) = False"

fun progress_of :: "watch_call \<Rightarrow> nat list" where
  "progress_of (Progress n a) = [n]"
| "progress_of (EndCall s) = []"

definition progress_values :: "watch \<Rightarrow> nat list" where
  "progress_values w = concat (map progress_of (wa_calls w))"

definition ends :: "watch \<Rightarrow> watch_call list" where
  "ends w = filter is_end (wa_calls w)"

lemma seen_simps [simp]:
  "seen token [] = []"
  "seen token (k # ks) = k # (if token \<and> tk_send k \<noteq> None then [] else seen token ks)"
  by (cases "tk_send k"; auto simp: seen_def)+

lemma silent_0: "silent_at token prev (k # ks) 0 \<longleftrightarrow>
    MaxSilence \<le> Sub (tk_now k) prev \<or> token \<and> tk_send k = None \<and> MaxSilence \<le> Sub (tk_sent k) prev"
  by (simp add: silent_at_def heartbeat_before_def)

lemma silent_Suc: "silent_at token prev (k # ks) (Suc i) \<longleftrightarrow> silent_at token (if token then tk_sent k else prev) ks i"
  by (simp add: silent_at_def heartbeat_before_def)

lemma silent_Cons: "(\<exists>i<Suc n. silent_at token prev (k # ks) i) \<longleftrightarrow>
    silent_at token prev (k # ks) 0 \<or> (\<exists>i<n. silent_at token (if token then tk_sent k else prev) ks i)"
  by (auto simp: less_Suc_eq_0_disj silent_Suc)

lemma checkSilence_simps [simp]:
  "wa_lastSent (checkSilence t w) = wa_lastSent w"
  "wa_ended (checkSilence t w) \<longleftrightarrow> wa_ended w \<or> MaxSilence \<le> Sub t (wa_lastSent w)"
  "progress_values (checkSilence t w) = progress_values w"
  by (auto simp: checkSilence_def Let_def progress_values_def)

lemma ends_checkSilence [simp]:
  "length (ends (checkSilence t w)) = length (ends w) + (if wa_ended (checkSilence t w) \<and> \<not> wa_ended w then 1 else 0)"
  by (auto simp: checkSilence_def Let_def ends_def)

lemma calls_simps [simp]:
  "progress_values (w\<lparr>wa_calls := wa_calls w @ [Progress n a]\<rparr>) = progress_values w @ [n]"
  "progress_values (w\<lparr>wa_lastSent := t\<rparr>) = progress_values w"
  "ends (w\<lparr>wa_calls := wa_calls w @ [Progress n a]\<rparr>) = ends w" "ends (w\<lparr>wa_lastSent := t\<rparr>) = ends w"
  by (simp_all add: progress_values_def ends_def)

lemma watch_ticks_result:
  "(wa_ended (watch_ticks token start n ks w) \<longleftrightarrow>
     wa_ended w \<or> (\<exists>i<length (seen token ks). silent_at token (wa_lastSent w) ks i)) \<and>
   length (ends (watch_ticks token start n ks w)) =
     length (ends w) + (if wa_ended (watch_ticks token start n ks w) \<and> \<not> wa_ended w then 1 else 0) \<and>
   progress_values (watch_ticks token start n ks w) =
     progress_values w @ (if token then [n..<n + length (seen token ks)] else [])"
proof (induction token start n ks w rule: watch_ticks.induct)
  case (2 token start n k ks w)
  show ?case
  proof (cases token)
    case False
    then show ?thesis using 2 by (auto simp: Let_def silent_Cons silent_0)
  next
    case True
    show ?thesis
    proof (cases "tk_send k")
      case None
      define w3 where "w3 = (checkSilence (tk_sent k)
        ((checkSilence (tk_now k) w)\<lparr>wa_calls := wa_calls (checkSilence (tk_now k) w) @ [Progress n (Sub (tk_now k) start)]\<rparr>))
          \<lparr>wa_lastSent := tk_sent k\<rparr>"
      have step: "watch_ticks token start n (k # ks) w = watch_ticks token start (Suc n) ks w3"
        using True None by (simp add: w3_def Let_def)
      have w3: "wa_lastSent w3 = tk_sent k" "wa_ended w3 \<longleftrightarrow> wa_ended w \<or> silent_at token (wa_lastSent w) (k # ks) 0"
          "progress_values w3 = progress_values w @ [n]"
          "length (ends w3) = length (ends w) + (if wa_ended w3 \<and> \<not> wa_ended w then 1 else 0)"
        using True None by (auto simp: w3_def silent_0)
      have "\<not> \<not> token" using True by simp
      note IH = 2(2) [OF refl this refl None, folded w3_def]
      have upt: "n # [Suc n..<Suc n + m] = [n..<n + Suc m]" for m by (simp add: upt_conv_Cons del: upt_Suc)
      have seen: "seen token (k # ks) = k # seen token ks" using None by simp
      show ?thesis unfolding step seen
      proof (intro conjI)
        show "wa_ended (watch_ticks token start (Suc n) ks w3) \<longleftrightarrow>
            wa_ended w \<or> (\<exists>i<length (k # seen token ks). silent_at token (wa_lastSent w) (k # ks) i)"
          using IH w3(1,2) True by (simp add: silent_Cons)
        show "progress_values (watch_ticks token start (Suc n) ks w3) =
            progress_values w @ (if token then [n..<n + length (k # seen token ks)] else [])"
          using IH w3(3) True upt [of "length (seen token ks)"] by (simp del: upt_Suc)
        show "length (ends (watch_ticks token start (Suc n) ks w3)) =
            length (ends w) + (if wa_ended (watch_ticks token start (Suc n) ks w3) \<and> \<not> wa_ended w then 1 else 0)"
          using IH w3(2,4) by auto
      qed
    next
      case (Some e)
      then show ?thesis using True by (auto simp: Let_def silent_0)
    qed
  qed
qed simp

text \<open>
  C37. The heartbeat ends a call exactly when some tick measures a gap of MaxSilence or more,
  in wall-clock time, since the last heartbeat it sent (or since the request when there is no
  token), be it before its own heartbeat or while that one was being sent; it ends the call
  at most once, and the progress values it sends are 1, 2, 3 and so on, one for each tick
  until a send fails.
\<close>

theorem silence_detected:
  "(ends (watchCall token start ticks) \<noteq> [] \<longleftrightarrow> (\<exists>i<length (seen token ticks). silent_at token start ticks i)) \<and>
    length (ends (watchCall token start ticks)) \<le> 1 \<and>
    progress_values (watchCall token start ticks) = (if token then [1..<Suc (length (seen token ticks))] else [])"
proof -
  let ?w = "\<lparr>wa_lastSent = start, wa_ended = False, wa_calls = []\<rparr>"
  have "ends ?w = []" "progress_values ?w = []" by (simp_all add: ends_def progress_values_def)
  then show ?thesis
    using watch_ticks_result [of token start 1 ticks ?w] by (auto simp: watchCall_def simp del: upt_Suc)
qed

text \<open>
  A sleeping machine between two heartbeats: the second tick finds the gap, and the call ends
  although the notification then goes through.
\<close>

lemma sleep_example:
  "wa_calls (watchCall True 0
      [\<lparr>tk_now = 30 * 1000000000, tk_send = None, tk_sent = 30 * 1000000000\<rparr>,
       \<lparr>tk_now = 3600 * 1000000000, tk_send = None, tk_sent = 3600 * 1000000000\<rparr>]) =
    [Progress 1 (30 * 1000000000), EndCall (3570 * 1000000000), Progress 2 (3600 * 1000000000)]"
  by (simp add: watchCall_def checkSilence_def Sub_def silence_defs MinInt_def MaxInt_def Let_def)

end
