(* ===== verification/JsonCompact.thy ===== *)
theory JsonCompact
  imports JsonDecode
begin

text \<open>
  json.Marshal, without white space, and decoding that keeps the raw text of a value
  (json.RawMessage): the text of every member of an object as it stands in the input.
\<close>

section \<open>Marshal\<close>

function compact :: "json \<Rightarrow> string" where
  "compact (JInt i) = Itoa i"
| "compact (JStr s) = json_string s"
| "compact (JArr xs) = ''['' @ Join (map (\<lambda>x. compact x) xs) '','' @ '']''"
| "compact (JObj fs) = ''{'' @ Join (map (\<lambda>kv. json_string (fst kv) @ '':'' @ compact (snd kv)) fs) '','' @ ''}''"
  by pat_completeness auto
termination
proof (relation "measure size", simp_all)
  fix xs and x :: json
  assume "x \<in> set xs"
  then show "size x < Suc (size_list size xs)"
    by (simp add: size_list_estimation' [of x xs] le_imp_less_Suc)
next
  fix fs and kv :: "string \<times> json"
  assume "kv \<in> set fs"
  then have "size_prod (\<lambda>s. 0) size kv \<le> size_list (size_prod (\<lambda>s. 0) size) fs"
    by (rule size_list_estimation') simp
  then show "size (snd kv) < Suc (size_list (size_prod (\<lambda>s. 0) size) fs)"
    by (cases kv) simp
qed

definition compact_member :: "string \<times> json \<Rightarrow> string" where
  "compact_member kv = json_string (fst kv) @ '':'' @ compact (snd kv)"

lemma compact_JObj: "compact (JObj fs) = ''{'' @ Join (map compact_member fs) '','' @ ''}''"
  by (simp add: compact_member_def [abs_def])

section \<open>Raw members\<close>

fun raw_members :: "nat \<Rightarrow> string \<Rightarrow> (string \<times> string) list option" where
  "raw_members 0 s = None"
| "raw_members (Suc n) s =
     (if \<not> HasPrefix s [CHR 0x22] then None
      else
        (case str_body (tl s) of
           None \<Rightarrow> None
         | Some (k, r) \<Rightarrow>
             (if \<not> HasPrefix (skip_ws r) '':'' then None
              else
                (let u = skip_ws (tl (skip_ws r)) in
                 case p_value n 1 u of
                   None \<Rightarrow> None
                 | Some (x, q) \<Rightarrow>
                     (let raw = take (length u - length q) u in
                      if HasPrefix (skip_ws q) '','' then
                        map_option ((#) (k, raw)) (raw_members n (skip_ws (tl (skip_ws q))))
                      else if HasPrefix (skip_ws q) ''}'' then Some [(k, raw)]
                      else None)))))"

text \<open>The members of a text that is an object; the whole text is checked first, as Unmarshal does.\<close>

definition members_raw :: "string \<Rightarrow> (string \<times> string) list option" where
  "members_raw s =
     (case parse_json s of
        Some (VDict ms) \<Rightarrow>
          (let t = skip_ws (tl (skip_ws s)) in
           if HasPrefix t ''}'' then Some [] else raw_members (2 * length s + 1) t)
      | _ \<Rightarrow> None)"

section \<open>Reading back\<close>

lemma compact_head: "\<exists>c t. compact j = c # t \<and> \<not> is_ws c \<and> c \<noteq> CHR '']'' \<and> c \<noteq> CHR ''}''"
proof (cases j)
  case (JInt i)
  then show ?thesis using Itoa_head [of i] head_digit by (auto; metis char.inject no_ws(9))
qed (auto simp: json_string_def)

lemma skip_ws_compact [simp]: "skip_ws (compact j @ t) = compact j @ t"
  using compact_head [of j] by auto

lemma stops_compact [simp]: "stops (CHR '']'' # t)" "stops (CHR ''}'' # t)" "stops []"
  by (simp_all add: stops_def)

lemma compact_elements:
  assumes "xs \<noteq> []" and "Suc (length (Join (map compact xs) '','')) \<le> n"
    and "\<And>x m rest. x \<in> set xs \<Longrightarrow> length (compact x) \<le> m \<Longrightarrow> stops rest \<Longrightarrow>
      p_value m d (compact x @ rest) = Some (val_of x, rest)"
  shows "p_elements n d (Join (map compact xs) '','' @ CHR '']'' # rest) = Some (map val_of xs, rest)"
  using assms
proof (induction xs arbitrary: n)
  case (Cons x xs)
  obtain m where n: "n = Suc m" using Cons.prems(2) by (cases n) auto
  show ?case
  proof (cases xs)
    case Nil
    have "p_value m d (compact x @ CHR '']'' # rest) = Some (val_of x, CHR '']'' # rest)"
      using Cons.prems(2) by (intro Cons.prems(3)) (simp_all add: n Nil)
    then show ?thesis by (simp add: n Nil)
  next
    case (Cons y ys)
    let ?J = "Join (map compact xs) '',''"
    have J: "Join (compact x # map compact xs) '','' = compact x @ CHR '','' # ?J" by (simp add: Cons)
    have first: "p_value m d (compact x @ CHR '','' # t) = Some (val_of x, CHR '','' # t)" for t
      using Cons.prems(2) by (intro Cons.prems(3)) (simp_all add: n J)
    have "p_elements m d (?J @ CHR '']'' # rest) = Some (map val_of xs, rest)"
      by (rule Cons.IH) (use Cons.prems(2,3) n J Cons in \<open>auto\<close>)
    moreover have "skip_ws (?J @ t) = ?J @ t" for t using Cons by (cases ys) simp_all
    ultimately show ?thesis using first by (simp add: n J)
  qed
qed simp

lemma compact_member_eq: "compact_member kv @ t = CHR 0x22 # escape (fst kv) @ CHR 0x22 # CHR '':'' # compact (snd kv) @ t"
  by (simp add: compact_member_def json_string_def)

lemma skip_ws_compact_member [simp]: "skip_ws (compact_member kv @ t) = compact_member kv @ t"
  by (simp add: compact_member_eq)

text \<open>The members of an object, as values and as raw text.\<close>

lemma compact_members:
  assumes "fs \<noteq> []" and "Suc (length (Join (map compact_member fs) '','')) \<le> n"
    and "\<And>kv m rest e. kv \<in> set fs \<Longrightarrow> length (compact (snd kv)) \<le> m \<Longrightarrow> stops rest \<Longrightarrow> e = d \<or> e = 1 \<Longrightarrow>
      p_value m e (compact (snd kv) @ rest) = Some (val_of (snd kv), rest)"
  shows "p_members n d (Join (map compact_member fs) '','' @ CHR ''}'' # rest) = Some (map member_val fs, rest) \<and>
    raw_members n (Join (map compact_member fs) '','' @ CHR ''}'' # rest) =
      Some (map (\<lambda>kv. (to_utf8 (fst kv), compact (snd kv))) fs)"
  using assms
proof (induction fs arbitrary: n)
  case (Cons kv fs)
  obtain m where n: "n = Suc m" using Cons.prems(2) by (cases n) auto
  have len: "length (compact (snd kv)) \<le> length (compact_member kv)"
    using arg_cong [OF compact_member_eq [of kv "[]"], of length] by simp
  show ?case
  proof (cases fs)
    case Nil
    have "p_value m e (compact (snd kv) @ CHR ''}'' # rest) = Some (val_of (snd kv), CHR ''}'' # rest)" if "e = d \<or> e = 1" for e
      using Cons.prems(2) len that by (intro Cons.prems(3)) (simp_all add: n Nil)
    from this [of d] this [of 1] show ?thesis
      by (simp add: n Nil compact_member_eq str_body_escape member_val_def Let_def)
  next
    case (Cons y ys)
    let ?J = "Join (map compact_member fs) '',''"
    have J: "Join (compact_member kv # map compact_member fs) '','' = compact_member kv @ CHR '','' # ?J" by (simp add: Cons)
    have first: "p_value m e (compact (snd kv) @ CHR '','' # t) = Some (val_of (snd kv), CHR '','' # t)" if "e = d \<or> e = 1" for t e
      using Cons.prems(2) len that by (intro Cons.prems(3)) (simp_all add: n J)
    have "p_members m d (?J @ CHR ''}'' # rest) = Some (map member_val fs, rest) \<and>
        raw_members m (?J @ CHR ''}'' # rest) = Some (map (\<lambda>kv. (to_utf8 (fst kv), compact (snd kv))) fs)"
      by (rule Cons.IH) (use Cons.prems(2,3) n J Cons in \<open>auto\<close>)
    moreover have "skip_ws (?J @ t) = ?J @ t" for t using Cons by (cases ys) simp_all
    ultimately show ?thesis using first [of d] first [of 1]
      by (simp add: n J compact_member_eq str_body_escape member_val_def Let_def)
  qed
qed simp

lemma p_value_compact:
  assumes "length (compact j) \<le> n" and "stops rest" and "d + nesting j \<le> maxNestingDepth"
  shows "p_value n d (compact j @ rest) = Some (val_of j, rest)"
  using assms
proof (induction j arbitrary: n d rest rule: val_of.induct)
  case (1 i)
  then show ?case using Itoa_head [of i] p_value_number [of rest n d i] by auto
next
  case (2 s)
  then obtain m where "n = Suc m" by (cases n) (auto simp: json_string_def)
  then show ?case by (simp add: json_string_def str_body_escape)
next
  case (3 xs)
  then obtain m where m: "n = Suc m" by (cases n) auto
  have depth: "d < maxNestingDepth" using 3(4) by simp
  show ?case
  proof (cases "xs = []")
    case True
    then show ?thesis using depth by (simp add: m)
  next
    case False
    have "p_elements m (Suc d) (Join (map compact xs) '','' @ CHR '']'' # rest) = Some (map val_of xs, rest)"
    proof (rule compact_elements [OF False])
      show "Suc (length (Join (map compact xs) '','')) \<le> m" using 3(2) by (simp add: m)
      show "p_value l (Suc d) (compact x @ r) = Some (val_of x, r)"
        if "x \<in> set xs" "length (compact x) \<le> l" "stops r" for x l r
        using 3(1) [OF that(1) that(2,3) nesting_arr [OF that(1) 3(4)]] .
    qed
    moreover obtain x ys where "xs = x # ys" using False by (cases xs) auto
    moreover have "skip_ws (Join (map compact xs) '','' @ t) = Join (map compact xs) '','' @ t"
        "\<not> HasPrefix (Join (map compact xs) '','' @ t) '']''" for t
      using \<open>xs = x # ys\<close> compact_head [of x] by (cases ys; auto)+
    ultimately show ?thesis using depth by (simp add: m del: list.map)
  qed
next
  case (4 fs)
  then obtain m where m: "n = Suc m" by (cases n) auto
  have depth: "d < maxNestingDepth" using 4(4) by simp
  have val: "val_of (JObj fs) = VDict (map member_val fs)" by (simp add: member_val_def [abs_def])
  show ?case
  proof (cases "fs = []")
    case True
    then show ?thesis using depth by (simp add: m)
  next
    case False
    have "p_members m (Suc d) (Join (map compact_member fs) '','' @ CHR ''}'' # rest) = Some (map member_val fs, rest)"
    proof (rule compact_members [OF False, THEN conjunct1])
      show "Suc (length (Join (map compact_member fs) '','')) \<le> m" using 4(2) unfolding compact_JObj by (simp add: m)
      show "p_value l e (compact (snd kv) @ r) = Some (val_of (snd kv), r)"
        if "kv \<in> set fs" "length (compact (snd kv)) \<le> l" "stops r" "e = Suc d \<or> e = 1" for kv l r e
        using 4(1) [OF that(1) that(2,3), of e] nesting_obj [OF that(1) 4(4)] that(4) by auto
    qed
    moreover obtain x ys where "fs = x # ys" using False by (cases fs) auto
    moreover have "skip_ws (Join (map compact_member fs) '','' @ t) = Join (map compact_member fs) '','' @ t"
        "\<not> HasPrefix (Join (map compact_member fs) '','' @ t) ''}''" for t
      using \<open>fs = x # ys\<close> by (cases ys; simp add: compact_member_eq)+
    ultimately show ?thesis using depth unfolding compact_JObj val by (simp add: m del: list.map)
  qed
qed

lemma parse_json_compact:
  assumes "nesting j \<le> maxNestingDepth"
  shows "parse_json (compact j) = Some (val_of j)"
proof -
  have "skip_ws [] = []" by (simp add: skip_ws_def)
  then show ?thesis
    using p_value_compact [of j "2 * length (compact j) + 1" "[]" 0] assms skip_ws_compact [of j "[]"]
    by (simp add: parse_json_def del: skip_ws_compact)
qed

text \<open>The raw members of a marshalled object are the marshalled members.\<close>

lemma members_raw_compact:
  assumes "nesting (JObj fs) \<le> maxNestingDepth"
  shows "members_raw (compact (JObj fs)) = Some (map (\<lambda>kv. (to_utf8 (fst kv), compact (snd kv))) fs)"
proof -
  have parsed: "parse_json (compact (JObj fs)) = Some (VDict (map member_val fs))"
    using parse_json_compact [OF assms] by (simp add: member_val_def [abs_def])
  have head: "skip_ws (compact (JObj fs)) = compact (JObj fs)" using skip_ws_compact [of "JObj fs" "[]"] by simp
  show ?thesis
  proof (cases fs)
    case Nil
    have "skip_ws ''}'' = ''}''" by (simp add: skip_ws_def)
    then show ?thesis using parsed head by (simp add: members_raw_def Nil)
  next
    case (Cons kv ys)
    let ?J = "Join (map compact_member fs) '',''"
    have "raw_members (2 * length (compact (JObj fs)) + 1) (?J @ CHR ''}'' # []) =
        Some (map (\<lambda>kv. (to_utf8 (fst kv), compact (snd kv))) fs)"
    proof (rule compact_members [where d = 1, THEN conjunct2])
      show "Suc (length ?J) \<le> 2 * length (compact (JObj fs)) + 1" unfolding compact_JObj by simp
      show "p_value l e (compact (snd kv) @ r) = Some (val_of (snd kv), r)"
        if "kv \<in> set fs" "length (compact (snd kv)) \<le> l" "stops r" "e = 1 \<or> e = 1" for kv l r e
        using p_value_compact [OF that(2,3)] nesting_obj [OF that(1), of 0 maxNestingDepth] assms that(4) by auto
    qed (use Cons in simp)
    moreover have "skip_ws (?J @ t) = ?J @ t" "\<not> HasPrefix (?J @ t) ''}''" for t
      using Cons by (cases ys; simp add: compact_member_eq)+
    ultimately show ?thesis using parsed head unfolding members_raw_def by (simp add: compact_JObj del: compact.simps raw_members.simps)
  qed
qed

text \<open>A marshalled value is one line.\<close>

lemma second_cont: "second_ok x c \<Longrightarrow> is_cont c"
  by (auto simp: second_ok_def is_cont_def split: if_splits)

lemma rune_tail:
  assumes "2 \<le> rune_size s"
  shows "\<forall>c\<in>set (tl (take (rune_size s) s)). is_cont c"
proof -
  consider "rune_size s = 2" | "rune_size s = 3" | "rune_size s = 4"
    using rune_size_4 [of s] assms by auto
  then show ?thesis
  proof cases
    case 1
    then have "2 \<le> length s" using rune_size_le [of s] by simp
    then obtain a b u where "s = a # b # u" by (auto simp: numeral_2_eq_2 Suc_le_length_iff)
    then show ?thesis using 1 rune_size_2 [of a b u] by simp
  next
    case 2
    then have "3 \<le> length s" using rune_size_le [of s] by simp
    then obtain a b c u where "s = a # b # c # u" by (auto simp: numeral_3_eq_3 Suc_le_length_iff)
    then show ?thesis using 2 rune_size_3 [of a b c u] second_cont [of "byte a" b] by simp
  next
    case 3
    then have "4 \<le> length s" using rune_size_le [of s] by simp
    then obtain a b c d u where "s = a # b # c # d # u" by (auto simp: numeral_eq_Suc Suc_le_length_iff)
    then show ?thesis using 3 rune_size_4' [of a b c d u] second_cont [of "byte a" b] by simp
  qed
qed

lemma rune_high:
  assumes "2 \<le> rune_size s"
  shows "\<forall>c\<in>set (take (rune_size s) s). 128 \<le> byte c"
proof -
  obtain c t where "take (rune_size s) s = c # t" "194 \<le> byte c"
    using rune_size_head [OF assms] assms by (cases s; cases "rune_size s") auto
  then show ?thesis using rune_tail [OF assms] by (auto simp: is_cont_def)
qed

lemma hex_no_newline: "n < 256 \<Longrightarrow> CHR 0x0A \<notin> set (hex_escape n)"
proof -
  have "\<forall>d\<in>set [0..<16]. digit_char d \<noteq> CHR 0x0A" by code_simp
  then show "n < 256 \<Longrightarrow> CHR 0x0A \<notin> set (hex_escape n)" by (auto simp: hex_escape_def)
qed

lemma escape_no_newline: "CHR 0x0A \<notin> set (escape s)"
proof (induction s rule: escape.induct)
  case (1 s)
  have byte: "CHR 0x0A \<notin> set (escape_byte c)" for c
    using hex_no_newline [of "byte c"] by (auto simp: escape_byte_def byte_def)
  have rune: "CHR 0x0A \<notin> set (escape_rune (take (rune_size s) s))" if "2 \<le> rune_size s"
    using rune_high [OF that] by (auto simp: escape_rune_def byte_def)
  show ?case
  proof (cases "s = [] \<or> rune_size s = 0")
    case True
    then show ?thesis using 1(1) by (cases "s = []") (simp_all add: escape.simps [of s] escape.simps [of "[]"])
  next
    case False
    then consider "rune_size s = 1" | "2 \<le> rune_size s" by linarith
    then show ?thesis
      by cases (use False 1(2,3) byte [of "hd s"] rune in \<open>simp_all add: escape.simps [of s]\<close>)
  qed
qed

lemma in_JoinD: "c \<in> set (Join xs sep) \<Longrightarrow> c \<in> set sep \<or> (\<exists>x\<in>set xs. c \<in> set x)"
  by (induction xs sep rule: Join.induct) auto

lemma compact_one_line: "CHR 0x0A \<notin> set (compact j)"
proof (induction j rule: compact.induct)
  case (1 i)
  show ?case using nat_text_digits no_digit(2) by (auto simp: Itoa_def split: if_splits)
qed (auto simp: json_string_def escape_no_newline dest!: in_JoinD)

end
