(* ===== verification/JsonRaw.thy ===== *)
theory JsonRaw
  imports JsonCompact
begin

text \<open>
  json.Marshal of a json.RawMessage: the text is compacted, white space outside strings goes,
  and the HTML characters and line separators inside strings are escaped. The compacted text
  of a value is on one line and stands for the same value, whatever follows it.
\<close>

section \<open>Compacting\<close>

text \<open>The flag says whether the text continues inside a string.\<close>

function compact_raw :: "bool \<Rightarrow> string \<Rightarrow> string" where
  "compact_raw q s =
     (case s of
        [] \<Rightarrow> []
      | c # t \<Rightarrow>
          (if \<not> q then (if is_ws c then compact_raw False t else c # compact_raw (c = CHR 0x22) t)
           else if c = CHR 0x22 then c # compact_raw False t
           else if c = CHR 0x5C then c # take 1 t @ compact_raw True (drop 1 t)
           else if c \<in> {CHR ''<'', CHR ''>'', CHR ''&''} then hex_escape (byte c) @ compact_raw True t
           else if is_line_sep (take 3 s) then escape_rune (take 3 s) @ compact_raw True (drop 3 s)
           else c # compact_raw True t))"
  by pat_completeness auto
termination
  by (relation "measure (length \<circ> snd)") auto

declare compact_raw.simps [simp del]

lemma compact_raw_ws: "compact_raw False (takeWhile is_ws s @ t) = compact_raw False t"
  by (induction s) (simp_all add: compact_raw.simps [of False "_ # _"])

lemma skip_ws_split: "takeWhile is_ws s @ skip_ws s = s"
  by (simp add: skip_ws_def)

lemma compact_raw_copy:
  "\<not> is_ws c \<Longrightarrow> c \<noteq> CHR 0x22 \<Longrightarrow> compact_raw False (c # t) = c # compact_raw False t"
  by (simp add: compact_raw.simps [of False "c # t"])

lemma compact_raw_copies:
  "\<forall>c\<in>set p. \<not> is_ws c \<and> c \<noteq> CHR 0x22 \<Longrightarrow> compact_raw False (p @ t) = p @ compact_raw False t"
  by (induction p) (simp_all add: compact_raw_copy)

lemma compact_raw_quote: "compact_raw False (CHR 0x22 # t) = CHR 0x22 # compact_raw True t"
  by (simp add: compact_raw.simps [of False "_ # _"])

section \<open>Inside a string\<close>

text \<open>The low surrogate a text starts with, as an escape.\<close>

definition low_follows :: "string \<Rightarrow> nat option" where
  "low_follows s =
     (case (take 2 s = [CHR 0x5C, CHR ''u''], hex4 (drop 2 s)) of
        (True, Some r) \<Rightarrow> if 56320 \<le> r \<and> r < 57344 then Some r else None
      | _ \<Rightarrow> None)"

lemma unicode_escape_low:
  "unicode_escape r s =
     (if \<not> is_surrogate r then (utf8_encode r, s)
      else if r < 56320 then
        (case low_follows s of
           None \<Rightarrow> (replacement, s)
         | Some r2 \<Rightarrow> (utf8_encode (65536 + 1024 * (r - 55296) + (r2 - 56320)), drop 6 s))
      else (replacement, s))"
  by (auto simp: unicode_escape_def low_follows_def split: bool.splits option.splits)

lemma low_follows_plain: "c \<noteq> CHR 0x5C \<Longrightarrow> low_follows (c # t) = None"
  by (simp add: low_follows_def)

lemma low_follows_simple: "e \<noteq> CHR ''u'' \<Longrightarrow> low_follows (c # e # t) = None"
  by (simp add: low_follows_def)

lemma rune_size_cut:
  "\<not> is_cont b \<Longrightarrow> rune_size (c # b # u) = rune_size [c]"
  "\<not> is_cont d \<Longrightarrow> rune_size (c # b # d # u) = rune_size [c, b]"
  "\<not> is_cont e \<Longrightarrow> rune_size (c # b # d # e # u) = rune_size [c, b, d]"
  "rune_size (c # b # d # e # u) = rune_size [c, b, d, e]"
  using second_cont [of "byte c" b] by (auto simp: rune_size_def Let_def split: list.split)

lemma rune_size_conts: "rune_size (c # takeWhile is_cont t) = rune_size (c # t)"
proof (cases t)
  case (Cons b u)
  note b = this
  show ?thesis
  proof (cases u)
    case (Cons d v)
    note d = this
    show ?thesis
    proof (cases v)
      case (Cons e x)
      have four: "rune_size (c # b # d # e # takeWhile is_cont x) = rune_size (c # b # d # e # x)"
        using rune_size_cut(4) by metis
      show ?thesis
        by (cases "is_cont b"; cases "is_cont d"; cases "is_cont e") (simp_all add: b d Cons rune_size_cut(1-3) four)
    qed (cases "is_cont b"; cases "is_cont d"; simp add: b d rune_size_cut(1-3))
  qed (cases "is_cont b"; simp add: b rune_size_cut(1-3))
qed simp

lemma rune_size_same_conts: "takeWhile is_cont t = takeWhile is_cont u \<Longrightarrow> rune_size (c # t) = rune_size (c # u)"
  using rune_size_conts by metis

text \<open>
  The text s starts with pre, which compacts to cpre; both are the text x and the closing
  quote; what follows is r.
\<close>

definition copies :: "string \<Rightarrow> string \<Rightarrow> string \<Rightarrow> string \<Rightarrow> string \<Rightarrow> bool" where
  "copies s x r pre cpre \<longleftrightarrow>
     s = pre @ r \<and> (\<forall>t. compact_raw True (pre @ t) = cpre @ compact_raw False t) \<and>
     (\<forall>t. str_body (pre @ t) = Some (x, t)) \<and> (\<forall>t. str_body (cpre @ t) = Some (x, t)) \<and> CHR 0x0A \<notin> set cpre \<and>
     (\<forall>t. low_follows (pre @ t) = low_follows s) \<and> (\<forall>t. low_follows (cpre @ t) = low_follows s) \<and>
     (\<forall>t. takeWhile is_cont (cpre @ t) = takeWhile is_cont s) \<and> (\<forall>t. takeWhile is_cont (pre @ t) = takeWhile is_cont s)"

lemma no_cont [simp]: "\<not> is_cont (CHR 0x22)" "\<not> is_cont (CHR 0x5C)"
  by code_simp+

lemma copies_quote: "copies (CHR 0x22 # t) [] t [CHR 0x22] [CHR 0x22]"
  by (simp add: copies_def compact_raw.simps [of True "_ # _"] str_body.simps [of "_ # _"] low_follows_plain)

lemma copiesI:
  assumes "s = pre @ r" and "\<And>t. compact_raw True (pre @ t) = cpre @ compact_raw False t"
    and "\<And>t. str_body (cpre @ t) = Some (x, t)" and "CHR 0x0A \<notin> set cpre"
    and "\<And>t. low_follows (cpre @ t) = low_follows s"
    and "\<And>t. takeWhile is_cont (cpre @ t) = takeWhile is_cont s" and "\<And>t. takeWhile is_cont (pre @ t) = takeWhile is_cont s"
    and "\<And>t. str_body (pre @ t) = Some (x, t)" and "\<And>t. low_follows (pre @ t) = low_follows s"
  shows "copies s x r pre cpre"
  using assms unfolding copies_def by blast

lemma copiesD:
  assumes "copies s x r pre cpre"
  shows "s = pre @ r" "compact_raw True (pre @ t) = cpre @ compact_raw False t" "str_body (cpre @ t) = Some (x, t)"
    "CHR 0x0A \<notin> set cpre" "low_follows (cpre @ t) = low_follows s"
    "takeWhile is_cont (cpre @ t) = takeWhile is_cont s" "takeWhile is_cont (pre @ t) = takeWhile is_cont s"
    "str_body (pre @ t) = Some (x, t)" "low_follows (pre @ t) = low_follows s"
  using assms unfolding copies_def by blast+

lemma copies_step:
  assumes "copies v x r pre cpre"
    and "\<And>t. compact_raw True (p @ pre @ t) = cp @ compact_raw True (pre @ t)"
    and "\<And>t. str_body (cp @ cpre @ t) = prepend y (str_body (cpre @ t))"
    and "CHR 0x0A \<notin> set cp"
    and "\<And>t. low_follows (cp @ cpre @ t) = low_follows (p @ v)"
    and "\<And>t. takeWhile is_cont (cp @ cpre @ t) = takeWhile is_cont (p @ v)"
    and "\<And>t. takeWhile is_cont (p @ pre @ t) = takeWhile is_cont (p @ v)"
    and "\<And>t. str_body (p @ pre @ t) = prepend y (str_body (pre @ t))"
    and "\<And>t. low_follows (p @ pre @ t) = low_follows (p @ v)"
  shows "copies (p @ v) (y @ x) r (p @ pre) (cp @ cpre)"
proof (rule copiesI)
  show "compact_raw True ((p @ pre) @ t) = (cp @ cpre) @ compact_raw False t" for t
    using assms(2) [of t] copiesD(2) [OF assms(1)] by simp
  show "str_body ((cp @ cpre) @ t) = Some (y @ x, t)" for t
    using assms(3) [of t] copiesD(3) [OF assms(1)] by simp
  show "CHR 0x0A \<notin> set (cp @ cpre)" using assms(4) copiesD(4) [OF assms(1)] by simp
  show "p @ v = (p @ pre) @ r" using copiesD(1) [OF assms(1)] by simp
  show "low_follows ((cp @ cpre) @ t) = low_follows (p @ v)" for t using assms(5) [of t] by simp
  show "takeWhile is_cont ((cp @ cpre) @ t) = takeWhile is_cont (p @ v)" for t using assms(6) [of t] by simp
  show "takeWhile is_cont ((p @ pre) @ t) = takeWhile is_cont (p @ v)" for t using assms(7) [of t] by simp
  show "str_body ((p @ pre) @ t) = Some (y @ x, t)" for t using assms(8) [of t] copiesD(8) [OF assms(1)] by simp
  show "low_follows ((p @ pre) @ t) = low_follows (p @ v)" for t using assms(9) [of t] by simp
qed

lemma hex_value_none: "hex_value (CHR 0x22) = None" "hex_value (CHR 0x5C) = None" "hex_value (CHR ''<'') = None"
    "hex_value (CHR ''>'') = None" "hex_value (CHR ''&'') = None" "hex_value (CHR 0xE2) = None" "hex_value (CHR 0x0A) = None"
  by code_simp+

lemma hex_value_char:
  assumes "hex_value c = Some n"
  shows "c \<noteq> CHR 0x22" "c \<noteq> CHR 0x5C" "c \<notin> {CHR ''<'', CHR ''>'', CHR ''&''}" "c \<noteq> CHR 0xE2" "c \<noteq> CHR 0x0A"
  using assms hex_value_none by auto

lemma compact_raw_hex: "hex_value c = Some n \<Longrightarrow> compact_raw True (c # t) = c # compact_raw True t"
  using hex_value_char [of c n] by (simp add: compact_raw.simps [of True "c # t"] is_line_sep_def)

lemma hex4_Some: "hex4 s = Some n \<Longrightarrow> \<exists>a b c d t i j k l. s = a # b # c # d # t \<and>
    hex_value a = Some i \<and> hex_value b = Some j \<and> hex_value c = Some k \<and> hex_value d = Some l"
  by (auto simp: hex4_def split: list.splits option.splits)

lemma compact_raw_unicode:
  assumes "hex4 u = Some n"
  shows "compact_raw True (CHR 0x5C # CHR ''u'' # take 4 u @ t) = CHR 0x5C # CHR ''u'' # take 4 u @ compact_raw True t"
    and "hex4 (take 4 u @ t) = Some n" and "CHR 0x0A \<notin> set (take 4 u)" and "length (take 4 u) = 4"
  using hex4_Some [OF assms] assms hex_value_none(7)
  by (auto simp: compact_raw.simps [of True "CHR 0x5C # _"] compact_raw_hex hex4_def)


text \<open>The escapes of a code point, alone or as a pair of surrogates.\<close>

abbreviation (input) u_escape :: "string \<Rightarrow> string" where
  "u_escape u \<equiv> CHR 0x5C # CHR ''u'' # take 4 u"

lemma low_follows_escape:
  assumes "hex4 u = Some n"
  shows "low_follows (CHR 0x5C # CHR ''u'' # take 4 u @ t) = low_follows (CHR 0x5C # CHR ''u'' # u)"
  using compact_raw_unicode(2) [OF assms] assms by (simp add: low_follows_def)

lemma str_body_unicode:
  assumes "hex4 u = Some n"
  shows "str_body (CHR 0x5C # CHR ''u'' # take 4 u @ t) =
    (case unicode_escape n t of (x, v) \<Rightarrow> prepend x (str_body v))"
  using compact_raw_unicode(2,4) [OF assms] by (simp add: str_body.simps [of "CHR 0x5C # _"])

lemma low_follows_Some:
  assumes "low_follows w = Some n"
  obtains u where "w = CHR 0x5C # CHR ''u'' # u" and "hex4 u = Some n"
proof -
  have *: "take 2 w = [CHR 0x5C, CHR ''u'']" "hex4 (drop 2 w) = Some n"
    using assms by (auto simp: low_follows_def split: bool.splits option.splits if_splits)
  then have "w = CHR 0x5C # CHR ''u'' # drop 2 w" using append_take_drop_id [of 2 w] by simp
  then show ?thesis using that *(2) by blast
qed

lemma copies_unicode:
  assumes "hex4 u = Some n" and "copies (drop 4 u) y r pre cpre"
    and "\<And>t. unicode_escape n (cpre @ t) = (x, cpre @ t)" and "\<And>t. unicode_escape n (pre @ t) = (x, pre @ t)"
  shows "copies (CHR 0x5C # CHR ''u'' # u) (x @ y) r (u_escape u @ pre) (u_escape u @ cpre)"
proof -
  have "copies (u_escape u @ drop 4 u) (x @ y) r (u_escape u @ pre) (u_escape u @ cpre)"
    using compact_raw_unicode(1,3) [OF assms(1)] low_follows_escape [OF assms(1)] str_body_unicode [OF assms(1)] assms(3,4)
    by (intro copies_step [OF assms(2)]) simp_all
  then show ?thesis by simp
qed

lemma copies_pair:
  assumes "hex4 u = Some n" and "hex4 w = Some m" and "drop 4 u = CHR 0x5C # CHR ''u'' # w"
    and "copies (drop 4 w) y r pre cpre" and "is_surrogate n" "n < 56320" "56320 \<le> m" "m < 57344"
  shows "copies (CHR 0x5C # CHR ''u'' # u) (utf8_encode (65536 + 1024 * (n - 55296) + (m - 56320)) @ y) r
    ((u_escape u @ u_escape w) @ pre) ((u_escape u @ u_escape w) @ cpre)"
proof -
  have low: "low_follows (CHR 0x5C # CHR ''u'' # take 4 w @ t) = Some m" for t
    using compact_raw_unicode(2) [OF assms(2)] assms(7,8) by (simp add: low_follows_def)
  have "copies ((u_escape u @ u_escape w) @ drop 4 w) (utf8_encode (65536 + 1024 * (n - 55296) + (m - 56320)) @ y) r
      ((u_escape u @ u_escape w) @ pre) ((u_escape u @ u_escape w) @ cpre)"
    using compact_raw_unicode [OF assms(1)] compact_raw_unicode [OF assms(2)] low_follows_escape [OF assms(1)]
      str_body_unicode [OF assms(1)] low assms(5,6)
    by (intro copies_step [OF assms(4)]) (simp_all add: unicode_escape_low)
  moreover have "(u_escape u @ u_escape w) @ drop 4 w = CHR 0x5C # CHR ''u'' # u"
    using append_take_drop_id [of 4 u] assms(3) by simp
  ultimately show ?thesis by simp
qed

text \<open>A rune is copied, or escaped when it is a line separator.\<close>

lemma line_sep_rune: "is_line_sep (take 3 s) \<Longrightarrow> rune_size s = 3"
proof -
  have "byte (CHR 0xE2) = 226" "byte (CHR 0x80) = 128" "byte (CHR 0xA8) = 168" "byte (CHR 0xA9) = 169" by code_simp+
  moreover assume "is_line_sep (take 3 s)"
  ultimately show ?thesis
    by (cases s; cases "tl s"; cases "tl (tl s)")
      (auto simp: is_line_sep_def rune_size_def second_ok_def is_cont_def)
qed

lemma compact_raw_high:
  assumes "128 \<le> byte c" and "\<not> is_line_sep (take 3 (c # t))"
  shows "compact_raw True (c # t) = c # compact_raw True t"
proof -
  have "byte (CHR 0x22) < 128" "byte (CHR 0x5C) < 128" "byte (CHR ''<'') < 128" "byte (CHR ''>'') < 128" "byte (CHR ''&'') < 128"
    by code_simp+
  then have "c \<noteq> CHR 0x22" "c \<noteq> CHR 0x5C" "c \<notin> {CHR ''<'', CHR ''>'', CHR ''&''}" using assms(1) by auto
  then show ?thesis using assms(2) by (simp add: compact_raw.simps [of True "c # t"])
qed

lemma compact_raw_conts: "\<forall>c\<in>set p. is_cont c \<Longrightarrow> compact_raw True (p @ t) = p @ compact_raw True t"
proof (induction p)
  case (Cons c p)
  have "\<not> is_cont (CHR 0xE2)" by code_simp
  then have "c \<noteq> CHR 0xE2" using Cons.prems by auto
  then have "\<not> is_line_sep (take 3 (c # p @ t))" by (simp add: is_line_sep_def)
  then show ?case using Cons compact_raw_high [of c "p @ t"] by (simp add: is_cont_def)
qed simp

lemma copies_invalid:
  assumes "rune_size (c # t) = 0" and "copies t y r pre cpre"
  shows "copies (c # t) (replacement @ y) r (c # pre) (c # cpre)"
proof -
  have high: "128 \<le> byte c" using assms(1) rune_size_one [of "c # t"] by auto
  then have c: "c \<noteq> CHR 0x22" "c \<noteq> CHR 0x5C" "c \<noteq> CHR 0x0A" "\<not> byte c < 32" by (auto simp: byte_def)
  have size: "rune_size (c # cpre @ u) = 0" "rune_size (c # pre @ u) = 0" for u
    using rune_size_same_conts [OF copiesD(6) [OF assms(2)]] rune_size_same_conts [OF copiesD(7) [OF assms(2)]] assms(1)
    by simp_all
  have "copies ([c] @ t) (replacement @ y) r ([c] @ pre) ([c] @ cpre)"
  proof (rule copies_step [OF assms(2)])
    show "compact_raw True ([c] @ pre @ u) = [c] @ compact_raw True (pre @ u)" for u
      using compact_raw_high [OF high, of "pre @ u"] line_sep_rune [of "c # pre @ u"] size(2) [of u] by auto
    show "str_body ([c] @ cpre @ u) = prepend replacement (str_body (cpre @ u))" for u
      using c size(1) by (simp add: str_body.simps [of "c # _"])
    show "str_body ([c] @ pre @ u) = prepend replacement (str_body (pre @ u))" for u
      using c size(2) by (simp add: str_body.simps [of "c # _"])
  qed (use c low_follows_plain copiesD(6,7) [OF assms(2)] in simp_all)
  then show ?thesis by simp
qed

lemma copies_byte:
  assumes "byte c < 128" and "32 \<le> byte c" and "c \<noteq> CHR 0x22" and "c \<noteq> CHR 0x5C" and "copies t y r pre cpre"
  shows "\<exists>cp. copies (c # t) (c # y) r (c # pre) (cp @ cpre)"
proof -
  have cont: "\<not> is_cont c" using assms(1) by (simp add: is_cont_def)
  have "byte (CHR 0x0A) = 10" "byte (CHR 0xE2) = 226" by code_simp+
  then have nl: "c \<noteq> CHR 0x0A" "c \<noteq> CHR 0xE2" using assms(1,2) by auto
  define cp where "cp = (if c \<in> {CHR ''<'', CHR ''>'', CHR ''&''} then hex_escape (byte c) else [c])"
  have low: "low_follows (cp @ u) = None" for u
    using hex4_byte [OF assms(1), of u] assms(1,4) by (simp add: cp_def hex_escape_def low_follows_def low_follows_plain)
  have "copies ([c] @ t) ([c] @ y) r ([c] @ pre) (cp @ cpre)"
  proof (rule copies_step [OF assms(5)])
    show "compact_raw True ([c] @ pre @ u) = cp @ compact_raw True (pre @ u)" for u
      using assms(3,4) nl(2) by (simp add: cp_def compact_raw.simps [of True "c # _"] is_line_sep_def)
    show "str_body (cp @ cpre @ u) = prepend [c] (str_body (cpre @ u))" for u
      using str_body_hex [OF assms(1)] str_body_plain [of "[c]" "cpre @ u"] assms(1-4)
      by (simp add: cp_def rune_size_byte)
    show "str_body ([c] @ pre @ u) = prepend [c] (str_body (pre @ u))" for u
      using str_body_plain [of "[c]" "pre @ u"] assms(1-4) by (simp add: rune_size_byte)
    show "CHR 0x0A \<notin> set cp" using hex_no_newline [of "byte c"] assms(1) nl(1) by (auto simp: cp_def)
    show "takeWhile is_cont (cp @ cpre @ u) = takeWhile is_cont ([c] @ t)" for u
      using cont by (simp add: cp_def hex_escape_def)
  qed (use low low_follows_plain [OF assms(4)] cont in simp_all)
  then show ?thesis by auto
qed

lemma copies_rune:
  assumes "2 \<le> rune_size s" and "copies (drop (rune_size s) s) y r pre cpre"
  shows "\<exists>cp. copies s (take (rune_size s) s @ y) r (take (rune_size s) s @ pre) (cp @ cpre)"
proof -
  let ?p = "take (rune_size s) s"
  obtain c q where p: "?p = c # q" "194 \<le> byte c"
    using rune_size_head [OF assms(1)] assms(1) by (cases s; cases "rune_size s") auto
  have c: "c \<noteq> CHR 0x22" "c \<noteq> CHR 0x5C" "c \<noteq> CHR 0x0A" "\<not> is_cont c" "128 \<le> byte c" "32 \<le> byte c"
    using p(2) by (auto simp: byte_def is_cont_def)
  have size: "rune_size (?p @ u) = rune_size s" for u using rune_size_prefix [of s u] assms(1) by simp
  have tail: "\<forall>b\<in>set q. is_cont b" using rune_tail [OF assms(1)] p(1) by simp
  have "CHR 0x0A \<notin> set ?p" using rune_high [OF assms(1)] by (auto simp: byte_def)
  then have nl: "CHR 0x0A \<notin> set (escape_rune ?p)" by (auto simp: escape_rune_def)
  have body: "str_body (?p @ u) = prepend ?p (str_body u)" for u
    by (rule str_body_plain) (use assms(1) c p in \<open>cases s; cases "rune_size s"; simp\<close>)+
  show ?thesis
  proof (cases "is_line_sep ?p")
    case True
    then have three: "length ?p = 3" by (auto simp: is_line_sep_def simp del: length_take)
    have low: "low_follows (escape_rune ?p @ u) = None" for u
    proof -
      have "hex_value (CHR ''2'') = Some 2" "hex_value (CHR ''0'') = Some 0" "hex_value (CHR ''8'') = Some 8"
          "hex_value (CHR ''9'') = Some 9" by code_simp+
      then show ?thesis using True by (simp add: escape_rune_def low_follows_def hex4_def)
    qed
    have "copies (?p @ drop (rune_size s) s) (?p @ y) r (?p @ pre) (escape_rune ?p @ cpre)"
    proof (rule copies_step [OF assms(2)])
      show "compact_raw True (?p @ pre @ u) = escape_rune ?p @ compact_raw True (pre @ u)" for u
        using True three p(1) c(1,2) by (auto simp: compact_raw.simps [of True "c # _"] is_line_sep_def)
      show "str_body (escape_rune ?p @ cpre @ u) = prepend ?p (str_body (cpre @ u))" for u
        by (rule str_body_sep [OF True])
      show "low_follows (escape_rune ?p @ cpre @ u) = low_follows (?p @ drop (rune_size s) s)" for u
        using low low_follows_plain [OF c(2)] p(1) by simp
      show "takeWhile is_cont (escape_rune ?p @ cpre @ u) = takeWhile is_cont (?p @ drop (rune_size s) s)" for u
        using c(4) p(1) True by (simp add: escape_rune_def)
      show "takeWhile is_cont (?p @ pre @ u) = takeWhile is_cont (?p @ drop (rune_size s) s)" for u using c(4) p(1) by simp
      show "low_follows (?p @ pre @ u) = low_follows (?p @ drop (rune_size s) s)" for u
        using low_follows_plain [OF c(2)] p(1) by simp
      show "str_body (?p @ pre @ u) = prepend ?p (str_body (pre @ u))" for u by (rule body)
    qed (rule nl)
    then show ?thesis by auto
  next
    case False
    have "copies (?p @ drop (rune_size s) s) (?p @ y) r (?p @ pre) (?p @ cpre)"
    proof (rule copies_step [OF assms(2)])
      show "compact_raw True (?p @ pre @ u) = ?p @ compact_raw True (pre @ u)" for u
      proof -
        have "\<not> is_line_sep (take 3 (?p @ pre @ u))"
        proof
          assume sep: "is_line_sep (take 3 (?p @ pre @ u))"
          then have "rune_size s = 3" using line_sep_rune size by metis
          moreover then have "length ?p = 3" using rune_size_le [of s] by simp
          ultimately show False using sep False by simp
        qed
        then show ?thesis using compact_raw_high [OF c(5)] compact_raw_conts [OF tail] p(1) by simp
      qed
      show "str_body (?p @ cpre @ u) = prepend ?p (str_body (cpre @ u))" for u
        by (rule body)
      show "str_body (?p @ pre @ u) = prepend ?p (str_body (pre @ u))" for u by (rule body)
    qed (use \<open>CHR 0x0A \<notin> set ?p\<close> c low_follows_plain p(1) in simp_all)
    then show ?thesis by auto
  qed
qed

lemma str_body_copies: "str_body s = Some (x, r) \<Longrightarrow> \<exists>pre cpre. copies s x r pre cpre"
proof (induction s arbitrary: x rule: str_body.induct)
  case (1 s)
  then obtain c t where s: "s = c # t" by (cases s) (auto simp: str_body.simps [of "[]"])
  show ?case
  proof (cases "c = CHR 0x22")
    case True
    then show ?thesis using 1(5) copies_quote [of t] by (auto simp: s str_body.simps [of "_ # _"])
  next
    case quote: False
    show ?thesis
    proof (cases "c = CHR 0x5C")
      case True
      then obtain e u where t: "t = e # u" using 1(5) by (cases t) (auto simp: s str_body.simps [of "_ # _"])
      show ?thesis
      proof (cases "e = CHR ''u''")
        case u: True
        then obtain n y v z where n: "hex4 u = Some n" "unicode_escape n (drop 4 u) = (y, v)" "str_body v = Some (z, r)" "x = y @ z"
          using 1(5) True by (auto simp: s t str_body.simps [of "_ # _"] prepend_def split: option.splits prod.splits)
        obtain pre cpre where c: "copies v z r pre cpre"
          using 1(1) [OF s quote True t u n(1) n(2) [symmetric] n(3)] by blast
        show ?thesis
        proof (cases "is_surrogate n \<and> n < 56320 \<and> low_follows (drop 4 u) \<noteq> None")
          case True
          then obtain m w where m: "low_follows (drop 4 u) = Some m" "drop 4 u = CHR 0x5C # CHR ''u'' # w" "hex4 w = Some m"
            using low_follows_Some by (metis option.exhaust)
          have range: "56320 \<le> m" "m < 57344" using m(1) by (auto simp: low_follows_def split: bool.splits option.splits if_splits)
          have "y = utf8_encode (65536 + 1024 * (n - 55296) + (m - 56320))" "v = drop 4 w"
            using n(2) True m by (auto simp: unicode_escape_low)
          then show ?thesis 
            using copies_pair [OF n(1) m(3,2) c [unfolded \<open>v = drop 4 w\<close>] _ _ range] True n(4) u \<open>c = CHR 0x5C\<close>
            by (simp add: s t) blast
        next
          case False
          then have v: "v = drop 4 u" using n(2) by (auto simp: unicode_escape_low split: if_splits option.splits)
          have esc: "unicode_escape n (cpre @ t) = (y, cpre @ t)" for t
            using n(2) False copiesD(5) [OF c, of t] by (auto simp: v unicode_escape_low split: if_splits option.splits)
          have esc': "unicode_escape n (pre @ t) = (y, pre @ t)" for t
            using n(2) False copiesD(9) [OF c, of t] by (auto simp: v unicode_escape_low split: if_splits option.splits)
          show ?thesis
            using copies_unicode [OF n(1) c [unfolded v] esc esc'] n(4) u \<open>c = CHR 0x5C\<close> by (simp add: s t) blast
        qed
      next
        case False
        then obtain b y where b: "simple_escape e = Some b" "str_body u = Some (y, r)" "x = [b] @ y"
          using 1(5) True by (auto simp: s t str_body.simps [of "_ # _"] prepend_def split: option.splits)
        obtain pre cpre where c: "copies u y r pre cpre" using 1(2) [OF s quote True t False b(1,2)] by blast
        have "e \<noteq> CHR 0x0A" using b(1) by (auto simp: simple_escape_def)
        then have "copies ([CHR 0x5C, e] @ u) ([b] @ y) r ([CHR 0x5C, e] @ pre) ([CHR 0x5C, e] @ cpre)"
          using False b(1) by (intro copies_step [OF c])
            (simp_all add: compact_raw.simps [of True "CHR 0x5C # _"] str_body.simps [of "CHR 0x5C # _"] low_follows_simple)
        then show ?thesis using True b(3) by (auto simp: s t)
      qed
    next
      case plain: False
      have ctl: "\<not> byte c < 32" using 1(5) quote plain by (auto simp: s str_body.simps [of "_ # _"])
      show ?thesis
      proof (cases "rune_size s = 0")
        case True
        then obtain y where y: "str_body t = Some (y, r)" "x = replacement @ y"
          using 1(5) quote plain ctl by (auto simp: s str_body.simps [of "_ # _"] prepend_def)
        then show ?thesis using 1(3) [OF s quote plain ctl True] copies_invalid True by (metis s)
      next
        case False
        then obtain y where y: "str_body (drop (rune_size s) s) = Some (y, r)" "x = take (rune_size s) s @ y"
          using 1(5) quote plain ctl by (auto simp: s str_body.simps [of "_ # _"] prepend_def)
        obtain pre cpre where c: "copies (drop (rune_size s) s) y r pre cpre"
          using 1(4) [OF s quote plain ctl False y(1)] by blast
        show ?thesis
        proof (cases "rune_size s = 1")
          case True
          then have "byte c < 128" using rune_size_one [of s] by (simp add: s)
          then show ?thesis using copies_byte [of c t y r pre cpre] ctl quote plain c y(2) True by (auto simp: s)
        next
          case False
          then show ?thesis using copies_rune [OF _ c] \<open>rune_size s \<noteq> 0\<close> y(2) by auto
        qed
      qed
    qed
  qed
qed

section \<open>Numbers\<close>

definition no_digit_head :: "string \<Rightarrow> bool" where
  "no_digit_head t \<longleftrightarrow> takeWhile is_digit t = []"

lemma leading_digits_stop: "no_digit_head t \<Longrightarrow> leading_digits (leading_digits s @ t) = leading_digits s"
  by (simp add: leading_digits_def no_digit_head_def takeWhile_append)

lemma leading_digits_split: "leading_digits s @ drop (length (leading_digits s)) s = s"
  by (simp add: leading_digits_def flip: dropWhile_eq_drop)

definition numeric :: "char \<Rightarrow> bool" where
  "numeric c \<longleftrightarrow> is_digit c \<or> c \<in> {CHR ''-'', CHR ''+'', CHR ''.'', CHR ''e'', CHR ''E''}"

lemma not_numeric: "\<not> numeric (CHR 0x22)" "\<not> numeric (CHR 0x20)" "\<not> numeric (CHR 0x09)" "\<not> numeric (CHR 0x0A)" "\<not> numeric (CHR 0x0D)"
    "\<not> numeric (CHR ''t'')" "\<not> numeric (CHR ''f'')" "\<not> numeric (CHR ''n'')"
  by code_simp+

lemma leading_numeric: "\<forall>c\<in>set (leading_digits s). numeric c"
  by (auto simp: leading_digits_def numeric_def dest: set_takeWhileD)

lemma stops_head:
  assumes "stops t"
  shows "no_digit_head t" "\<not> HasPrefix t ''.''" "\<not> HasPrefix t ''e''" "\<not> HasPrefix t ''E''"
  using assms no_digit by (cases t; auto simp: stops_def is_ws_def no_digit_head_def)+

lemma no_digit_exp: "\<not> is_digit (CHR ''e'')" "\<not> is_digit (CHR ''E'')" "\<not> is_digit (CHR ''.'')" "\<not> is_digit (CHR ''+'')"
  by code_simp+

lemma HasPrefix_one: "HasPrefix s [c] \<longleftrightarrow> s \<noteq> [] \<and> hd s = c"
  by (cases s) auto

lemma exp_part_stop:
  assumes "exp_part s = Some e" and "stops t"
  shows "e @ drop (length e) s = s" "exp_part (e @ t) = Some e" "\<forall>c\<in>set e. numeric c" "no_digit_head (e @ t)" "\<not> HasPrefix (e @ t) ''.''"
proof -
  note heads = stops_head [OF assms(2)]
  have "e @ drop (length e) s = s \<and> exp_part (e @ t) = Some e \<and> (\<forall>c\<in>set e. numeric c) \<and> no_digit_head (e @ t) \<and>
      \<not> HasPrefix (e @ t) ''.''"
  proof (cases "HasPrefix s ''e'' \<or> HasPrefix s ''E''")
    case False
    then show ?thesis using assms(1) heads by (simp add: exp_part_def)
  next
    case True
    then obtain x u where s: "s = x # u" "x = CHR ''e'' \<or> x = CHR ''E''" by (cases s) auto
    define sign where "sign = (if HasPrefix u ''+'' \<or> HasPrefix u ''-'' then [hd u] else [])"
    let ?ds = "leading_digits (drop (length sign) u)"
    have ds: "?ds \<noteq> []" "e = x # sign @ ?ds"
      using assms(1) True by (auto simp: exp_part_def s(1) sign_def Let_def split: if_splits)
    have u: "sign @ drop (length sign) u = u" by (cases u) (auto simp: sign_def)
    obtain d q where d: "?ds = d # q" using ds(1) by (cases ?ds) auto
    then have "is_digit d" by (metis leading_digits_def list.set_intros(1) set_takeWhileD)
    then have "d \<noteq> CHR ''+''" "d \<noteq> CHR ''-''" using no_digit no_digit_exp by auto
    then have sign': "(if HasPrefix (sign @ ?ds @ t) ''+'' \<or> HasPrefix (sign @ ?ds @ t) ''-'' then [hd (sign @ ?ds @ t)] else []) = sign"
      unfolding d by (cases u) (auto simp: sign_def)
    have tl: "tl (e @ t) = sign @ ?ds @ t" by (simp add: ds(2))
    have "exp_part (e @ t) = Some e"
      unfolding exp_part_def Let_def tl sign' using s(2) ds leading_digits_stop [OF heads(1)] by auto
    moreover have "\<forall>c\<in>set e. numeric c"
      using s(2) leading_numeric by (cases u) (auto simp: ds(2) numeric_def sign_def)
    moreover have "s = e @ drop (length ?ds) (drop (length sign) u)"
      using u leading_digits_split [of "drop (length sign) u"] unfolding ds(2) s(1) by simp
    then have "e @ drop (length e) s = s" by (metis append_eq_conv_conj)
    moreover have "no_digit_head (e @ t)" "\<not> HasPrefix (e @ t) ''.''"
      using s(2) no_digit_exp by (auto simp: ds(2) no_digit_head_def)
    ultimately show ?thesis by simp
  qed
  then show "e @ drop (length e) s = s" "exp_part (e @ t) = Some e" "\<forall>c\<in>set e. numeric c" "no_digit_head (e @ t)"
      "\<not> HasPrefix (e @ t) ''.''" by blast+
qed

lemma frac_part_stop:
  assumes "frac_part s = Some f" and "no_digit_head t" and "\<not> HasPrefix t ''.''"
  shows "f @ drop (length f) s = s" "frac_part (f @ t) = Some f" "\<forall>c\<in>set f. numeric c" "no_digit_head (f @ t)"
proof -
  have "f @ drop (length f) s = s \<and> frac_part (f @ t) = Some f \<and> (\<forall>c\<in>set f. numeric c) \<and> no_digit_head (f @ t)"
  proof (cases "HasPrefix s ''.''")
    case True
    then obtain u where s: "s = CHR ''.'' # u" by (cases s) auto
    then have f: "f = CHR ''.'' # leading_digits u" "leading_digits u \<noteq> []"
      using assms(1) by (auto simp: frac_part_def split: if_splits)
    then show ?thesis using leading_digits_stop [OF assms(2)] leading_digits_split [of u] leading_numeric no_digit_exp
      by (auto simp: s frac_part_def numeric_def no_digit_head_def)
  qed (use assms in \<open>simp add: frac_part_def\<close>)
  then show "f @ drop (length f) s = s" "frac_part (f @ t) = Some f" "\<forall>c\<in>set f. numeric c" "no_digit_head (f @ t)" by blast+
qed

lemma int_digits_stop:
  assumes "int_digits s \<noteq> []" and "no_digit_head t"
  shows "int_digits s @ drop (length (int_digits s)) s = s" "int_digits (int_digits s @ t) = int_digits s"
    "\<forall>c\<in>set (int_digits s). is_digit c"
proof -
  have zero: "is_digit (CHR ''0'')" by code_simp
  have "int_digits s @ drop (length (int_digits s)) s = s \<and> int_digits (int_digits s @ t) = int_digits s \<and>
      (\<forall>c\<in>set (int_digits s). is_digit c)"
  proof (cases "HasPrefix s ''0''")
    case True
    then show ?thesis using zero by (cases s) (auto simp: int_digits_def)
  next
    case False
    then have *: "int_digits s = leading_digits s" by (simp add: int_digits_def)
    then obtain d q where d: "leading_digits s = d # q" using assms(1) by (cases "leading_digits s") auto
    then have "hd s = d" "s \<noteq> []" by (cases s; auto simp: leading_digits_def split: if_splits)+
    then have "d \<noteq> CHR ''0''" using False by (simp add: HasPrefix_one)
    then have "int_digits (leading_digits s @ t) = leading_digits s"
      using leading_digits_stop [OF assms(2), of s] by (simp add: int_digits_def d)
    then show ?thesis using leading_digits_split [of s] by (auto simp: * leading_digits_def dest: set_takeWhileD)
  qed
  then show "int_digits s @ drop (length (int_digits s)) s = s" "int_digits (int_digits s @ t) = int_digits s"
    "\<forall>c\<in>set (int_digits s). is_digit c" by blast+
qed

lemma number_stop:
  assumes "number s = Some (x, r)"
  shows "s = x @ r" "x \<noteq> []" "\<forall>c\<in>set x. numeric c" "stops t \<Longrightarrow> number (x @ t) = Some (x, t)"
proof -
  define sign where "sign = (if HasPrefix s ''-'' then ''-'' else [])"
  define u where "u = drop (length sign) s"
  define i where "i = int_digits u"
  define v where "v = drop (length i) u"
  have i: "i \<noteq> []" using assms by (auto simp: number_def sign_def u_def i_def Let_def split: if_splits)
  obtain f where f: "frac_part v = Some f"
    using assms i by (auto simp: number_def sign_def u_def i_def v_def Let_def split: option.splits)
  define w where "w = drop (length f) v"
  obtain e where e: "exp_part w = Some e"
    using assms i f by (auto simp: number_def sign_def u_def i_def v_def w_def Let_def ac_simps split: option.splits)
  have x: "x = sign @ i @ f @ e" "r = drop (length x) s"
    using assms i f e by (auto simp: number_def sign_def u_def i_def v_def w_def Let_def ac_simps)
  have s: "s = sign @ u" by (cases s) (auto simp: sign_def u_def)
  have nil: "stops []" by (simp add: stops_def)
  note E = exp_part_stop [OF e nil]
  note F = frac_part_stop [OF f E(4,5) [unfolded append_Nil2]]
  note I = int_digits_stop [OF i [unfolded i_def] F(4), folded i_def v_def]
  have "u = i @ v" "v = f @ w" "w = e @ drop (length e) w" using E(1) F(1) I(1) by (simp_all add: v_def w_def)
  then have "s = x @ drop (length e) w" using s by (simp add: x(1))
  then show "s = x @ r" using x(2) by (metis append_eq_conv_conj)
  show "x \<noteq> []" using i x(1) by simp
  show "\<forall>c\<in>set x. numeric c" using E(3) F(3) I(3) by (auto simp: x(1) sign_def numeric_def)
  show "number (x @ t) = Some (x, t)" if t: "stops t"
  proof -
    note E' = exp_part_stop [OF e t]
    note F' = frac_part_stop [OF f E'(4,5)]
    note I' = int_digits_stop [OF i [unfolded i_def] F'(4), folded i_def]
    have "is_digit (hd i)" using i I(3) by (cases i) auto
    then have "\<not> HasPrefix (i @ f @ e @ t) ''-''" using i no_digit(3) by (cases i) auto
    then have "(if HasPrefix (x @ t) ''-'' then ''-'' else []) = sign" by (simp add: x(1) sign_def)
    then show ?thesis using i E'(2) F'(2) I'(2) by (simp add: number_def Let_def x(1))
  qed
qed

section \<open>Values\<close>

text \<open>
  The text s starts with pre, which compacts to cpre, a text that f reads as the value v
  whatever follows; what follows pre is r.
\<close>

definition same_value :: "(string \<Rightarrow> ('v \<times> string) option) \<Rightarrow> string \<Rightarrow> 'v \<Rightarrow> string \<Rightarrow> string \<Rightarrow> string \<Rightarrow> bool" where
  "same_value f s v r pre cpre \<longleftrightarrow>
     s = pre @ r \<and> (\<forall>t. compact_raw False (pre @ t) = cpre @ compact_raw False t) \<and> CHR 0x0A \<notin> set cpre \<and>
     (\<forall>t. stops t \<longrightarrow> f (pre @ t) = Some (v, t)) \<and> (\<forall>t. stops t \<longrightarrow> f (cpre @ t) = Some (v, t)) \<and> (\<exists>c u w. pre = c # u \<and> cpre = c # w \<and> \<not> is_ws c)"

lemma same_valueI:
  assumes "s = pre @ r" and "\<And>t. compact_raw False (pre @ t) = cpre @ compact_raw False t" and "CHR 0x0A \<notin> set cpre"
    and "\<And>t. stops t \<Longrightarrow> f (cpre @ t) = Some (v, t)" and "pre = c # u" and "cpre = c # w" and "\<not> is_ws c"
    and "\<And>t. stops t \<Longrightarrow> f (pre @ t) = Some (v, t)"
  shows "same_value f s v r pre cpre"
  using assms unfolding same_value_def by blast

lemma same_valueD:
  assumes "same_value f s v r pre cpre"
  shows "s = pre @ r" "compact_raw False (pre @ t) = cpre @ compact_raw False t"
    "CHR 0x0A \<notin> set cpre" "stops t \<Longrightarrow> f (cpre @ t) = Some (v, t)" "\<exists>c u w. pre = c # u \<and> cpre = c # w \<and> \<not> is_ws c"
    "stops t \<Longrightarrow> f (pre @ t) = Some (v, t)"
  using assms unfolding same_value_def by blast+

text \<open>White space before a value goes.\<close>

lemma skip_ws_value:
  assumes "same_value f (skip_ws s) v r pre cpre"
  shows "s = takeWhile is_ws s @ pre @ r" "compact_raw False (takeWhile is_ws s @ pre @ t) = cpre @ compact_raw False t"
  using skip_ws_split [of s] compact_raw_ws [of s] same_valueD(1,2) [OF assms] by simp_all

lemma string_value:
  assumes "str_body s = Some (x, r)"
  shows "\<exists>pre cpre. copies s x r pre cpre \<and>
    (\<forall>t. compact_raw False (CHR 0x22 # pre @ t) = CHR 0x22 # cpre @ compact_raw False t)"
proof -
  obtain pre cpre where c: "copies s x r pre cpre" using str_body_copies [OF assms] by blast
  then show ?thesis using copiesD(2) [OF c] by (auto simp: compact_raw_quote)
qed

lemma stops_ws [simp]: "stops (CHR '','' # t) \<Longrightarrow> stops (takeWhile is_ws s @ CHR '','' # t)"
  "stops (takeWhile is_ws s @ CHR '']'' # t)" "stops (takeWhile is_ws s @ CHR ''}'' # t)"
  by (cases s; simp add: stops_def)+

lemma skip_ws_takeWhile [simp]: "skip_ws (takeWhile is_ws s @ t) = skip_ws t"
  unfolding skip_ws_def by (induction s) auto

lemma literal_value:
  assumes "HasPrefix s p" and "p = c # w" and "\<forall>c\<in>set p. \<not> is_ws c \<and> c \<noteq> CHR 0x22" and "\<And>t. f (p @ t) = Some (v, t)"
  shows "same_value f s v (drop (length p) s) p p"
proof -
  obtain u where "s = p @ u" using assms(1) by (auto simp: HasPrefix_iff)
  then show ?thesis
    using assms(2-4) compact_raw_copies [OF assms(3)] by (intro same_valueI [where c = c and u = w and w = w]) (auto simp: is_ws_def)
qed

text \<open>A step from a text to what follows its first value.\<close>

lemma elements_value:
  assumes "p_elements (Suc n) d s = Some (vs, r)"
    and one: "\<And>v q. p_value n d s = Some (v, q) \<Longrightarrow> \<exists>pre cpre. same_value (p_value n d) s v q pre cpre"
    and many: "\<And>s' us q. p_elements n d s' = Some (us, q) \<Longrightarrow> \<exists>pre cpre. same_value (p_elements n d) s' us q pre cpre"
  shows "\<exists>pre cpre. same_value (p_elements (Suc n) d) s vs r pre cpre"
proof -
  obtain v q where v: "p_value n d s = Some (v, q)" using assms(1) by (auto split: option.splits)
  obtain pre cpre where first0: "same_value (p_value n d) s v q pre cpre" using one [OF v] by blast
  obtain c u w where head: "pre = c # u" "cpre = c # w" "\<not> is_ws c" using same_valueD(5) [OF first0] by blast
  note first = same_valueD(1-4) [OF first0] head
  let ?ws = "takeWhile is_ws q"
  show ?thesis
  proof (cases "HasPrefix (skip_ws q) '',''")
    case True
    then obtain q' where q': "skip_ws q = CHR '','' # q'" by (cases "skip_ws q") auto
    then obtain us where us: "p_elements n d (skip_ws q') = Some (us, r)" "vs = v # us"
      using assms(1) v by (auto simp: q')
    obtain pre' cpre' where rest: "same_value (p_elements n d) (skip_ws q') us r pre' cpre'" using many [OF us(1)] by blast
    obtain c' u' w' where head': "cpre' = c' # w'" "\<not> is_ws c'" "pre' = c' # u'" using same_valueD(5) [OF rest] by blast
    note rest' = same_valueD(3,4) [OF rest] head'
    note ws' = skip_ws_value [OF rest]
    have "same_value (p_elements (Suc n) d) s vs r (pre @ ?ws @ CHR '','' # takeWhile is_ws q' @ pre') (cpre @ CHR '','' # cpre')"
    proof (rule same_valueI)
      show "s = (pre @ ?ws @ CHR '','' # takeWhile is_ws q' @ pre') @ r"
        using first(1) skip_ws_split [of q] q' ws'(1) by simp
      show "compact_raw False ((pre @ ?ws @ CHR '','' # takeWhile is_ws q' @ pre') @ t) = (cpre @ CHR '','' # cpre') @ compact_raw False t" for t
        using first(2) ws'(2) by (simp add: compact_raw_ws compact_raw_copy)
      show "p_elements (Suc n) d ((cpre @ CHR '','' # cpre') @ t) = Some (vs, t)" if "stops t" for t
        using first(4) rest'(2) [OF that] rest'(3,4) us(2) by simp
      show "p_elements (Suc n) d ((pre @ ?ws @ CHR '','' # takeWhile is_ws q' @ pre') @ t) = Some (vs, t)" if "stops t" for t
        using same_valueD(6) [OF first0] same_valueD(6) [OF rest that] rest'(4,5) us(2) by simp
    qed (use first(3,5-7) rest'(1) in simp_all)
    then show ?thesis by blast
  next
    case False
    then have *: "HasPrefix (skip_ws q) '']''" "vs = [v]" "r = tl (skip_ws q)"
      using assms(1) v by (auto split: if_splits)
    then have q: "skip_ws q = CHR '']'' # r" by (cases "skip_ws q") auto
    have "same_value (p_elements (Suc n) d) s vs r (pre @ ?ws @ '']'') (cpre @ '']'')"
    proof (rule same_valueI)
      show "s = (pre @ ?ws @ '']'') @ r" using first(1) skip_ws_split [of q] q by simp
      show "compact_raw False ((pre @ ?ws @ '']'') @ t) = (cpre @ '']'') @ compact_raw False t" for t
        using first(2) by (simp add: compact_raw_ws compact_raw_copy)
      show "p_elements (Suc n) d ((cpre @ '']'') @ t) = Some (vs, t)" if "stops t" for t
        using first(4) *(2) by simp
      show "p_elements (Suc n) d ((pre @ ?ws @ '']'') @ t) = Some (vs, t)" if "stops t" for t
        using same_valueD(6) [OF first0] *(2) by simp
    qed (use first(3,5-7) in simp_all)
    then show ?thesis by blast
  qed
qed

lemma members_value:
  assumes "p_members (Suc n) d s = Some (ms, r)"
    and one: "\<And>s' v q. p_value n d s' = Some (v, q) \<Longrightarrow> \<exists>pre cpre. same_value (p_value n d) s' v q pre cpre"
    and many: "\<And>s' us q. p_members n d s' = Some (us, q) \<Longrightarrow> \<exists>pre cpre. same_value (p_members n d) s' us q pre cpre"
  shows "\<exists>pre cpre. same_value (p_members (Suc n) d) s ms r pre cpre"
proof -
  obtain s1 where s: "s = CHR 0x22 # s1" using assms(1) by (cases s) (auto split: if_splits)
  obtain k q0 where k: "str_body s1 = Some (k, q0)" using assms(1) by (auto simp: s split: option.splits)
  obtain q1 where q1: "skip_ws q0 = CHR '':'' # q1" using assms(1) k by (cases "skip_ws q0") (auto simp: s split: if_splits)
  obtain v q where v: "p_value n d (skip_ws q1) = Some (v, q)" using assms(1) k q1 by (auto simp: s split: option.splits)
  obtain key ckey where c: "copies s1 k q0 key ckey"
    and ckey: "\<And>t. compact_raw False (CHR 0x22 # key @ t) = CHR 0x22 # ckey @ compact_raw False t"
    using string_value [OF k] by blast
  obtain pre cpre where first: "same_value (p_value n d) (skip_ws q1) v q pre cpre" using one [OF v] by blast
  obtain b u w where head: "cpre = b # w" "\<not> is_ws b" "pre = b # u" using same_valueD(5) [OF first] by blast
  note ws1 = skip_ws_value [OF first]
  let ?pre = "CHR 0x22 # key @ takeWhile is_ws q0 @ CHR '':'' # takeWhile is_ws q1 @ pre"
  let ?cpre = "CHR 0x22 # ckey @ CHR '':'' # cpre"
  have whole: "s = ?pre @ q"
    using copiesD(1) [OF c] skip_ws_split [of q0] q1 ws1(1) by (simp add: s)
  have flow: "compact_raw False (?pre @ t) = ?cpre @ compact_raw False t" for t
    using ckey ws1(2) by (simp add: compact_raw_ws compact_raw_copy)
  have nl: "CHR 0x0A \<notin> set ?cpre" using copiesD(4) [OF c] same_valueD(3) [OF first] by simp
  have member: "str_body (ckey @ t) = Some (k, t)" "stops u \<Longrightarrow> p_value n d (cpre @ u) = Some (v, u)"
      "skip_ws (cpre @ t) = cpre @ t" for t u
    using copiesD(3) [OF c] same_valueD(4) [OF first] head by simp_all
  have member': "str_body (key @ t) = Some (k, t)" "stops u \<Longrightarrow> p_value n d (pre @ u) = Some (v, u)"
      "skip_ws (pre @ t) = pre @ t" for t u
    using copiesD(8) [OF c] same_valueD(6) [OF first] head by simp_all
  let ?ws = "takeWhile is_ws q"
  show ?thesis
  proof (cases "HasPrefix (skip_ws q) '',''")
    case True
    then obtain q' where q': "skip_ws q = CHR '','' # q'" by (cases "skip_ws q") auto
    then obtain us where us: "p_members n d (skip_ws q') = Some (us, r)" "ms = (k, v) # us"
      using assms(1) k q1 v by (auto simp: s)
    obtain pre' cpre' where rest: "same_value (p_members n d) (skip_ws q') us r pre' cpre'" using many [OF us(1)] by blast
    obtain c' u' w' where head': "cpre' = c' # w'" "\<not> is_ws c'" "pre' = c' # u'" using same_valueD(5) [OF rest] by blast
    note ws' = skip_ws_value [OF rest]
    have "same_value (p_members (Suc n) d) s ms r (?pre @ ?ws @ CHR '','' # takeWhile is_ws q' @ pre') (?cpre @ CHR '','' # cpre')"
    proof (rule same_valueI [where c = "CHR 0x22"])
      show "s = (?pre @ ?ws @ CHR '','' # takeWhile is_ws q' @ pre') @ r"
        using whole skip_ws_split [of q] q' ws'(1) by simp
      show "compact_raw False ((?pre @ ?ws @ CHR '','' # takeWhile is_ws q' @ pre') @ t) = (?cpre @ CHR '','' # cpre') @ compact_raw False t" for t
        using flow ws'(2) by (simp add: compact_raw_ws compact_raw_copy)
      show "p_members (Suc n) d ((?cpre @ CHR '','' # cpre') @ t) = Some (ms, t)" if "stops t" for t
        using member same_valueD(4) [OF rest that] head' us(2) by simp
      show "p_members (Suc n) d ((?pre @ ?ws @ CHR '','' # takeWhile is_ws q' @ pre') @ t) = Some (ms, t)" if "stops t" for t
        using member' same_valueD(6) [OF rest that] head' us(2) by simp
      show "CHR 0x0A \<notin> set (?cpre @ CHR '','' # cpre')" using nl same_valueD(3) [OF rest] by simp
    qed simp_all
    then show ?thesis by blast
  next
    case False
    then have *: "HasPrefix (skip_ws q) ''}''" "ms = [(k, v)]" "r = tl (skip_ws q)"
      using assms(1) k q1 v by (auto simp: s split: if_splits)
    then have q: "skip_ws q = CHR ''}'' # r" by (cases "skip_ws q") auto
    have "same_value (p_members (Suc n) d) s ms r (?pre @ ?ws @ ''}'') (?cpre @ ''}'')"
    proof (rule same_valueI [where c = "CHR 0x22"])
      show "s = (?pre @ ?ws @ ''}'') @ r" using whole skip_ws_split [of q] q by simp
      show "compact_raw False ((?pre @ ?ws @ ''}'') @ t) = (?cpre @ ''}'') @ compact_raw False t" for t
        using flow by (simp add: compact_raw_ws compact_raw_copy)
      show "p_members (Suc n) d ((?cpre @ ''}'') @ t) = Some (ms, t)" if "stops t" for t
        using member *(2) by simp
      show "p_members (Suc n) d ((?pre @ ?ws @ ''}'') @ t) = Some (ms, t)" if "stops t" for t
        using member' *(2) by simp
      show "CHR 0x0A \<notin> set (?cpre @ ''}'')" using nl by simp
    qed simp_all
    then show ?thesis by blast
  qed
qed

text \<open>An array or an object: its bracket, white space, and what is inside.\<close>

lemma bracket_value:
  assumes "same_value f (skip_ws s) v r pre cpre" and "\<not> is_ws b" and "b \<noteq> CHR 0x22"
    and "\<And>w y t. f (hd cpre # y) = Some (v, t) \<Longrightarrow> skip_ws w = hd cpre # y \<Longrightarrow> g (b # w) = Some (h v, t)"
    and "b \<noteq> CHR 0x0A"
  shows "\<exists>pre cpre. same_value g (b # s) (h v) r pre cpre"
proof -
  have "same_value g (b # s) (h v) r (b # takeWhile is_ws s @ pre) (b # cpre)"
  proof (rule same_valueI)
    show "b # s = (b # takeWhile is_ws s @ pre) @ r" using skip_ws_value(1) [OF assms(1)] by simp
    show "compact_raw False ((b # takeWhile is_ws s @ pre) @ t) = (b # cpre) @ compact_raw False t" for t
      using skip_ws_value(2) [OF assms(1)] assms(2,3) by (simp add: compact_raw_copy)
    obtain c u w where head: "pre = c # u" "cpre = c # w" "\<not> is_ws c" using same_valueD(5) [OF assms(1)] by blast
    show "g ((b # cpre) @ t) = Some (h v, t)" if "stops t" for t
      using assms(4) [of "w @ t"] same_valueD(4) [OF assms(1) that] head by simp
    show "g ((b # takeWhile is_ws s @ pre) @ t) = Some (h v, t)" if "stops t" for t
      using assms(4) [of "u @ t"] same_valueD(6) [OF assms(1) that] head by simp
  qed (use assms(2,5) same_valueD(3) [OF assms(1)] in simp_all)
  then show ?thesis by blast
qed

lemma closing_value:
  assumes "skip_ws s = e # r" and "\<not> is_ws b" "\<not> is_ws e" "b \<noteq> CHR 0x22" "e \<noteq> CHR 0x22" "b \<noteq> CHR 0x0A" "e \<noteq> CHR 0x0A"
    and "\<And>w t. skip_ws w = e # t \<Longrightarrow> g (b # w) = Some (v, t)"
  shows "\<exists>pre cpre. same_value g (b # s) v r pre cpre"
proof -
  have "same_value g (b # s) v r (b # takeWhile is_ws s @ [e]) [b, e]"
    using skip_ws_split [of s] assms by (intro same_valueI) (simp_all add: compact_raw_ws compact_raw_copy)
  then show ?thesis by blast
qed

lemma p_value_step:
  assumes "p_value (Suc n) d s = Some (v, r)"
    and many: "\<And>s' vs q. p_elements n (Suc d) s' = Some (vs, q) \<Longrightarrow> \<exists>pre cpre. same_value (p_elements n (Suc d)) s' vs q pre cpre"
      "\<And>s' ms q. p_members n (Suc d) s' = Some (ms, q) \<Longrightarrow> \<exists>pre cpre. same_value (p_members n (Suc d)) s' ms q pre cpre"
  shows "\<exists>pre cpre. same_value (p_value (Suc n) d) s v r pre cpre"
proof -
  obtain c t where s: "s = c # t" using assms(1) by (cases s) auto
  have "\<exists>x. number s = Some (x, r) \<and> v = VNum x"
    if "c \<noteq> CHR 0x22" "c \<noteq> CHR ''[''" "c \<noteq> CHR ''{''" "\<not> HasPrefix s ''true''" "\<not> HasPrefix s ''false''" "\<not> HasPrefix s ''null''"
    using assms(1) that by (auto simp: s)
  then consider (str) "c = CHR 0x22" | (arr) "c = CHR ''[''" | (obj) "c = CHR ''{''"
    | (lit) p x where "p = ''true'' \<and> x = VBool True \<or> p = ''false'' \<and> x = VBool False \<or> p = ''null'' \<and> x = VNull" "HasPrefix s p"
    | (num) x where "number s = Some (x, r)" "v = VNum x" "c \<noteq> CHR 0x22" "c \<noteq> CHR ''[''" "c \<noteq> CHR ''{''"
        "\<not> HasPrefix s ''true''" "\<not> HasPrefix s ''false''" "\<not> HasPrefix s ''null''"
    by blast
  then show ?thesis
  proof cases
    case str
    then obtain x where x: "str_body t = Some (x, r)" "v = VText x" using assms(1) by (auto simp: s)
    obtain pre cpre where c: "copies t x r pre cpre"
      and flow: "\<And>u. compact_raw False (CHR 0x22 # pre @ u) = CHR 0x22 # cpre @ compact_raw False u"
      using string_value [OF x(1)] by blast
    have "same_value (p_value (Suc n) d) s v r (CHR 0x22 # pre) (CHR 0x22 # cpre)"
      by (rule same_valueI [where c = "CHR 0x22"]) (use str x(2) flow copiesD(1,3,4,8) [OF c] in \<open>simp_all add: s\<close>)
    then show ?thesis by blast
  next
    case arr
    show ?thesis
    proof (cases "HasPrefix (skip_ws t) '']''")
      case True
      then obtain q where q: "skip_ws t = CHR '']'' # q" by (cases "skip_ws t") auto
      then have "v = VList []" "r = q" "d < maxNestingDepth" using assms(1) arr by (auto simp: s split: if_splits)
      then show ?thesis unfolding s arr by (intro closing_value [OF q [folded \<open>r = q\<close>]]) simp_all
    next
      case False
      then obtain vs where vs: "p_elements n (Suc d) (skip_ws t) = Some (vs, r)" "v = VList vs" "d < maxNestingDepth"
        using assms(1) arr by (auto simp: s split: if_splits)
      obtain pre cpre where inner: "same_value (p_elements n (Suc d)) (skip_ws t) vs r pre cpre" using many(1) [OF vs(1)] by blast
      obtain b u w where head: "pre = b # u" "cpre = b # w" "\<not> is_ws b" using same_valueD(5) [OF inner] by blast
      have "b \<noteq> CHR '']''" using False head(1) same_valueD(1) [OF inner] by auto
      then show ?thesis unfolding s arr vs(2) using vs(3) head
        by (intro bracket_value [OF inner, where h = VList]) simp_all
    qed
  next
    case obj
    show ?thesis
    proof (cases "HasPrefix (skip_ws t) ''}''")
      case True
      then obtain q where q: "skip_ws t = CHR ''}'' # q" by (cases "skip_ws t") auto
      then have "v = VDict []" "r = q" "d < maxNestingDepth" using assms(1) obj by (auto simp: s split: if_splits)
      then show ?thesis unfolding s obj by (intro closing_value [OF q [folded \<open>r = q\<close>]]) simp_all
    next
      case False
      then obtain ms where ms: "p_members n (Suc d) (skip_ws t) = Some (ms, r)" "v = VDict ms" "d < maxNestingDepth"
        using assms(1) obj by (auto simp: s split: if_splits)
      obtain pre cpre where inner: "same_value (p_members n (Suc d)) (skip_ws t) ms r pre cpre" using many(2) [OF ms(1)] by blast
      obtain b u w where head: "pre = b # u" "cpre = b # w" "\<not> is_ws b" using same_valueD(5) [OF inner] by blast
      have "b \<noteq> CHR ''}''" using False head(1) same_valueD(1) [OF inner] by auto
      then show ?thesis unfolding s obj ms(2) using ms(3) head
        by (intro bracket_value [OF inner, where h = VDict]) simp_all
    qed
  next
    case (lit p x)
    have "r = drop (length p) s" "v = x" using lit assms(1) by (auto simp: s HasPrefix_iff)
    moreover have "\<exists>c w. p = c # w" "\<forall>c\<in>set p. \<not> is_ws c \<and> c \<noteq> CHR 0x22" using lit(1) by (auto simp: is_ws_def)
    moreover have "p_value (Suc n) d (p @ u) = Some (x, u)" for u using lit(1) by auto
    ultimately show ?thesis using literal_value [OF lit(2)] by metis
  next
    case (num x)
    note N = number_stop [OF num(1)]
    obtain w where w: "x = c # w" using N(1,2) by (cases x) (auto simp: s)
    have "numeric c" using N(3) w by simp
    have chars: "\<not> is_ws b \<and> b \<noteq> CHR 0x22 \<and> b \<noteq> CHR 0x0A" if "numeric b" for b
      using that not_numeric by (auto simp: is_ws_def)
    have "\<not> HasPrefix (x @ u) ''true''" "\<not> HasPrefix (x @ u) ''false''" "\<not> HasPrefix (x @ u) ''null''" for u
      using \<open>numeric c\<close> not_numeric by (auto simp: w)
    then have "p_value (Suc n) d (x @ u) = Some (v, u)" if "stops u" for u
      using num(2-5) N(4) [OF that] by (simp add: w)
    moreover have "compact_raw False (x @ u) = x @ compact_raw False u" for u
      by (rule compact_raw_copies) (use N(3) chars in blast)
    ultimately have "same_value (p_value (Suc n) d) s v r x x"
      using N(1,3) chars \<open>numeric c\<close> by (intro same_valueI [OF _ _ _ _ w w]) blast+
    then show ?thesis by blast
  qed
qed

lemma value_compacts:
  "p_value n d s = Some (v, r) \<Longrightarrow> \<exists>pre cpre. same_value (p_value n d) s v r pre cpre"
  "p_elements n d s = Some (vs, r) \<Longrightarrow> \<exists>pre cpre. same_value (p_elements n d) s vs r pre cpre"
  "p_members n d s = Some (ms, r) \<Longrightarrow> \<exists>pre cpre. same_value (p_members n d) s ms r pre cpre"
proof (induction n arbitrary: d s v r vs ms)
  case (Suc n)
  { case 1 then show ?case using p_value_step Suc.IH(2,3) by blast
  next case 2 then show ?case using elements_value Suc.IH(1,2) by blast
  next case 3 then show ?case using members_value Suc.IH(1,3) by blast }
qed simp_all

text \<open>Marshalling a raw message: one line, the same value, in any context.\<close>

lemma raw_value:
  assumes "p_value n d s = Some (v, [])"
  shows "CHR 0x0A \<notin> set (compact_raw False s)" "stops t \<Longrightarrow> p_value n d (compact_raw False s @ t) = Some (v, t)"
    "skip_ws (compact_raw False s @ t) = compact_raw False s @ t"
proof -
  obtain pre cpre where same: "same_value (p_value n d) s v [] pre cpre" using value_compacts(1) [OF assms(1)] by blast
  have "compact_raw False [] = []" by (simp add: compact_raw.simps [of False "[]"])
  then have "compact_raw False s = cpre" using same_valueD(1) [OF same] same_valueD(2) [OF same, of "[]"] by simp
  then show "CHR 0x0A \<notin> set (compact_raw False s)" "stops t \<Longrightarrow> p_value n d (compact_raw False s @ t) = Some (v, t)"
    "skip_ws (compact_raw False s @ t) = compact_raw False s @ t"
    using same_valueD(3,4,5) [OF same] by auto
qed

text \<open>The text of a value, cut out of a longer text, stands for the same value.\<close>

lemma value_cut:
  assumes "p_value n d s = Some (v, r)"
  shows "p_value n d (take (length s - length r) s) = Some (v, [])"
proof -
  obtain pre cpre where same: "same_value (p_value n d) s v r pre cpre" using value_compacts(1) [OF assms(1)] by blast
  then show ?thesis using same_valueD(1) [OF same] same_valueD(6) [OF same, of "[]"] by (simp add: stops_def)
qed

end
