(* ===== verification/Protocol.thy ===== *)
theory Protocol
  imports Conn Watcher JsonRaw
begin

text \<open>
  internal/appserver/wire.go: the messages as bytes. What the client sends, as json.Marshal
  writes it, and what it makes of a line it receives: the envelope with its raw members, the
  results of its calls, the parameters of notifications and of server requests. Together they
  are the connection's world with encoding/json in it.
\<close>

section \<open>Method names\<close>

definition methodInitialize :: string where "methodInitialize = ''initialize''"
definition methodInitialized :: string where "methodInitialized = ''initialized''"
definition methodThreadStart :: string where "methodThreadStart = ''thread/start''"
definition methodThreadResume :: string where "methodThreadResume = ''thread/resume''"
definition methodThreadUnarchive :: string where "methodThreadUnarchive = ''thread/unarchive''"
definition methodThreadNameSet :: string where "methodThreadNameSet = ''thread/name/set''"
definition methodReviewStart :: string where "methodReviewStart = ''review/start''"
definition methodTurnInterrupt :: string where "methodTurnInterrupt = ''turn/interrupt''"
definition notifyTurnStarted :: string where "notifyTurnStarted = ''turn/started''"
definition notifyTurnCompleted :: string where "notifyTurnCompleted = ''turn/completed''"
definition notifyItemCompleted :: string where "notifyItemCompleted = ''item/completed''"
definition notifyTokenUsage :: string where "notifyTokenUsage = ''thread/tokenUsage/updated''"
definition notifyAgentMessageDelta :: string where "notifyAgentMessageDelta = ''item/agentMessage/delta''"
definition notifyError :: string where "notifyError = ''error''"
definition reviewDeliveryInline :: string where "reviewDeliveryInline = ''inline''"
definition reviewTargetCustom :: string where "reviewTargetCustom = ''custom''"
definition codeMethodNotFound :: int where "codeMethodNotFound = -32601"

lemmas method_defs = methodInitialize_def methodInitialized_def methodThreadStart_def methodThreadResume_def
  methodThreadUnarchive_def methodThreadNameSet_def methodReviewStart_def methodTurnInterrupt_def

lemmas notify_defs = notifyTurnStarted_def notifyTurnCompleted_def notifyItemCompleted_def notifyTokenUsage_def
  notifyAgentMessageDelta_def notifyError_def

section \<open>Parameters\<close>

definition clientInfo_json :: "string \<Rightarrow> string \<Rightarrow> json" where
  "clientInfo_json n v = JObj [(''name'', JStr n), (''version'', JStr v)]"

definition initializeParams_json :: "json \<Rightarrow> json" where
  "initializeParams_json info = JObj [(''clientInfo'', info), (''capabilities'', JObj [])]"

definition threadStartParams_json :: "string \<Rightarrow> string \<Rightarrow> string \<Rightarrow> json" where
  "threadStartParams_json cwd sandbox approval =
     JObj [(''cwd'', JStr cwd), (''sandbox'', JStr sandbox), (''approvalPolicy'', JStr approval)]"

definition threadResumeParams_json :: "string \<Rightarrow> string \<Rightarrow> string \<Rightarrow> string \<Rightarrow> json" where
  "threadResumeParams_json threadID cwd sandbox approval =
     JObj [(''threadId'', JStr threadID), (''cwd'', JStr cwd), (''sandbox'', JStr sandbox), (''approvalPolicy'', JStr approval)]"

definition threadUnarchiveParams_json :: "string \<Rightarrow> json" where
  "threadUnarchiveParams_json threadID = JObj [(''threadId'', JStr threadID)]"

definition threadNameSetParams_json :: "string \<Rightarrow> string \<Rightarrow> json" where
  "threadNameSetParams_json threadID n = JObj [(''threadId'', JStr threadID), (''name'', JStr n)]"

definition reviewTarget_json :: "string \<Rightarrow> string \<Rightarrow> json" where
  "reviewTarget_json kind instructions = JObj [(''type'', JStr kind), (''instructions'', JStr instructions)]"

definition reviewStartParams_json :: "string \<Rightarrow> json \<Rightarrow> string \<Rightarrow> json" where
  "reviewStartParams_json threadID target delivery =
     JObj [(''threadId'', JStr threadID), (''target'', target), (''delivery'', JStr delivery)]"

definition turnInterruptParams_json :: "string \<Rightarrow> string \<Rightarrow> json" where
  "turnInterruptParams_json threadID turnID = JObj [(''threadId'', JStr threadID), (''turnId'', JStr turnID)]"

text \<open>The calls of the client: the method and the parameters of each.\<close>

datatype client_call =
    Initialize string
  | ThreadStart string Sandbox
  | ThreadResume string string Sandbox
  | ThreadUnarchive string
  | ThreadNameSet string string
  | ReviewStart string string
  | TurnInterrupt string string

definition clientName :: string where "clientName = ''counterpoint''"

fun call_params :: "client_call \<Rightarrow> string \<times> json" where
  "call_params (Initialize version) = (methodInitialize, initializeParams_json (clientInfo_json clientName version))"
| "call_params (ThreadStart cwd sb) = (methodThreadStart, threadStartParams_json cwd (sb_mode sb) approvalNever)"
| "call_params (ThreadResume threadID cwd sb) =
     (methodThreadResume, threadResumeParams_json threadID cwd (sb_mode sb) approvalNever)"
| "call_params (ThreadUnarchive threadID) = (methodThreadUnarchive, threadUnarchiveParams_json threadID)"
| "call_params (ThreadNameSet threadID n) = (methodThreadNameSet, threadNameSetParams_json threadID n)"
| "call_params (ReviewStart threadID instructions) =
     (methodReviewStart,
      reviewStartParams_json threadID (reviewTarget_json reviewTargetCustom instructions) reviewDeliveryInline)"
| "call_params (TurnInterrupt threadID turnID) = (methodTurnInterrupt, turnInterruptParams_json threadID turnID)"

section \<open>Marshal\<close>

text \<open>A Go map marshals with its keys in order; the members' texts are given.\<close>

definition raw_member :: "string \<times> string \<Rightarrow> string" where
  "raw_member kt = json_string (fst kt) @ '':'' @ snd kt"

definition object_text :: "(string \<times> string) list \<Rightarrow> string" where
  "object_text kts = ''{'' @ Join (map raw_member kts) '','' @ ''}''"

definition ServerError_json :: "int \<Rightarrow> string \<Rightarrow> json" where
  "ServerError_json code msg = JObj [(''code'', JInt code), (''message'', JStr msg)]"

text \<open>The member of a reply beside the id: a result, or the error of an unsupported request.\<close>

fun reply_json :: "reply \<Rightarrow> string \<times> json" where
  "reply_json (Decline d) = (''result'', JObj [(''decision'', JStr d)])"
| "reply_json (LegacyDenied r) = (''result'', JObj [(''decision'', JObj [(''denied'', JObj [(''rejection'', JStr r)])])])"
| "reply_json NoPermissions = (''result'', JObj [(''permissions'', JObj [])])"
| "reply_json NoAnswers = (''result'', JObj [(''answers'', JObj [])])"
| "reply_json (MethodNotFound msg) = (''error'', ServerError_json codeMethodNotFound msg)"

definition sorted_members :: "(string \<times> string) list \<Rightarrow> (string \<times> string) list" where
  "sorted_members kts = sort_key fst kts"

fun wire_marshal :: "outmsg \<Rightarrow> string res" where
  "wire_marshal (OutRequest i meth params) =
     Ok (object_text (sorted_members [(''id'', Itoa i), (''method'', json_string meth), (''params'', compact params)]))"
| "wire_marshal (OutNotification meth params) =
     Ok (object_text (sorted_members
       ((''method'', json_string meth) # (case params of None \<Rightarrow> [] | Some p \<Rightarrow> [(''params'', compact p)]))))"
| "wire_marshal (OutReply raw r) =
     (if parse_json raw = None then Err (System ''json: error calling MarshalJSON'')
      else Ok (object_text (sorted_members
        [(''id'', compact_raw False raw), (fst (reply_json r), compact (snd (reply_json r)))])))"

section \<open>Unmarshal\<close>

text \<open>Decoders of a value's raw text: the text itself, its value, a struct, a pointer.\<close>

definition raw_text :: "string \<Rightarrow> string \<Rightarrow> string option" where
  "raw_text cur t = Some t"

definition at_value :: "('a \<Rightarrow> jval \<Rightarrow> 'a option) \<Rightarrow> 'a \<Rightarrow> string \<Rightarrow> 'a option" where
  "at_value f cur t = (case parse_json t of None \<Rightarrow> None | Some v \<Rightarrow> f cur v)"

definition raw_struct :: "('r, string) decoders \<Rightarrow> 'r \<Rightarrow> string \<Rightarrow> 'r option" where
  "raw_struct fs cur t =
     (case parse_json t of
        Some VNull \<Rightarrow> Some cur
      | Some (VDict ms) \<Rightarrow> (case members_raw t of None \<Rightarrow> None | Some kts \<Rightarrow> dec_members fs cur kts)
      | _ \<Rightarrow> None)"

definition raw_pointer :: "('a \<Rightarrow> string \<Rightarrow> 'a option) \<Rightarrow> 'a \<Rightarrow> 'a option \<Rightarrow> string \<Rightarrow> 'a option option" where
  "raw_pointer f z cur t =
     (if parse_json t = Some VNull then Some None
      else map_option Some (f (case cur of None \<Rightarrow> z | Some x \<Rightarrow> x) t))"

text \<open>The data of an error is raw and not looked at.\<close>

definition ServerError_fields :: "(int \<times> string) fields" where
  "ServerError_fields = [(''code'', into fst apfst dec_int), (''message'', into snd apsnd dec_string)]"

definition envelope_wire :: "(envl, string) decoders" where
  "envelope_wire =
     [(''id'', into ev_ID ev_ID_update raw_text),
      (''method'', into ev_Method ev_Method_update (at_value dec_string)),
      (''params'', into ev_Params ev_Params_update raw_text),
      (''result'', into ev_Result ev_Result_update raw_text),
      (''error'', into ev_Error ev_Error_update (at_value (dec_pointer (dec_struct ServerError_fields) (0, []))))]"

definition empty_envelope :: envl where
  "empty_envelope = \<lparr>ev_ID = [], ev_Method = [], ev_Params = [], ev_Result = [], ev_Error = None\<rparr>"

definition decode_line :: "string \<Rightarrow> envl option" where
  "decode_line line = raw_struct envelope_wire empty_envelope line"

text \<open>
  The parameters of a server request: a member of the wrong type is an error the caller
  discards, and the members that could be decoded stay.
\<close>

definition lenient :: "('a \<Rightarrow> jval \<Rightarrow> 'a option) \<Rightarrow> 'a \<Rightarrow> jval \<Rightarrow> 'a option" where
  "lenient f cur v = Some (case f cur v of None \<Rightarrow> cur | Some x \<Rightarrow> x)"

record serverRequestParams =
  sr_ThreadID :: string
  sr_TurnID :: string
  sr_ItemID :: string

definition serverRequest_fields :: "serverRequestParams fields" where
  "serverRequest_fields =
     [(''threadId'', into sr_ThreadID sr_ThreadID_update (lenient dec_string)),
      (''turnId'', into sr_TurnID sr_TurnID_update (lenient dec_string)),
      (''itemId'', into sr_ItemID sr_ItemID_update (lenient dec_string))]"

definition decode_request :: "string \<Rightarrow> serverRequestParams" where
  "decode_request t =
     (let zero = \<lparr>sr_ThreadID = [], sr_TurnID = [], sr_ItemID = []\<rparr> in
      case parse_json t of
        Some (VDict ms) \<Rightarrow> (case dec_members serverRequest_fields zero ms of None \<Rightarrow> zero | Some p \<Rightarrow> p)
      | _ \<Rightarrow> zero)"

definition request_ids :: "string \<Rightarrow> string \<times> string" where
  "request_ids t = (let p = decode_request t in (sr_ItemID p, sr_TurnID p))"

section \<open>Results of the client's calls\<close>

record initializeResponse =
  ir_CodexHome :: string
  ir_PlatformFamily :: string
  ir_PlatformOS :: string
  ir_UserAgent :: string

definition zero_initialize :: initializeResponse where
  "zero_initialize = \<lparr>ir_CodexHome = [], ir_PlatformFamily = [], ir_PlatformOS = [], ir_UserAgent = []\<rparr>"

definition initializeResponse_fields :: "initializeResponse fields" where
  "initializeResponse_fields =
     [(''codexHome'', into ir_CodexHome ir_CodexHome_update dec_string),
      (''platformFamily'', into ir_PlatformFamily ir_PlatformFamily_update dec_string),
      (''platformOs'', into ir_PlatformOS ir_PlatformOS_update dec_string),
      (''userAgent'', into ir_UserAgent ir_UserAgent_update dec_string)]"

definition sandboxPolicy_fields :: "sandboxPolicy fields" where
  "sandboxPolicy_fields =
     [(''type'', into sp_Type sp_Type_update dec_string),
      (''networkAccess'', into sp_NetworkAccess sp_NetworkAccess_update dec_bool),
      (''writableRoots'', into sp_WritableRoots sp_WritableRoots_update (dec_slice dec_string [])),
      (''excludeSlashTmp'', into sp_ExcludeSlashTmp sp_ExcludeSlashTmp_update dec_bool),
      (''excludeTmpdirEnvVar'', into sp_ExcludeTmpdirEnvVar sp_ExcludeTmpdirEnvVar_update dec_bool)]"

text \<open>
  The approval policy stays raw until it is compared; what it then decodes to, when it is a
  string (or null, which leaves the empty string), is what the record holds.
\<close>

definition string_of_raw :: "string option \<Rightarrow> string \<Rightarrow> string option option" where
  "string_of_raw cur t = Some (at_value dec_string [] t)"

definition thread_id_fields :: "string fields" where
  "thread_id_fields = [(''id'', dec_string)]"

definition threadResponse_wire :: "(threadResponse, string) decoders" where
  "threadResponse_wire =
     [(''thread'', into tr_ThreadID tr_ThreadID_update (at_value (dec_struct thread_id_fields))),
      (''model'', into tr_Model tr_Model_update (at_value dec_string)),
      (''reasoningEffort'', into tr_ReasoningEffort tr_ReasoningEffort_update (at_value (dec_pointer dec_string []))),
      (''approvalPolicy'', into tr_ApprovalPolicy tr_ApprovalPolicy_update string_of_raw),
      (''sandbox'', into tr_Sandbox tr_Sandbox_update (at_value (dec_struct sandboxPolicy_fields))),
      (''cwd'', into tr_Cwd tr_Cwd_update (at_value dec_string))]"

definition zero_policy :: sandboxPolicy where
  "zero_policy = \<lparr>sp_Type = [], sp_NetworkAccess = False, sp_WritableRoots = [], sp_ExcludeSlashTmp = False,
     sp_ExcludeTmpdirEnvVar = False\<rparr>"

definition zero_thread :: threadResponse where
  "zero_thread = \<lparr>tr_ThreadID = [], tr_Model = [], tr_ReasoningEffort = None, tr_ApprovalPolicy = None,
     tr_Sandbox = zero_policy, tr_Cwd = []\<rparr>"

definition unarchive_fields :: "string fields" where
  "unarchive_fields = [(''thread'', into id id (dec_struct thread_id_fields))]"

section \<open>Notifications\<close>

text \<open>An item's id is decoded and not used.\<close>

definition threadItem_fields :: "threadItem fields" where
  "threadItem_fields =
     [(''id'', \<lambda>r v. map_option (\<lambda>x. r) (dec_string [] v)),
      (''type'', into ti_Type ti_Type_update dec_string),
      (''text'', into ti_Text ti_Text_update dec_string),
      (''review'', into ti_Review ti_Review_update dec_string)]"

definition zero_item :: threadItem where
  "zero_item = \<lparr>ti_Type = [], ti_Text = [], ti_Review = []\<rparr>"

definition turnError_wire :: "(turnError, string) decoders" where
  "turnError_wire =
     [(''message'', into te_Message te_Message_update (at_value dec_string)),
      (''codexErrorInfo'', into te_CodexErrorInfo te_CodexErrorInfo_update raw_text)]"

definition zero_turnError :: turnError where
  "zero_turnError = \<lparr>te_Message = [], te_CodexErrorInfo = []\<rparr>"

definition turnInfo_wire :: "(turnInfo, string) decoders" where
  "turnInfo_wire =
     [(''id'', into tn_ID tn_ID_update (at_value dec_string)),
      (''status'', into tn_Status tn_Status_update (at_value dec_string)),
      (''error'', into tn_Error tn_Error_update (raw_pointer (raw_struct turnError_wire) zero_turnError)),
      (''items'', into tn_Items tn_Items_update (at_value (dec_slice (dec_struct threadItem_fields) zero_item)))]"

definition zero_turn :: turnInfo where
  "zero_turn = \<lparr>tn_ID = [], tn_Status = [], tn_Error = None, tn_Items = []\<rparr>"

definition reviewStartResponse_wire :: "(string \<times> turnInfo, string) decoders" where
  "reviewStartResponse_wire =
     [(''reviewThreadId'', into fst apfst (at_value dec_string)),
      (''turn'', into snd apsnd (raw_struct turnInfo_wire))]"

definition turnNotification_wire :: "(string \<times> turnInfo, string) decoders" where
  "turnNotification_wire =
     [(''threadId'', into fst apfst (at_value dec_string)),
      (''turn'', into snd apsnd (raw_struct turnInfo_wire))]"

text \<open>The triples are (threadId, turnId, the rest).\<close>

definition second :: "('b \<Rightarrow> 'b) \<Rightarrow> 'a \<times> 'b \<times> 'c \<Rightarrow> 'a \<times> 'b \<times> 'c" where
  "second f = apsnd (apfst f)"

definition third :: "('c \<Rightarrow> 'c) \<Rightarrow> 'a \<times> 'b \<times> 'c \<Rightarrow> 'a \<times> 'b \<times> 'c" where
  "third f = apsnd (apsnd f)"

definition itemNotification_fields :: "(string \<times> string \<times> threadItem) fields" where
  "itemNotification_fields =
     [(''threadId'', into fst apfst dec_string),
      (''turnId'', into (fst \<circ> snd) second dec_string),
      (''item'', into (snd \<circ> snd) third (dec_struct threadItem_fields))]"

definition agentMessageDelta_fields :: "(string \<times> string \<times> string) fields" where
  "agentMessageDelta_fields =
     [(''threadId'', into fst apfst dec_string),
      (''turnId'', into (fst \<circ> snd) second dec_string),
      (''delta'', into (snd \<circ> snd) third dec_string)]"

definition wireBreakdown_fields :: "wireBreakdown fields" where
  "wireBreakdown_fields =
     [(''inputTokens'', into wb_InputTokens wb_InputTokens_update (dec_pointer dec_int 0)),
      (''cachedInputTokens'', into wb_CachedInputTokens wb_CachedInputTokens_update (dec_pointer dec_int 0)),
      (''cacheWriteInputTokens'', into wb_CacheWriteInputTokens wb_CacheWriteInputTokens_update (dec_pointer dec_int 0)),
      (''outputTokens'', into wb_OutputTokens wb_OutputTokens_update (dec_pointer dec_int 0)),
      (''reasoningOutputTokens'', into wb_ReasoningOutputTokens wb_ReasoningOutputTokens_update (dec_pointer dec_int 0)),
      (''totalTokens'', into wb_TotalTokens wb_TotalTokens_update (dec_pointer dec_int 0))]"

definition no_counters :: wireBreakdown where
  "no_counters = \<lparr>wb_InputTokens = None, wb_CachedInputTokens = None, wb_CacheWriteInputTokens = None,
     wb_OutputTokens = None, wb_ReasoningOutputTokens = None, wb_TotalTokens = None\<rparr>"

definition usagePair_fields :: "(wireBreakdown option \<times> wireBreakdown option) fields" where
  "usagePair_fields =
     [(''last'', into fst apfst (dec_pointer (dec_struct wireBreakdown_fields) no_counters)),
      (''total'', into snd apsnd (dec_pointer (dec_struct wireBreakdown_fields) no_counters))]"

definition tokenUsage_fields :: "tokenUsageNotification fields" where
  "tokenUsage_fields =
     [(''threadId'', into tu_ThreadID tu_ThreadID_update dec_string),
      (''turnId'', into tu_TurnID tu_TurnID_update dec_string),
      (''tokenUsage'', into tu_Usage tu_Usage_update (dec_pointer (dec_struct usagePair_fields) (None, None)))]"

definition errorNotification_wire :: "(string \<times> string \<times> turnError \<times> bool, string) decoders" where
  "errorNotification_wire =
     [(''threadId'', into fst apfst (at_value dec_string)),
      (''turnId'', into (fst \<circ> snd) second (at_value dec_string)),
      (''error'', into (fst \<circ> snd \<circ> snd) (third \<circ> apfst) (raw_struct turnError_wire)),
      (''willRetry'', into (snd \<circ> snd \<circ> snd) (third \<circ> apsnd) (at_value dec_bool))]"

definition decode_notification :: "string \<Rightarrow> string \<Rightarrow> notification" where
  "decode_notification meth params =
     (if meth = notifyTurnStarted then TurnStarted (raw_struct turnNotification_wire ([], zero_turn) params)
      else if meth = notifyAgentMessageDelta
        then AgentMessageDelta (at_value (dec_struct agentMessageDelta_fields) ([], [], []) params)
      else if meth = notifyItemCompleted
        then ItemCompleted (at_value (dec_struct itemNotification_fields) ([], [], zero_item) params)
      else if meth = notifyTokenUsage
        then TokenUsage (at_value (dec_struct tokenUsage_fields) \<lparr>tu_ThreadID = [], tu_TurnID = [], tu_Usage = None\<rparr> params)
      else if meth = notifyError
        then ErrorNotification (raw_struct errorNotification_wire ([], [], zero_turnError, False) params)
      else if meth = notifyTurnCompleted then TurnCompleted (raw_struct turnNotification_wire ([], zero_turn) params)
      else OtherNotification meth)"

section \<open>The world\<close>

text \<open>Whether a call's result decodes into what the client gives the call for it.\<close>

definition decodes :: "string \<Rightarrow> string \<Rightarrow> bool" where
  "decodes meth t \<longleftrightarrow>
     (if meth = methodInitialize then at_value (dec_struct initializeResponse_fields) zero_initialize t \<noteq> None
      else if meth = methodThreadStart \<or> meth = methodThreadResume then raw_struct threadResponse_wire zero_thread t \<noteq> None
      else if meth = methodThreadUnarchive then at_value (dec_struct unarchive_fields) [] t \<noteq> None
      else if meth = methodReviewStart then raw_struct reviewStartResponse_wire ([], zero_turn) t \<noteq> None
      else True)"

definition wire_result :: "string \<Rightarrow> string \<Rightarrow> goerror option" where
  "wire_result meth t = (if decodes meth t then None else Some (System ''json: cannot unmarshal''))"

definition wire_world :: world where
  "wire_world = \<lparr>wo_line = decode_line, wo_ids = request_ids, wo_marshal = wire_marshal, wo_result = wire_result\<rparr>"

end
