(* ===== verification/ProtocolSpec.thy ===== *)
theory ProtocolSpec
  imports Protocol ConnSpec
begin

text \<open>
  The bytes on the pipe: every line the client writes is one message and decodes to what was
  sent, whatever texts it carries, and a reply carries the id of the request it answers.
\<close>

section \<open>Parsing with more fuel and less depth\<close>

lemma p_mono:
  "p_value n d s = Some x \<Longrightarrow> n \<le> m \<Longrightarrow> e \<le> d \<Longrightarrow> p_value m e s = Some x"
  "p_elements n d s = Some xs \<Longrightarrow> n \<le> m \<Longrightarrow> e \<le> d \<Longrightarrow> p_elements m e s = Some xs"
  "p_members n d s = Some ms \<Longrightarrow> n \<le> m \<Longrightarrow> e \<le> d \<Longrightarrow> p_members m e s = Some ms"
proof (induction n arbitrary: m d e s x xs ms)
  case (Suc n)
  { case 1
    obtain l where m: "m = Suc l" "n \<le> l" using 1(2) by (cases m) auto
    then show ?case using 1 Suc.IH(2) [where m = l and d = "Suc d" and e = "Suc e"] Suc.IH(3) [where m = l and d = "Suc d" and e = "Suc e"]
      by (cases s) (auto split: if_splits)
  next
    case 2
    obtain l where m: "m = Suc l" "n \<le> l" using 2(2) by (cases m) auto
    obtain v q where v: "p_value n d s = Some (v, q)" using 2(1) by (auto split: option.splits)
    have "p_value l e s = Some (v, q)" using Suc.IH(1) [OF v m(2) 2(3)] .
    then show ?case using 2(1) v Suc.IH(2) [OF _ m(2) 2(3)] by (auto simp: m split: if_splits)
  next
    case 3
    obtain l where m: "m = Suc l" "n \<le> l" using 3(2) by (cases m) auto
    obtain k q where k: "HasPrefix s [CHR 0x22]" "str_body (tl s) = Some (k, q)" "HasPrefix (skip_ws q) '':''"
      using 3(1) by (auto split: if_splits option.splits)
    obtain v p where v: "p_value n d (skip_ws (tl (skip_ws q))) = Some (v, p)" using 3(1) k by (auto split: option.splits)
    have "p_value l e (skip_ws (tl (skip_ws q))) = Some (v, p)" using Suc.IH(1) [OF v m(2) 3(3)] .
    then show ?case using 3(1) k v Suc.IH(3) [OF _ m(2) 3(3)] by (auto simp: m split: if_splits) }
qed simp_all

section \<open>Texts of values\<close>

text \<open>A text on one line that any parser reads as the value, whatever follows.\<close>

definition raw_ok :: "string \<Rightarrow> jval \<Rightarrow> bool" where
  "raw_ok t v \<longleftrightarrow>
     (\<forall>m rest. 2 * length (t @ rest) < m \<longrightarrow> stops rest \<longrightarrow> p_value m 1 (t @ rest) = Some (v, rest)) \<and>
     (\<forall>rest. skip_ws (t @ rest) = t @ rest) \<and> CHR 0x0A \<notin> set t"

lemma raw_ok_compact: "Suc (nesting j) \<le> maxNestingDepth \<Longrightarrow> raw_ok (compact j) (val_of j)"
  by (simp add: raw_ok_def p_value_compact compact_one_line)

lemma raw_ok_raw:
  assumes "p_value n 1 s = Some (v, [])"
  shows "raw_ok (compact_raw False s) v"
proof -
  have "p_value m 1 (compact_raw False s @ rest) = Some (v, rest)"
    if "2 * length (compact_raw False s @ rest) < m" "stops rest" for m rest
  proof -
    have "p_value (max n m) 1 s = Some (v, [])" using p_mono(1) [OF assms] by simp
    then have "p_value (max n m) 1 (compact_raw False s @ rest) = Some (v, rest)" using raw_value(2) that(2) by blast
    moreover have "p_value (max n m) 1 (compact_raw False s @ rest) = p_value m 1 (compact_raw False s @ rest)"
      using that(1) by (intro p_fuel_enough(1)) simp_all
    ultimately show ?thesis by simp
  qed
  then show ?thesis using raw_value [OF assms] by (simp add: raw_ok_def)
qed

text \<open>The members of an object whose texts are given: key, text and value.\<close>

definition texts :: "(string \<times> string \<times> jval) list \<Rightarrow> (string \<times> string) list" where
  "texts xs = map (\<lambda>(k, t, v). (k, t)) xs"

lemma raw_member_eq: "raw_member (k, t) @ u = CHR 0x22 # escape k @ CHR 0x22 # CHR '':'' # t @ u"
  by (simp add: raw_member_def json_string_def)

lemma object_members:
  assumes "xs \<noteq> []" and "\<forall>(k, t, v)\<in>set xs. raw_ok t v"
    and "2 * length (Join (map raw_member (texts xs)) '','' @ CHR ''}'' # rest) < n"
  shows "p_members n 1 (Join (map raw_member (texts xs)) '','' @ CHR ''}'' # rest) = Some (map (\<lambda>(k, t, v). (to_utf8 k, v)) xs, rest) \<and>
    raw_members n (Join (map raw_member (texts xs)) '','' @ CHR ''}'' # rest) = Some (map (\<lambda>(k, t, v). (to_utf8 k, t)) xs)"
  using assms
proof (induction xs arbitrary: n)
  case (Cons x xs)
  obtain k t v where x: "x = (k, t, v)" by (cases x)
  obtain m where n: "n = Suc m" using Cons.prems(3) by (cases n) auto
  have ok: "raw_ok t v" using Cons.prems(2) by (simp add: x)
  have ws: "skip_ws (t @ u) = t @ u" for u using ok by (simp add: raw_ok_def)
  have one: "p_value m 1 (t @ u) = Some (v, u)" if "2 * length (t @ u) < m" "stops u" for u
    using ok that by (simp add: raw_ok_def)
  show ?case
  proof (cases xs)
    case Nil
    have "p_value m 1 (t @ CHR ''}'' # rest) = Some (v, CHR ''}'' # rest)"
      using Cons.prems(3) by (intro one) (simp_all add: n x Nil texts_def raw_member_def json_string_def)
    then show ?thesis by (simp add: n x Nil texts_def raw_member_eq str_body_escape ws Let_def)
  next
    case (Cons y ys)
    let ?J = "Join (map raw_member (texts xs)) '',''"
    have J: "Join (map raw_member (texts (x # xs))) '','' = raw_member (k, t) @ CHR '','' # ?J"
      by (simp add: x Cons texts_def split: prod.split)
    have len: "2 * length (t @ CHR '','' # ?J @ CHR ''}'' # rest) < m" "2 * length (?J @ CHR ''}'' # rest) < m"
      using Cons.prems(3) unfolding J by (simp_all add: n raw_member_def json_string_def)
    have first: "p_value m 1 (t @ CHR '','' # ?J @ CHR ''}'' # rest) = Some (v, CHR '','' # ?J @ CHR ''}'' # rest)"
      using len(1) by (intro one) simp_all
    have "p_members m 1 (?J @ CHR ''}'' # rest) = Some (map (\<lambda>(k, t, v). (to_utf8 k, v)) xs, rest) \<and>
        raw_members m (?J @ CHR ''}'' # rest) = Some (map (\<lambda>(k, t, v). (to_utf8 k, t)) xs)"
      by (rule Cons.IH) (use Cons.prems(2) len(2) Cons in auto)
    moreover have "skip_ws (?J @ u) = ?J @ u" for u
    proof -
      obtain k' t' v' where "y = (k', t', v')" by (cases y)
      then show ?thesis by (cases ys) (simp_all add: Cons texts_def raw_member_eq)
    qed
    ultimately show ?thesis unfolding J using first
      by (simp add: n x raw_member_eq str_body_escape ws Let_def)
  qed
qed simp

lemma object_text_value:
  assumes "xs \<noteq> []" and "\<forall>(k, t, v)\<in>set xs. raw_ok t v"
  shows "parse_json (object_text (texts xs)) = Some (VDict (map (\<lambda>(k, t, v). (to_utf8 k, v)) xs))"
    and "members_raw (object_text (texts xs)) = Some (map (\<lambda>(k, t, v). (to_utf8 k, t)) xs)"
    and "CHR 0x0A \<notin> set (object_text (texts xs))"
proof -
  let ?J = "Join (map raw_member (texts xs)) '',''"
  have shape: "object_text (texts xs) = CHR ''{'' # ?J @ ''}''" by (simp add: object_text_def)
  have nil: "skip_ws [] = []" "skip_ws ''}'' = ''}''" by (simp_all add: skip_ws_def)
  have depth: "0 < maxNestingDepth" by (simp add: maxNestingDepth_def)
  have head: "skip_ws (?J @ ''}'') = ?J @ ''}''" "xs \<noteq> [] \<Longrightarrow> \<not> HasPrefix (?J @ ''}'') ''}''"
    by (cases xs; cases "tl xs"; auto simp: texts_def raw_member_eq nil raw_member_eq [where u = "[]", simplified] split: prod.split)+
  have "p_members (2 * length (object_text (texts xs))) 1 (?J @ CHR ''}'' # []) = Some (map (\<lambda>(k, t, v). (to_utf8 k, v)) xs, [])"
    by (rule object_members [OF assms, THEN conjunct1]) (simp add: shape)
  then show parsed: "parse_json (object_text (texts xs)) = Some (VDict (map (\<lambda>(k, t, v). (to_utf8 k, v)) xs))"
    using head assms(1) depth nil by (simp add: parse_json_def shape)
  have "raw_members (2 * length (object_text (texts xs)) + 1) (?J @ CHR ''}'' # []) = Some (map (\<lambda>(k, t, v). (to_utf8 k, t)) xs)"
    by (rule object_members [OF assms, THEN conjunct2]) (simp add: shape)
  then show "members_raw (object_text (texts xs)) = Some (map (\<lambda>(k, t, v). (to_utf8 k, t)) xs)"
    using parsed head assms(1) unfolding members_raw_def by (simp add: shape del: raw_members.simps)
  have "CHR 0x0A \<notin> set (raw_member (k, t))" if "(k, t, v) \<in> set xs" for k t v
    using that assms(2) escape_no_newline by (auto simp: raw_member_def json_string_def raw_ok_def)
  then show "CHR 0x0A \<notin> set (object_text (texts xs))"
    by (auto simp: object_text_def texts_def dest!: in_JoinD)
qed

section \<open>What is sent\<close>

text \<open>The value a message stands for.\<close>

fun sent_value :: "outmsg \<Rightarrow> jval" where
  "sent_value (OutRequest i meth params) =
     VDict [(''id'', VNum (Itoa i)), (''method'', VText (to_utf8 meth)), (''params'', val_of params)]"
| "sent_value (OutNotification meth None) = VDict [(''method'', VText (to_utf8 meth))]"
| "sent_value (OutNotification meth (Some params)) = VDict [(''method'', VText (to_utf8 meth)), (''params'', val_of params)]"
| "sent_value (OutReply raw r) =
     (let idm = (''id'', case parse_json raw of None \<Rightarrow> VNull | Some v \<Rightarrow> v); ans = (fst (reply_json r), val_of (snd (reply_json r)))
      in VDict (if fst ans = ''error'' then [ans, idm] else [idm, ans]))"

fun shallow_message :: "outmsg \<Rightarrow> bool" where
  "shallow_message (OutRequest i meth params) \<longleftrightarrow> nesting params < maxNestingDepth"
| "shallow_message (OutNotification meth params) \<longleftrightarrow> pred_option (\<lambda>p. nesting p < maxNestingDepth) params"
| "shallow_message (OutReply raw r) \<longleftrightarrow> True"

text \<open>A raw member of a decoded line is the text of a value of it.\<close>

lemma raw_members_values:
  "raw_members n s = Some kts \<Longrightarrow> (k, t) \<in> set kts \<Longrightarrow> \<exists>m v. p_value m 1 t = Some (v, [])"
proof (induction n arbitrary: s kts)
  case (Suc n)
  obtain k' r where k: "HasPrefix s [CHR 0x22]" "str_body (tl s) = Some (k', r)" "HasPrefix (skip_ws r) '':''"
    using Suc.prems(1) by (auto split: if_splits option.splits)
  let ?u = "skip_ws (tl (skip_ws r))"
  obtain v q where v: "p_value n 1 ?u = Some (v, q)" using Suc.prems(1) k by (auto simp: Let_def split: option.splits)
  define raw where "raw = take (length ?u - length q) ?u"
  have cut: "\<exists>m v. p_value m 1 raw = Some (v, [])" unfolding raw_def using value_cut [OF v] by blast
  show ?case
  proof (cases "HasPrefix (skip_ws q) '',''")
    case True
    then obtain kts' where "raw_members n (skip_ws (tl (skip_ws q))) = Some kts'" "kts = (k', raw) # kts'"
      using Suc.prems(1) k v by (auto simp: Let_def raw_def)
    then show ?thesis using Suc.prems(2) cut Suc.IH by auto
  next
    case False
    then have "kts = [(k', raw)]" using Suc.prems(1) k v by (auto simp: Let_def raw_def split: if_splits)
    then show ?thesis using Suc.prems(2) cut by simp
  qed
qed simp

lemma envelope_raw:
  assumes "dec_members envelope_wire r kts = Some r'"
  shows "ev_ID r' = ev_ID r \<or> ev_ID r' \<in> snd ` set kts"
  using assms
proof (induction kts arbitrary: r)
  case (Cons kt kts)
  obtain k t where kt: "kt = (k, t)" by fastforce
  show ?case
  proof (cases "field_of envelope_wire k")
    case None
    then show ?thesis using Cons by (auto simp: kt)
  next
    case (Some f)
    then obtain r1 where r1: "f r t = Some r1" "dec_members envelope_wire r1 kts = Some r'"
      using Cons.prems by (auto simp: kt split: option.splits)
    have "f \<in> snd ` set envelope_wire" using field_of_mem [OF Some] .
    then have "ev_ID r1 = ev_ID r \<or> ev_ID r1 = t"
      using r1(1) by (auto simp: envelope_wire_def into_def raw_text_def)
    then show ?thesis using Cons.IH [OF r1(2)] by (auto simp: kt)
  qed
qed simp

lemma decoded_id:
  assumes "decode_line line = Some env" and "ev_ID env \<noteq> []"
  shows "\<exists>m v. p_value m 1 (ev_ID env) = Some (v, [])"
proof -
  obtain ms kts where ms: "parse_json line = Some (VDict ms)" "members_raw line = Some kts" "dec_members envelope_wire empty_envelope kts = Some env"
    using assms by (auto simp: decode_line_def raw_struct_def empty_envelope_def split: option.splits jval.splits)
  then have "ev_ID env \<in> snd ` set kts" using envelope_raw [OF ms(3)] assms(2) by (simp add: empty_envelope_def)
  then obtain k where "(k, ev_ID env) \<in> set kts" by auto
  moreover then have "kts \<noteq> []" by auto
  then obtain n u where "raw_members n u = Some kts"
    using ms(1,2) by (auto simp: members_raw_def Let_def split: if_splits simp del: raw_members.simps)
  ultimately show ?thesis using raw_members_values by blast
qed

text \<open>The text and the value of a message, as the peer reads it.\<close>

lemma key_names [simp]:
  "to_utf8 ''id'' = ''id''" "to_utf8 ''method'' = ''method''" "to_utf8 ''params'' = ''params''" "to_utf8 ''result'' = ''result''"
  "to_utf8 ''error'' = ''error''"
  by code_simp+

lemma key_order: "''error'' < ''id''" "''id'' < ''method''" "''method'' < ''params''" "''id'' < ''result''"
  by code_simp+

lemma raw_ok_Itoa: "raw_ok (Itoa i) (VNum (Itoa i))"
  using raw_ok_compact [of "JInt i"] by (simp add: maxNestingDepth_def)

lemma raw_ok_string: "raw_ok (json_string s) (VText (to_utf8 s))"
  using raw_ok_compact [of "JStr s"] by (simp add: maxNestingDepth_def)

lemma reply_shape: "fst (reply_json r) \<in> {''result'', ''error''} \<and> Suc (nesting (snd (reply_json r))) \<le> maxNestingDepth"
  by (cases r) (simp_all add: ServerError_json_def maxNestingDepth_def)

lemma raw_parse:
  assumes "p_value m 1 raw = Some (v, [])" and "parse_json raw = Some w"
  shows "w = v"
proof -
  have "skip_ws raw = raw"
    using value_compacts(1) [OF assms(1)] same_valueD(1,5) by (metis append_Nil2 skip_ws_Cons)
  then obtain r where "p_value (2 * length raw + 1) 0 raw = Some (w, r)"
    using assms(2) by (auto simp: parse_json_def split: option.splits if_splits)
  then have "p_value (max m (2 * length raw + 1)) 0 raw = Some (w, r)" by (rule p_mono(1)) simp_all
  moreover have "p_value (max m (2 * length raw + 1)) 0 raw = Some (v, [])" by (rule p_mono(1) [OF assms(1)]) simp_all
  ultimately show ?thesis by simp
qed

lemma marshalled:
  assumes "wire_marshal msg = Ok data" and "shallow_message msg" and "from_world wire_world msg"
  shows "parse_json data = Some (sent_value msg) \<and> CHR 0x0A \<notin> set data"
proof (cases msg)
  case (OutRequest i meth params)
  let ?xs = "[(''id'', Itoa i, VNum (Itoa i)), (''method'', json_string meth, VText (to_utf8 meth)), (''params'', compact params, val_of params)]"
  have "data = object_text (texts ?xs)"
    using assms(1) key_order by (simp add: OutRequest texts_def sorted_members_def)
  moreover have "\<forall>(k, t, v)\<in>set ?xs. raw_ok t v"
    using assms(2) raw_ok_Itoa raw_ok_string raw_ok_compact [of params] by (simp add: OutRequest)
  ultimately show ?thesis using object_text_value [of ?xs] by (simp add: OutRequest)
next
  case (OutNotification meth params)
  let ?xs = "(''method'', json_string meth, VText (to_utf8 meth)) # (case params of None \<Rightarrow> [] | Some p \<Rightarrow> [(''params'', compact p, val_of p)])"
  have "data = object_text (texts ?xs)"
    using assms(1) key_order by (cases params) (simp_all add: OutNotification texts_def sorted_members_def)
  moreover have "\<forall>(k, t, v)\<in>set ?xs. raw_ok t v"
    using assms(2) raw_ok_string raw_ok_compact by (cases params) (simp_all add: OutNotification)
  ultimately show ?thesis using object_text_value [of ?xs] by (cases params) (simp_all add: OutNotification)
next
  case (OutReply raw r)
  obtain w where w: "parse_json raw = Some w" using assms(1) by (auto simp: OutReply split: if_splits)
  obtain line env where "decode_line line = Some env" "ev_ID env = raw" "raw \<noteq> []"
    using assms(3) by (auto simp: OutReply from_world_def wire_world_def)
  then obtain m v where v: "p_value m 1 raw = Some (v, [])" using decoded_id by blast
  have "raw_ok (compact_raw False raw) w" using raw_ok_raw [OF v] raw_parse [OF v w] by simp
  moreover have "raw_ok (compact (snd (reply_json r))) (val_of (snd (reply_json r)))"
    using reply_shape raw_ok_compact by blast
  ultimately have ok: "\<forall>(k, t, v)\<in>{(''id'', compact_raw False raw, w), (fst (reply_json r), compact (snd (reply_json r)), val_of (snd (reply_json r)))}. raw_ok t v"
    by simp
  let ?a = "(''id'', compact_raw False raw, w)" and ?b = "(fst (reply_json r), compact (snd (reply_json r)), val_of (snd (reply_json r)))"
  let ?xs = "if fst (reply_json r) = ''error'' then [?b, ?a] else [?a, ?b]"
  have "data = object_text (texts ?xs)"
    using assms(1) w key_order reply_shape [of r] by (auto simp: OutReply texts_def sorted_members_def)
  moreover have "\<forall>(k, t, v)\<in>set ?xs. raw_ok t v" using ok by auto
  ultimately show ?thesis using object_text_value [of ?xs] w reply_shape [of r] by (auto simp: OutReply Let_def)
qed

text \<open>
  C31. Every line the client has written is one message: it ends in the only newline it has,
  it is within the size limit, and it decodes to exactly what was sent, under its own id and
  method, whatever the texts it carries; a reply has the very id of the request it answers,
  which the server chose.
\<close>

theorem sent_line_is_one_message:
  assumes "reachable wire_world s" and "line \<in> set (sy_written s)"
  shows "\<exists>msg body. encodeLine wire_world msg = Ok line \<and> line = body @ [CHR 0x0A] \<and> length line \<le> 16777216 \<and>
    (shallow_message msg \<longrightarrow> CHR 0x0A \<notin> set body \<and> parse_json body = Some (sent_value msg))"
proof -
  obtain msg where msg: "from_world wire_world msg" "encodeLine wire_world msg = Ok line" using written_line [OF assms] .
  then obtain body where "wire_marshal msg = Ok body" "line = body @ [CHR 0x0A]" "length line \<le> 16777216"
    by (auto simp: encodeLine_def wire_world_def size_defs split: sum.splits if_splits)
  then show ?thesis using marshalled [OF _ _ msg(1)] msg(2) by blast
qed

text \<open>Every call of the client is such a message, so its texts arrive as they were.\<close>

lemma client_call_text:
  fixes i :: int and c :: client_call
  defines "msg \<equiv> OutRequest i (fst (call_params c)) (snd (call_params c))"
  shows "\<exists>body. wire_marshal msg = Ok body \<and> CHR 0x0A \<notin> set body \<and> parse_json body = Some (sent_value msg)"
proof -
  have "shallow_message msg"
    unfolding msg_def by (cases c) (simp_all add: initializeParams_json_def clientInfo_json_def threadStartParams_json_def
        threadResumeParams_json_def threadUnarchiveParams_json_def threadNameSetParams_json_def reviewTarget_json_def
        reviewStartParams_json_def turnInterruptParams_json_def maxNestingDepth_def)
  moreover have "from_world wire_world msg" by (simp add: msg_def from_world_def)
  moreover obtain body where "wire_marshal msg = Ok body" by (simp add: msg_def)
  ultimately show ?thesis using marshalled by blast
qed

section \<open>A run\<close>

text \<open>A review is asked for with a prompt of two lines, quotes and braces.\<close>

definition sample_prompt :: string where
  "sample_prompt = ''{'' @ [CHR 0x22, CHR 0x0A] @ ''}''"

definition sample_asked :: sys where
  "sample_asked = the (run wire_world
     ([CallStart methodReviewStart (snd (call_params (ReviewStart ''t'' sample_prompt)))] @ replicate 4 (CallGo 0 OnChannel) @
      [WriterTake, Wrote None]) spawned)"

lemma sample_asked:
  "reachable wire_world sample_asked \<and> (\<exists>line. sy_written sample_asked = [line])"
proof -
  define meth where "meth = methodReviewStart"
  define params where "params = snd (call_params (ReviewStart ''t'' sample_prompt))"
  let ?evs = "[CallStart meth params] @ replicate 4 (CallGo 0 OnChannel) @ [WriterTake, Wrote None]"
  have "case wire_marshal (OutRequest 1 meth params) of Inl e \<Rightarrow> False | Inr data \<Rightarrow> length data < 200"
    unfolding meth_def params_def by code_simp
  then obtain line where line: "encodeLine wire_world (OutRequest 1 meth params) = Ok line"
    by (auto simp: encodeLine_def wire_world_def size_defs simp del: wire_marshal.simps split: sum.splits)
  have "run wire_world ?evs spawned = Some sample_asked \<and> sy_written sample_asked = [line]"
    unfolding sample_asked_def meth_def [symmetric] params_def [symmetric]
    by (simp add: eval_nat_numeral spawned_def new_conn_def writer_take_def writer_wrote_def call_start_def call_go_def
        call_def send_def is_down_def wire_id_def go_int_def outboxSize_def line)
  then show ?thesis using reachable_run [OF reachable.start] by blast
qed

lemma sent_line_is_one_message_witness:
  "\<exists>line msg body. sy_written sample_asked = [line] \<and> encodeLine wire_world msg = Ok line \<and> line = body @ [CHR 0x0A] \<and>
     length line \<le> 16777216"
proof -
  obtain line where "sy_written sample_asked = [line]" using sample_asked by blast
  then show ?thesis using sent_line_is_one_message [of sample_asked line] sample_asked by auto
qed

end
