(* ===== verification/Stated.thy ===== *)
theory Stated
  imports ProtocolSpec ClientSpec
begin

text \<open>
  What the app-server's own bytes say. The client acts on decoded values; these lemmas lead
  them back to members of the text: no policy, no identifier and no token counter is made up
  by the decoding.
\<close>

section \<open>Members of a text\<close>

definition same_name :: "string \<Rightarrow> string \<Rightarrow> bool" where
  "same_name n k \<longleftrightarrow> n = k \<or> fold_name n = fold_name k"

text \<open>The values a path of member names leads to.\<close>

fun values_at :: "jval \<Rightarrow> string list \<Rightarrow> jval list" where
  "values_at v [] = [v]"
| "values_at (VDict ms) (k # ks) = concat (map (\<lambda>(k', u). if same_name k k' then values_at u ks else []) ms)"
| "values_at v (k # ks) = []"

lemma values_at_step: "(k', u) \<in> set ms \<Longrightarrow> same_name k k' \<Longrightarrow> x \<in> set (values_at u ks) \<Longrightarrow> x \<in> set (values_at (VDict ms) (k # ks))"
  by force

lemma values_at_append: "set (values_at v (ks @ ls)) = (\<Union>u\<in>set (values_at v ks). set (values_at u ls))"
proof (induction v ks rule: values_at.induct)
  case (2 ms k ks)
  then show ?case by (fastforce split: if_splits)
qed simp_all

lemma values_at_extend:
  assumes "VDict ms \<in> set (values_at v path)" and "(k', u) \<in> set ms" and "same_name k k'"
  shows "u \<in> set (values_at v (path @ [k]))"
proof -
  have "u \<in> set (values_at (VDict ms) [k])" by (rule values_at_step [OF assms(2,3)]) simp
  then show ?thesis using assms(1) unfolding values_at_append by blast
qed

section \<open>Decoding keeps what is stated\<close>

lemma field_of_name:
  assumes "field_of fs k = Some f"
  shows "\<exists>n. (n, f) \<in> set fs \<and> same_name n k"
proof (cases "map_of fs k")
  case None
  then obtain nf where nf: "find (\<lambda>nf. fold_name (fst nf) = fold_name k) fs = Some nf" "f = snd nf"
    using assms by (auto simp: field_of_def)
  then have "nf \<in> set fs" "fold_name (fst nf) = fold_name k" by (auto simp: find_Some_iff)
  then show ?thesis using nf(2) by (metis same_name_def prod.collapse)
next
  case (Some g)
  then show ?thesis using assms map_of_SomeD [OF Some] by (auto simp: field_of_def same_name_def)
qed

lemma dec_members_inv:
  assumes "dec_members fs r ms = Some r'" and "P r"
    and "\<And>n f k v q q'. (n, f) \<in> set fs \<Longrightarrow> (k, v) \<in> set ms \<Longrightarrow> same_name n k \<Longrightarrow> P q \<Longrightarrow> f q v = Some q' \<Longrightarrow> P q'"
  shows "P r'"
  using assms
proof (induction ms arbitrary: r)
  case (Cons kv ms)
  obtain k v where kv: "kv = (k, v)" by fastforce
  have rest: "\<And>n f k v q q'. (n, f) \<in> set fs \<Longrightarrow> (k, v) \<in> set ms \<Longrightarrow> same_name n k \<Longrightarrow> P q \<Longrightarrow> f q v = Some q' \<Longrightarrow> P q'"
    using Cons.prems(3) by (meson list.set_intros(2))
  show ?case
  proof (cases "field_of fs k")
    case None
    then have "dec_members fs r ms = Some r'" using Cons.prems(1) by (simp add: kv)
    then show ?thesis by (rule Cons.IH [OF _ Cons.prems(2)]) (rule rest)
  next
    case (Some f)
    then obtain r1 where r1: "f r v = Some r1" "dec_members fs r1 ms = Some r'"
      using Cons.prems(1) by (auto simp: kv split: option.splits)
    obtain n where "(n, f) \<in> set fs" "same_name n k" using field_of_name [OF Some] by blast
    then have "P r1" using Cons.prems(3) [of n f k v r r1] Cons.prems(2) r1(1) by (simp add: kv)
    then show ?thesis by (rule Cons.IH [OF r1(2)]) (rule rest)
  qed
qed simp

text \<open>The raw members of a text are the texts of its members.\<close>

lemma raw_members_match:
  assumes "p_members n 1 s = Some (ms, r)" and "raw_members n s = Some kts"
  shows "list_all2 (\<lambda>kt kv. fst kt = fst kv \<and> (\<exists>m. p_value m 1 (snd kt) = Some (snd kv, []))) kts ms"
  using assms
proof (induction n arbitrary: s ms r kts)
  case (Suc n)
  obtain k q where k: "HasPrefix s [CHR 0x22]" "str_body (tl s) = Some (k, q)" "HasPrefix (skip_ws q) '':''"
    using Suc.prems(1) by (auto split: if_splits option.splits)
  let ?u = "skip_ws (tl (skip_ws q))"
  obtain v p where v: "p_value n 1 ?u = Some (v, p)" using Suc.prems(1) k by (auto split: option.splits)
  define raw where "raw = take (length ?u - length p) ?u"
  have cut: "\<exists>m. p_value m 1 raw = Some (v, [])" unfolding raw_def using value_cut [OF v] by blast
  show ?case
  proof (cases "HasPrefix (skip_ws p) '',''")
    case True
    then obtain ms' kts' where "p_members n 1 (skip_ws (tl (skip_ws p))) = Some (ms', r)" "ms = (k, v) # ms'"
        "raw_members n (skip_ws (tl (skip_ws p))) = Some kts'" "kts = (k, raw) # kts'"
      using Suc.prems k v by (auto simp: Let_def raw_def)
    then show ?thesis using Suc.IH cut by auto
  next
    case False
    then have "ms = [(k, v)]" "kts = [(k, raw)]" using Suc.prems k v by (auto simp: Let_def raw_def split: if_splits)
    then show ?thesis using cut by simp
  qed
qed simp

lemma value_text:
  assumes "p_value m 1 t = Some (v, [])"
  shows "parse_json t = Some v"
proof -
  have "skip_ws t = t"
    using value_compacts(1) [OF assms] same_valueD(1,5) by (metis append_Nil2 skip_ws_Cons)
  moreover have "p_value (max m (2 * length t + 1)) 0 t = Some (v, [])" by (rule p_mono(1) [OF assms]) simp_all
  moreover have "p_value (max m (2 * length t + 1)) 0 t = p_value (2 * length t + 1) 0 t" by (intro p_fuel_enough(1)) simp_all
  ultimately have "p_value (2 * length t + 1) 0 (skip_ws t) = Some (v, [])" by metis
  moreover have "skip_ws [] = []" by (simp add: skip_ws_def)
  ultimately show ?thesis by (simp add: parse_json_def del: p_value.simps)
qed

lemma members_raw_match:
  assumes "parse_json t = Some (VDict ms)" and "members_raw t = Some kts"
  shows "list_all2 (\<lambda>kt kv. fst kt = fst kv \<and> parse_json (snd kt) = Some (snd kv)) kts ms"
proof (cases "HasPrefix (skip_ws (tl (skip_ws t))) ''}''")
  case True
  then show ?thesis using assms
    by (cases "skip_ws t") (auto simp: members_raw_def parse_json_def split: option.splits if_splits)
next
  case False
  let ?u = "skip_ws (tl (skip_ws t))"
  obtain r where "p_members (2 * length t) 1 ?u = Some (ms, r)"
    using assms(1) False by (cases "skip_ws t") (auto simp: parse_json_def split: option.splits if_splits)
  then have "p_members (2 * length t + 1) 1 ?u = Some (ms, r)" by (rule p_mono(3)) simp_all
  moreover have "raw_members (2 * length t + 1) ?u = Some kts"
    using assms False by (simp add: members_raw_def Let_def del: raw_members.simps)
  ultimately have "list_all2 (\<lambda>kt kv. fst kt = fst kv \<and> (\<exists>m. p_value m 1 (snd kt) = Some (snd kv, []))) kts ms"
    by (rule raw_members_match)
  then show ?thesis by (rule list_all2_mono) (blast dest: value_text)
qed

lemma raw_struct_match:
  assumes "raw_struct fs r t = Some r'" and "parse_json t = Some (VDict ms)"
  obtains kts where "dec_members fs r kts = Some r'"
    and "\<And>k u. (k, u) \<in> set kts \<Longrightarrow> \<exists>v. (k, v) \<in> set ms \<and> parse_json u = Some v"
proof -
  obtain kts where kts: "members_raw t = Some kts" "dec_members fs r kts = Some r'"
    using assms by (auto simp: raw_struct_def split: option.splits)
  have "\<exists>v. (k, v) \<in> set ms \<and> parse_json u = Some v" if "(k, u) \<in> set kts" for k u
    using members_raw_match [OF assms(2) kts(1)] that by (fastforce simp: list_all2_conv_all_nth in_set_conv_nth)
  then show ?thesis using that kts(2) by blast
qed

section \<open>Token usage\<close>

text \<open>The counters the schema requires, and the one with a default.\<close>

definition required_counters :: "(string \<times> (AppUsageBreakdown \<Rightarrow> int)) list" where
  "required_counters =
     [(''inputTokens'', ab_Input), (''cachedInputTokens'', ab_Cached), (''outputTokens'', ab_Output),
      (''reasoningOutputTokens'', ab_Reasoning), (''totalTokens'', ab_Total)]"

definition states_int :: "jval \<Rightarrow> string list \<Rightarrow> int \<Rightarrow> bool" where
  "states_int v path n \<longleftrightarrow> list_ex (\<lambda>x. case x of VNum t \<Rightarrow> ParseInt t = Some n | _ \<Rightarrow> False) (values_at v path)"

text \<open>A breakdown whose figures all stand in the text under a path.\<close>

definition states_breakdown :: "jval \<Rightarrow> string list \<Rightarrow> AppUsageBreakdown \<Rightarrow> bool" where
  "states_breakdown v path b \<longleftrightarrow>
     list_all (\<lambda>(nm, get). 0 \<le> get b \<and> states_int v (path @ [nm]) (get b)) required_counters \<and>
     0 \<le> ab_CacheWrite b \<and> (states_int v (path @ [''cacheWriteInputTokens'']) (ab_CacheWrite b) \<or> ab_CacheWrite b = 0)"

definition wire_counters :: "(string \<times> (wireBreakdown \<Rightarrow> int option)) list" where
  "wire_counters =
     [(''inputTokens'', wb_InputTokens), (''cachedInputTokens'', wb_CachedInputTokens),
      (''cacheWriteInputTokens'', wb_CacheWriteInputTokens), (''outputTokens'', wb_OutputTokens),
      (''reasoningOutputTokens'', wb_ReasoningOutputTokens), (''totalTokens'', wb_TotalTokens)]"

definition counters_stated :: "jval \<Rightarrow> string list \<Rightarrow> wireBreakdown \<Rightarrow> bool" where
  "counters_stated v path b \<longleftrightarrow> (\<forall>(nm, get)\<in>set wire_counters. \<forall>n. get b = Some n \<longrightarrow> states_int v (path @ [nm]) n)"

lemma states_int_extend:
  assumes "VDict ms \<in> set (values_at v path)" and "(k, VNum t) \<in> set ms" and "same_name nm k" and "ParseInt t = Some n"
  shows "states_int v (path @ [nm]) n"
  unfolding states_int_def list_ex_iff
  by (rule bexI [where x = "VNum t"]) (use values_at_extend [OF assms(1,2,3)] assms(4) in simp_all)

lemma dec_counter:
  assumes "dec_pointer dec_int 0 cur x = Some (Some n)"
  shows "\<exists>t. x = VNum t \<and> ParseInt t = Some n"
  using assms by (cases x) (auto simp: dec_pointer_def dec_int_def)

lemma breakdown_stated:
  assumes "dec_struct wireBreakdown_fields b x = Some b'" and "x \<in> set (values_at v path)" and "counters_stated v path b"
  shows "counters_stated v path b'"
proof (cases x)
  case (VDict ms)
  have "dec_members wireBreakdown_fields b ms = Some b'" using assms(1) by (simp add: VDict)
  then show ?thesis
  proof (rule dec_members_inv [where P = "counters_stated v path", OF _ assms(3)])
    fix n f k u q q'
    assume f: "(n, f) \<in> set wireBreakdown_fields" and k: "(k, u) \<in> set ms" "same_name n k"
      and q: "counters_stated v path q" "f q u = Some q'"
    have new: "states_int v (path @ [n]) m" if d: "dec_pointer dec_int 0 c u = Some (Some m)" for c m
    proof -
      obtain t where "u = VNum t" "ParseInt t = Some m" using dec_counter [OF d] by blast
      then show ?thesis using states_int_extend [of ms v path k t n m] assms(2) k by (simp add: VDict)
    qed
    show "counters_stated v path q'"
      using f q new by (auto simp: wireBreakdown_fields_def into_def counters_stated_def wire_counters_def)
  qed
qed (use assms(1,3) in \<open>auto simp: dec_struct_def\<close>)

definition pair_stated :: "jval \<Rightarrow> string list \<Rightarrow> wireBreakdown option \<times> wireBreakdown option \<Rightarrow> bool" where
  "pair_stated v path p \<longleftrightarrow> pred_option (counters_stated v (path @ [''last''])) (fst p) \<and>
     pred_option (counters_stated v (path @ [''total''])) (snd p)"

lemma pointer_stated:
  assumes "dec_pointer (dec_struct wireBreakdown_fields) no_counters cur x = Some b" and "x \<in> set (values_at v path)"
    and "pred_option (counters_stated v path) cur"
  shows "pred_option (counters_stated v path) b"
proof (cases b)
  case (Some b')
  have "counters_stated v path no_counters" by (simp add: counters_stated_def wire_counters_def no_counters_def)
  then have "counters_stated v path (case cur of None \<Rightarrow> no_counters | Some y \<Rightarrow> y)" using assms(3) by (cases cur) simp_all
  moreover have "dec_struct wireBreakdown_fields (case cur of None \<Rightarrow> no_counters | Some y \<Rightarrow> y) x = Some b'"
    using assms(1) Some by (cases x) (auto simp: dec_pointer_def)
  ultimately show ?thesis using breakdown_stated assms(2) Some by auto
qed simp

lemma pair_stated_dec:
  assumes "dec_struct usagePair_fields p x = Some p'" and "x \<in> set (values_at v path)" and "pair_stated v path p"
  shows "pair_stated v path p'"
proof (cases x)
  case (VDict ms)
  have "dec_members usagePair_fields p ms = Some p'" using assms(1) by (simp add: VDict)
  then show ?thesis
  proof (rule dec_members_inv [where P = "pair_stated v path", OF _ assms(3)])
    fix n f k u q q'
    assume f: "(n, f) \<in> set usagePair_fields" and k: "(k, u) \<in> set ms" "same_name n k"
      and q: "pair_stated v path q" "f q u = Some q'"
    have "u \<in> set (values_at v (path @ [n]))" using values_at_extend assms(2) k by (simp add: VDict)
    then show "pair_stated v path q'"
      using f q pointer_stated [of _ u] by (auto simp: usagePair_fields_def into_def pair_stated_def)
  qed
qed (use assms(1,3) in \<open>auto simp: dec_struct_def\<close>)

lemma usage_stated:
  assumes "dec_struct tokenUsage_fields r v = Some n" and "tu_Usage r = None"
  shows "pred_option (pair_stated v [''tokenUsage'']) (tu_Usage n)"
proof (cases v)
  case (VDict ms)
  have "dec_members tokenUsage_fields r ms = Some n" using assms(1) by (simp add: VDict)
  then show ?thesis
  proof (rule dec_members_inv [where P = "\<lambda>q. pred_option (pair_stated v [''tokenUsage'']) (tu_Usage q)"])
    fix nm f k u q q'
    assume f: "(nm, f) \<in> set tokenUsage_fields" and k: "(k, u) \<in> set ms" "same_name nm k"
      and q: "pred_option (pair_stated v [''tokenUsage'']) (tu_Usage q)" "f q u = Some q'"
    have u: "u \<in> set (values_at v ([] @ [nm]))" using values_at_extend [of ms v "[]" k u nm] k by (simp add: VDict)
    have "pred_option (pair_stated v [''tokenUsage'']) p"
      if "dec_pointer (dec_struct usagePair_fields) (None, None) (tu_Usage q) u = Some p" "nm = ''tokenUsage''" for p
    proof (cases p)
      case (Some p')
      have "pair_stated v [''tokenUsage''] (case tu_Usage q of None \<Rightarrow> (None, None) | Some y \<Rightarrow> y)"
        using q(1) by (cases "tu_Usage q") (simp_all add: pair_stated_def)
      moreover have "dec_struct usagePair_fields (case tu_Usage q of None \<Rightarrow> (None, None) | Some y \<Rightarrow> y) u = Some p'"
        using that(1) Some by (cases u) (auto simp: dec_pointer_def)
      ultimately show ?thesis using pair_stated_dec u that(2) Some by auto
    qed simp
    then show "pred_option (pair_stated v [''tokenUsage'']) (tu_Usage q')"
      using f q by (auto simp: tokenUsage_fields_def into_def)
  qed (simp add: assms(2))
qed (use assms in \<open>auto simp: dec_struct_def\<close>)

lemma resolved_stated:
  assumes "breakdown_valid (Some b)" and "counters_stated v path b"
  shows "states_breakdown v path (breakdown_resolve (Some b))"
  using assms
  by (auto simp: breakdown_valid_def counters_stated_def wire_counters_def states_breakdown_def required_counters_def
      breakdown_resolve_def counter_ok_def counter_at_def split: option.splits)

text \<open>
  C34. No token counter is made up. When a usage report of the app-server changes the usage of
  a turn, every counter the schema requires stands in the report's own text as a number, for
  the last figure and for the total, and none is negative; only the cache-write counter may
  be absent, and then it is zero.
\<close>

theorem usage_is_stated:
  assumes "tw_usage (handle (decode_notification notifyTokenUsage params) w) \<noteq> tw_usage w"
  shows "\<exists>v u. parse_json params = Some v \<and> tw_usage (handle (decode_notification notifyTokenUsage params) w) = Some u \<and>
    states_breakdown v [''tokenUsage'', ''last''] (au_Last u) \<and> states_breakdown v [''tokenUsage'', ''total''] (au_Total u)"
proof -
  let ?zero = "\<lparr>tu_ThreadID = [], tu_TurnID = [], tu_Usage = None\<rparr>"
  have dn: "decode_notification notifyTokenUsage params = TokenUsage (at_value (dec_struct tokenUsage_fields) ?zero params)"
    by (simp add: decode_notification_def notify_defs)
  obtain n where n: "at_value (dec_struct tokenUsage_fields) ?zero params = Some n" "tokenUsage_valid n"
    using assms unfolding dn by (auto simp: handle_def is_usage_def handle_usage_def Let_def split: option.splits if_splits)
  then obtain v where v: "parse_json params = Some v" "dec_struct tokenUsage_fields ?zero v = Some n"
    by (auto simp: at_value_def split: option.splits)
  obtain l t where lt: "tu_Usage n = Some (Some l, Some t)" "breakdown_valid (Some l)" "breakdown_valid (Some t)"
  proof (cases "tu_Usage n")
    case (Some p)
    obtain a b where p: "p = (a, b)" by fastforce
    then have "breakdown_valid a" "breakdown_valid b" using n(2) Some by (simp_all add: tokenUsage_valid_def)
    then show ?thesis using that Some p by (cases a; cases b) (auto simp: breakdown_valid_def)
  qed (use n(2) in \<open>simp add: tokenUsage_valid_def\<close>)
  have "pair_stated v [''tokenUsage''] (Some l, Some t)" using usage_stated [OF v(2)] lt(1) by simp
  then have "states_breakdown v [''tokenUsage'', ''last''] (breakdown_resolve (Some l))"
      "states_breakdown v [''tokenUsage'', ''total''] (breakdown_resolve (Some t))"
    using resolved_stated lt(2,3) by (auto simp: pair_stated_def)
  moreover have "tw_usage (handle (decode_notification notifyTokenUsage params) w) =
      Some \<lparr>au_Last = breakdown_resolve (Some l), au_Total = breakdown_resolve (Some t)\<rparr>"
    using assms unfolding dn n(1)
    by (auto simp: handle_def is_usage_def handle_usage_def Let_def lt(1) split: if_splits)
  ultimately show ?thesis using v(1) by auto
qed

definition sample_counters :: json where
  "sample_counters = JObj [(''inputTokens'', JInt 7), (''cachedInputTokens'', JInt 3), (''outputTokens'', JInt 2),
     (''reasoningOutputTokens'', JInt 0), (''totalTokens'', JInt 9)]"

definition sample_usage :: json where
  "sample_usage = JObj [(''threadId'', JStr ''t''), (''turnId'', JStr ''u''),
     (''tokenUsage'', JObj [(''last'', sample_counters), (''total'', sample_counters)])]"

definition sample_usage_text :: string where
  "sample_usage_text = compact sample_usage"

lemma usage_is_stated_witness:
  "\<exists>v u. parse_json sample_usage_text = Some v \<and> states_breakdown v [''tokenUsage'', ''last''] u"
proof -
  let ?w = "newTurnWatcher ''t''\<lparr>tw_turnID := ''u''\<rparr>"
  let ?zero = "\<lparr>tu_ThreadID = [], tu_TurnID = [], tu_Usage = None\<rparr>"
  have "nesting sample_usage \<le> maxNestingDepth" by (simp add: sample_usage_def sample_counters_def maxNestingDepth_def)
  then have "parse_json sample_usage_text = Some (val_of sample_usage)"
    unfolding sample_usage_text_def by (rule parse_json_compact)
  then have "decode_notification notifyTokenUsage sample_usage_text =
      TokenUsage (dec_struct tokenUsage_fields ?zero (val_of sample_usage))"
    by (simp add: decode_notification_def notify_defs at_value_def)
  moreover have "tw_usage (handle (TokenUsage (dec_struct tokenUsage_fields ?zero (val_of sample_usage))) ?w) \<noteq> None" by code_simp
  moreover have "tw_usage ?w = None" by (simp add: newTurnWatcher_def)
  ultimately show ?thesis using usage_is_stated [of sample_usage_text ?w] by auto
qed

end
