(* ===== verification/Session.thy ===== *)
theory Session
  imports Stated
begin

text \<open>
  The client's calls over the wire: what the server answers is the text of a result, and the
  policy of an accepted thread is read back from that text.
\<close>

section \<open>The app-server as texts\<close>

text \<open>What call gets for a method and its parameters: the result's text, empty when there is none.\<close>

type_synonym answers = "string \<Rightarrow> json \<Rightarrow> string res"

definition decode_result :: "('a \<Rightarrow> string \<Rightarrow> 'a option) \<Rightarrow> 'a \<Rightarrow> string res \<Rightarrow> 'a res" where
  "decode_result f zero r =
     (case r of
        Inl e \<Rightarrow> Err e
      | Inr t \<Rightarrow>
          (if t = [] then Ok zero
           else (case f zero t of None \<Rightarrow> Err (Errorf ''decode result'' [System ''json: cannot unmarshal'']) | Some x \<Rightarrow> Ok x)))"

text \<open>What one review observes, with its notifications as they are received: method and parameters.\<close>

record RawReview =
  raw_before :: "(string \<times> string) list"
  raw_ctx :: "goerror option"
  raw_during :: "(string \<times> string) list"
  raw_picked :: waitOutcome
  raw_closedErr :: goerror
  raw_ctxErr :: goerror
  raw_grace :: "(string \<times> string) list"
  raw_warnings :: warning_log

definition decode_notes :: "(string \<times> string) list \<Rightarrow> notification list" where
  "decode_notes ns = map (\<lambda>(meth, params). decode_notification meth params) ns"

definition decode_review :: "string res \<Rightarrow> RawReview \<Rightarrow> ReviewIO" where
  "decode_review got io =
     \<lparr>ri_before = decode_notes (raw_before io),
      ri_start =
        (case decode_result (raw_struct reviewStartResponse_wire) ([], zero_turn) got of
           Inl e \<Rightarrow> Err (Errorf methodReviewStart [e])
         | Inr (threadID, turn) \<Rightarrow> Ok \<lparr>rs_ReviewThreadID = threadID, rs_TurnID = tn_ID turn\<rparr>),
      ri_ctx = raw_ctx io, ri_during = decode_notes (raw_during io), ri_picked = raw_picked io,
      ri_closedErr = raw_closedErr io, ri_ctxErr = raw_ctxErr io, ri_grace = decode_notes (raw_grace io),
      ri_warnings = raw_warnings io\<rparr>"

definition wire_server :: "answers \<Rightarrow> (string \<Rightarrow> string \<Rightarrow> RawReview) \<Rightarrow> AppServer" where
  "wire_server ans reviews =
     \<lparr>sv_thread_start = (\<lambda>cwd sandbox. decode_result (raw_struct threadResponse_wire) zero_thread
        (ans methodThreadStart (threadStartParams_json cwd sandbox approvalNever))),
      sv_thread_resume = (\<lambda>threadID cwd sandbox. decode_result (raw_struct threadResponse_wire) zero_thread
        (ans methodThreadResume (threadResumeParams_json threadID cwd sandbox approvalNever))),
      sv_thread_unarchive = (\<lambda>threadID. decode_result (at_value (dec_struct unarchive_fields)) []
        (ans methodThreadUnarchive (threadUnarchiveParams_json threadID))),
      sv_name_set = (\<lambda>threadID n. case ans methodThreadNameSet (threadNameSetParams_json threadID n) of Inl e \<Rightarrow> Some e | Inr t \<Rightarrow> None),
      sv_review = (\<lambda>threadID instructions. decode_review (ans methodReviewStart (snd (call_params (ReviewStart threadID instructions))))
        (reviews threadID instructions))\<rparr>"

section \<open>Values a text states\<close>

definition stated :: "jval \<Rightarrow> string list \<Rightarrow> string \<Rightarrow> bool" where
  "stated v path s \<longleftrightarrow> s = [] \<or> VText s \<in> set (values_at v path)"

definition stated_true :: "jval \<Rightarrow> string list \<Rightarrow> bool \<Rightarrow> bool" where
  "stated_true v path b \<longleftrightarrow> \<not> b \<or> VBool True \<in> set (values_at v path)"

lemma stated_Nil [simp]: "stated v path []"
  by (simp add: stated_def)

lemma dec_string_stated:
  "dec_string c x = Some s \<Longrightarrow> x \<in> set (values_at v path) \<Longrightarrow> stated v path c \<Longrightarrow> stated v path s"
  by (cases x) (auto simp: dec_string_def stated_def)

lemma raw_string_stated: "x \<in> set (values_at v path) \<Longrightarrow> pred_option (stated v path) (dec_string [] x)"
  by (cases "dec_string [] x") (auto dest: dec_string_stated)

lemma dec_bool_stated:
  "dec_bool c x = Some b \<Longrightarrow> x \<in> set (values_at v path) \<Longrightarrow> stated_true v path c \<Longrightarrow> stated_true v path b"
  by (cases x) (auto simp: dec_bool_def stated_true_def)

lemma dec_struct_inv:
  assumes "dec_struct fs r x = Some r'" and "P r"
    and "\<And>n f k u q q' ms. x = VDict ms \<Longrightarrow> (n, f) \<in> set fs \<Longrightarrow> (k, u) \<in> set ms \<Longrightarrow> same_name n k \<Longrightarrow> P q \<Longrightarrow> f q u = Some q' \<Longrightarrow> P q'"
  shows "P r'"
proof (cases x)
  case (VDict ms)
  then have "dec_members fs r ms = Some r'" using assms(1) by (simp add: dec_struct_def)
  then show ?thesis by (rule dec_members_inv [where P = P, OF _ assms(2)]) (rule assms(3) [OF VDict])
qed (use assms(1,2) in \<open>auto simp: dec_struct_def\<close>)

lemma thread_id_stated:
  assumes "dec_struct thread_id_fields c x = Some s" and "x \<in> set (values_at v path)" and "stated v (path @ [''id'']) c"
  shows "stated v (path @ [''id'']) s"
  by (rule dec_struct_inv [where P = "stated v (path @ [''id''])", OF assms(1,3)])
    (use assms(2) values_at_extend dec_string_stated in \<open>auto simp: thread_id_fields_def\<close>)

definition policy_stated :: "jval \<Rightarrow> string list \<Rightarrow> sandboxPolicy \<Rightarrow> bool" where
  "policy_stated v path p \<longleftrightarrow> stated v (path @ [''type'']) (sp_Type p) \<and>
     stated_true v (path @ [''excludeSlashTmp'']) (sp_ExcludeSlashTmp p) \<and>
     stated_true v (path @ [''excludeTmpdirEnvVar'']) (sp_ExcludeTmpdirEnvVar p)"

lemma policy_stated_dec:
  assumes "dec_struct sandboxPolicy_fields c x = Some p" and "x \<in> set (values_at v path)" and "policy_stated v path c"
  shows "policy_stated v path p"
proof (rule dec_struct_inv [where P = "policy_stated v path", OF assms(1,3)])
  fix n f k u q q' ms
  assume x: "x = VDict ms" and f: "(n, f) \<in> set sandboxPolicy_fields" and k: "(k, u) \<in> set ms" "same_name n k"
    and q: "policy_stated v path q" "f q u = Some q'"
  have "u \<in> set (values_at v (path @ [n]))" using values_at_extend assms(2) k by (simp add: x)
  then show "policy_stated v path q'"
    using f q dec_string_stated [of _ u] dec_bool_stated [of _ u]
    by (auto simp: sandboxPolicy_fields_def into_def policy_stated_def)
qed

section \<open>A thread's response\<close>

definition response_stated :: "jval \<Rightarrow> threadResponse \<Rightarrow> bool" where
  "response_stated v r \<longleftrightarrow> stated v [''thread'', ''id''] (tr_ThreadID r) \<and> stated v [''cwd''] (tr_Cwd r) \<and>
     pred_option (stated v [''approvalPolicy'']) (tr_ApprovalPolicy r) \<and> policy_stated v [''sandbox''] (tr_Sandbox r)"

lemma response_is_stated:
  assumes "raw_struct threadResponse_wire zero_thread t = Some r"
  shows "\<exists>v. parse_json t = Some v \<and> response_stated v r"
proof -
  have zero: "response_stated v zero_thread" for v
    by (simp add: response_stated_def zero_thread_def policy_stated_def zero_policy_def stated_true_def)
  obtain v where v: "parse_json t = Some v" "v = VNull \<and> r = zero_thread \<or> (\<exists>ms. v = VDict ms)"
    using assms by (auto simp: raw_struct_def split: option.splits jval.splits)
  show ?thesis
  proof (cases "v = VNull")
    case True
    then show ?thesis using v zero by auto
  next
    case False
    then obtain ms where ms: "v = VDict ms" using v(2) by auto
    obtain kts where kts: "dec_members threadResponse_wire zero_thread kts = Some r"
        "\<And>k u. (k, u) \<in> set kts \<Longrightarrow> \<exists>x. (k, x) \<in> set ms \<and> parse_json u = Some x"
      using raw_struct_match [OF assms] v(1) ms by blast
    have "response_stated v r"
    proof (rule dec_members_inv [where P = "response_stated v", OF kts(1) zero])
      fix n f k u q q'
      assume f: "(n, f) \<in> set threadResponse_wire" and k: "(k, u) \<in> set kts" "same_name n k"
        and q: "response_stated v q" "f q u = Some q'"
      obtain x where x: "(k, x) \<in> set ms" "parse_json u = Some x" using kts(2) k(1) by blast
      have at: "x \<in> set (values_at v [n])" using values_at_extend [of ms v "[]" k x n] x(1) k(2) by (simp add: ms)
      show "response_stated v q'"
        using f q at dec_string_stated [of _ x] thread_id_stated [of _ x _ v "[''thread'']"] policy_stated_dec [of _ x] raw_string_stated [OF at]
        by (auto simp: threadResponse_wire_def into_def at_value_def x(2) string_of_raw_def response_stated_def
            split: option.splits)
    qed
    then show ?thesis using v(1) by blast
  qed
qed

lemma decode_result_Ok:
  assumes "decode_result f zero r = Ok x" and "x \<noteq> zero"
  shows "\<exists>t. r = Ok t \<and> f zero t = Some x"
  using assms by (auto simp: decode_result_def split: sum.splits if_splits option.splits)

text \<open>
  C32. The policy of a thread is the server's own statement. When a thread is started or
  resumed over the wire, the call asked for the sandbox mode and for no approvals, and the
  answer's text itself names the thread, the requested directory, the approval policy never
  and the sandbox type, and for a build the exclusion of both temporary roots; what the text
  decodes to has the network off and exactly the requested writable roots.
\<close>

theorem thread_policy_stated:
  assumes "client_StartThread (wire_server ans reviews) cwd sb = Ok t \<or>
      client_ResumeThread (wire_server ans reviews) threadID cwd sb = Ok t"
    and "distinct (sb_WritableRoots sb)" and "cwd \<noteq> []"
  shows "\<exists>body v resp.
    (ans ''thread/start'' (threadStartParams_json cwd (sb_mode sb) ''never'') = Ok body \<or>
     th_ID t = threadID \<and> ans ''thread/resume'' (threadResumeParams_json threadID cwd (sb_mode sb) ''never'') = Ok body) \<and>
    parse_json body = Some v \<and> th_ID t \<noteq> [] \<and> VText (th_ID t) \<in> set (values_at v [''thread'', ''id'']) \<and>
    VText cwd \<in> set (values_at v [''cwd'']) \<and> VText ''never'' \<in> set (values_at v [''approvalPolicy'']) \<and>
    VText (if sb_Build sb then ''workspaceWrite'' else ''readOnly'') \<in> set (values_at v [''sandbox'', ''type'']) \<and>
    (sb_Build sb \<longrightarrow> VBool True \<in> set (values_at v [''sandbox'', ''excludeSlashTmp'']) \<and>
       VBool True \<in> set (values_at v [''sandbox'', ''excludeTmpdirEnvVar''])) \<and>
    raw_struct threadResponse_wire zero_thread body = Some resp \<and> \<not> sp_NetworkAccess (tr_Sandbox resp) \<and>
    (sb_Build sb \<longrightarrow> set (sp_WritableRoots (tr_Sandbox resp)) = set (sb_WritableRoots sb))"
proof -
  let ?start = "ans methodThreadStart (threadStartParams_json cwd (sb_mode sb) approvalNever)"
  let ?resume = "ans methodThreadResume (threadResumeParams_json threadID cwd (sb_mode sb) approvalNever)"
  obtain resp where resp: "threadFromResponse resp cwd sb = Ok t"
    and call: "decode_result (raw_struct threadResponse_wire) zero_thread ?start = Ok resp \<or>
      tr_ThreadID resp = threadID \<and> decode_result (raw_struct threadResponse_wire) zero_thread ?resume = Ok resp"
    using assms(1)
    by (auto simp: client_StartThread_def client_ResumeThread_def wire_server_def split: sum.splits if_splits)
  note th = threadFromResponse_Ok [OF resp]
  note ok = thread_policy_of_response [OF resp assms(2)]
  obtain r where r: "decode_result (raw_struct threadResponse_wire) zero_thread r = Ok resp"
      "r = ?start \<or> tr_ThreadID resp = threadID \<and> r = ?resume"
    using call by blast
  have "resp \<noteq> zero_thread" using th by (auto simp: zero_thread_def)
  then obtain body where rb: "r = Ok body" and body: "raw_struct threadResponse_wire zero_thread body = Some resp"
    using decode_result_Ok [OF r(1)] by blast
  obtain v where v: "parse_json body = Some v" "response_stated v resp" using response_is_stated [OF body] by blast
  have told: "VText (th_ID t) \<in> set (values_at v [''thread'', ''id''])" "VText cwd \<in> set (values_at v [''cwd''])"
      "VText ''never'' \<in> set (values_at v [''approvalPolicy''])"
    using v(2) th assms(3) by (auto simp: response_stated_def stated_def approvalNever_def)
  have "VText (sp_Type (tr_Sandbox resp)) \<in> set (values_at v [''sandbox'', ''type''])"
    using v(2) ok by (auto simp: response_stated_def policy_stated_def stated_def split: if_splits)
  then have kind: "VText (if sb_Build sb then ''workspaceWrite'' else ''readOnly'') \<in> set (values_at v [''sandbox'', ''type''])"
    using ok by (simp split: if_splits)
  have roots: "sb_Build sb \<longrightarrow> VBool True \<in> set (values_at v [''sandbox'', ''excludeSlashTmp'']) \<and>
      VBool True \<in> set (values_at v [''sandbox'', ''excludeTmpdirEnvVar''])"
    using v(2) ok by (simp add: response_stated_def policy_stated_def stated_true_def)
  have call: "ans ''thread/start'' (threadStartParams_json cwd (sb_mode sb) ''never'') = Ok body \<or>
      th_ID t = threadID \<and> ans ''thread/resume'' (threadResumeParams_json threadID cwd (sb_mode sb) ''never'') = Ok body"
    using r(2) rb th by (auto simp: methodThreadStart_def methodThreadResume_def approvalNever_def)
  have kept: "\<not> sp_NetworkAccess (tr_Sandbox resp)" "sb_Build sb \<longrightarrow> set (sp_WritableRoots (tr_Sandbox resp)) = set (sb_WritableRoots sb)"
    using ok by simp_all
  have id: "th_ID t \<noteq> []" using th by simp
  show ?thesis using call v(1) id told kind roots body kept by blast
qed

definition sample_members :: "(string \<times> json) list" where
  "sample_members =
     [(''thread'', JObj [(''id'', JStr ''t'')]), (''model'', JStr ''m''), (''approvalPolicy'', JStr ''never''), (''cwd'', JStr ''/w''),
      (''sandbox'', JObj [(''type'', JStr ''readOnly'')])]"

definition sample_body :: string where
  "sample_body = compact (JObj sample_members)"

definition sample_decoded :: threadResponse where
  "sample_decoded = \<lparr>tr_ThreadID = ''t'', tr_Model = ''m'', tr_ReasoningEffort = None, tr_ApprovalPolicy = Some ''never'',
     tr_Sandbox = zero_policy\<lparr>sp_Type := ''readOnly''\<rparr>, tr_Cwd = ''/w''\<rparr>"

definition sample_thread :: Thread where
  "sample_thread = \<lparr>th_ID = ''t'', th_Model = ''m'', th_ReasoningEffort = []\<rparr>"

definition read_only :: Sandbox where
  "read_only = \<lparr>sb_Build = False, sb_WritableRoots = []\<rparr>"

lemma sample_started: "client_StartThread (wire_server (\<lambda>m p. Ok sample_body) reviews) ''/w'' read_only = Ok sample_thread"
proof -
  let ?kts = "map (\<lambda>kv. (to_utf8 (fst kv), compact (snd kv))) sample_members"
  have depth: "nesting (JObj sample_members) \<le> maxNestingDepth" by (simp add: sample_members_def maxNestingDepth_def)
  have "dec_members threadResponse_wire zero_thread ?kts = Some sample_decoded" by code_simp
  then have dec: "raw_struct threadResponse_wire zero_thread sample_body = Some sample_decoded"
    using members_raw_compact [OF depth] parse_json_compact [OF depth] by (simp add: raw_struct_def sample_body_def)
  have "threadFromResponse sample_decoded ''/w'' read_only = Ok sample_thread" by code_simp
  moreover have "sample_body \<noteq> []" by (simp add: sample_body_def)
  ultimately show ?thesis by (simp add: client_StartThread_def wire_server_def decode_result_def dec)
qed

lemma thread_policy_stated_witness:
  "\<exists>v. parse_json sample_body = Some v \<and> VText ''never'' \<in> set (values_at v [''approvalPolicy'']) \<and>
     VText ''readOnly'' \<in> set (values_at v [''sandbox'', ''type''])"
proof -
  fix reviews
  have run: "client_StartThread (wire_server (\<lambda>m p. Ok sample_body) reviews) ''/w'' read_only = Ok sample_thread \<or>
      client_ResumeThread (wire_server (\<lambda>m p. Ok sample_body) reviews) ''t'' ''/w'' read_only = Ok sample_thread"
    using sample_started ..
  have "distinct (sb_WritableRoots read_only)" "''/w'' \<noteq> []" "\<not> sb_Build read_only" by (simp_all add: read_only_def)
  then show ?thesis using thread_policy_stated [OF run] by auto
qed

end
