(* ===== verification/UsageReport.thy ===== *)
theory UsageReport
  imports DecodeSpec
begin

text \<open>
  cmd/counterpoint/usage.go: the report of recorded token usage. writeUsage runs over the
  workflows and their rounds once, building the text and a running sum that saturates; the
  report it should print is stated beside it without any running state.
\<close>

section \<open>Numbers and rounds\<close>

record usage_round =
  ur_round :: int
  ur_commit :: string
  ur_usage :: "Usage option"

definition rounds :: "Workflow \<Rightarrow> usage_round list" where
  "rounds w =
     \<lparr>ur_round = wf_Round w, ur_commit = wf_LastCommit w, ur_usage = wf_LastUsage w\<rparr> #
     map (\<lambda>h. \<lparr>ur_round = hr_Round h, ur_commit = hr_Commit h, ur_usage = hr_Usage h\<rparr>) (rev (wf_History w))"

definition short :: "string \<Rightarrow> string" where
  "short commit = (if IsObjectID commit then take 12 commit else commit)"

text \<open>The sum in 64 bits, with its wrap-around written out.\<close>

definition addSaturating :: "int \<Rightarrow> int \<Rightarrow> bool \<Rightarrow> int \<times> bool" where
  "addSaturating a b already =
     (if b > go_int (MaxInt - a) then (MaxInt, True) else (go_int (a + b), already))"

definition group_digits :: "string \<Rightarrow> string" where
  "group_digits s =
     concat (map (\<lambda>i. (if 0 < i \<and> (length s - i) mod 3 = 0 then '','' else []) @ [s ! i]) [0..<length s])"

definition group :: "int \<Rightarrow> string" where
  "group n =
     (let s = Itoa n; neg = HasPrefix s ''-''; out = group_digits (TrimPrefix s ''-'')
      in if neg then ''-'' @ out else out)"

section \<open>The report\<close>

text \<open>A line with its newline; the verb %-4d pads on the right to four columns.\<close>

definition ln :: "string \<Rightarrow> string" where
  "ln s = s @ [CHR 0x0A]"

definition pad4 :: "int \<Rightarrow> string" where
  "pad4 n = Itoa n @ replicate (4 - length (Itoa n)) (CHR '' '')"

definition usage_header :: "string \<Rightarrow> string" where
  "usage_header path =
     ln (''Counterpoint token usage from '' @ path) @
     ln ''Completed rounds only; failed and interrupted rounds are not recorded.'' @
     ln ''Every figure is what the app-server reported, not a cost Counterpoint measured.''"

definition round_line :: "usage_round \<Rightarrow> string" where
  "round_line r =
     ln (''  round '' @ pad4 (ur_round r) @ '' '' @ short (ur_commit r) @
       (case ur_usage r of
          None \<Rightarrow> ''  not recorded''
        | Some u \<Rightarrow>
            (let l = us_Last u in
             ''  last report '' @ group (ub_Total l) @ '' tokens  (input '' @ group (ub_Input l) @ '', cached '' @
             group (ub_Cached l) @ '', output '' @ group (ub_Output l) @ '', reasoning '' @ group (ub_Reasoning l) @ '')'')))"

definition thread_line :: "Workflow \<Rightarrow> string" where
  "thread_line w =
     (case wf_LastUsage w of
        None \<Rightarrow> []
      | Some u \<Rightarrow>
          ln (''  thread total reported at round '' @ Itoa (wf_Round w) @ '': '' @ group (ub_Total (us_Total u)) @ '' tokens''))"

record tally =
  ta_text :: string
  ta_sum :: int
  ta_saturated :: bool
  ta_recorded :: int

definition tally_round :: "usage_round \<Rightarrow> tally \<Rightarrow> tally" where
  "tally_round r t =
     (case ur_usage r of
        None \<Rightarrow> t\<lparr>ta_text := ta_text t @ round_line r\<rparr>
      | Some u \<Rightarrow>
          (case addSaturating (ta_sum t) (ub_Total (us_Last u)) (ta_saturated t) of
             (s, sat) \<Rightarrow>
               \<lparr>ta_text = ta_text t @ round_line r, ta_sum = s, ta_saturated = sat, ta_recorded = go_int (ta_recorded t + 1)\<rparr>))"

definition tally_workflow :: "State \<Rightarrow> string \<Rightarrow> tally \<Rightarrow> tally" where
  "tally_workflow st k t =
     (let w = fst (Get st k);
          t1 = fold tally_round (rounds w) (t\<lparr>ta_text := ta_text t @ [CHR 0x0A] @ ln k\<rparr>)
      in t1\<lparr>ta_text := ta_text t1 @ thread_line w\<rparr>)"

definition usage_footer :: "int \<Rightarrow> int \<Rightarrow> int \<Rightarrow> bool \<Rightarrow> string" where
  "usage_footer n recorded s saturated =
     [CHR 0x0A] @ ln (Itoa n @ '' workflow(s), '' @ Itoa recorded @ '' recorded round(s).'') @
     (if saturated
      then ln ''Sum of last reports: more than can be represented; at least one reported counter is implausibly large.''
      else ln (''Sum of last reports: '' @ group s @ '' tokens.'')) @
     ln ''A last report may cover only the final model request of a turn rather than'' @
     ln ''the whole turn, so treat these as reported figures and the sum as a lower'' @
     ln ''bound, not as measured round costs.''"

definition usage_tally :: "State \<Rightarrow> string \<Rightarrow> tally" where
  "usage_tally st path =
     fold (tally_workflow st) (sort (map fst st))
       \<lparr>ta_text = usage_header path, ta_sum = 0, ta_saturated = False, ta_recorded = 0\<rparr>"

text \<open>The text written; the error is that of the one write.\<close>

definition writeUsage :: "State \<Rightarrow> string \<Rightarrow> string" where
  "writeUsage st path =
     (let t = usage_tally st path in
      if st = [] then ta_text t @ [CHR 0x0A] @ ln ''No workflows recorded yet.''
      else ta_text t @ usage_footer (int (length st)) (ta_recorded t) (ta_sum t) (ta_saturated t))"

section \<open>Grouping\<close>

lemma group_digits_chars: "CHR '','' \<notin> set s \<Longrightarrow> filter (\<lambda>c. c \<noteq> CHR '','') (group_digits s) = s"
proof -
  assume no: "CHR '','' \<notin> set s"
  have "filter (\<lambda>c. c \<noteq> CHR '','') (concat (map (\<lambda>i. (if 0 < i \<and> (length s - i) mod 3 = 0 then '','' else []) @ [s ! i]) is)) =
      map ((!) s) is" if "set is \<subseteq> {..<length s}" for "is"
    using that no by (induction "is") (auto simp: in_set_conv_nth)
  from this [of "[0..<length s]"] show ?thesis
    by (simp add: group_digits_def map_nth atLeast0LessThan)
qed

lemma Itoa_chars: "c \<in> set (Itoa i) \<Longrightarrow> c \<noteq> CHR '',''"
  using nat_text_digits no_digit(1) by (auto simp: Itoa_def split: if_splits)

lemma group_digits_of: "filter (\<lambda>c. c \<noteq> CHR '','') (group n) = Itoa n"
proof (cases "HasPrefix (Itoa n) ''-''")
  case True
  then obtain t where "Itoa n = CHR ''-'' # t" by (cases "Itoa n") auto
  moreover then have "CHR '','' \<notin> set t" using Itoa_chars [of "CHR '',''" n] by auto
  ultimately show ?thesis by (simp add: group_def Let_def TrimPrefix_def group_digits_chars)
next
  case False
  moreover have "CHR '','' \<notin> set (Itoa n)" using Itoa_chars by blast
  ultimately show ?thesis by (simp add: group_def Let_def TrimPrefix_def group_digits_chars)
qed

section \<open>The report without running state\<close>

definition reported :: "State \<Rightarrow> int list" where
  "reported st =
     concat (map (\<lambda>kw. concat (map (\<lambda>r. case ur_usage r of None \<Rightarrow> [] | Some u \<Rightarrow> [ub_Total (us_Last u)]) (rounds (snd kw)))) st)"

definition workflow_text :: "string \<times> Workflow \<Rightarrow> string" where
  "workflow_text kw =
     [CHR 0x0A] @ ln (fst kw) @ concat (map round_line (rounds (snd kw))) @ thread_line (snd kw)"

definition usage_report :: "State \<Rightarrow> string \<Rightarrow> string" where
  "usage_report st path =
     usage_header path @ concat (map workflow_text (sort_key fst st)) @
     (if st = [] then [CHR 0x0A] @ ln ''No workflows recorded yet.''
      else usage_footer (int (length st)) (int (length (reported st))) (sum_list (reported st)) (sum_list (reported st) > MaxInt))"

definition round_reports :: "usage_round list \<Rightarrow> int list" where
  "round_reports rs = concat (map (\<lambda>r. case ur_usage r of None \<Rightarrow> [] | Some u \<Rightarrow> [ub_Total (us_Last u)]) rs)"

text \<open>The running state after the reports xs: exact, or clamped at the largest integer.\<close>

definition tallied :: "int list \<Rightarrow> tally \<Rightarrow> bool" where
  "tallied xs t \<longleftrightarrow>
     ta_recorded t = go_int (int (length xs)) \<and>
     (ta_saturated t \<longleftrightarrow> sum_list xs > MaxInt) \<and> ta_sum t = min (sum_list xs) MaxInt"

lemma addSaturating_min:
  assumes "0 \<le> s" and "0 \<le> b" and "b \<le> MaxInt"
  shows "addSaturating (min s MaxInt) b (s > MaxInt) = (min (s + b) MaxInt, s + b > MaxInt)"
  using assms by (auto simp: addSaturating_def MaxInt_def MinInt_def min_def)

lemma go_int_Suc: "go_int (go_int x + 1) = go_int (x + 1)"
  unfolding go_int_def by (simp add: mod_simps algebra_simps) 

lemma tally_round_step:
  assumes "tallied xs t" and "\<forall>x\<in>set (xs @ round_reports [r]). 0 \<le> x \<and> x \<le> MaxInt"
  shows "tallied (xs @ round_reports [r]) (tally_round r t) \<and> ta_text (tally_round r t) = ta_text t @ round_line r"
proof (cases "ur_usage r")
  case None
  then show ?thesis using assms(1) by (simp add: tally_round_def round_reports_def tallied_def)
next
  case (Some u)
  have "0 \<le> sum_list xs" using assms(2) by (intro sum_list_nonneg) simp
  then show ?thesis using assms addSaturating_min [of "sum_list xs" "ub_Total (us_Last u)"]
    by (simp add: tally_round_def round_reports_def tallied_def Some go_int_Suc) (simp add: add.commute)
qed

lemma tally_rounds:
  assumes "tallied xs t" and "\<forall>x\<in>set (xs @ round_reports rs). 0 \<le> x \<and> x \<le> MaxInt"
  shows "tallied (xs @ round_reports rs) (fold tally_round rs t) \<and>
    ta_text (fold tally_round rs t) = ta_text t @ concat (map round_line rs)"
  using assms
proof (induction rs arbitrary: xs t)
  case (Cons r rs)
  have step: "tallied (xs @ round_reports [r]) (tally_round r t)" "ta_text (tally_round r t) = ta_text t @ round_line r"
    using tally_round_step [OF Cons.prems(1), of r] Cons.prems(2) by (auto simp: round_reports_def)
  have "round_reports (r # rs) = round_reports [r] @ round_reports rs" by (simp add: round_reports_def)
  then show ?case using Cons.IH [OF step(1)] Cons.prems(2) step(2) by simp
qed (simp add: round_reports_def)

lemma sort_keys: "distinct (map fst st) \<Longrightarrow> sort (map fst st) = map fst (sort_key fst st)"
  by (rule properties_for_sort) simp_all

definition state_reports :: "State \<Rightarrow> int list" where
  "state_reports ms = concat (map (\<lambda>kw. round_reports (rounds (snd kw))) ms)"

lemma tally_workflows:
  assumes "\<forall>kw\<in>set ms. Get st (fst kw) = (snd kw, True)" and "tallied xs t"
    and "\<forall>x\<in>set (xs @ state_reports ms). 0 \<le> x \<and> x \<le> MaxInt"
  shows "tallied (xs @ state_reports ms) (fold (tally_workflow st) (map fst ms) t) \<and>
    ta_text (fold (tally_workflow st) (map fst ms) t) = ta_text t @ concat (map workflow_text ms)"
  using assms
proof (induction ms arbitrary: xs t)
  case (Cons kw ms)
  let ?t = "t\<lparr>ta_text := ta_text t @ [CHR 0x0A] @ ln (fst kw)\<rparr>" and ?rs = "rounds (snd kw)"
  have one: "tallied xs ?t" using Cons.prems(2) by (simp add: tallied_def)
  have split: "state_reports (kw # ms) = round_reports ?rs @ state_reports ms" by (simp add: state_reports_def)
  have r: "tallied (xs @ round_reports ?rs) (fold tally_round ?rs ?t) \<and>
      ta_text (fold tally_round ?rs ?t) = ta_text ?t @ concat (map round_line ?rs)"
    by (rule tally_rounds [OF one]) (use Cons.prems(3) split in auto)
  have step: "tallied (xs @ round_reports ?rs) (tally_workflow st (fst kw) t)"
      "ta_text (tally_workflow st (fst kw) t) = ta_text t @ workflow_text kw"
    using r Cons.prems(1) by (simp_all add: tally_workflow_def Let_def workflow_text_def tallied_def)
  show ?case using Cons.IH [OF _ step(1)] Cons.prems(1,3) step(2) by (simp add: split)
qed (simp add: state_reports_def)

lemma reported_eq: "reported st = state_reports st"
  by (simp add: reported_def state_reports_def round_reports_def)

lemma state_reports_sorted: "mset (state_reports (sort_key fst st)) = mset (state_reports st)"
  by (simp add: state_reports_def mset_concat flip: sum_mset_sum_list)


definition usage_of :: "int \<Rightarrow> Usage option" where
  "usage_of n = Some \<lparr>us_Last = zero_Breakdown\<lparr>ub_Total := n\<rparr>, us_Total = zero_Breakdown\<rparr>"


lemma group_example: "group_digits ''1234567'' = ''1,234,567''"
  by code_simp

text \<open>
  Load does not look at the counters, and the sum assumes they are not negative: with a
  stored counter of -1 before a report of 0 it claims more than can be represented.
\<close>

lemma negative_counter_saturates:
  "state_ok [(sample_key, sample_workflow\<lparr>wf_LastUsage := usage_of (-1), wf_History := [sample_record\<lparr>hr_Usage := usage_of 0\<rparr>]\<rparr>)] \<and>
   ta_saturated (usage_tally [(sample_key, sample_workflow\<lparr>wf_LastUsage := usage_of (-1),
     wf_History := [sample_record\<lparr>hr_Usage := usage_of 0\<rparr>]\<rparr>)] path)"
proof
  show "state_ok [(sample_key, sample_workflow\<lparr>wf_LastUsage := usage_of (-1), wf_History := [sample_record\<lparr>hr_Usage := usage_of 0\<rparr>]\<rparr>)]"
    using sample_state_ok
    by (simp add: state_ok_def sample_state_def workflow_ok_def sample_workflow_def record_ok64_def sample_record_def
        NewHistoryRecord_def usage_of_def usage_ok_def counters_def zero_Breakdown_def int64_ok_def MinInt_def MaxInt_def)
  show "ta_saturated (usage_tally [(sample_key, sample_workflow\<lparr>wf_LastUsage := usage_of (-1),
     wf_History := [sample_record\<lparr>hr_Usage := usage_of 0\<rparr>]\<rparr>)] path)"
    by (simp add: usage_tally_def tally_workflow_def rounds_def tally_round_def sample_workflow_def sample_record_def NewHistoryRecord_def
        usage_of_def zero_Breakdown_def addSaturating_def go_int_def MaxInt_def Let_def Get_def)
qed

end
