(* ===== verification/Config.thy ===== *)
theory Config
  imports JsonParse Paths Service
begin

text \<open>
  internal/config/config.go: the optional configuration file. The environment, os.Stat, the
  open file and its bytes are answered by an oracle record; the bytes are decoded with the
  model of encoding/json, the first value by a Decoder and nothing but white space after it.
  A raw message is the value it holds.
\<close>

section \<open>The file\<close>

definition MaxBytes :: nat where
  [size_defs]: "MaxBytes = 65536"

record FileInfo =
  fi_IsDir :: bool
  fi_IsRegular :: bool
  fi_Size :: int

record ConfigIO =
  ci_env :: string
  ci_userConfigDir :: "string res"
  ci_stat :: "FileInfo res"
  ci_open :: "goerror option"
  ci_fstat :: "FileInfo res"
  ci_content :: string
  ci_readErr :: "goerror option"

definition invalid :: "string \<Rightarrow> goerror" where
  "invalid what = Errorf what [Sentinel (S_config ErrInvalid)]"

definition Path :: "ConfigIO \<Rightarrow> string res" where
  "Path io =
     (if ci_env io \<noteq> [] then
        (if \<not> IsAbs (ci_env io) then Err (System ''COUNTERPOINT_CONFIG_FILE must be an absolute path'') else Ok (ci_env io))
      else
        (case ci_userConfigDir io of
           Inl e \<Rightarrow> Err (Errorf ''locate user config dir'' [e])
         | Inr d \<Rightarrow> Ok (JoinPath [d, ''counterpoint'', ''config.json''])))"

definition regular :: "FileInfo \<Rightarrow> goerror option" where
  "regular info =
     (if fi_IsDir info then Some (invalid ''is a directory'')
      else if \<not> fi_IsRegular info then Some (invalid ''is not a regular file'')
      else if fi_Size info > int MaxBytes then Some (invalid ''size'')
      else None)"

text \<open>None is a file that does not exist; at most MaxBytes + 1 bytes are read.\<close>

definition read_config :: "ConfigIO \<Rightarrow> string option res" where
  "read_config io =
     (case ci_stat io of
        Inl e \<Rightarrow> if errors_Is e (S_std ErrNotExist) then Ok None else Err (Errorf ''stat configuration file'' [e])
      | Inr info \<Rightarrow>
          (case regular info of
             Some e \<Rightarrow> Err e
           | None \<Rightarrow>
               (case ci_open io of
                  Some e \<Rightarrow>
                    (if errors_Is e (S_std ErrNotExist) then Ok None else Err (Errorf ''open configuration file'' [e]))
                | None \<Rightarrow>
                    (case ci_fstat io of
                       Inl e \<Rightarrow> Err (Errorf ''stat configuration file'' [e])
                     | Inr info2 \<Rightarrow>
                         (case regular info2 of
                            Some e \<Rightarrow> Err e
                          | None \<Rightarrow>
                              (case ci_readErr io of
                                 Some e \<Rightarrow> Err (Errorf ''read configuration file'' [e])
                               | None \<Rightarrow>
                                   (let raw = take (MaxBytes + 1) (ci_content io) in
                                    if length raw > MaxBytes then Err (invalid ''over the limit'') else Ok (Some raw))))))))"

section \<open>The keys\<close>

definition knownKeys :: "string list" where
  "knownKeys = [''review_effort'', ''state_file'', ''checkout_dir'']"

text \<open>One Decode of a json.Decoder: the value and the bytes after it.\<close>

definition Decode :: "string \<Rightarrow> (jval \<times> string) option" where
  "Decode s = p_value (2 * length s + 1) 0 (skip_ws s)"

type_synonym config_fields = "string \<rightharpoonup> jval"

definition parse :: "string \<Rightarrow> config_fields res" where
  "parse raw =
     (case Decode raw of
        None \<Rightarrow> Err (Errorf ''decode'' [Sentinel (S_config ErrInvalid), System ''json''])
      | Some (v, rest) \<Rightarrow>
          (case v of
             VNull \<Rightarrow> Err (invalid ''null is not a configuration object'')
           | VDict ms \<Rightarrow>
               (if skip_ws rest \<noteq> [] then Err (invalid ''unexpected content after the configuration object'')
                else if \<not> list_all (\<lambda>kv. fst kv \<in> set knownKeys) ms then Err (invalid ''unknown key'')
                else Ok (map_of (rev ms)))
           | _ \<Rightarrow> Err (Errorf ''decode'' [Sentinel (S_config ErrInvalid), System ''json: cannot unmarshal''])))"

text \<open>The string value of a key; None is an absent key.\<close>

definition text_value :: "string \<Rightarrow> config_fields \<Rightarrow> string option res" where
  "text_value key obj =
     (case obj key of
        None \<Rightarrow> Ok None
      | Some raw \<Rightarrow>
          (case raw of
             VNull \<Rightarrow> Err (invalid ''is null; remove the key to use the default'')
           | VText s \<Rightarrow> Ok (Some s)
           | _ \<Rightarrow> Err (Errorf key [Sentinel (S_config ErrInvalid), System ''json: cannot unmarshal''])))"

definition absolute :: "string \<Rightarrow> config_fields \<Rightarrow> string res" where
  "absolute key obj =
     (case text_value key obj of
        Inl e \<Rightarrow> Err e
      | Inr None \<Rightarrow> Ok []
      | Inr (Some v) \<Rightarrow>
          (if v = [] then Err (invalid ''is empty; remove the key to use the default'')
           else if \<not> IsAbs v then Err (invalid ''must be an absolute path'')
           else Ok v))"

section \<open>Load\<close>

record Config =
  cfg_ReviewEffort :: string
  cfg_StateFile :: string
  cfg_CheckoutDir :: string
  cfg_Path :: string

definition effort_value :: "config_fields \<Rightarrow> string res" where
  "effort_value obj =
     (case text_value ''review_effort'' obj of
        Inl e \<Rightarrow> Err e
      | Inr None \<Rightarrow> Ok DefaultReasoningEffort
      | Inr (Some s) \<Rightarrow> if \<not> EffortAccepted s then Err (invalid ''review_effort'') else Ok s)"

definition LoadConfig :: "ConfigIO \<Rightarrow> Config res" where
  "LoadConfig io =
     (case Path io of
        Inl e \<Rightarrow> Err e
      | Inr path \<Rightarrow>
          (case read_config io of
             Inl e \<Rightarrow> Err e
           | Inr None \<Rightarrow> Ok \<lparr>cfg_ReviewEffort = DefaultReasoningEffort, cfg_StateFile = [], cfg_CheckoutDir = [], cfg_Path = []\<rparr>
           | Inr (Some raw) \<Rightarrow>
               (case parse raw of
                  Inl e \<Rightarrow> Err e
                | Inr obj \<Rightarrow>
                    (case effort_value obj of
                       Inl e \<Rightarrow> Err e
                     | Inr effort \<Rightarrow>
                         (case absolute ''state_file'' obj of
                            Inl e \<Rightarrow> Err e
                          | Inr sf \<Rightarrow>
                              (case absolute ''checkout_dir'' obj of
                                 Inl e \<Rightarrow> Err e
                               | Inr cd \<Rightarrow>
                                   Ok \<lparr>cfg_ReviewEffort = effort, cfg_StateFile = sf, cfg_CheckoutDir = cd,
                                       cfg_Path = path\<rparr>))))))"

section \<open>What a configuration file may say\<close>

text \<open>The file exists and its bytes, or it does not exist, to a reader that checks it.\<close>

definition config_absent :: "ConfigIO \<Rightarrow> bool" where
  "config_absent io \<longleftrightarrow> read_config io = Ok None"

definition config_file :: "ConfigIO \<Rightarrow> string \<Rightarrow> bool" where
  "config_file io content \<longleftrightarrow>
     (\<exists>a b. ci_stat io = Ok a \<and> ci_fstat io = Ok b \<and> ci_open io = None \<and> ci_readErr io = None \<and>
       \<not> fi_IsDir a \<and> \<not> fi_IsDir b \<and> fi_IsRegular a \<and> fi_IsRegular b \<and>
       fi_Size a \<le> int MaxBytes \<and> fi_Size b \<le> int MaxBytes \<and> length content \<le> MaxBytes \<and> content = ci_content io)"

text \<open>
  One JSON object, of known keys only, each key's value (the last when it is repeated) a
  string; the effort accepted, the paths absolute. What it leaves out keeps its default.
\<close>

definition setting :: "config_fields \<Rightarrow> string \<Rightarrow> (string \<Rightarrow> bool) \<Rightarrow> string \<Rightarrow> string \<Rightarrow> bool" where
  "setting obj key ok unset v \<longleftrightarrow>
     (obj key = None \<and> v = unset) \<or> (obj key = Some (VText v) \<and> ok v)"

definition config_says :: "string \<Rightarrow> string \<Rightarrow> Config \<Rightarrow> bool" where
  "config_says path content cfg \<longleftrightarrow>
     (\<exists>ms. parse_json content = Some (VDict ms) \<and> fst ` set ms \<subseteq> {''review_effort'', ''state_file'', ''checkout_dir''} \<and>
       setting (map_of (rev ms)) ''review_effort'' (\<lambda>s. s \<in> {''low'', ''medium'', ''high'', ''xhigh''}) ''high''
         (cfg_ReviewEffort cfg) \<and>
       setting (map_of (rev ms)) ''state_file'' (\<lambda>s. HasPrefix s ''/'') [] (cfg_StateFile cfg) \<and>
       setting (map_of (rev ms)) ''checkout_dir'' (\<lambda>s. HasPrefix s ''/'') [] (cfg_CheckoutDir cfg) \<and>
       cfg_Path cfg = path)"

lemma parse_Ok: "parse raw = Ok obj \<longleftrightarrow>
    (\<exists>ms. parse_json raw = Some (VDict ms) \<and> fst ` set ms \<subseteq> {''review_effort'', ''state_file'', ''checkout_dir''} \<and>
      obj = map_of (rev ms))"
proof -
  have keys: "list_all (\<lambda>kv. fst kv \<in> set knownKeys) ms \<longleftrightarrow>
      fst ` set ms \<subseteq> {''review_effort'', ''state_file'', ''checkout_dir''}" for ms :: "(string \<times> jval) list"
    by (auto simp: list_all_iff knownKeys_def)
  show ?thesis unfolding parse_def parse_json_def Decode_def keys
    by (auto simp del: p_value.simps split: option.splits prod.splits jval.splits if_splits)
qed

lemma effort_Ok: "effort_value obj = Ok s \<longleftrightarrow>
    setting obj ''review_effort'' (\<lambda>s. s \<in> {''low'', ''medium'', ''high'', ''xhigh''}) ''high'' s"
  by (auto simp: effort_value_def text_value_def setting_def EffortAccepted_def acceptedEfforts_def DefaultReasoningEffort_def
      split: option.splits jval.splits)

lemma absolute_Ok: "absolute key obj = Ok s \<longleftrightarrow> setting obj key (\<lambda>s. HasPrefix s ''/'') [] s"
  by (auto simp: absolute_def text_value_def setting_def IsAbs_def split: option.splits jval.splits)

lemma read_config_Ok: "read_config io = Ok (Some raw) \<longleftrightarrow> config_file io raw"
  by (auto simp: read_config_def config_file_def regular_def Let_def MaxBytes_def split: sum.splits option.splits if_splits)

lemma rejected_invalid:
  "parse raw = Err e \<Longrightarrow> errors_Is e (S_config ErrInvalid)"
  "effort_value obj = Err e \<Longrightarrow> errors_Is e (S_config ErrInvalid)"
  "absolute key obj = Err e \<Longrightarrow> errors_Is e (S_config ErrInvalid)"
  by (auto simp: parse_def effort_value_def absolute_def text_value_def invalid_def
      split: option.splits prod.splits jval.splits if_splits)

definition sample_config :: string where
  "sample_config = CHR ''{'' # json_string ''review_effort'' @ '': '' @ json_string ''low'' @ '', '' @
     json_string ''state_file'' @ '':'' @ json_string ''/s.json'' @ ''}'' @ [CHR 0x0A]"

definition sample_config_io :: "string \<Rightarrow> ConfigIO" where
  "sample_config_io body =
     \<lparr>ci_env = ''/c'', ci_userConfigDir = Err (System ''no home''),
      ci_stat = Ok \<lparr>fi_IsDir = False, fi_IsRegular = True, fi_Size = 9\<rparr>, ci_open = None,
      ci_fstat = Ok \<lparr>fi_IsDir = False, fi_IsRegular = True, fi_Size = 9\<rparr>, ci_content = body, ci_readErr = None\<rparr>"

lemma sample_config_parsed: "parse_json sample_config = Some (VDict [(''review_effort'', VText ''low''), (''state_file'', VText ''/s.json'')])"
  by code_simp

lemma sample_config_file: "config_file (sample_config_io sample_config) sample_config" "Path (sample_config_io body) = Ok ''/c''"
proof -
  have "length sample_config \<le> 100" by code_simp
  then show "config_file (sample_config_io sample_config) sample_config"
    by (simp add: config_file_def sample_config_io_def size_defs)
qed (simp add: Path_def sample_config_io_def IsAbs_def)

lemma sample_config_loads: "LoadConfig (sample_config_io sample_config) =
    Ok \<lparr>cfg_ReviewEffort = ''low'', cfg_StateFile = ''/s.json'', cfg_CheckoutDir = [], cfg_Path = ''/c''\<rparr>"
proof -
  have "parse sample_config = Ok (map_of (rev [(''review_effort'', VText ''low''), (''state_file'', VText ''/s.json'')]))"
    unfolding parse_Ok using sample_config_parsed by auto
  then show ?thesis
    using sample_config_file
    by (simp add: LoadConfig_def effort_value_def absolute_def text_value_def EffortAccepted_def acceptedEfforts_def IsAbs_def flip: read_config_Ok)
qed



end
