(* ===== verification/CommandLine.thy ===== *)
theory CommandLine
  imports UsageReport Config ScratchSpec
begin

text \<open>
  cmd/counterpoint/main.go: run and realMain. The flag package is modelled for the two
  boolean flags run declares; the configuration, the state file and the two directories are
  read through the models of their packages; serving MCP is the call of mcpserver.Serve,
  whose error is an argument. What run does to standard output and whether it serves is the
  list of its effects.
\<close>

section \<open>flag\<close>

record flags =
  fl_version :: bool
  fl_usage :: bool

definition ParseBool :: "string \<Rightarrow> bool option" where
  "ParseBool s =
     (if s \<in> {''1'', ''t'', ''T'', ''true'', ''TRUE'', ''True''} then Some True
      else if s \<in> {''0'', ''f'', ''F'', ''false'', ''FALSE'', ''False''} then Some False
      else None)"

definition set_flag :: "string \<Rightarrow> bool \<Rightarrow> flags \<Rightarrow> flags res" where
  "set_flag name v fl =
     (if name = ''version'' then Ok (fl\<lparr>fl_version := v\<rparr>)
      else if name = ''usage'' then Ok (fl\<lparr>fl_usage := v\<rparr>)
      else if name = ''help'' \<or> name = ''h'' then Err (System ''flag: help requested'')
      else Err (System ''flag provided but not defined''))"

definition flag_name :: "string \<Rightarrow> string" where
  "flag_name s = (if HasPrefix s ''--'' then drop 2 s else drop 1 s)"

definition one_flag :: "string \<Rightarrow> flags \<Rightarrow> flags res" where
  "one_flag s fl =
     (let name = flag_name s in
      if name = [] \<or> hd name = CHR ''-'' \<or> hd name = CHR ''='' then Err (System ''bad flag syntax'')
      else
        (case Cut1 name (CHR ''='') of
           (n, v, has) \<Rightarrow>
             (case set_flag n True fl of
                Inl e \<Rightarrow> Err e
              | Inr fl1 \<Rightarrow>
                  (if \<not> has then Ok fl1
                   else
                     (case ParseBool v of
                        None \<Rightarrow> Err (System ''invalid boolean value'')
                      | Some b \<Rightarrow> set_flag n b fl)))))"

text \<open>Flags until the first argument that is none; two dashes alone end them.\<close>

fun parse_flags :: "string list \<Rightarrow> flags \<Rightarrow> (flags \<times> string list) res" where
  "parse_flags [] fl = Ok (fl, [])"
| "parse_flags (s # args) fl =
     (if length s < 2 \<or> hd s \<noteq> CHR ''-'' then Ok (fl, s # args)
      else if s = ''--'' then Ok (fl, args)
      else (case one_flag s fl of Inl e \<Rightarrow> Err e | Inr fl1 \<Rightarrow> parse_flags args fl1))"

section \<open>run\<close>

record run_env =
  ru_version :: string
  ru_config :: ConfigIO
  ru_stateEnv :: string
  ru_read :: ReadIO
  ru_disk :: disk
  ru_host :: host
  ru_writeErr :: "goerror option"
  ru_serveErr :: "goerror option"

text \<open>The options of review.New that run chooses.\<close>

record review_options =
  ro_StatePath :: string
  ro_CheckoutRoot :: string
  ro_ReasoningEffort :: string

datatype effect = Stdout string | Served review_options

definition run_report :: "run_env \<Rightarrow> string \<Rightarrow> goerror option \<times> effect list" where
  "run_report en statePath =
     (case LoadState (ru_read en) (NewStore statePath) (ru_disk en) of
        (Inl e, _) \<Rightarrow> (Some e, [])
      | (Inr st, _) \<Rightarrow> (ru_writeErr en, [Stdout (writeUsage st statePath)]))"

definition run_server :: "run_env \<Rightarrow> Config \<Rightarrow> string \<Rightarrow> goerror option \<times> effect list" where
  "run_server en cfg statePath =
     (case ResolveRoot (ru_host en) (cfg_CheckoutDir cfg) of
        Inl e \<Rightarrow> (Some e, [])
      | Inr root \<Rightarrow>
          (ru_serveErr en,
           [Served \<lparr>ro_StatePath = statePath, ro_CheckoutRoot = root, ro_ReasoningEffort = cfg_ReviewEffort cfg\<rparr>]))"

definition run :: "run_env \<Rightarrow> string list \<Rightarrow> goerror option \<times> effect list" where
  "run en args =
     (case parse_flags args \<lparr>fl_version = False, fl_usage = False\<rparr> of
        Inl e \<Rightarrow> (Some (Errorf ''parse flags'' [e]), [])
      | Inr (fl, rest) \<Rightarrow>
          (if fl_version fl then (None, [Stdout (ln (''counterpoint '' @ ru_version en))])
           else if rest \<noteq> [] then (Some (System ''unexpected arguments''), [])
           else
             (case LoadConfig (ru_config en) of
                Inl e \<Rightarrow> (Some e, [])
              | Inr cfg \<Rightarrow>
                  (case ResolvePath (ru_stateEnv en) (ci_userConfigDir (ru_config en)) (cfg_StateFile cfg) of
                     Inl e \<Rightarrow> (Some e, [])
                   | Inr statePath \<Rightarrow>
                       (if fl_usage fl then run_report en statePath else run_server en cfg statePath)))))"

definition realMain :: "run_env \<Rightarrow> string list \<Rightarrow> int" where
  "realMain en args = (case fst (run en args) of Some e \<Rightarrow> 1 | None \<Rightarrow> 0)"

section \<open>What the server is started with\<close>

text \<open>The environment wins over the file, the file over the default.\<close>

definition preferred :: "string \<Rightarrow> string \<Rightarrow> string res \<Rightarrow> string \<Rightarrow> string \<Rightarrow> bool" where
  "preferred env configured base sub p \<longleftrightarrow>
     (if env \<noteq> [] then p = env \<and> HasPrefix p ''/''
      else if configured \<noteq> [] then p = configured \<and> HasPrefix p ''/''
      else (\<exists>d. base = Ok d \<and> p = JoinPath [d, sub]))"

lemma Served_cases:
  assumes "run en args = (r, evs)" and "Served opts \<in> set evs"
  obtains cfg fl where "evs = [Served opts]" "r = ru_serveErr en" "LoadConfig (ru_config en) = Ok cfg"
    "ResolvePath (ru_stateEnv en) (ci_userConfigDir (ru_config en)) (cfg_StateFile cfg) = Ok (ro_StatePath opts)"
    "ResolveRoot (ru_host en) (cfg_CheckoutDir cfg) = Ok (ro_CheckoutRoot opts)"
    "ro_ReasoningEffort opts = cfg_ReviewEffort cfg"
    "parse_flags args \<lparr>fl_version = False, fl_usage = False\<rparr> = Ok (fl, [])" "\<not> fl_version fl" "\<not> fl_usage fl"
  using assms
  by (auto simp: run_def run_report_def run_server_def split: sum.splits prod.splits if_splits)

lemma JoinPath_nested: "JoinPath [d, ''counterpoint'', ''state.json''] = JoinPath [d, ''counterpoint/state.json'']"
  by (simp add: JoinPath_def)

lemma effort_accepted: "LoadConfig io = Ok cfg \<Longrightarrow> EffortAccepted (cfg_ReviewEffort cfg)"
  by (auto simp: LoadConfig_def EffortAccepted_def acceptedEfforts_def DefaultReasoningEffort_def effort_value_def
      split: sum.splits option.splits if_splits)

text \<open>
  C39. Nothing starts on a bad configuration, and what starts is what was configured. When
  run serves, it does only that, with nothing written to standard output; the configuration
  loaded without an error, the reasoning effort is its own and an accepted one, and the
  state file and the checkout root are the environment's value, else the configured one,
  else the default under the user's directory, each override absolute; there is no
  positional argument and neither flag is set.
\<close>

theorem server_started_as_configured:
  assumes "run en args = (r, evs)" and "Served opts \<in> set evs"
  shows "evs = [Served opts] \<and> r = ru_serveErr en \<and>
    (\<exists>cfg. LoadConfig (ru_config en) = Ok cfg \<and>
      ro_ReasoningEffort opts = cfg_ReviewEffort cfg \<and> EffortAccepted (ro_ReasoningEffort opts) \<and>
      preferred (ru_stateEnv en) (cfg_StateFile cfg) (ci_userConfigDir (ru_config en)) ''counterpoint/state.json'' (ro_StatePath opts) \<and>
      preferred (ho_env (ru_host en)) (cfg_CheckoutDir cfg) (ho_cacheDir (ru_host en)) cacheSubdir (ro_CheckoutRoot opts)) \<and>
    list_all (\<lambda>a. HasPrefix a ''-'') args"
proof -
  obtain cfg fl where c: "evs = [Served opts]" "r = ru_serveErr en" "LoadConfig (ru_config en) = Ok cfg"
    "ResolvePath (ru_stateEnv en) (ci_userConfigDir (ru_config en)) (cfg_StateFile cfg) = Ok (ro_StatePath opts)"
    "ResolveRoot (ru_host en) (cfg_CheckoutDir cfg) = Ok (ro_CheckoutRoot opts)"
    "ro_ReasoningEffort opts = cfg_ReviewEffort cfg"
    "parse_flags args \<lparr>fl_version = False, fl_usage = False\<rparr> = Ok (fl, [])" "\<not> fl_version fl" "\<not> fl_usage fl"
    using Served_cases [OF assms] .
  have "preferred (ru_stateEnv en) (cfg_StateFile cfg) (ci_userConfigDir (ru_config en)) ''counterpoint/state.json'' (ro_StatePath opts)"
    using c(4) by (auto simp: ResolvePath_def preferred_def IsAbs_def JoinPath_nested split: if_splits sum.splits)
  moreover have "preferred (ho_env (ru_host en)) (cfg_CheckoutDir cfg) (ho_cacheDir (ru_host en)) cacheSubdir (ro_CheckoutRoot opts)"
    using c(5) by (auto simp: ResolveRoot_def preferred_def IsAbs_def split: if_splits sum.splits)
  moreover have "list_all (\<lambda>a. HasPrefix a ''-'') args" if "parse_flags args f = Ok (fl, [])" for f
    using that
  proof (induction args f rule: parse_flags.induct)
    case (2 s args f)
    then show ?case by (cases s) (auto split: if_splits sum.splits)
  qed simp
  ultimately show ?thesis using c effort_accepted [OF c(3)] by auto
qed

definition sample_run :: run_env where
  "sample_run =
     \<lparr>ru_version = ''1.0'', ru_config = sample_config_io sample_config, ru_stateEnv = [], ru_read = sample_read,
      ru_disk = Map.empty, ru_host = sample_host\<lparr>ho_env := ''/x''\<rparr>, ru_writeErr = None, ru_serveErr = None\<rparr>"

lemma sample_run_serves: "run sample_run [''--usage=false''] =
    (None, [Served \<lparr>ro_StatePath = ''/s.json'', ro_CheckoutRoot = ''/x'', ro_ReasoningEffort = ''low''\<rparr>])"
proof -
  have "parse_flags [''--usage=false''] \<lparr>fl_version = False, fl_usage = False\<rparr> =
      Ok (\<lparr>fl_version = False, fl_usage = False\<rparr>, [])"
    by code_simp
  then show ?thesis
    by (simp add: run_def run_server_def sample_run_def sample_config_loads ResolvePath_def ResolveRoot_def IsAbs_def sample_host_def)
qed

lemma server_started_as_configured_witness:
  "\<exists>cfg. LoadConfig (ru_config sample_run) = Ok cfg \<and> cfg_ReviewEffort cfg = ''low'' \<and> EffortAccepted ''low''"
  using server_started_as_configured [OF sample_run_serves] by auto

end
