(* ===== verification/Handshake.thy ===== *)
theory Handshake
  imports Session CommandLine
begin

text \<open>
  How a reviewer comes to life: review.New and DefaultReviewer (internal/review/review.go),
  Start with its initialize handshake and the end of a failed turn (internal/appserver's
  client.go), and spawn (conn.go). What os/exec answers and what the calls of the new client
  get are arguments; the operations of Start on the child are the list of its effects.
\<close>

section \<open>Quoting\<close>

text \<open>
  strconv.Quote. Whether a rune outside ASCII is printable is Unicode's table, an argument;
  a rune is its encoding.
\<close>

definition rune_value :: "string \<Rightarrow> nat" where
  "rune_value r =
     foldl (\<lambda>n c. n * 64 + (byte c - 128)) (byte (hd r) mod (if length r = 2 then 32 else if length r = 3 then 16 else 8)) (tl r)"

fun hex_width :: "nat \<Rightarrow> nat \<Rightarrow> string" where
  "hex_width 0 n = []"
| "hex_width (Suc k) n = hex_width k (n div 16) @ [digit_char (n mod 16)]"

definition quote_byte :: "char \<Rightarrow> string" where
  "quote_byte c =
     (if c = CHR 0x22 \<or> c = CHR 0x5C then [CHR 0x5C, c]
      else if 32 \<le> byte c \<and> byte c < 127 then [c]
      else if c = CHR 0x07 then [CHR 0x5C, CHR ''a'']
      else if c = CHR 0x08 then [CHR 0x5C, CHR ''b'']
      else if c = CHR 0x0C then [CHR 0x5C, CHR ''f'']
      else if c = CHR 0x0A then [CHR 0x5C, CHR ''n'']
      else if c = CHR 0x0D then [CHR 0x5C, CHR ''r'']
      else if c = CHR 0x09 then [CHR 0x5C, CHR ''t'']
      else if c = CHR 0x0B then [CHR 0x5C, CHR ''v'']
      else [CHR 0x5C, CHR ''x''] @ hex_width 2 (byte c))"

definition quote_rune :: "(string \<Rightarrow> bool) \<Rightarrow> string \<Rightarrow> string" where
  "quote_rune printable r =
     (if printable r then r
      else if rune_value r < 65536 then [CHR 0x5C, CHR ''u''] @ hex_width 4 (rune_value r)
      else [CHR 0x5C, CHR ''U''] @ hex_width 8 (rune_value r))"

function quoted :: "(string \<Rightarrow> bool) \<Rightarrow> string \<Rightarrow> string" where
  "quoted printable s =
     (if s = [] then []
      else if rune_size s = 0 then [CHR 0x5C, CHR ''x''] @ hex_width 2 (byte (hd s)) @ quoted printable (drop 1 s)
      else if rune_size s = 1 then quote_byte (hd s) @ quoted printable (drop 1 s)
      else quote_rune printable (take (rune_size s) s) @ quoted printable (drop (rune_size s) s))"
  by pat_completeness auto
termination
  by (relation "measure (\<lambda>(p, s). length s)") auto

declare quoted.simps [simp del]

definition Quote :: "(string \<Rightarrow> bool) \<Rightarrow> string \<Rightarrow> string" where
  "Quote printable s = CHR 0x22 # quoted printable s @ [CHR 0x22]"

section \<open>spawn and Start\<close>

definition DefaultCommand :: string where "DefaultCommand = ''codex''"

definition DefaultArgs :: "string list" where "DefaultArgs = [''app-server'']"

record osexec =
  ox_StdinPipe :: "goerror option"
  ox_StdoutPipe :: "goerror option"
  ox_Start :: "string \<Rightarrow> string list \<Rightarrow> goerror option"

text \<open>The new connection with its goroutines at their start, or why there is no child.\<close>

definition spawn :: "osexec \<Rightarrow> string \<Rightarrow> string list \<Rightarrow> sys res" where
  "spawn ox command args =
     (case ox_StdinPipe ox of
        Some e \<Rightarrow> Err (Errorf ''app-server stdin'' [e])
      | None \<Rightarrow>
          (case ox_StdoutPipe ox of
             Some e \<Rightarrow> Err (Errorf ''app-server stdout'' [e])
           | None \<Rightarrow>
               (case ox_Start ox command args of
                  Some e \<Rightarrow> Err (Errorf (''start '' @ command) [e])
                | None \<Rightarrow> Ok spawned)))"

record Options =
  op_Command :: string
  op_Args :: "string list option"
  op_Version :: string

datatype session_op = Spawned string "string list" | Called string json | Notified string "json option" | Closed

record wire =
  wi_exec :: osexec
  wi_call :: answers
  wi_notify :: "string \<Rightarrow> json option \<Rightarrow> goerror option"

definition lacks_required :: "initializeResponse \<Rightarrow> bool" where
  "lacks_required resp \<longleftrightarrow> ir_CodexHome resp = [] \<or> ir_PlatformFamily resp = [] \<or> ir_PlatformOS resp = [] \<or> ir_UserAgent resp = []"

definition handshake_error :: "goerror \<Rightarrow> goerror" where
  "handshake_error e = Errorf ''app-server handshake'' [e]"

definition Start :: "wire \<Rightarrow> Options \<Rightarrow> goerror option \<times> session_op list" where
  "Start wi opts =
     (let command = (if op_Command opts = [] then DefaultCommand else op_Command opts);
          args = (case op_Args opts of None \<Rightarrow> DefaultArgs | Some a \<Rightarrow> a);
          params = initializeParams_json (clientInfo_json clientName (op_Version opts));
          child = Spawned command args; asked = Called methodInitialize params; told = Notified methodInitialized None
      in
      case spawn (wi_exec wi) command args of
        Inl e \<Rightarrow> (Some e, [])
      | Inr c \<Rightarrow>
          (case decode_result (at_value (dec_struct initializeResponse_fields)) zero_initialize (wi_call wi methodInitialize params) of
             Inl e \<Rightarrow> (Some (handshake_error e), [child, asked, Closed])
           | Inr resp \<Rightarrow>
               (if lacks_required resp
                then (Some (handshake_error (Sentinel (S_client ErrIncompatible))), [child, asked, Closed])
                else
                  (case wi_notify wi methodInitialized None of
                     Some e \<Rightarrow> (Some (handshake_error e), [child, asked, told, Closed])
                   | None \<Rightarrow> (None, [child, asked, told])))))"

section \<open>The service's reviewer\<close>

definition reasoning_override :: "(string \<Rightarrow> bool) \<Rightarrow> string \<Rightarrow> string list" where
  "reasoning_override printable effort = [''-c'', ''model_reasoning_effort='' @ Quote printable effort]"

type_synonym starter = "string list \<Rightarrow> goerror option \<times> session_op list"

definition DefaultReviewer :: "(string \<Rightarrow> bool) \<Rightarrow> wire \<Rightarrow> string \<Rightarrow> string \<Rightarrow> starter" where
  "DefaultReviewer printable wi version effort extraArgs =
     Start wi \<lparr>op_Command = DefaultCommand,
       op_Args = Some ((DefaultArgs @ reasoning_override printable effort) @ extraArgs), op_Version = version\<rparr>"

record service_options =
  so_StatePath :: string
  so_NewReviewer :: "starter option"
  so_Version :: string
  so_ReasoningEffort :: string
  so_CheckoutRoot :: string

text \<open>The service of the rounds, with what New adds to it.\<close>

record full_service = service +
  se_newReviewer :: starter
  se_timeout :: nat
  se_setupTimeout :: nat
  se_checkoutRoot :: string
  se_effort :: string

text \<open>In seconds.\<close>

definition Timeout :: nat where "Timeout = 20 * 60"

definition SetupTimeout :: nat where "SetupTimeout = 60"

definition New :: "(string \<Rightarrow> bool) \<Rightarrow> wire \<Rightarrow> service_options \<Rightarrow> full_service" where
  "New printable wi opts =
     (let effort = (if so_ReasoningEffort opts = [] then DefaultReasoningEffort else so_ReasoningEffort opts);
          nr = (case so_NewReviewer opts of None \<Rightarrow> DefaultReviewer printable wi (so_Version opts) effort | Some f \<Rightarrow> f)
      in \<lparr>se_store = NewStore (so_StatePath opts), se_recordBytes = historyRecordBytes, se_newReviewer = nr,
          se_timeout = Timeout, se_setupTimeout = SetupTimeout, se_checkoutRoot = so_CheckoutRoot opts, se_effort = effort\<rparr>)"

text \<open>The options run passes to New.\<close>

definition served_options :: "run_env \<Rightarrow> review_options \<Rightarrow> service_options" where
  "served_options en ro =
     \<lparr>so_StatePath = ro_StatePath ro, so_NewReviewer = None, so_Version = ru_version en,
      so_ReasoningEffort = ro_ReasoningEffort ro, so_CheckoutRoot = ro_CheckoutRoot ro\<rparr>"

section \<open>The end of a failed turn\<close>

text \<open>
  codexErrorInfo: a code, or an object with variants of which Go's map order picks one; each
  variant holds the HTTP status it may carry.
\<close>

definition variant_fields :: "int option fields" where
  "variant_fields = [(''httpStatusCode'', into id id (dec_pointer dec_int 0))]"

type_synonym variants = "(string \<times> int option) list"

definition codexErrorCode :: "(variants \<Rightarrow> string \<times> int option) \<Rightarrow> string \<Rightarrow> string" where
  "codexErrorCode pick raw =
     (if raw = [] \<or> raw = ''null'' then []
      else
        (case at_value dec_string [] raw of
           Some code \<Rightarrow> code
         | None \<Rightarrow>
             (case at_value (dec_map (dec_struct variant_fields) None) [] raw of
                None \<Rightarrow> ''unrecognized''
              | Some vs \<Rightarrow>
                  (if vs = [] then ''unrecognized''
                   else
                     (case pick vs of
                        (name, Some status) \<Rightarrow> name @ '', http '' @ Itoa status
                      | (name, None) \<Rightarrow> name)))))"

definition errorMessage :: "(variants \<Rightarrow> string \<times> int option) \<Rightarrow> turnWatcher \<Rightarrow> string" where
  "errorMessage pick r =
     (case (case tw_turnErr r of
              None \<Rightarrow> tw_lastErr r
            | Some e \<Rightarrow> if te_Message e = [] then tw_lastErr r else Some e) of
        None \<Rightarrow> ''no error details''
      | Some e \<Rightarrow>
          (let msg = (if te_Message e = [] then ''no error details'' else te_Message e);
               code = codexErrorCode pick (te_CodexErrorInfo e)
           in if code \<noteq> [] then msg @ '' (codex error: '' @ code @ '')'' else msg))"

text \<open>A bare code is rendered whole, however long it is.\<close>

lemma codexErrorCode_whole: "ValidString code \<Longrightarrow> codexErrorCode pick (json_string code) = code"
  using parse_json_compact [of "JStr code"]
  by (simp add: codexErrorCode_def at_value_def json_string_def to_utf8_valid maxNestingDepth_def)

section \<open>A reviewer starts whole or not at all\<close>

lemma Start_ops:
  assumes "Start wi opts = (r, Spawned c a # ops)"
  shows "c = (if op_Command opts = [] then ''codex'' else op_Command opts) \<and>
    a = (case op_Args opts of None \<Rightarrow> [''app-server''] | Some x \<Rightarrow> x)"
  using assms by (auto simp: Start_def Let_def DefaultCommand_def DefaultArgs_def split: sum.splits option.splits if_splits)

definition initialize_stated :: "jval \<Rightarrow> initializeResponse \<Rightarrow> bool" where
  "initialize_stated v r \<longleftrightarrow> stated v [''codexHome''] (ir_CodexHome r) \<and> stated v [''platformFamily''] (ir_PlatformFamily r) \<and>
     stated v [''platformOs''] (ir_PlatformOS r) \<and> stated v [''userAgent''] (ir_UserAgent r)"

lemma initialize_is_stated:
  assumes "dec_struct initializeResponse_fields zero_initialize v = Some r"
  shows "initialize_stated v r"
proof (rule dec_struct_inv [where P = "initialize_stated v", OF assms])
  show "initialize_stated v zero_initialize" by (simp add: initialize_stated_def zero_initialize_def)
next
  fix n f k u q q' ms
  assume v: "v = VDict ms" and f: "(n, f) \<in> set initializeResponse_fields" and k: "(k, u) \<in> set ms" "same_name n k"
    and q: "initialize_stated v q" "f q u = Some q'"
  have "u \<in> set (values_at v [n])" using values_at_extend [of ms v "[]" k u n] k by (simp add: v)
  then show "initialize_stated v q'"
    using f q dec_string_stated [of _ u] by (auto simp: initializeResponse_fields_def into_def initialize_stated_def)
qed

definition required_names :: "string list" where
  "required_names = [''codexHome'', ''platformFamily'', ''platformOs'', ''userAgent'']"

text \<open>
  C35. A session starts whole or not at all. When Start succeeds, the child was spawned with
  the command and arguments asked for, it answered initialize with a text that itself holds a
  string for each of the four required members, and it was told initialized; nothing was
  closed. When Start fails, there was no child at all, or the last thing done to the one
  there was is to close it, once.
\<close>

theorem start_all_or_nothing:
  assumes "Start wi opts = (r, ops)"
  shows "case r of
      None \<Rightarrow>
        (\<exists>c a p body v. ops = [Spawned c a, Called ''initialize'' p, Notified ''initialized'' None] \<and>
          c = (if op_Command opts = [] then ''codex'' else op_Command opts) \<and>
          a = (case op_Args opts of None \<Rightarrow> [''app-server''] | Some x \<Rightarrow> x) \<and>
          wi_call wi ''initialize'' p = Ok body \<and> parse_json body = Some v \<and>
          list_all (\<lambda>n. \<exists>t. t \<noteq> [] \<and> VText t \<in> set (values_at v [n])) required_names)
    | Some e \<Rightarrow>
        ops = [] \<and> (\<exists>c a. spawn (wi_exec wi) c a = Err e) \<or>
        (\<exists>c a rest. ops = Spawned c a # rest @ [Closed] \<and> Closed \<notin> set rest \<and> e \<in> range handshake_error)"
proof (cases r)
  case (Some e)
  then show ?thesis using assms by (auto simp: Start_def Let_def split: sum.splits option.splits if_splits)
next
  case None
  let ?p = "initializeParams_json (clientInfo_json clientName (op_Version opts))"
  let ?got = "decode_result (at_value (dec_struct initializeResponse_fields)) zero_initialize (wi_call wi methodInitialize ?p)"
  obtain c a resp where ops: "ops = [Spawned c a, Called methodInitialize ?p, Notified methodInitialized None]"
    and resp: "?got = Ok resp" "\<not> lacks_required resp"
    using assms None by (auto simp: Start_def Let_def split: sum.splits option.splits if_splits)
  have "resp \<noteq> zero_initialize" using resp(2) by (auto simp: lacks_required_def zero_initialize_def)
  then obtain body where body: "wi_call wi methodInitialize ?p = Ok body"
      "at_value (dec_struct initializeResponse_fields) zero_initialize body = Some resp"
    using decode_result_Ok [OF resp(1)] by blast
  then obtain v where v: "parse_json body = Some v" "initialize_stated v resp"
    using initialize_is_stated by (auto simp: at_value_def split: option.splits)
  then have "list_all (\<lambda>n. \<exists>t. t \<noteq> [] \<and> VText t \<in> set (values_at v [n])) required_names"
    using resp(2) by (auto simp: required_names_def initialize_stated_def stated_def lacks_required_def)
  then show ?thesis using None ops v(1) body(1) Start_ops [of wi opts r c a] assms
    by (auto simp: methodInitialize_def methodInitialized_def)
qed

section \<open>The effort of the reviewer\<close>

definition plain_char :: "char \<Rightarrow> bool" where
  "plain_char c \<longleftrightarrow> 32 \<le> byte c \<and> byte c < 127 \<and> c \<noteq> CHR 0x22 \<and> c \<noteq> CHR 0x5C"

lemma quoted_plain: "list_all plain_char s \<Longrightarrow> quoted printable s = s"
proof (induction s)
  case (Cons c s)
  then have "rune_size (c # s) = 1" "quote_byte c = [c]" by (auto simp: plain_char_def rune_size_def quote_byte_def)
  then show ?case using Cons by (simp add: quoted.simps [of _ "c # s"])
qed (simp add: quoted.simps)

lemma Quote_accepted: "EffortAccepted e \<Longrightarrow> Quote printable e = CHR 0x22 # e @ [CHR 0x22]"
proof -
  have "list_all (list_all plain_char) acceptedEfforts" by code_simp
  then show "EffortAccepted e \<Longrightarrow> ?thesis" by (simp add: EffortAccepted_def list_all_iff Quote_def quoted_plain)
qed

text \<open>
  The reviewer runs at the configured effort. Whenever the server that run starts launches
  a reviewer, the process is codex with exactly the arguments app-server, one override with
  the configuration's reasoning effort, which is an accepted one, and the session's own
  overrides after it.
\<close>

theorem reviewer_effort_configured:
  assumes "run en args = (r, evs)" and "Served ro \<in> set evs"
    and "se_newReviewer (New printable wi (served_options en ro)) extra = (e, Spawned command argv # ops)"
  shows "\<exists>cfg. LoadConfig (ru_config en) = Ok cfg \<and> EffortAccepted (cfg_ReviewEffort cfg) \<and> command = ''codex'' \<and>
    argv = [''app-server'', ''-c'', ''model_reasoning_effort='' @ [CHR 0x22] @ cfg_ReviewEffort cfg @ [CHR 0x22]] @ extra"
proof -
  obtain cfg where cfg: "LoadConfig (ru_config en) = Ok cfg" "ro_ReasoningEffort ro = cfg_ReviewEffort cfg"
    using Served_cases [OF assms(1,2)] by metis
  note ok = effort_accepted [OF cfg(1)]
  then have "cfg_ReviewEffort cfg \<noteq> []" by (auto simp: EffortAccepted_def acceptedEfforts_def)
  then have "DefaultReviewer printable wi (ru_version en) (cfg_ReviewEffort cfg) extra = (e, Spawned command argv # ops)"
    using assms(3) cfg(2) by (simp add: New_def served_options_def Let_def)
  then show ?thesis using cfg(1) ok Quote_accepted [OF ok]
    by (auto simp: DefaultReviewer_def reasoning_override_def DefaultCommand_def DefaultArgs_def dest: Start_ops)
qed

section \<open>A start\<close>

definition sample_ready :: json where
  "sample_ready = JObj [(''codexHome'', JStr ''/h''), (''platformFamily'', JStr ''unix''), (''platformOs'', JStr ''linux''),
     (''userAgent'', JStr ''codex'')]"

definition sample_ready_text :: string where
  "sample_ready_text = compact sample_ready"

definition sample_wire :: wire where
  "sample_wire = \<lparr>wi_exec = \<lparr>ox_StdinPipe = None, ox_StdoutPipe = None, ox_Start = (\<lambda>c a. None)\<rparr>,
     wi_call = (\<lambda>m p. Ok sample_ready_text), wi_notify = (\<lambda>m p. None)\<rparr>"

lemma sample_ready:
  "parse_json sample_ready_text = Some (val_of sample_ready) \<and> sample_ready_text \<noteq> [] \<and>
   dec_struct initializeResponse_fields zero_initialize (val_of sample_ready) =
     Some \<lparr>ir_CodexHome = ''/h'', ir_PlatformFamily = ''unix'', ir_PlatformOS = ''linux'', ir_UserAgent = ''codex''\<rparr>"
proof (intro conjI)
  have "nesting sample_ready \<le> maxNestingDepth" by (simp add: sample_ready_def maxNestingDepth_def)
  then show "parse_json sample_ready_text = Some (val_of sample_ready)"
    unfolding sample_ready_text_def by (rule parse_json_compact)
  show "sample_ready_text \<noteq> []" by (simp add: sample_ready_text_def sample_ready_def)
  show "dec_struct initializeResponse_fields zero_initialize (val_of sample_ready) =
     Some \<lparr>ir_CodexHome = ''/h'', ir_PlatformFamily = ''unix'', ir_PlatformOS = ''linux'', ir_UserAgent = ''codex''\<rparr>"
    by code_simp
qed

lemma sample_start:
  "Start sample_wire opts = (r, ops) \<Longrightarrow> r = None \<and> (\<exists>p. ops =
     [Spawned (if op_Command opts = [] then ''codex'' else op_Command opts) (case op_Args opts of None \<Rightarrow> [''app-server''] | Some a \<Rightarrow> a),
      Called ''initialize'' p, Notified ''initialized'' None])"
  using sample_ready
  by (auto simp: Start_def Let_def sample_wire_def spawn_def decode_result_def at_value_def lacks_required_def DefaultCommand_def
      DefaultArgs_def methodInitialize_def methodInitialized_def split: option.splits)

lemma start_all_or_nothing_witness:
  "\<exists>body v. wi_call sample_wire ''initialize'' (JObj []) = Ok body \<and> parse_json body = Some v \<and>
     list_all (\<lambda>n. \<exists>t. t \<noteq> [] \<and> VText t \<in> set (values_at v [n])) required_names"
proof -
  let ?opts = "\<lparr>op_Command = [], op_Args = None, op_Version = ''1''\<rparr>"
  obtain r ops where start: "Start sample_wire ?opts = (r, ops)" by fastforce
  then have "r = None" using sample_start by blast
  then show ?thesis using start_all_or_nothing [OF start] by (auto simp: sample_wire_def)
qed

lemma reviewer_effort_configured_witness:
  "\<exists>cfg. LoadConfig (ru_config sample_run) = Ok cfg \<and> EffortAccepted (cfg_ReviewEffort cfg)"
proof -
  let ?ro = "\<lparr>ro_StatePath = ''/s.json'', ro_CheckoutRoot = ''/x'', ro_ReasoningEffort = ''low''\<rparr>"
  let ?start = "se_newReviewer (New (\<lambda>r. True) sample_wire (served_options sample_run ?ro)) []"
  obtain e ops where start: "?start = (e, ops)" by fastforce
  then obtain c a rest where "ops = Spawned c a # rest"
    using sample_start by (fastforce simp: New_def served_options_def DefaultReviewer_def Let_def)
  then show ?thesis using reviewer_effort_configured [OF sample_run_serves] start by fastforce
qed

end
