(* ===== verification/WireTypes.thy ===== *)
theory WireTypes
  imports Session ServiceSpec
begin

text \<open>
  What the client passes on is well typed, whatever bytes the app-server sends: texts are
  UTF-8 and counters are 64-bit integers, which is what the round needs to save and to read
  back. The one exception is shown too: a warning may cut an identifier inside a rune.
\<close>

section \<open>Raw decoders\<close>

definition raw_keeps :: "('r \<Rightarrow> bool) \<Rightarrow> ('r \<Rightarrow> string \<Rightarrow> 'r option) \<Rightarrow> bool" where
  "raw_keeps P f \<longleftrightarrow> (\<forall>r t r'. P r \<longrightarrow> f r t = Some r' \<longrightarrow> P r')"

lemma raw_keepsI: "(\<And>r t r'. P r \<Longrightarrow> f r t = Some r' \<Longrightarrow> P r') \<Longrightarrow> raw_keeps P f"
  by (auto simp: raw_keeps_def)

lemma raw_keepsD: "raw_keeps P f \<Longrightarrow> P r \<Longrightarrow> f r t = Some r' \<Longrightarrow> P r'"
  by (auto simp: raw_keeps_def)

lemma any_keeps [simp, intro]: "raw_keeps (\<lambda>r. True) f" "dec_keeps (\<lambda>r. True) g"
  by (simp_all add: raw_keeps_def dec_keeps_def)

lemma at_value_keeps: "dec_keeps P f \<Longrightarrow> raw_keeps P (at_value f)"
  by (rule raw_keepsI) (auto simp: at_value_def dest: dec_keepsD parse_json_ok split: option.splits)

lemma raw_into_keeps:
  assumes "raw_keeps Q f" and "\<And>r x. P r \<Longrightarrow> Q x \<Longrightarrow> P (upd (\<lambda>_. x) r)" and "\<And>r. P r \<Longrightarrow> Q (get r)"
  shows "raw_keeps P (into get upd f)"
  by (rule raw_keepsI) (use assms in \<open>auto simp: into_def dest: raw_keepsD\<close>)

lemma raw_struct_keeps:
  assumes "\<forall>f\<in>snd ` set fs. raw_keeps P f"
  shows "raw_keeps P (raw_struct fs)"
proof (rule raw_keepsI)
  fix r t r'
  assume r: "P r" and t: "raw_struct fs r t = Some r'"
  have "r' = r \<or> (\<exists>kts. dec_members fs r kts = Some r')"
    using t by (auto simp: raw_struct_def split: option.splits jval.splits)
  then show "P r'"
  proof
    assume "\<exists>kts. dec_members fs r kts = Some r'"
    then obtain kts where "dec_members fs r kts = Some r'" by blast
    then show ?thesis
    proof (rule dec_members_inv [where P = P, OF _ r])
      fix n f k v q q'
      assume "(n, f) \<in> set fs" "P q" "f q v = Some q'"
      then show "P q'" using assms raw_keepsD [of P f] by force
    qed
  qed (simp add: r)
qed

lemma raw_pointer_keeps:
  assumes "raw_keeps P f" and "P z"
  shows "raw_keeps (pred_option P) (raw_pointer f z)"
proof (rule raw_keepsI)
  fix c t r
  assume c: "pred_option P c" and r: "raw_pointer f z c t = Some r"
  have "P (case c of None \<Rightarrow> z | Some x \<Rightarrow> x)" using c assms(2) by (cases c) simp_all
  then show "pred_option P r" using r assms(1) by (auto simp: raw_pointer_def dest: raw_keepsD split: if_splits)
qed

section \<open>The values of the protocol\<close>

definition response_ok :: "threadResponse \<Rightarrow> bool" where
  "response_ok r \<longleftrightarrow> ValidString (tr_ThreadID r) \<and> ValidString (tr_Model r) \<and> ValidString (tr_Cwd r) \<and>
     pred_option ValidString (tr_ReasoningEffort r)"

definition item_ok :: "threadItem \<Rightarrow> bool" where
  "item_ok i \<longleftrightarrow> ValidString (ti_Type i) \<and> ValidString (ti_Text i) \<and> ValidString (ti_Review i)"

definition turn_ok :: "turnInfo \<Rightarrow> bool" where
  "turn_ok t \<longleftrightarrow> ValidString (tn_ID t) \<and> ValidString (tn_Status t) \<and> list_all item_ok (tn_Items t)"

definition wire_breakdown_ok :: "wireBreakdown \<Rightarrow> bool" where
  "wire_breakdown_ok b \<longleftrightarrow> list_all (pred_option int64_ok)
     [wb_InputTokens b, wb_CachedInputTokens b, wb_CacheWriteInputTokens b, wb_OutputTokens b, wb_ReasoningOutputTokens b,
      wb_TotalTokens b]"

definition pair_ok :: "wireBreakdown option \<times> wireBreakdown option \<Rightarrow> bool" where
  "pair_ok p \<longleftrightarrow> pred_option wire_breakdown_ok (fst p) \<and> pred_option wire_breakdown_ok (snd p)"

definition note_ok :: "notification \<Rightarrow> bool" where
  "note_ok n \<longleftrightarrow>
     (case n of
        TurnStarted p \<Rightarrow> pred_option (turn_ok \<circ> snd) p
      | AgentMessageDelta p \<Rightarrow> pred_option (ValidString \<circ> (snd \<circ> snd)) p
      | ItemCompleted p \<Rightarrow> pred_option (item_ok \<circ> (snd \<circ> snd)) p
      | TokenUsage p \<Rightarrow> pred_option (\<lambda>n. pred_option pair_ok (tu_Usage n)) p
      | TurnCompleted p \<Rightarrow> pred_option (turn_ok \<circ> snd) p
      | _ \<Rightarrow> True)"

lemmas string_keeps = dec_string_keeps at_value_keeps [OF dec_string_keeps]

lemma response_keeps: "raw_keeps response_ok (raw_struct threadResponse_wire)"
proof (rule raw_struct_keeps)
  have id: "dec_keeps ValidString (dec_struct thread_id_fields)"
    by (rule dec_struct_keeps) (simp add: thread_id_fields_def dec_string_keeps)
  have effort: "dec_keeps (pred_option ValidString) (dec_pointer dec_string [])"
    by (rule dec_pointer_keeps) (simp_all add: dec_string_keeps)
  show "\<forall>f\<in>snd ` set threadResponse_wire. raw_keeps response_ok f"
    by (auto simp: threadResponse_wire_def response_ok_def
        intro!: raw_into_keeps [OF at_value_keeps [OF id]] raw_into_keeps [OF at_value_keeps [OF effort]]
          raw_into_keeps [OF string_keeps(2)] raw_into_keeps [OF any_keeps(1) [of string_of_raw]]
          raw_into_keeps [OF any_keeps(1) [of "at_value (dec_struct sandboxPolicy_fields)"]])
qed

lemma item_keeps: "dec_keeps item_ok (dec_struct threadItem_fields)"
proof (rule dec_struct_keeps)
  have "dec_keeps item_ok (\<lambda>r v. map_option (\<lambda>x. r) (dec_string [] v))" by (rule dec_keepsI) auto
  then show "\<forall>f\<in>snd ` set threadItem_fields. dec_keeps item_ok f"
    by (auto simp: threadItem_fields_def item_ok_def
        intro!: into_keeps [OF dec_string_keeps])
qed

lemma turn_keeps: "raw_keeps turn_ok (raw_struct turnInfo_wire)"
proof (rule raw_struct_keeps)
  have "dec_keeps (list_all item_ok) (dec_slice (dec_struct threadItem_fields) zero_item)"
    by (rule dec_slice_keeps [OF item_keeps]) (simp add: item_ok_def zero_item_def)
  then show "\<forall>f\<in>snd ` set turnInfo_wire. raw_keeps turn_ok f"
    by (auto simp: turnInfo_wire_def turn_ok_def
        intro!: raw_into_keeps [OF string_keeps(2)] raw_into_keeps [OF at_value_keeps]
          raw_into_keeps [OF any_keeps(1) [of "raw_pointer (raw_struct turnError_wire) zero_turnError"]])
qed

lemma breakdown_keeps: "dec_keeps wire_breakdown_ok (dec_struct wireBreakdown_fields)"
proof (rule dec_struct_keeps)
  have "dec_keeps (pred_option int64_ok) (dec_pointer dec_int 0)" by (rule dec_pointer_keeps) (simp_all add: dec_int_keeps zeros_ok)
  then show "\<forall>f\<in>snd ` set wireBreakdown_fields. dec_keeps wire_breakdown_ok f"
    by (auto simp: wireBreakdown_fields_def wire_breakdown_ok_def intro!: into_keeps)
qed

lemma usage_keeps: "dec_keeps (\<lambda>n. pred_option pair_ok (tu_Usage n)) (dec_struct tokenUsage_fields)"
proof (rule dec_struct_keeps)
  have "dec_keeps (pred_option wire_breakdown_ok) (dec_pointer (dec_struct wireBreakdown_fields) no_counters)"
    by (rule dec_pointer_keeps [OF breakdown_keeps]) (simp add: wire_breakdown_ok_def no_counters_def)
  then have "dec_keeps pair_ok (dec_struct usagePair_fields)"
    by (intro dec_struct_keeps) (auto simp: usagePair_fields_def pair_ok_def intro!: into_keeps)
  then have "dec_keeps (pred_option pair_ok) (dec_pointer (dec_struct usagePair_fields) (None, None))"
    by (rule dec_pointer_keeps) (simp add: pair_ok_def)
  then show "\<forall>f\<in>snd ` set tokenUsage_fields. dec_keeps (\<lambda>n. pred_option pair_ok (tu_Usage n)) f"
    by (auto simp: tokenUsage_fields_def intro!: into_keeps [where Q = "pred_option pair_ok"] into_keeps [OF any_keeps(2) [of dec_string]])
qed

lemma turn_pair_keeps:
  "raw_keeps (turn_ok \<circ> snd) (raw_struct turnNotification_wire)"
  "raw_keeps (\<lambda>p. turn_ok (snd p)) (raw_struct reviewStartResponse_wire)"
  by (rule raw_struct_keeps;
      auto simp: turnNotification_wire_def reviewStartResponse_wire_def
        intro!: raw_into_keeps [OF turn_keeps] raw_into_keeps [OF any_keeps(1) [of "at_value dec_string"]])+

lemma item_note_keeps: "dec_keeps (item_ok \<circ> (snd \<circ> snd)) (dec_struct itemNotification_fields)"
  by (rule dec_struct_keeps)
    (auto simp: itemNotification_fields_def second_def third_def
      intro!: into_keeps [OF item_keeps] into_keeps [OF any_keeps(2) [of dec_string]])

lemma delta_keeps: "dec_keeps (ValidString \<circ> (snd \<circ> snd)) (dec_struct agentMessageDelta_fields)"
proof (rule dec_struct_keeps)
  have "dec_keeps (ValidString \<circ> (snd \<circ> snd)) (into (snd \<circ> snd) third dec_string)"
    by (rule into_keeps [OF dec_string_keeps]) (simp_all add: third_def)
  moreover have "dec_keeps (ValidString \<circ> (snd \<circ> snd)) (into fst apfst dec_string)"
      "dec_keeps (ValidString \<circ> (snd \<circ> snd)) (into (fst \<circ> snd) second dec_string)"
    by (auto simp: second_def intro!: into_keeps [OF any_keeps(2) [of dec_string]])
  ultimately show "\<forall>f\<in>snd ` set agentMessageDelta_fields. dec_keeps (ValidString \<circ> (snd \<circ> snd)) f"
    by (simp add: agentMessageDelta_fields_def)
qed

lemma keeps_option: "raw_keeps P f \<Longrightarrow> P z \<Longrightarrow> pred_option P (f z t)"
  by (cases "f z t") (auto dest: raw_keepsD)

lemma decoded_note_ok: "note_ok (decode_notification meth params)"
proof -
  have zero: "turn_ok zero_turn" "item_ok zero_item"
    by (simp_all add: turn_ok_def zero_turn_def item_ok_def zero_item_def)
  show ?thesis
    using keeps_option [OF turn_pair_keeps(1), of "([], zero_turn)" params] zero
      keeps_option [OF at_value_keeps [OF item_note_keeps], of "([], [], zero_item)" params]
      keeps_option [OF at_value_keeps [OF delta_keeps], of "([], [], [])" params]
      keeps_option [OF at_value_keeps [OF usage_keeps], of "\<lparr>tu_ThreadID = [], tu_TurnID = [], tu_Usage = None\<rparr>" params]
    by (auto simp: decode_notification_def note_ok_def)
qed

section \<open>The turn\<close>

definition watcher_ok :: "turnWatcher \<Rightarrow> bool" where
  "watcher_ok w \<longleftrightarrow> ValidString (tw_review w) \<and> ValidString (tw_messages w) \<and> ValidString (tw_deltas w) \<and>
     pred_option app_usage_ok (tw_usage w)"

lemma resolved_ok:
  "pred_option wire_breakdown_ok b \<Longrightarrow> list_all int64_ok (counters (usageBreakdown (breakdown_resolve b)))"
  using zeros_ok(1)
  by (auto simp: breakdown_resolve_def counters_def usageBreakdown_def wire_breakdown_ok_def counter_at_def split: option.splits)

lemma review_of_items_ok: "list_all item_ok items \<Longrightarrow> ValidString rv \<Longrightarrow> ValidString (review_of_items rv items)"
  by (induction items arbitrary: rv) (simp_all add: item_ok_def)

lemma append_ok:
  "watcher_ok w \<Longrightarrow> ValidString s \<Longrightarrow> watcher_ok (append_messages s w)"
  "watcher_ok w \<Longrightarrow> ValidString s \<Longrightarrow> watcher_ok (append_deltas s w)"
  by (simp_all add: watcher_ok_def append_messages_def append_deltas_def ValidString_append)

lemma item_handled_ok: "watcher_ok w \<Longrightarrow> item_ok i \<Longrightarrow> watcher_ok (handle_item i w)"
proof -
  have "ValidString blank_lines" by code_simp
  then show "watcher_ok w \<Longrightarrow> item_ok i \<Longrightarrow> watcher_ok (handle_item i w)"
    unfolding handle_item_def item_ok_def using append_ok(1) by (simp add: watcher_ok_def)
qed

lemma usage_handled_ok:
  "watcher_ok w \<Longrightarrow> pred_option (\<lambda>n. pred_option pair_ok (tu_Usage n)) p \<Longrightarrow> watcher_ok (handle_usage p w)"
  using resolved_ok
  by (auto simp: handle_usage_def watcher_ok_def Let_def pair_ok_def app_usage_ok_def usage_ok_def split: option.splits prod.splits)

lemma completed_ok: "watcher_ok w \<Longrightarrow> turn_ok t \<Longrightarrow> watcher_ok (handle_completed i t w)"
  using review_of_items_ok [of "tn_Items t" "[]"] by (simp add: handle_completed_def watcher_ok_def turn_ok_def)

lemma handle_ok: "watcher_ok w \<Longrightarrow> note_ok n \<Longrightarrow> watcher_ok (handle n w)"
  using item_handled_ok usage_handled_ok completed_ok append_ok(2)
  by (auto simp: handle_def note_ok_def split: notification.splits option.splits) (simp_all add: watcher_ok_def)

lemma handle_all_ok: "watcher_ok w \<Longrightarrow> watcher_ok (handle_all (decode_notes ns) w)"
  by (induction ns arbitrary: w) (auto simp: handle_all_def decode_notes_def handle_ok decoded_note_ok)

lemma final_ok: "watcher_ok (review_final (decode_review got io) turnID threadID)"
proof -
  have "watcher_ok (newTurnWatcher threadID)" by (simp add: watcher_ok_def newTurnWatcher_def)
  moreover have "watcher_ok w \<Longrightarrow> watcher_ok (snd (setTurn i w))" for i w by (simp add: watcher_ok_def setTurn_def)
  ultimately show ?thesis by (simp add: review_final_def review_started_def decode_review_def handle_all_ok)
qed

section \<open>What the service gets\<close>

lemma wire_thread_typed:
  assumes "client_StartThread (wire_server ans reviews) cwd sb = Ok t \<or> client_ResumeThread (wire_server ans reviews) threadID cwd sb = Ok t"
  shows "ValidString (th_ID t) \<and> ValidString (th_Model t) \<and> ValidString (th_ReasoningEffort t)"
proof -
  obtain got resp where resp: "decode_result (raw_struct threadResponse_wire) zero_thread got = Ok resp"
    and t: "threadFromResponse resp cwd sb = Ok t"
    using assms by (auto simp: client_StartThread_def client_ResumeThread_def wire_server_def split: sum.splits if_splits)
  have "response_ok zero_thread" by (simp add: response_ok_def zero_thread_def)
  then have "response_ok resp"
    using resp raw_keepsD [OF response_keeps] by (auto simp: decode_result_def split: sum.splits if_splits option.splits)
  then show ?thesis using t by (auto simp: threadFromResponse_def response_ok_def split: if_splits option.splits)
qed

lemma wire_review_typed:
  assumes "fst (client_Review (sv_review (wire_server ans reviews) threadID prompt) threadID) = Ok r"
  shows "ValidString (rv_TurnID r) \<and> ValidString (rv_Text r) \<and> pred_option app_usage_ok (rv_Usage r) \<and>
    rv_Warnings r = fst (takeWarnings (raw_warnings (reviews threadID prompt)))"
proof -
  let ?got = "ans methodReviewStart (snd (call_params (ReviewStart threadID prompt)))"
  let ?io = "decode_review ?got (reviews threadID prompt)"
  have "sv_review (wire_server ans reviews) threadID prompt = ?io" by (simp add: wire_server_def)
  then obtain i where "client_Review ?io threadID = (Ok r, i)" using assms by (cases "client_Review ?io threadID") simp
  then obtain resp where start: "ri_start ?io = Ok resp" "rv_TurnID r = rs_TurnID resp"
    and final: "result_text (review_final ?io (rs_TurnID resp) threadID) = Ok (rv_Text r)"
      "rv_Usage r = tw_usage (review_final ?io (rs_TurnID resp) threadID)"
    and warnings: "rv_Warnings r = fst (takeWarnings (ri_warnings ?io))"
    by (rule client_Review_Ok)
  have zero: "turn_ok (snd ([], zero_turn))" by (simp add: turn_ok_def zero_turn_def)
  obtain p where p: "decode_result (raw_struct reviewStartResponse_wire) ([], zero_turn) ?got = Ok p"
      "rs_TurnID resp = tn_ID (snd p)"
    using start(1) by (auto simp: decode_review_def split: sum.splits prod.splits)
  have "turn_ok (snd p)"
  proof (cases "p = ([], zero_turn)")
    case False
    then obtain u where "raw_struct reviewStartResponse_wire ([], zero_turn) u = Some p"
      using decode_result_Ok [OF p(1)] by blast
    then show ?thesis using raw_keepsD [OF turn_pair_keeps(2) zero] by blast
  qed (use zero in simp)
  then have "ValidString (rv_TurnID r)" using start(2) p(2) by (simp add: turn_ok_def)
  moreover have "ValidString (rv_Text r)" "pred_option app_usage_ok (rv_Usage r)"
    using final_ok [of ?got "reviews threadID prompt" "rs_TurnID resp" threadID] final
    by (auto simp: watcher_ok_def result_text_def split: if_splits)
  ultimately show ?thesis using warnings by (simp add: decode_review_def)
qed



text \<open>
  With this client, what a saved round needs of its answers is only that the warnings are
  UTF-8. One that quotes an identifier truncated inside a rune is not: it is saved with the
  replacement character, and a replay returns that.
\<close>

lemma wire_client_decoded:
  assumes "en_unmarshal en = Unmarshal_envelope"
    and "\<And>tr i p. list_all ValidString (fst (takeWarnings (raw_warnings (reviews tr i p))))"
  shows "decoded_answers (with_client (\<lambda>tr. wire_server (ans tr) (reviews tr)) en)"
  unfolding decoded_answers_def with_client_def
  using wire_thread_typed wire_review_typed assms by (auto simp: review_decoded_def) (metis assms(2))+

lemma truncation_splits_rune:
  "\<exists>i. ValidString i \<and> \<not> ValidString (truncateIdentifier i)"
proof -
  let ?i = "replicate 63 (CHR ''a'') @ [CHR 0xC3, CHR 0xA9]"
  have "ValidString ?i \<and> \<not> ValidString (truncateIdentifier ?i)" by code_simp
  then show ?thesis by blast
qed

end
