(* ===== verification/Spec2Isabelle.thy ===== *)
theory Spec2Isabelle
  imports StoreSpec EvictionSpec GitSpec PromptSpec ScratchSpec ReplaySpec ConnSpec Mcp Handshake WireTypes
begin

text \<open>
  Counterpoint is an MCP stdio server with one tool: it has a local commit reviewed by a
  persistent Codex thread, one thread for each repository and branch. The server
  (internal/mcpserver) hands each request to the review service (internal/review), which
  validates the target with git (internal/gitrepo), looks the workflow up in the state file
  (internal/state), opens a session with the app-server child (internal/appserver), for a
  build-capable review in a disposable checkout (internal/scratch), runs one review turn on
  the workflow's thread and records the result, evicting old history when the file would
  grow past its limit. A request that is already recorded is answered from the record.

  This library models the program from its source and proves what makes each part correct.
  A definition has the name of the Go function, type or constant it models; where that would
  clash it has the package's or the receiver's name in front. Errors are values (Errors: the
  sentinels, wrapping, errors.Is and errors.As), strings are lists of bytes, Go's int is int
  with go_int where it can wrap around, maps are association lists or functions, a panic or
  a loop that does not return is None.

  What the program does not contain is an argument of the definitions: the operating system,
  git, the app-server child, the clock and contexts. They come as records of answers (LockIO,
  ReadIO, WriteIO, ConfigIO, kernel, host, gitio, env, osexec, wire, RawReview), and an answer of a component with many calls is a function of the calls made so far, so that
  another process may change anything between two calls. The theorems hold for every such
  environment unless they name what they need of it: clock_advances (the polling clock moves
  on by the polling interval), host_sane and shallow (a directory tree has some depth), and
  lock_honest (an error of flock names contention only when there is some).

  The theories, and what they model and show:

  \<^item> Prelude, Errors, Traces: what all share. Traces has the two ways a run of calls is
    specified: every call justified by the calls before it, and a monitor of what is held.
  \<^item> Text, Sha256: the parts of strings and crypto/sha256 whose results the program's own
    properties depend on.
  \<^item> Json, JsonParse, JsonDecode, JsonCompact, JsonRaw: encoding/json and unicode/utf8. The
    indented and the compact encoding, the parser byte by byte, decoding a value into Go
    types by field tables (type decoders), and raw messages: cutting a member's text out of
    its object and compacting it. They show that parsing undoes both encodings, that the
    parser's fuel (twice the length of the text and one more) is enough, since more never
    changes the result, and that a raw message compacted is one line of the same value.
  \<^item> History, Request, Paths, PathSpec, Store, StateSize, StoreSpec, StateDecode, DecodeSpec
    (internal/state: history.go, request.go, state.go; path/filepath): the ledger of review
    rounds, its retention and validation; request identity; the state file, its size, and
    the file system it is saved through, step by step; the types of the file as field tables.
    The invariants of the ledger, the retention's optimality, the atomicity of a save, the
    safety of a rejected file, and that Load returns what Save wrote.
  \<^item> GoHeap, Plan, Eviction, EvictionSpec (container/heap; internal/review/review.go,
    from saveEvictingHistory on): the eviction plan as a priority queue under the locale
    eviction_plan; the loop is proved to evict exactly what the plain greedy specification
    evicts, no more than needed, and to leave every replay record.
  \<^item> Lock (internal/state/lock.go): the polling lock, a partial_function whose return is
    proved from the clock.
  \<^item> Git, Gitrepo, GitSpec (internal/gitrepo): git's environment, output bound and error
    classification; repository, branch, target, instructions and the isolated clone.
  \<^item> Prompt, PromptSpec (internal/review/prompt.go): the review prompt byte for byte, and
    that what is untrusted in it is quoted between delimiters it cannot contain.
  \<^item> Sweep, SweepSpec, Scratch, ScratchSpec (internal/scratch): checkouts and the cache sweep
    as traces of system calls, with what each call may touch, the locks and descriptors they
    hold, and that they return. The removal of a tree is a partial_function; the inductive
    relation walk describes what it does, and a bound on the depth gives that it returns.
  \<^item> Wire, Watcher, WatcherSpec, ClientSpec (internal/appserver: wire.go, client.go): thread
    policy, token usage, bounded warnings (the locale bounded_log), the turn watcher as a
    state machine over notifications, Review, and the locale reviewer_session that the
    service relies on, interpreted on the client. Messages are decoded values here.
  \<^item> Conn, ConnInv, ConnSpec (internal/appserver/conn.go): the connection as a system of
    goroutines over one record of shared state. A step is one section under the mutex or
    one operation on a channel, a flag or the process, so every interleaving is a run.
    Invariants by induction over the reachable states; the progress theorem bounds what is
    left to do by the measures total and left. JSON is the parameter world.
  \<^item> Protocol, ProtocolSpec (wire.go and the ends of conn.go): every message of the protocol
    as bytes, in both directions, as the instance wire_world of that parameter. Every line
    written is one message that decodes to what was sent.
  \<^item> Stated, Session, WireTypes: the client over that wire (wire_server, the app-server as
    texts). Stated leads decoded values back to the members of the text they come from, under
    a path of names (values_at), for the policy of a thread and the counters of a usage
    report. WireTypes shows that everything the client passes on is UTF-8 and 64-bit
    integers, the typing that a saved round needs (decoded_answers).
  \<^item> Handshake (client.go, conn.go, review.go): spawn, Start, DefaultReviewer and New, the
    message of a failed turn, and strconv.Quote; a session starts whole or not at all.
  \<^item> Service, ServiceCalls, ServiceOrder, ServiceSpec (internal/review/review.go): one review
    round, from the request to the result, over an environment of answers and a trace of its
    calls; its lock order, what it may do when, and what it leaves in the state file.
    Utf8State and ReplaySpec: a saved round is read back as it is, so a lost response is
    answered again from the record.
  \<^item> Framing, Mcp (internal/mcpserver/server.go): the bounded line reader before the SDK,
    the heartbeat and the silence watch of a call, the tool's arguments and results.
  \<^item> Config, UsageReport, CommandLine (internal/config, cmd/counterpoint): the configuration
    file, the usage report against its statement without running state, run and its exit code.
  \<^item> Samples: the values on which the theorems with hypotheses are applied.

  Loops and recursion that Go leaves unbounded are functions with a termination proof
  where the data bounds them (retention, eviction, the JSON encoders, the heap, UTF-8 scans)
  and partial_functions where only the environment does (the lock's polling, the removal of
  a tree); for the latter, that they return is a theorem with its bound. The JSON parser has
  fuel, always the one above.

  Not modelled: logging, and the request id that only names log lines; the registration of
  the tool with the MCP SDK and the SDK's own loop (New and Serve of internal/mcpserver,
  which are calls of it); the wait of interrupt after turn/interrupt was sent, which has no
  result; the bookkeeping of signals in main; the fake app-server of the tests
  (internal/appserver/apptest), which is no part of the program. The scanner's buffering and
  the child process are parameters. The text of a wrapped error is not modelled beyond the
  operation it names. In json.Unmarshal, elements that an earlier member of the same name
  left in the backing array of a slice beyond its length read as zero.
\<close>

end
